(* ===== verification/Tegata_Prelude.thy ===== *)
theory Tegata_Prelude
  imports Main "HOL-Library.Word"
begin

unbundle bit_operations_syntax

section \<open>Shared vocabulary of the development\<close>

text \<open>
  The part of Rust's standard library that the sources use, as HOL functions, and the generic
  lemmas the component theories share.

  \<^item> A Rust \<open>str\<close> is its UTF-8 bytes, an Isabelle \<open>string\<close> (each \<open>char\<close> is one byte).
  \<^item> A byte that is computed with is an \<open>8 word\<close>; \<open>as_bytes\<close> converts.
  \<^item> An \<open>Instant\<close> and a \<open>Duration\<close> are nanosecond counts. Subtraction of instants saturates at
    zero, as \<open>Instant::duration_since\<close> does, which is \<open>nat\<close> subtraction. Adding a duration to
    an instant is unbounded here.
  \<^item> A \<open>HashMap\<close> is an association list without repeated keys. The order of the list stands for
    the iteration order of the table, on which no theorem depends.
\<close>

type_synonym byte = "8 word"
type_synonym u16 = "16 word"
type_synonym u32 = "32 word"
type_synonym u64 = "64 word"
type_synonym u128 = "128 word"
type_synonym instant = nat
type_synonym duration = nat

named_theorems str_simps "evaluation of the string helpers"
named_theorems table_simps "lookups in hash tables after updates"

subsection \<open>Time\<close>

definition from_secs :: "nat \<Rightarrow> duration" where
  "from_secs s = s * 1000000000"

definition as_secs :: "duration \<Rightarrow> nat" where
  "as_secs d = d div 1000000000"

lemma as_secs_from_secs [simp]: "as_secs (from_secs s) = s"
  by (simp add: as_secs_def from_secs_def)

lemma as_secs_less_iff: "as_secs d < s \<longleftrightarrow> d < from_secs s"
  by (simp add: as_secs_def from_secs_def div_less_iff_less_mult)

lemma from_secs_mono: "a \<le> b \<Longrightarrow> from_secs a \<le> from_secs b"
  by (simp add: from_secs_def)

lemma from_secs_pos: "0 < s \<Longrightarrow> 0 < from_secs s"
  by (simp add: from_secs_def)

lemma from_secs_eq_0_iff [simp]: "from_secs s = 0 \<longleftrightarrow> s = 0"
  by (simp add: from_secs_def)

subsection \<open>Bytes and ASCII characters\<close>

definition as_bytes :: "string \<Rightarrow> byte list" where
  "as_bytes s = map of_char s"

definition is_ascii_digit :: "char \<Rightarrow> bool" where
  "is_ascii_digit c \<longleftrightarrow> 48 \<le> (of_char c :: nat) \<and> (of_char c :: nat) \<le> 57"

definition is_ascii_upper :: "char \<Rightarrow> bool" where
  "is_ascii_upper c \<longleftrightarrow> 65 \<le> (of_char c :: nat) \<and> (of_char c :: nat) \<le> 90"

definition is_ascii_lower :: "char \<Rightarrow> bool" where
  "is_ascii_lower c \<longleftrightarrow> 97 \<le> (of_char c :: nat) \<and> (of_char c :: nat) \<le> 122"

definition is_ascii_alphanumeric :: "char \<Rightarrow> bool" where
  "is_ascii_alphanumeric c \<longleftrightarrow> is_ascii_digit c \<or> is_ascii_upper c \<or> is_ascii_lower c"

definition is_ascii_control :: "char \<Rightarrow> bool" where
  "is_ascii_control c \<longleftrightarrow> (of_char c :: nat) < 32 \<or> (of_char c :: nat) = 127"

definition is_ascii_whitespace :: "char \<Rightarrow> bool" where
  "is_ascii_whitespace c \<longleftrightarrow> (of_char c :: nat) \<in> {9, 10, 12, 13, 32}"

definition ascii_lower :: "char \<Rightarrow> char" where
  "ascii_lower c = (if is_ascii_upper c then char_of ((of_char c :: nat) + 32) else c)"

definition ascii_upper :: "char \<Rightarrow> char" where
  "ascii_upper c = (if is_ascii_lower c then char_of ((of_char c :: nat) - 32) else c)"

definition to_ascii_lowercase :: "string \<Rightarrow> string" where
  "to_ascii_lowercase s = map ascii_lower s"

definition to_ascii_uppercase :: "string \<Rightarrow> string" where
  "to_ascii_uppercase s = map ascii_upper s"

definition eq_ignore_ascii_case :: "string \<Rightarrow> string \<Rightarrow> bool" where
  "eq_ignore_ascii_case s t \<longleftrightarrow> to_ascii_lowercase s = to_ascii_lowercase t"

lemmas ascii_defs = is_ascii_digit_def is_ascii_upper_def is_ascii_lower_def
  is_ascii_alphanumeric_def is_ascii_control_def is_ascii_whitespace_def

lemma length_as_bytes [simp]: "length (as_bytes s) = length s"
  by (simp add: as_bytes_def)

lemma as_bytes_Nil [simp]: "as_bytes [] = []"
  by (simp add: as_bytes_def)

lemma as_bytes_eq_Nil_iff [simp]: "as_bytes s = [] \<longleftrightarrow> s = []"
  by (simp add: as_bytes_def)

lemma as_bytes_append [simp]: "as_bytes (s @ t) = as_bytes s @ as_bytes t"
  by (simp add: as_bytes_def)

lemma of_char_byte_eq: "(of_char c :: byte) = of_nat (of_char c :: nat)"
  by (simp only: of_nat_of_char)

lemma unat_of_char_word [simp]: "unat (of_char c :: byte) = (of_char c :: nat)"
proof -
  have "(of_char c :: nat) < 2 ^ LENGTH(8)" by simp
  then show ?thesis unfolding of_char_byte_eq
    by (simp add: unsigned_of_nat take_bit_nat_eq_self)
qed

lemma inj_of_char_byte: "inj (of_char :: char \<Rightarrow> byte)"
proof (rule injI)
  fix c d :: char
  assume "(of_char c :: byte) = of_char d"
  then have "unat (of_char c :: byte) = unat (of_char d :: byte)" by simp
  then show "c = d" by (simp only: unat_of_char_word of_char_eq_iff)
qed

lemma as_bytes_inject [simp]: "as_bytes s = as_bytes t \<longleftrightarrow> s = t"
  unfolding as_bytes_def by (simp add: inj_map_eq_map inj_of_char_byte)

lemma ascii_lower_idem [simp]: "ascii_lower (ascii_lower c) = ascii_lower c"
  by (auto simp: ascii_lower_def is_ascii_upper_def)

lemma to_ascii_lowercase_idem [simp]:
  "to_ascii_lowercase (to_ascii_lowercase s) = to_ascii_lowercase s"
  by (simp add: to_ascii_lowercase_def)

lemma length_to_ascii_lowercase [simp]: "length (to_ascii_lowercase s) = length s"
  by (simp add: to_ascii_lowercase_def)

lemma eq_ignore_ascii_case_refl [simp]: "eq_ignore_ascii_case s s"
  by (simp add: eq_ignore_ascii_case_def)

lemma eq_ignore_ascii_case_length: "eq_ignore_ascii_case s t \<Longrightarrow> length s = length t"
  by (metis eq_ignore_ascii_case_def length_to_ascii_lowercase)

lemma unat_byte_less: "unat (b :: byte) < 256"
proof -
  have "unat b < 2 ^ LENGTH(8)" by (rule unsigned_less)
  then show ?thesis by simp
qed

lemma mask_4: "(15 :: byte) = mask 4" "(15 :: nat) = mask 4"
  by (simp_all add: mask_eq_exp_minus_1)

lemma unat_high_nibble: "unat (drop_bit 4 (b :: byte)) = unat b div 16"
  by (simp add: drop_bit_eq_div unat_div)

lemma unat_low_nibble: "unat (b AND 15 :: byte) = unat b mod 16"
  by (simp only: mask_4 flip: take_bit_eq_mask) (simp add: take_bit_eq_mod unat_mod)

lemma nibble_less: "unat (b :: byte) div 16 < 16"
  using unat_byte_less[of b] by (simp add: less_mult_imp_div_less)

subsection \<open>Decimal numbers\<close>

text \<open>\<open>format!("{n}")\<close> of an unsigned number, and the value of a digit string.\<close>

fun decimal :: "nat \<Rightarrow> string" where
  "decimal n = (if n < 10 then [char_of (48 + n)] else decimal (n div 10) @ [char_of (48 + n mod 10)])"

declare decimal.simps [simp del]

definition dec_val :: "string \<Rightarrow> nat" where
  "dec_val s = foldl (\<lambda>a c. a * 10 + (of_char c - 48)) 0 s"

lemma dec_val_snoc: "dec_val (s @ [c]) = dec_val s * 10 + (of_char c - 48)"
  by (simp add: dec_val_def)

lemma of_char_digit: "d < 10 \<Longrightarrow> (of_char (char_of (48 + d :: nat)) :: nat) = 48 + d"
  by (simp add: of_char_of)

lemma dec_val_decimal [simp]: "dec_val (decimal n) = n"
proof (induction n rule: decimal.induct)
  case (1 n)
  show ?case
  proof (cases "n < 10")
    case True
    then have "decimal n = [char_of (48 + n)]" by (simp add: decimal.simps[of n])
    then show ?thesis using True of_char_digit[of n] by (simp add: dec_val_def)
  next
    case False
    then have "decimal n = decimal (n div 10) @ [char_of (48 + n mod 10)]"
      by (simp add: decimal.simps[of n])
    then show ?thesis using 1 False of_char_digit[of "n mod 10"] by (simp add: dec_val_snoc)
  qed
qed

lemma decimal_digits: "c \<in> set (decimal n) \<Longrightarrow> is_ascii_digit c"
proof (induction n rule: decimal.induct)
  case (1 n)
  have digit: "d < 10 \<Longrightarrow> is_ascii_digit (char_of (48 + d))" for d :: nat
    using of_char_digit[of d] by (simp add: is_ascii_digit_def)
  show ?case
    using 1 digit[of n] digit[of "n mod 10"] by (cases "n < 10") (auto simp: decimal.simps[of n])
qed

lemma decimal_inject [simp]: "decimal m = decimal n \<longleftrightarrow> m = n"
  by (metis dec_val_decimal)

text \<open>\<open>format!("{:06}", n)\<close>.\<close>

definition pad6 :: "nat \<Rightarrow> string" where
  "pad6 n = (let d = decimal n in replicate (6 - length d) (CHR ''0'') @ d)"

lemma dec_val_zeros: "dec_val (replicate k (CHR ''0'') @ s) = dec_val s"
proof -
  have "foldl (\<lambda>a c. a * 10 + (of_char c - 48)) 0 (replicate k (CHR ''0'')) = (0::nat)"
    by (induction k) auto
  then show ?thesis by (simp add: dec_val_def)
qed

lemma dec_val_pad6 [simp]: "dec_val (pad6 n) = n"
  by (simp add: pad6_def Let_def dec_val_zeros)

lemma length_decimal: "n < 10 ^ Suc k \<Longrightarrow> length (decimal n) \<le> Suc k"
proof (induction k arbitrary: n)
  case 0
  then show ?case by (simp add: decimal.simps)
next
  case (Suc k)
  then have "length (decimal (n div 10)) \<le> Suc k" by simp
  then show ?case by (subst decimal.simps) simp
qed

lemma length_pad6: "n < 1000000 \<Longrightarrow> length (pad6 n) = 6"
  using length_decimal[of n 5] by (simp add: pad6_def Let_def)

lemma pad6_digits: "c \<in> set (pad6 n) \<Longrightarrow> is_ascii_digit c"
  by (auto simp: pad6_def Let_def dest: decimal_digits) (auto simp: is_ascii_digit_def)

definition trim_start_matches :: "('a \<Rightarrow> bool) \<Rightarrow> 'a list \<Rightarrow> 'a list" where
  "trim_start_matches P s = dropWhile P s"

definition trim_end_matches :: "('a \<Rightarrow> bool) \<Rightarrow> 'a list \<Rightarrow> 'a list" where
  "trim_end_matches P s = rev (dropWhile P (rev s))"

subsection \<open>Unicode characters\<close>

text \<open>
  \<open>str::chars\<close>: a string is valid UTF-8, so the first byte of a character says how many bytes it
  has. \<open>is_whitespace_cp\<close> and \<open>is_control_cp\<close> are Unicode's \<open>White_Space\<close> and \<open>Cc\<close>.
\<close>

definition utf8_len :: "char \<Rightarrow> nat" where
  "utf8_len c =
     (let b = (of_char c :: nat) in if b < 0xC0 then 1 else if b < 0xE0 then 2 else if b < 0xF0 then 3 else 4)"

lemma utf8_len_pos [simp]: "0 < utf8_len c"
  by (simp add: utf8_len_def Let_def)

fun utf8_chunks :: "string \<Rightarrow> string list" where
  "utf8_chunks [] = []"
| "utf8_chunks (c # s) = (c # take (utf8_len c - 1) s) # utf8_chunks (drop (utf8_len c - 1) s)"

definition code_point :: "string \<Rightarrow> nat" where
  "code_point ch =
     (case ch of
        [] \<Rightarrow> 0
      | c # rest \<Rightarrow>
          (let b = (of_char c :: nat);
               lead = (if b < 0xC0 then b else if b < 0xE0 then b mod 32 else if b < 0xF0 then b mod 16 else b mod 8)
           in foldl (\<lambda>v d. v * 64 + (of_char d :: nat) mod 64) lead rest))"

definition is_whitespace_cp :: "nat \<Rightarrow> bool" where
  "is_whitespace_cp n \<longleftrightarrow> (9 \<le> n \<and> n \<le> 13) \<or> n = 32 \<or> n = 0x85 \<or> n = 0xA0 \<or> n = 0x1680
     \<or> (0x2000 \<le> n \<and> n \<le> 0x200A) \<or> n = 0x2028 \<or> n = 0x2029 \<or> n = 0x202F \<or> n = 0x205F \<or> n = 0x3000"

definition is_control_cp :: "nat \<Rightarrow> bool" where
  "is_control_cp n \<longleftrightarrow> n < 32 \<or> (0x7F \<le> n \<and> n \<le> 0x9F)"

definition is_whitespace_char :: "string \<Rightarrow> bool" where
  "is_whitespace_char ch = is_whitespace_cp (code_point ch)"

definition is_control_char :: "string \<Rightarrow> bool" where
  "is_control_char ch = is_control_cp (code_point ch)"

definition trim_str :: "string \<Rightarrow> string" where
  "trim_str s = concat (trim_end_matches is_whitespace_char (dropWhile is_whitespace_char (utf8_chunks s)))"

definition remove_whitespace :: "string \<Rightarrow> string" where
  "remove_whitespace s = concat (filter (\<lambda>ch. \<not> is_whitespace_char ch) (utf8_chunks s))"

lemma concat_utf8_chunks [simp]: "concat (utf8_chunks s) = s"
  by (induction s rule: utf8_chunks.induct) auto

definition is_ascii :: "string \<Rightarrow> bool" where
  "is_ascii s = list_all (\<lambda>c. (of_char c :: nat) < 128) s"

lemma utf8_chunks_ascii: "is_ascii s \<Longrightarrow> utf8_chunks s = map (\<lambda>c. [c]) s"
  by (induction s) (auto simp: is_ascii_def utf8_len_def)

lemma code_point_ascii [simp]: "(of_char c :: nat) < 128 \<Longrightarrow> code_point [c] = of_char c"
  by (simp add: code_point_def Let_def)

subsection \<open>Slices of strings\<close>

definition starts_with :: "'a list \<Rightarrow> 'a list \<Rightarrow> bool" where
  "starts_with s p \<longleftrightarrow> take (length p) s = p"

definition ends_with :: "'a list \<Rightarrow> 'a list \<Rightarrow> bool" where
  "ends_with s p \<longleftrightarrow> starts_with (rev s) (rev p)"

definition strip_prefix :: "'a list \<Rightarrow> 'a list \<Rightarrow> 'a list option" where
  "strip_prefix s p = (if starts_with s p then Some (drop (length p) s) else None)"

definition strip_suffix :: "'a list \<Rightarrow> 'a list \<Rightarrow> 'a list option" where
  "strip_suffix s p = (if ends_with s p then Some (take (length s - length p) s) else None)"

fun find_sub :: "'a list \<Rightarrow> 'a list \<Rightarrow> nat option" where
  "find_sub [] p = (if p = [] then Some 0 else None)"
| "find_sub (c # s) p =
     (if starts_with (c # s) p then Some 0 else map_option Suc (find_sub s p))"

definition contains_sub :: "'a list \<Rightarrow> 'a list \<Rightarrow> bool" where
  "contains_sub s p \<longleftrightarrow> find_sub s p \<noteq> None"

definition split_once :: "'a list \<Rightarrow> 'a list \<Rightarrow> ('a list \<times> 'a list) option" where
  "split_once s p = map_option (\<lambda>i. (take i s, drop (i + length p) s)) (find_sub s p)"

definition rsplit_once_char :: "'a list \<Rightarrow> 'a \<Rightarrow> ('a list \<times> 'a list) option" where
  "rsplit_once_char s c =
     (if c \<in> set s
      then Some (rev (tl (dropWhile (\<lambda>x. x \<noteq> c) (rev s))), rev (takeWhile (\<lambda>x. x \<noteq> c) (rev s)))
      else None)"

fun split_char :: "'a list \<Rightarrow> 'a \<Rightarrow> 'a list list" where
  "split_char [] c = [[]]"
| "split_char (x # s) c =
     (if x = c then [] # split_char s c
      else (case split_char s c of [] \<Rightarrow> [[x]] | w # ws \<Rightarrow> (x # w) # ws))"

lemma starts_with_iff: "starts_with s p \<longleftrightarrow> (\<exists>t. s = p @ t)"
  unfolding starts_with_def by (metis append_eq_conv_conj append_take_drop_id)

lemma starts_with_append [simp]: "starts_with (p @ t) p"
  by (simp add: starts_with_def)

lemma starts_with_Nil [simp]: "starts_with s []"
  by (simp add: starts_with_def)

lemma ends_with_iff: "ends_with s p \<longleftrightarrow> (\<exists>t. s = t @ p)"
  unfolding ends_with_def starts_with_iff by (metis rev_append rev_rev_ident)

lemma strip_prefix_Some_iff [simp]: "strip_prefix s p = Some t \<longleftrightarrow> s = p @ t"
  unfolding strip_prefix_def by (auto simp: starts_with_iff)

lemma strip_prefix_append: "strip_prefix (p @ t) p = Some t"
  by simp

lemma strip_suffix_Some_iff [simp]: "strip_suffix s p = Some t \<longleftrightarrow> s = t @ p"
  unfolding strip_suffix_def by (auto simp: ends_with_iff)

lemma find_sub_Some:
  "find_sub s p = Some i \<Longrightarrow>
     s = take i s @ p @ drop (i + length p) s \<and> (\<forall>j<i. \<not> starts_with (drop j s) p)"
proof (induction s arbitrary: i)
  case (Cons c s)
  show ?case
  proof (cases "starts_with (c # s) p")
    case True
    then show ?thesis using Cons.prems
      by (auto simp: starts_with_def) (metis append_take_drop_id)
  next
    case False
    then obtain k where k: "find_sub s p = Some k" "i = Suc k" using Cons.prems by auto
    have "\<not> starts_with (drop j (c # s)) p" if "j < i" for j
      using that k Cons.IH[OF k(1)] False by (cases j) auto
    then show ?thesis using k Cons.IH[OF k(1)] by auto
  qed
qed (auto split: if_splits)

lemma find_sub_None: "find_sub s p = None \<Longrightarrow> \<not> starts_with (drop j s) p"
proof (induction s arbitrary: j)
  case Nil
  then show ?case by (auto simp: starts_with_def split: if_splits)
next
  case (Cons c s)
  then show ?case by (cases j) (auto split: if_splits)
qed

lemma contains_sub_iff: "contains_sub s p \<longleftrightarrow> (\<exists>u v. s = u @ p @ v)"
proof
  assume "contains_sub s p"
  then show "\<exists>u v. s = u @ p @ v"
    using find_sub_Some unfolding contains_sub_def by blast
next
  assume "\<exists>u v. s = u @ p @ v"
  then obtain u v where s: "s = u @ p @ v" by blast
  then have "starts_with (drop (length u) s) p" by simp
  then show "contains_sub s p"
    using find_sub_None unfolding contains_sub_def by blast
qed

lemma contains_sub_appendI: "contains_sub (u @ p @ v) p"
  by (auto simp: contains_sub_iff)

lemma split_once_Some: "split_once s p = Some (a, b) \<Longrightarrow> s = a @ p @ b"
  unfolding split_once_def using find_sub_Some by fastforce

lemma split_once_None_iff: "split_once s p = None \<longleftrightarrow> \<not> contains_sub s p"
  by (simp add: split_once_def contains_sub_def)

lemma find_sub_single:
  "c \<notin> set a \<Longrightarrow> find_sub (a @ c # b) [c] = Some (length a)"
  by (induction a) (auto simp: starts_with_def)

lemma split_once_char: "c \<notin> set a \<Longrightarrow> split_once (a @ c # b) [c] = Some (a, b)"
  by (simp add: split_once_def find_sub_single)

lemma split_char_not_Nil [simp]: "split_char s c \<noteq> []"
  by (induction s) (auto split: list.splits)

lemma split_char_no_sep: "w \<in> set (split_char s c) \<Longrightarrow> c \<notin> set w"
proof (induction s arbitrary: w)
  case (Cons x s)
  then show ?case by (cases "split_char s c") (auto split: if_splits)
qed simp

lemma split_char_id: "c \<notin> set s \<Longrightarrow> split_char s c = [s]"
  by (induction s) auto

lemma trim_end_matches_decomp:
  "\<exists>t. s = trim_end_matches P s @ t \<and> (\<forall>c\<in>set t. P c)"
proof -
  have "rev s = takeWhile P (rev s) @ dropWhile P (rev s)" by simp
  then have "s = rev (dropWhile P (rev s)) @ rev (takeWhile P (rev s))"
    by (metis rev_append rev_rev_ident)
  moreover have "\<forall>c\<in>set (rev (takeWhile P (rev s))). P c"
    by (auto dest: set_takeWhileD)
  ultimately show ?thesis unfolding trim_end_matches_def by blast
qed

lemma length_filter_mono: "(\<And>x. x \<in> set xs \<Longrightarrow> P x \<Longrightarrow> Q x) \<Longrightarrow> length (filter P xs) \<le> length (filter Q xs)"
  by (induction xs) (auto intro: le_SucI)

lemma find_SomeD: "List.find P xs = Some x \<Longrightarrow> x \<in> set xs \<and> P x"
  by (induction xs) (auto split: if_splits)

lemma find_append:
  "List.find P (xs @ ys) = (case List.find P xs of None \<Rightarrow> List.find P ys | Some x \<Rightarrow> Some x)"
  by (induction xs) auto

lemma find_cong_set: "(\<And>x. x \<in> set xs \<Longrightarrow> P x = Q x) \<Longrightarrow> List.find P xs = List.find Q xs"
  by (induction xs) auto

subsection \<open>Hash tables\<close>

text \<open>
  The contract of a hash table: \<open>lookup\<close> is what the sources' \<open>get\<close> returns, \<open>insert\<close> overwrites,
  \<open>remove\<close> forgets, \<open>retain\<close> keeps the entries a predicate accepts, and \<open>keys\<close> enumerates each
  present key once. The lemmas of the locale are what the components use.
\<close>

locale hash_table =
  fixes valid :: "'m \<Rightarrow> bool"
    and lookup :: "'m \<Rightarrow> 'k \<Rightarrow> 'v option"
    and empty :: "'m"
    and insert :: "'k \<Rightarrow> 'v \<Rightarrow> 'm \<Rightarrow> 'm"
    and remove :: "'k \<Rightarrow> 'm \<Rightarrow> 'm"
    and retain :: "('k \<Rightarrow> 'v \<Rightarrow> bool) \<Rightarrow> 'm \<Rightarrow> 'm"
    and keys :: "'m \<Rightarrow> 'k list"
  assumes valid_empty: "valid empty"
    and valid_insert: "valid m \<Longrightarrow> valid (insert k v m)"
    and valid_remove: "valid m \<Longrightarrow> valid (remove k m)"
    and valid_retain: "valid m \<Longrightarrow> valid (retain P m)"
    and lookup_empty: "lookup empty k = None"
    and lookup_insert: "lookup (insert k v m) k' = (if k' = k then Some v else lookup m k')"
    and lookup_remove: "lookup (remove k m) k' = (if k' = k then None else lookup m k')"
    and lookup_retain:
      "valid m \<Longrightarrow> lookup (retain P m) k =
        (case lookup m k of None \<Rightarrow> None | Some v \<Rightarrow> if P k v then Some v else None)"
    and set_keys: "valid m \<Longrightarrow> set (keys m) = {k. lookup m k \<noteq> None}"
    and distinct_keys: "valid m \<Longrightarrow> distinct (keys m)"
begin

lemma lookup_fold_remove:
  "lookup (fold remove ks m) k = (if k \<in> set ks then None else lookup m k)"
  by (induction ks arbitrary: m) (auto simp: lookup_remove)

lemma valid_fold_remove: "valid m \<Longrightarrow> valid (fold remove ks m)"
  by (induction ks arbitrary: m) (auto simp: valid_remove)

lemma card_keys: "valid m \<Longrightarrow> length (keys m) = card {k. lookup m k \<noteq> None}"
  by (metis distinct_card distinct_keys set_keys)

lemma finite_lookup: "valid m \<Longrightarrow> finite {k. lookup m k \<noteq> None}"
  by (metis List.finite_set set_keys)

lemma length_keys_insert:
  assumes "valid m" "lookup m k = None"
  shows "length (keys (insert k v m)) = Suc (length (keys m))"
proof -
  have "{k'. lookup (insert k v m) k' \<noteq> None} = Set.insert k {k'. lookup m k' \<noteq> None}"
    by (auto simp: lookup_insert)
  then show ?thesis
    using assms finite_lookup[OF assms(1)] by (simp only: card_keys valid_insert) simp
qed

lemma fresh_key_exists:
  assumes "valid m" "finite A" "length (keys m) < card A"
  shows "\<exists>k\<in>A. lookup m k = None"
proof (rule ccontr)
  assume "\<not> ?thesis"
  then have "A \<subseteq> {k. lookup m k \<noteq> None}" by auto
  then have "card A \<le> length (keys m)"
    using assms card_keys finite_lookup by (metis card_mono)
  then show False using assms by simp
qed

end

type_synonym ('k, 'v) table = "('k \<times> 'v) list"

definition hvalid :: "('k, 'v) table \<Rightarrow> bool" where
  "hvalid m \<longleftrightarrow> distinct (map fst m)"

definition hget :: "('k, 'v) table \<Rightarrow> 'k \<Rightarrow> 'v option" where
  "hget m k = map_of m k"

definition hinsert :: "'k \<Rightarrow> 'v \<Rightarrow> ('k, 'v) table \<Rightarrow> ('k, 'v) table" where
  "hinsert k v m = (k, v) # filter (\<lambda>e. fst e \<noteq> k) m"

definition hremove :: "'k \<Rightarrow> ('k, 'v) table \<Rightarrow> ('k, 'v) table" where
  "hremove k m = filter (\<lambda>e. fst e \<noteq> k) m"

definition hretain :: "('k \<Rightarrow> 'v \<Rightarrow> bool) \<Rightarrow> ('k, 'v) table \<Rightarrow> ('k, 'v) table" where
  "hretain P m = filter (\<lambda>e. P (fst e) (snd e)) m"

definition hkeys :: "('k, 'v) table \<Rightarrow> 'k list" where
  "hkeys m = map fst m"

definition hvalues :: "('k, 'v) table \<Rightarrow> 'v list" where
  "hvalues m = map snd m"

definition hcontains :: "('k, 'v) table \<Rightarrow> 'k \<Rightarrow> bool" where
  "hcontains m k \<longleftrightarrow> hget m k \<noteq> None"

lemma map_of_filter_key:
  "map_of (filter (\<lambda>e. fst e \<noteq> k) m) k' = (if k' = k then None else map_of m k')"
  by (induction m) auto

lemma map_of_filter_valid:
  "distinct (map fst m) \<Longrightarrow> map_of (filter (\<lambda>e. P (fst e) (snd e)) m) k =
     (case map_of m k of None \<Rightarrow> None | Some v \<Rightarrow> if P k v then Some v else None)"
proof (induction m)
  case (Cons e m)
  moreover have "map_of m (fst e) = None"
    using Cons.prems by (simp add: map_of_eq_None_iff)
  ultimately show ?case by (cases e) (auto split: option.splits if_splits)
qed simp

lemma distinct_map_fst_filter: "distinct (map fst m) \<Longrightarrow> distinct (map fst (filter P m))"
  by (induction m) auto

interpretation ht: hash_table hvalid hget "[]" hinsert hremove hretain hkeys
proof
  show "hvalid m \<Longrightarrow> hvalid (hinsert k v m)" for k :: 'a and v :: 'b and m
    by (auto simp: hvalid_def hinsert_def distinct_map_fst_filter)
  show "hvalid m \<Longrightarrow> set (hkeys m) = {k. hget m k \<noteq> None}" for m :: "('a, 'b) table"
    by (simp add: hkeys_def hget_def map_of_eq_None_iff)
  show "hvalid m \<Longrightarrow> hget (hretain P m) k =
        (case hget m k of None \<Rightarrow> None | Some v \<Rightarrow> if P k v then Some v else None)"
    for m :: "('a, 'b) table" and P k
    unfolding hvalid_def hget_def hretain_def by (rule map_of_filter_valid)
qed (auto simp: hvalid_def hget_def hinsert_def hremove_def hretain_def hkeys_def
       distinct_map_fst_filter map_of_filter_key)

lemmas [simp, table_simps] = ht.lookup_empty ht.lookup_insert ht.lookup_remove
  ht.lookup_fold_remove ht.lookup_retain

lemmas [simp, intro] = ht.valid_empty ht.valid_insert ht.valid_remove ht.valid_retain
  ht.valid_fold_remove

lemma hget_single [simp]: "hget [(k, v)] k' = (if k' = k then Some v else None)"
  by (simp add: hget_def)

lemma hget_mem: "hget m k = Some v \<Longrightarrow> (k, v) \<in> set m"
  by (simp add: hget_def map_of_SomeD)

lemma hget_iff_mem: "hvalid m \<Longrightarrow> hget m k = Some v \<longleftrightarrow> (k, v) \<in> set m"
  by (simp add: hget_def hvalid_def)

lemma hvalues_iff: "hvalid m \<Longrightarrow> v \<in> set (hvalues m) \<longleftrightarrow> (\<exists>k. hget m k = Some v)"
  by (force simp: hvalues_def hget_iff_mem image_iff)

lemma hkeys_iff: "k \<in> set (hkeys m) \<longleftrightarrow> hget m k \<noteq> None"
  by (simp add: hkeys_def hget_def map_of_eq_None_iff)

lemma table_eq_Nil_iff: "m = [] \<longleftrightarrow> (\<forall>k. hget m k = None)"
  by (cases m) (auto simp: hget_def)

lemma hinsert_not_Nil [simp]: "hinsert k v m \<noteq> []"
  by (simp add: hinsert_def)

lemma hvalid_map_value: "hvalid m \<Longrightarrow> hvalid (map (\<lambda>(k, v). (k, f k v)) m)"
  by (simp add: hvalid_def comp_def case_prod_unfold)

lemma hget_map_value: "hget (map (\<lambda>(k, v). (k, f k v)) m) k = map_option (f k) (hget m k)"
  by (induction m) (auto simp: hget_def)

subsection \<open>Stores that implement a map\<close>

text \<open>
  The contract of a component that keeps a map from keys to values in a representation of its own,
  with operations that may fail: \<open>seen s\<close> is the map of a state, \<open>spec\<close> what each operation promises
  to do with it. A successful operation does it, a failed one at most loses entries. Sequences of
  operations then do what the promises say, in their order.
\<close>

primrec run_ops :: "('o \<Rightarrow> 's \<Rightarrow> bool \<times> 's) \<Rightarrow> 'o list \<Rightarrow> 's \<Rightarrow> bool \<times> 's" where
  "run_ops step [] s = (True, s)"
| "run_ops step (p # ps) s =
     (case step p s of (ok, s1) \<Rightarrow> (case run_ops step ps s1 of (oks, s2) \<Rightarrow> (ok \<and> oks, s2)))"

locale map_store =
  fixes inv :: "'s \<Rightarrow> bool"
    and seen :: "'s \<Rightarrow> 'k \<Rightarrow> 'v option"
    and step :: "'o \<Rightarrow> 's \<Rightarrow> bool \<times> 's"
    and spec :: "'o \<Rightarrow> ('k \<Rightarrow> 'v option) \<Rightarrow> 'k \<Rightarrow> 'v option"
    and allowed :: "'o \<Rightarrow> bool"
  assumes step_inv: "\<lbrakk>inv s; allowed p; step p s = (ok, s')\<rbrakk> \<Longrightarrow> inv s'"
    and step_done: "\<lbrakk>inv s; allowed p; step p s = (True, s')\<rbrakk> \<Longrightarrow> seen s' = spec p (seen s)"
    and step_failed: "\<lbrakk>inv s; allowed p; step p s = (False, s')\<rbrakk> \<Longrightarrow> seen s' \<subseteq>\<^sub>m seen s"
begin

lemma run_inv: "\<lbrakk>inv s; list_all allowed ps; run_ops step ps s = (ok, s')\<rbrakk> \<Longrightarrow> inv s'"
  by (induction ps arbitrary: s ok) (auto split: prod.splits intro: step_inv)

lemma run_done:
  "\<lbrakk>inv s; list_all allowed ps; run_ops step ps s = (True, s')\<rbrakk> \<Longrightarrow> seen s' = fold spec ps (seen s)"
proof (induction ps arbitrary: s)
  case (Cons p ps)
  obtain ok s1 where p: "step p s = (ok, s1)" by fastforce
  then have "ok" "run_ops step ps s1 = (True, s')" using Cons.prems by (auto split: prod.splits)
  then show ?case using Cons p step_done[of s p s1] step_inv[of s p True s1] by simp
qed simp

end

end
