(* ===== verification/Start_Control.thy ===== *)
theory Start_Control
  imports Tegata_Prelude
begin

section \<open>Launch control\<close>

text \<open>
  \<open>crates/tegatad/src/sessions.rs\<close>: the keys, leases and browsers of the session table, and the
  launch control (at most three launches in ten minutes, and a backoff after a failure) that
  every launch of a browser, an injection proxy or an MCP server goes through. The mutable
  methods return the updated record; \<open>is_limited\<close> also returns its answer, because it prunes.
\<close>

subsection \<open>The data of the session table\<close>

record BrowserKey =
  principal :: string
  namespace :: string
  cred_id :: string

definition BrowserKey_new :: "string \<Rightarrow> string \<Rightarrow> string \<Rightarrow> BrowserKey" where
  "BrowserKey_new p n c = \<lparr>principal = p, namespace = n, cred_id = c\<rparr>"

datatype StartKey =
    SkBrowser BrowserKey
  | SkApiProxy (sk_principal: string) (sk_name: string)
  | SkMcpServer (sk_principal: string) (sk_name: string)

datatype LeaseTarget = Tab string | LtApiProxy | LtMcpServer

definition LeaseTarget_is_service :: "LeaseTarget \<Rightarrow> bool" where
  "LeaseTarget_is_service t = (case t of Tab _ \<Rightarrow> False | LtApiProxy \<Rightarrow> True | LtMcpServer \<Rightarrow> True)"

record Lease =
  lease_principal :: string
  expires_at :: instant
  target :: LeaseTarget

text \<open>
  The executor connection is an \<open>Arc\<close>: two browsers hold the same connection when the pointers
  are equal, so the model keeps the identity of the connection, a \<open>nat\<close>.
\<close>

record Browser =
  key :: BrowserKey
  executor :: nat
  port :: u16
  endpoint :: string
  deadline :: instant
  leases :: "(string, Lease) table"
  exclusive :: bool
  persist_cookies :: bool

definition Browser_is_service :: "Browser \<Rightarrow> bool" where
  "Browser_is_service b = list_ex (\<lambda>l. LeaseTarget_is_service (target l)) (hvalues (leases b))"

subsection \<open>The attempt limit and the backoff\<close>

definition START_ATTEMPT_WINDOW_SECS :: nat where
  "START_ATTEMPT_WINDOW_SECS = 600"

definition MAX_START_ATTEMPTS :: nat where
  "MAX_START_ATTEMPTS = 3"

record StartControl =
  attempts :: "instant list"
  consecutive_failures :: nat
  retry_at :: "instant option"

definition StartControl_new :: StartControl where
  "StartControl_new = \<lparr>attempts = [], consecutive_failures = 0, retry_at = None\<rparr>"

definition prune_attempts :: "instant \<Rightarrow> StartControl \<Rightarrow> StartControl" where
  "prune_attempts now c =
     c\<lparr>attempts := filter (\<lambda>a. as_secs (now - a) < START_ATTEMPT_WINDOW_SECS) (attempts c)\<rparr>"

definition is_limited :: "instant \<Rightarrow> StartControl \<Rightarrow> bool \<times> StartControl" where
  "is_limited now c =
     (let c = prune_attempts now c in
      (length (attempts c) \<ge> MAX_START_ATTEMPTS
         \<or> (case retry_at c of None \<Rightarrow> False | Some retry \<Rightarrow> retry > now), c))"

definition record_attempt :: "instant \<Rightarrow> StartControl \<Rightarrow> StartControl" where
  "record_attempt now c = (let c = prune_attempts now c in c\<lparr>attempts := attempts c @ [now]\<rparr>)"

definition record_success :: "StartControl \<Rightarrow> StartControl" where
  "record_success c = c\<lparr>consecutive_failures := 0, retry_at := None\<rparr>"

definition record_failure :: "instant \<Rightarrow> StartControl \<Rightarrow> StartControl" where
  "record_failure now c =
     (let n = consecutive_failures c + 1;
          delay = (if n = 1 then 2 else if n = 2 then 5 else 15)
      in c\<lparr>consecutive_failures := n, retry_at := Some (now + from_secs delay)\<rparr>)"

lemmas start_control_defs = StartControl_new_def prune_attempts_def is_limited_def
  record_attempt_def record_success_def record_failure_def
  START_ATTEMPT_WINDOW_SECS_def MAX_START_ATTEMPTS_def

text \<open>
  How \<open>login\<close>, \<open>open_api_proxy\<close>, \<open>open_mcp_server\<close> and \<open>login_begin\<close> use the control: a launch at
  \<open>now\<close> that is not limited records its attempt; its outcome arrives later, in any order with
  other launches of the same key. \<open>granted\<close> is the history of the launches, newest first.
\<close>

inductive control_run :: "StartControl \<Rightarrow> instant \<Rightarrow> instant list \<Rightarrow> bool" where
  run_new: "control_run StartControl_new 0 []"
| run_launch: "control_run c t granted \<Longrightarrow> t \<le> now \<Longrightarrow> is_limited now c = (False, c') \<Longrightarrow>
    control_run (record_attempt now c') now (now # granted)"
| run_refused: "control_run c t granted \<Longrightarrow> t \<le> now \<Longrightarrow> is_limited now c = (True, c') \<Longrightarrow>
    control_run c' now granted"
| run_success: "control_run c t granted \<Longrightarrow> t \<le> now \<Longrightarrow> control_run (record_success c) now granted"
| run_failure: "control_run c t granted \<Longrightarrow> t \<le> now \<Longrightarrow> control_run (record_failure now c) now granted"

inductive_cases control_run_launchE: "control_run c t (now # granted)"

subsection \<open>Facts about single operations\<close>

lemma attempts_prune [simp]:
  "attempts (prune_attempts now c) = filter (\<lambda>a. now - a < from_secs 600) (attempts c)"
  by (simp add: prune_attempts_def START_ATTEMPT_WINDOW_SECS_def as_secs_less_iff)

lemma control_prune_fields [simp]:
  "retry_at (prune_attempts now c) = retry_at c"
  "consecutive_failures (prune_attempts now c) = consecutive_failures c"
  by (simp_all add: prune_attempts_def)

lemma is_limited_False_iff:
  "fst (is_limited now c) = False \<longleftrightarrow>
     length (filter (\<lambda>a. now - a < from_secs 600) (attempts c)) < 3
     \<and> (\<forall>r. retry_at c = Some r \<longrightarrow> r \<le> now)"
  by (auto simp: is_limited_def Let_def MAX_START_ATTEMPTS_def split: option.splits)

lemma snd_is_limited [simp]: "snd (is_limited now c) = prune_attempts now c"
  by (simp add: is_limited_def Let_def)

lemma is_limitedD: "is_limited now c = (b, c') \<Longrightarrow> c' = prune_attempts now c"
  by (metis snd_conv snd_is_limited)

lemma attempts_record_attempt:
  "attempts (record_attempt now c) = filter (\<lambda>a. now - a < from_secs 600) (attempts c) @ [now]"
  by (simp add: record_attempt_def Let_def)

lemma window_conj: "t \<le> now \<Longrightarrow> (t - a < w \<and> now - a < w) = (now - a < (w::nat))"
  by auto

subsection \<open>The history of a control\<close>

text \<open>
  The attempts that are kept are the granted launches of the current window, which is why
  counting them is counting launches.
\<close>

lemma control_run_window:
  assumes "control_run c t granted" "t \<le> now"
  shows "filter (\<lambda>a. now - a < from_secs 600) (rev (attempts c))
       = filter (\<lambda>a. now - a < from_secs 600) granted"
  using assms
proof (induction arbitrary: now rule: control_run.induct)
  case (run_launch c t granted s c')
  then show ?case
    by (auto dest!: is_limitedD simp: attempts_record_attempt rev_filter[symmetric] window_conj)
next
  case (run_refused c t granted s c')
  then show ?case
    by (auto dest!: is_limitedD simp: rev_filter[symmetric] window_conj)
qed (auto simp: StartControl_new_def record_success_def record_failure_def Let_def)

lemma control_run_granted_le: "control_run c t granted \<Longrightarrow> g \<in> set granted \<Longrightarrow> g \<le> t"
  by (induction rule: control_run.induct) auto

text \<open>The granted launches of the window that ends at each launch are at most three.\<close>

lemma launch_window_bound:
  assumes run: "control_run c t granted" and t: "t \<le> now"
    and ok: "is_limited now c = (False, c')"
  shows "length (filter (\<lambda>a. now - a < from_secs 600) granted) < 3"
proof -
  have "length (filter (\<lambda>a. now - a < from_secs 600) (attempts c)) < 3"
    using ok is_limited_False_iff[of now c] by simp
  then show ?thesis
    using control_run_window[OF run t] by (metis length_rev rev_filter)
qed

text \<open>
  Counting at the last launch of a window is enough: between launches a window only loses
  elements.
\<close>

text \<open>
  C11: whatever the launches, refusals, successes and failures of a key, in any order, any period of
  ten minutes holds at most three granted launches of it.
\<close>

theorem at_most_three_starts_per_window:
  assumes "control_run c t granted"
  shows "length (filter (\<lambda>a. s \<le> a \<and> a < s + from_secs START_ATTEMPT_WINDOW_SECS) granted)
     \<le> MAX_START_ATTEMPTS"
  unfolding START_ATTEMPT_WINDOW_SECS_def MAX_START_ATTEMPTS_def
  using assms
proof (induction rule: control_run.induct)
  case (run_launch c t granted now c')
  show ?case
  proof (cases "s \<le> now \<and> now < s + from_secs 600")
    case True
    have "length (filter (\<lambda>a. s \<le> a \<and> a < s + from_secs 600) granted)
        \<le> length (filter (\<lambda>a. now - a < from_secs 600) granted)"
      using True by (intro length_filter_mono) auto
    also have "\<dots> < 3"
      using run_launch.hyps by (intro launch_window_bound)
    finally show ?thesis using True by simp
  next
    case False
    then show ?thesis using run_launch.IH by auto
  qed
qed auto

lemma two_launches_run:
  "control_run (record_failure 7 (record_attempt 5 (prune_attempts 5 StartControl_new))) 7 [5]"
proof -
  have "is_limited 5 StartControl_new = (False, prune_attempts 5 StartControl_new)"
    by (simp add: start_control_defs)
  then have "control_run (record_attempt 5 (prune_attempts 5 StartControl_new)) 5 [5]"
    using control_run.run_launch[OF run_new] by simp
  then show ?thesis by (rule run_failure) simp
qed

theorem at_most_three_starts_per_window_witness:
  "length (filter (\<lambda>a. 0 \<le> a \<and> a < 0 + from_secs START_ATTEMPT_WINDOW_SECS) [5::nat])
     \<le> MAX_START_ATTEMPTS"
  by (rule at_most_three_starts_per_window[OF two_launches_run])

text \<open>
  the backoff: after the first failure in a row a launch is refused for 2 seconds, after the
  second for 5, after every later one for 15; at the end of the backoff only the attempt limit
  can refuse; and a success ends the backoff at once and restarts the sequence.
\<close>

theorem failure_backoff:
  assumes "delay = (case consecutive_failures c of 0 \<Rightarrow> 2 | Suc 0 \<Rightarrow> 5 | _ \<Rightarrow> 15)"
  shows "(t < now + from_secs delay \<longrightarrow> fst (is_limited t (record_failure now c)))
     \<and> (now + from_secs delay \<le> t \<longrightarrow>
          fst (is_limited t (record_failure now c))
            = (MAX_START_ATTEMPTS \<le> length (attempts (prune_attempts t c))))
     \<and> fst (is_limited t (record_success (record_failure now c)))
            = (MAX_START_ATTEMPTS \<le> length (attempts (prune_attempts t c)))
     \<and> consecutive_failures (record_success c) = 0"
proof -
  have d: "record_failure now c =
      c\<lparr>consecutive_failures := consecutive_failures c + 1, retry_at := Some (now + from_secs delay)\<rparr>"
    using assms by (auto simp: record_failure_def Let_def split: nat.splits)
  show ?thesis
    by (auto simp: d is_limited_def record_success_def prune_attempts_def Let_def)
qed

theorem failure_backoff_witness:
  "fst (is_limited 1 (record_failure 0 StartControl_new))
   \<and> \<not> fst (is_limited (from_secs 2) (record_failure 0 StartControl_new))"
  using failure_backoff[of 2 StartControl_new 1 0]
    failure_backoff[of 2 StartControl_new "from_secs 2" 0]
  by (simp add: start_control_defs from_secs_def)

end
