(* ===== verification/Grants.thy ===== *)
theory Grants
  imports Tegata_Prelude
begin

section \<open>Approval grants\<close>

text \<open>
  \<open>crates/tegatad/src/grants.rs\<close>: the grants that let a caller reuse an approval for a while, with
  the generation counter that keeps an approval that was pending during a revocation from being
  recorded, and the two-digit verification code of the approval hook. \<open>reuse\<close> and \<open>issue\<close> change
  the table, so they return their answer and the new table.
\<close>

datatype ApprovalGrant = Issued | Reused

record ApprovalGrants =
  ttl :: duration
  issued :: "(string \<times> string, instant) table"
  generation :: u64

definition ApprovalGrants_new :: "duration \<Rightarrow> ApprovalGrants" where
  "ApprovalGrants_new d = \<lparr>ttl = d, issued = [], generation = 0\<rparr>"

definition prune :: "instant \<Rightarrow> ApprovalGrants \<Rightarrow> ApprovalGrants" where
  "prune now g = g\<lparr>issued := hretain (\<lambda>_ issued_at. now - issued_at < ttl g) (issued g)\<rparr>"

definition reuse :: "string \<Rightarrow> string \<Rightarrow> instant \<Rightarrow> ApprovalGrants \<Rightarrow> bool \<times> ApprovalGrants" where
  "reuse p c now g =
     (if ttl g = 0 then (False, g)
      else (let g = prune now g in (hcontains (issued g) (p, c), g)))"

definition issue :: "string \<Rightarrow> string \<Rightarrow> instant \<Rightarrow> u64 \<Rightarrow> ApprovalGrants \<Rightarrow> bool \<times> ApprovalGrants" where
  "issue p c now observed g =
     (if ttl g = 0 \<or> observed \<noteq> generation g then (False, g)
      else (let g = prune now g in (True, g\<lparr>issued := hinsert (p, c) now (issued g)\<rparr>)))"

definition revoke :: "string option \<Rightarrow> ApprovalGrants \<Rightarrow> ApprovalGrants" where
  "revoke ns g =
     (let g = g\<lparr>generation := generation g + 1\<rparr> in
      case ns of
        None \<Rightarrow> g\<lparr>issued := []\<rparr>
      | Some n \<Rightarrow>
          (let prefix = n @ '':'' in
           g\<lparr>issued := hretain (\<lambda>(_, c) _. \<not> starts_with c prefix) (issued g)\<rparr>))"

subsection \<open>The verification code\<close>

definition APPROVAL_CODE_MIN :: byte where "APPROVAL_CODE_MIN = 10"
definition APPROVAL_CODE_SPAN :: byte where "APPROVAL_CODE_SPAN = 90"

definition approval_code_from_byte :: "byte \<Rightarrow> byte option" where
  "approval_code_from_byte b =
     (if b < APPROVAL_CODE_SPAN * 2 then Some (APPROVAL_CODE_MIN + b mod APPROVAL_CODE_SPAN)
      else None)"

text \<open>
  The random source is the list of what \<open>fill_random\<close> answers, call after call: an error or a
  byte. When it runs dry the loop is still running, which is \<open>None\<close>.
\<close>

fun approval_code :: "('e + byte) list \<Rightarrow> ('e + byte) option" where
  "approval_code [] = None"
| "approval_code (Inl e # _) = Some (Inl e)"
| "approval_code (Inr b # rest) =
     (case approval_code_from_byte b of Some code \<Rightarrow> Some (Inr code) | None \<Rightarrow> approval_code rest)"

subsection \<open>Facts about single operations\<close>

lemmas grants_defs = ApprovalGrants_new_def prune_def reuse_def issue_def revoke_def

lemma grants_prune_fields [simp]:
  "ttl (prune now g) = ttl g" "generation (prune now g) = generation g"
  by (simp_all add: prune_def)

lemma hget_prune [simp]:
  "hvalid (issued g) \<Longrightarrow> hget (issued (prune now g)) k =
     (case hget (issued g) k of None \<Rightarrow> None | Some t \<Rightarrow> if now - t < ttl g then Some t else None)"
  by (simp add: prune_def)

lemma hvalid_prune [simp]: "hvalid (issued g) \<Longrightarrow> hvalid (issued (prune now g))"
  by (simp add: prune_def ht.valid_retain)

lemma reuse_fields [simp]:
  "ttl (snd (reuse p c now g)) = ttl g"
  "generation (snd (reuse p c now g)) = generation g"
  by (simp_all add: reuse_def Let_def)

lemma issue_fields [simp]:
  "ttl (snd (issue p c now obs g)) = ttl g"
  "generation (snd (issue p c now obs g)) = generation g"
  by (simp_all add: issue_def Let_def)

lemma revoke_fields [simp]:
  "ttl (revoke ns g) = ttl g" "generation (revoke ns g) = generation g + 1"
  by (simp_all add: revoke_def Let_def split: option.splits)

lemma hvalid_grants [simp]:
  assumes "hvalid (issued g)"
  shows "hvalid (issued (snd (reuse p c now g)))"
    and "hvalid (issued (snd (issue p c now obs g)))"
    and "hvalid (issued (revoke ns g))"
  using assms
  by (simp_all add: reuse_def issue_def revoke_def Let_def ht.valid_insert ht.valid_retain
      ht.valid_empty split: option.splits)

lemma reuse_subset:
  "hvalid (issued g) \<Longrightarrow> hget (issued (snd (reuse p c now g))) k = Some t \<Longrightarrow>
     hget (issued g) k = Some t"
  by (auto simp: reuse_def Let_def split: if_splits option.splits)

lemma reuse_True_iff:
  "hvalid (issued g) \<Longrightarrow> fst (reuse p c now g) \<longleftrightarrow>
     ttl g \<noteq> 0 \<and> (\<exists>t. hget (issued g) (p, c) = Some t \<and> now - t < ttl g)"
  by (auto simp: reuse_def Let_def hcontains_def split: option.splits if_splits)

text \<open>A revocation of a namespace covers the credentials whose id carries its prefix.\<close>

definition covers :: "string option \<Rightarrow> string \<Rightarrow> bool" where
  "covers ns c = (case ns of None \<Rightarrow> True | Some n \<Rightarrow> starts_with c (n @ '':''))"

lemma hget_revoke:
  "hvalid (issued g) \<Longrightarrow> hget (issued (revoke ns g)) (p, c) =
     (if covers ns c then None else hget (issued g) (p, c))"
  by (auto simp: revoke_def Let_def covers_def split: option.splits)

lemma hget_issue:
  "hvalid (issued g) \<Longrightarrow> hget (issued (snd (issue p c now obs g))) k = Some t \<Longrightarrow>
     (fst (issue p c now obs g) \<and> k = (p, c) \<and> t = now) \<or> hget (issued g) k = Some t"
  by (auto simp: issue_def Let_def split: if_splits option.splits)

subsection \<open>Grants under concurrent approvals and revocations\<close>

text \<open>
  Many requests go through the gate at once. Each one observes the generation, waits for an
  operator, and then tries to record its grant; revocations happen in between. \<open>waiting\<close> holds
  the requests in the gate with the number of revocations since they looked; the log, newest
  first, is what happened.
\<close>

datatype grant_event =
    EvIssued string string instant nat
  | EvRevoked "string option"

record grant_wait =
  gw_principal :: string
  gw_cred :: string
  gw_observed :: u64
  gw_revocations :: nat

definition count_revocation :: "grant_wait \<Rightarrow> grant_wait" where
  "count_revocation w = w\<lparr>gw_revocations := Suc (gw_revocations w)\<rparr>"

inductive grants_run ::
  "duration \<Rightarrow> ApprovalGrants \<Rightarrow> grant_wait list \<Rightarrow> grant_event list \<Rightarrow> bool" for d where
  gr_new: "grants_run d (ApprovalGrants_new d) [] []"
| gr_reused: "grants_run d g ws log \<Longrightarrow> reuse p c now g = (True, g') \<Longrightarrow> grants_run d g' ws log"
| gr_asks: "grants_run d g ws log \<Longrightarrow> reuse p c now g = (False, g') \<Longrightarrow>
    grants_run d g' (\<lparr>gw_principal = p, gw_cred = c, gw_observed = generation g', gw_revocations = 0\<rparr> # ws) log"
| gr_refused: "grants_run d g (ws @ w # ws') log \<Longrightarrow> grants_run d g (ws @ ws') log"
| gr_approved: "grants_run d g (ws @ w # ws') log \<Longrightarrow>
    issue (gw_principal w) (gw_cred w) now (gw_observed w) g = (ok, g') \<Longrightarrow>
    grants_run d g' (ws @ ws')
      (if ok then EvIssued (gw_principal w) (gw_cred w) now (gw_revocations w) # log else log)"
| gr_revoked: "grants_run d g ws log \<Longrightarrow>
    grants_run d (revoke ns g) (map count_revocation ws) (EvRevoked ns # log)"

text \<open>An event that ends the grants of a credential.\<close>

definition ends_grant :: "string \<Rightarrow> grant_event \<Rightarrow> bool" where
  "ends_grant c ev = (case ev of EvRevoked ns \<Rightarrow> covers ns c | EvIssued _ _ _ _ \<Rightarrow> False)"

definition backed_by :: "grant_event list \<Rightarrow> string \<Rightarrow> string \<Rightarrow> instant \<Rightarrow> bool" where
  "backed_by log p c t \<longleftrightarrow> (\<exists>l1 n l2. log = l1 @ EvIssued p c t n # l2
     \<and> list_all (\<lambda>ev. \<not> ends_grant c ev) l1 \<and> 2 ^ 64 dvd n)"

definition grants_inv :: "duration \<Rightarrow> ApprovalGrants \<Rightarrow> grant_wait list \<Rightarrow> grant_event list \<Rightarrow> bool" where
  "grants_inv d g ws log \<longleftrightarrow> hvalid (issued g) \<and> ttl g = d
     \<and> (\<forall>w\<in>set ws. generation g = gw_observed w + of_nat (gw_revocations w))
     \<and> (\<forall>p c t. hget (issued g) (p, c) = Some t \<longrightarrow> backed_by log p c t)"

lemma backed_by_Cons:
  "backed_by log p c t \<Longrightarrow> \<not> ends_grant c ev \<Longrightarrow> backed_by (ev # log) p c t"
  unfolding backed_by_def by (metis append_Cons list.pred_inject(2))

lemma backed_by_issued: "2 ^ 64 dvd n \<Longrightarrow> backed_by (EvIssued p c t n # log) p c t"
  unfolding backed_by_def by (rule exI[of _ "[]"]) auto

lemma of_nat_u64_eq_0: "(of_nat n :: u64) = 0 \<longleftrightarrow> 2 ^ 64 dvd n"
  by (simp add: word_of_nat_eq_0_iff)

lemma grants_inv_reuse:
  assumes "grants_inv d g ws log" "reuse p c now g = (b, g')"
  shows "grants_inv d g' ws log"
proof -
  have "g' = snd (reuse p c now g)" using assms(2) by simp
  then have "hget (issued g') k = Some t \<Longrightarrow> hget (issued g) k = Some t" for k t
    using assms(1) reuse_subset unfolding grants_inv_def by blast
  then show ?thesis
    using assms(1) \<open>g' = _\<close> unfolding grants_inv_def by simp
qed

lemma grants_inv_issue:
  assumes inv: "grants_inv d g (ws @ w # ws') log"
    and iss: "issue (gw_principal w) (gw_cred w) now (gw_observed w) g = (ok, g')"
  shows "grants_inv d g' (ws @ ws')
      (if ok then EvIssued (gw_principal w) (gw_cred w) now (gw_revocations w) # log else log)"
    (is "grants_inv d g' _ ?log")
proof -
  have g': "g' = snd (issue (gw_principal w) (gw_cred w) now (gw_observed w) g)"
    and ok: "ok = fst (issue (gw_principal w) (gw_cred w) now (gw_observed w) g)"
    using iss by simp_all
  have gen: "ok \<Longrightarrow> generation g = gw_observed w"
    using ok by (auto simp: issue_def split: if_splits)
  have dvd: "ok \<Longrightarrow> 2 ^ 64 dvd gw_revocations w"
    using inv gen of_nat_u64_eq_0 unfolding grants_inv_def by auto
  have "backed_by ?log p c t" if "hget (issued g') (p, c) = Some t" for p c t
  proof (cases "ok \<and> (p, c) = (gw_principal w, gw_cred w) \<and> t = now")
    case True
    then show ?thesis using dvd by (auto intro: backed_by_issued)
  next
    case False
    then have "hget (issued g) (p, c) = Some t"
      using hget_issue[of g] that inv ok unfolding g' grants_inv_def by blast
    then have "backed_by log p c t" using inv unfolding grants_inv_def by blast
    then show ?thesis by (auto intro: backed_by_Cons simp: ends_grant_def)
  qed
  moreover have "generation g' = generation g" "hvalid (issued g')" "ttl g' = d"
    using inv unfolding g' grants_inv_def by simp_all
  moreover have "\<forall>v\<in>set (ws @ ws'). generation g = gw_observed v + of_nat (gw_revocations v)"
    using inv unfolding grants_inv_def by auto
  ultimately show ?thesis unfolding grants_inv_def by metis
qed

lemma grants_inv_revoke:
  assumes "grants_inv d g ws log"
  shows "grants_inv d (revoke ns g) (map count_revocation ws) (EvRevoked ns # log)"
  using assms unfolding grants_inv_def
  by (auto simp: hget_revoke count_revocation_def ends_grant_def intro: backed_by_Cons
      split: if_splits)

lemma grants_run_inv: "grants_run d g ws log \<Longrightarrow> grants_inv d g ws log"
proof (induction rule: grants_run.induct)
  case gr_new
  then show ?case by (simp add: grants_inv_def ApprovalGrants_new_def)
next
  case (gr_asks g ws log p c now g')
  then show ?case using grants_inv_reuse[OF gr_asks.IH gr_asks.hyps(2)]
    by (auto simp: grants_inv_def)
next
  case (gr_refused g ws w ws' log)
  then show ?case by (auto simp: grants_inv_def)
qed (blast intro: grants_inv_reuse grants_inv_issue grants_inv_revoke)+

text \<open>
  C10: a request passes the gate without an approval only on an approval of the same caller for the
  same credential that is younger than the validity period, that no later revocation covered,
  and during whose wait there was no revocation at all (the counter is 64 bits wide: a number of
  revocations divisible by \<open>2 ^ 64\<close> would go unseen).
\<close>

theorem reuse_needs_a_live_approval:
  assumes "grants_run d g ws log" "fst (reuse p c now g)"
  shows "d \<noteq> 0 \<and> (\<exists>t l1 n l2. log = l1 @ EvIssued p c t n # l2 \<and> now - t < d
     \<and> list_all (\<lambda>ev. \<not> ends_grant c ev) l1 \<and> 2 ^ 64 dvd n)"
  using grants_run_inv[OF assms(1)] assms(2) reuse_True_iff[of g p c now]
  unfolding grants_inv_def backed_by_def by blast

text \<open>One approval at time 10 under a validity period of 100.\<close>

definition example_grants :: ApprovalGrants where
  "example_grants = snd (issue ''uid:1'' ''op:x'' 10 0 (ApprovalGrants_new 100))"

lemma example_grants_run:
  "grants_run 100 example_grants [] [EvIssued ''uid:1'' ''op:x'' 10 0]"
proof -
  have r: "reuse ''uid:1'' ''op:x'' 5 (ApprovalGrants_new 100) = (False, ApprovalGrants_new 100)"
    by (simp add: grants_defs hcontains_def hretain_def)
  define w where "w = \<lparr>gw_principal = ''uid:1'', gw_cred = ''op:x'',
      gw_observed = generation (ApprovalGrants_new 100), gw_revocations = 0\<rparr>"
  have "grants_run 100 (ApprovalGrants_new 100) [w] []"
    unfolding w_def by (rule gr_asks[OF gr_new r])
  then have run: "grants_run 100 (ApprovalGrants_new 100) ([] @ w # []) []" by simp
  have i: "issue (gw_principal w) (gw_cred w) 10 (gw_observed w) (ApprovalGrants_new 100)
      = (True, example_grants)"
    by (simp add: w_def example_grants_def issue_def ApprovalGrants_new_def Let_def)
  show ?thesis using gr_approved[OF run i] by (simp add: w_def)
qed

theorem reuse_needs_a_live_approval_witness:
  "fst (reuse ''uid:1'' ''op:x'' 50 example_grants) \<and> (\<exists>t l1 n l2.
     [EvIssued ''uid:1'' ''op:x'' 10 0] = l1 @ EvIssued ''uid:1'' ''op:x'' t n # l2 \<and> 50 - t < 100
     \<and> list_all (\<lambda>ev. \<not> ends_grant ''op:x'' ev) l1 \<and> 2 ^ 64 dvd n)"
proof -
  have "fst (reuse ''uid:1'' ''op:x'' 50 example_grants)"
    by (simp add: example_grants_def grants_defs hcontains_def Let_def hretain_def hinsert_def hget_def)
  then show ?thesis using reuse_needs_a_live_approval[OF example_grants_run] by blast
qed

text \<open>
  the validity period of a recorded grant is fixed: until it ends every request of the same
  caller and credential is let through, from then on none is, and other callers and credentials
  are unaffected by the recording.
\<close>

theorem issue_fixes_the_period:
  assumes "hvalid (issued g)" "issue p c now (generation g) g = (True, g')"
  shows "fst (reuse p c t g') = (t - now < ttl g)
    \<and> ((p', c') \<noteq> (p, c) \<longrightarrow> now \<le> t \<longrightarrow> fst (reuse p' c' t g') = fst (reuse p' c' t g))"
proof -
  have ttl: "ttl g \<noteq> 0" and g': "g' = (prune now g)\<lparr>issued := hinsert (p, c) now (issued (prune now g))\<rparr>"
    using assms(2) by (auto simp: issue_def Let_def split: if_splits)
  have v: "hvalid (issued g')" using assms(1) by (simp add: g' ht.valid_insert)
  have "fst (reuse p c t g') = (t - now < ttl g)"
    using v ttl by (simp add: reuse_True_iff) (simp add: g')
  moreover have "fst (reuse p' c' t g') = fst (reuse p' c' t g)" if "(p', c') \<noteq> (p, c)" "now \<le> t"
    using v assms(1) that
    by (simp add: reuse_True_iff) (auto simp: g' split: option.splits if_splits)
  ultimately show ?thesis by blast
qed

theorem issue_fixes_the_period_witness:
  "fst (reuse ''uid:1'' ''op:x'' 109 example_grants) = (109 - 10 < (100::nat))
   \<and> fst (reuse ''uid:2'' ''op:x'' 50 example_grants) = fst (reuse ''uid:2'' ''op:x'' 50 (ApprovalGrants_new 100))"
proof -
  have v: "hvalid (issued (ApprovalGrants_new 100))" by (simp add: ApprovalGrants_new_def)
  have t: "ttl (ApprovalGrants_new 100) = 100" by (simp add: ApprovalGrants_new_def)
  have i: "issue ''uid:1'' ''op:x'' 10 (generation (ApprovalGrants_new 100)) (ApprovalGrants_new 100)
      = (True, example_grants)"
    by (simp add: example_grants_def issue_def ApprovalGrants_new_def Let_def)
  show ?thesis
    using issue_fixes_the_period[OF v i, of 109]
      issue_fixes_the_period[OF v i, of 50 "''uid:2''" "''op:x''"]
    by (simp add: t)
qed

lemma approval_code_from_byte_unat:
  "approval_code_from_byte b = Some code \<longleftrightarrow> unat b < 180 \<and> unat code = 10 + unat b mod 90"
proof -
  have "unat (b mod 90) = unat b mod 90" by (simp add: unat_mod)
  moreover have "unat b mod 90 < 90" by simp
  ultimately have "unat (10 + b mod 90) = 10 + unat b mod 90"
    by (simp add: unat_word_ariths)
  then show ?thesis
    by (auto simp: approval_code_from_byte_def APPROVAL_CODE_MIN_def APPROVAL_CODE_SPAN_def
        word_less_nat_alt word_unat_eq_iff)
qed

lemma two_preimages:
  fixes b c :: nat
  assumes "10 \<le> c" "c \<le> 99"
  shows "(b < 180 \<and> c = 10 + b mod 90) \<longleftrightarrow> b = c - 10 \<or> b = c + 80"
proof (cases "b < 90")
  case False
  then have "b < 180 \<Longrightarrow> b mod 90 = b - 90" by (simp add: le_mod_geq)
  then show ?thesis using False assms by auto
qed (use assms in auto)

lemma approval_code_from_byte_inverse:
  assumes "10 \<le> unat code" "unat code \<le> 99"
  shows "approval_code_from_byte b = Some code \<longleftrightarrow> b = code - 10 \<or> b = code + 80"
proof -
  have "unat (code - 10) = unat code - 10" "unat (code + 80) = unat code + 80"
    using assms by (simp_all add: unat_sub word_le_nat_alt unat_word_ariths)
  moreover have "unat b < 180 \<and> unat code = 10 + unat b mod 90 \<longleftrightarrow>
      unat b = unat code - 10 \<or> unat b = unat code + 80"
    using two_preimages[OF assms] .
  ultimately show ?thesis
    by (simp add: approval_code_from_byte_unat word_unat_eq_iff)
qed

text \<open>
  the verification code is a number from 10 to 99, and every such number is produced by exactly
  two of the 256 byte values, so a uniform random byte gives a uniform code. The loop returns the
  code of the first byte that has one.
\<close>

theorem approval_code_uniform:
  "(if 10 \<le> unat code \<and> unat code \<le> 99
    then {b. approval_code_from_byte b = Some code} = {code - 10, code + 80}
         \<and> card {b. approval_code_from_byte b = Some code} = 2
    else {b. approval_code_from_byte b = Some code} = {})
   \<and> approval_code (map Inr bs :: ('e + byte) list)
       = map_option Inr (case List.find (\<lambda>b. b < 180) bs of None \<Rightarrow> None | Some b \<Rightarrow> Some (10 + b mod 90))"
proof -
  have "approval_code (map Inr bs :: ('e + byte) list)
       = map_option Inr (case List.find (\<lambda>b. b < 180) bs of None \<Rightarrow> None | Some b \<Rightarrow> Some (10 + b mod 90))"
    by (induction bs)
      (auto simp: approval_code_from_byte_def APPROVAL_CODE_MIN_def APPROVAL_CODE_SPAN_def)
  moreover have "code - 10 \<noteq> code + 80"
  proof
    assume "code - 10 = code + 80"
    then have "(code + 80) - (code - 10) = 0" by simp
    then show False by simp
  qed
  moreover have "unat code < 10 \<or> 99 < unat code \<Longrightarrow> {b. approval_code_from_byte b = Some code} = {}"
    by (auto simp: approval_code_from_byte_unat)
  ultimately show ?thesis
    by (auto simp: approval_code_from_byte_inverse Collect_disj_eq)
qed

end
