(* ===== verification/Approvals.thy ===== *)
theory Approvals
  imports Tegata_Prelude "HOL-Library.Multiset"
begin

section \<open>The queue of pending approvals\<close>

text \<open>
  \<open>crates/tegatad/src/approvals.rs\<close>: the operator's queue. A request registers under a six-digit
  id, waits on a oneshot channel, and is removed by a decision, by its timeout or when the
  waiter is dropped. The channel is an optional boolean: the sender lives in the entry, and
  \<open>decide\<close> moves the decision to the receiver. Ids can be reused after a decision; the token of
  the static counter tells two registrations apart.
\<close>

definition ID_SPACE :: nat where "ID_SPACE = 1000000"

record ApprovalRequest =
  ar_method :: string
  ar_cred_id :: string
  ar_target_url :: string
  ar_principal :: string

record PendingSummary =
  ps_id :: string
  ps_method :: string
  ps_cred_id :: string
  ps_target_url :: string
  ps_principal :: string
  ps_age_secs :: nat

datatype ApprovalError = Denied | Timeout

record Entry =
  token :: u64
  request :: ApprovalRequest
  created_at :: instant

type_synonym Entries = "(string, Entry) table"

record Pending =
  pd_id :: string
  pd_token :: u64

text \<open>
  The random ids are the list of what \<open>random_id\<close> returns; a list that runs dry is a loop that is
  still looking, \<open>None\<close>.
\<close>

fun fresh_id :: "Entries \<Rightarrow> u128 list \<Rightarrow> string option" where
  "fresh_id entries [] = None"
| "fresh_id entries (r # rs) =
     (let candidate = pad6 (unat r mod ID_SPACE) in
      if hcontains entries candidate then fresh_id entries rs else Some candidate)"

definition register_with ::
  "ApprovalRequest \<Rightarrow> u128 list \<Rightarrow> u64 \<Rightarrow> instant \<Rightarrow> Entries \<Rightarrow> (Pending \<times> Entries) option" where
  "register_with req ids tok now entries =
     (case fresh_id entries ids of
        None \<Rightarrow> None
      | Some i \<Rightarrow> Some (\<lparr>pd_id = i, pd_token = tok\<rparr>,
                    hinsert i \<lparr>token = tok, request = req, created_at = now\<rparr> entries))"

definition summarize :: "instant \<Rightarrow> string \<Rightarrow> Entry \<Rightarrow> PendingSummary" where
  "summarize now i e =
     \<lparr>ps_id = i, ps_method = ar_method (request e), ps_cred_id = ar_cred_id (request e),
      ps_target_url = ar_target_url (request e), ps_principal = ar_principal (request e),
      ps_age_secs = as_secs (now - created_at e)\<rparr>"

text \<open>\<open>sort_by\<close> is a stable sort; the comparison is on the registration time and then on the id.\<close>

definition id_less :: "string \<Rightarrow> string \<Rightarrow> bool" where
  "id_less s t \<longleftrightarrow> (s, t) \<in> lexord {(a, b). (of_char a :: nat) < of_char b}"

fun summary_le :: "instant \<times> PendingSummary \<Rightarrow> instant \<times> PendingSummary \<Rightarrow> bool" where
  "summary_le (t, s) (t', s') \<longleftrightarrow> t < t' \<or> (t = t' \<and> \<not> id_less (ps_id s') (ps_id s))"

fun insert_by :: "('a \<Rightarrow> 'a \<Rightarrow> bool) \<Rightarrow> 'a \<Rightarrow> 'a list \<Rightarrow> 'a list" where
  "insert_by le x [] = [x]"
| "insert_by le x (y # ys) = (if le x y then x # y # ys else y # insert_by le x ys)"

definition sort_by :: "('a \<Rightarrow> 'a \<Rightarrow> bool) \<Rightarrow> 'a list \<Rightarrow> 'a list" where
  "sort_by le xs = foldr (insert_by le) xs []"

definition approvals_list :: "instant \<Rightarrow> Entries \<Rightarrow> PendingSummary list" where
  "approvals_list now entries =
     map snd (sort_by summary_le (map (\<lambda>(i, e). (created_at e, summarize now i e)) entries))"

definition decide :: "string \<Rightarrow> bool \<Rightarrow> Entries \<Rightarrow> (u64 \<times> bool) option \<times> Entries" where
  "decide i allow entries =
     (case hget entries i of
        None \<Rightarrow> (None, entries)
      | Some e \<Rightarrow> (Some (token e, allow), hremove i entries))"

definition remove_own :: "Pending \<Rightarrow> Entries \<Rightarrow> bool \<times> Entries" where
  "remove_own p entries =
     (let own = (case hget entries (pd_id p) of None \<Rightarrow> False | Some e \<Rightarrow> token e = pd_token p) in
      (own, if own then hremove (pd_id p) entries else entries))"

text \<open>
  \<open>wait\<close>: what the receiver holds when the timeout has not passed (a decision, or the sender was
  dropped), or that the limit has passed, and then what a later \<open>try_recv\<close> finds. The result
  comes with the entries after the waiter is dropped.
\<close>

datatype wakeup = Decision bool | SenderLost | Elapsed "bool option"

definition wait :: "Pending \<Rightarrow> wakeup \<Rightarrow> Entries \<Rightarrow> (ApprovalError + unit) \<times> Entries" where
  "wait p w entries =
     (case w of
        Decision True \<Rightarrow> (Inr (), snd (remove_own p entries))
      | Decision False \<Rightarrow> (Inl Denied, snd (remove_own p entries))
      | SenderLost \<Rightarrow> (Inl Denied, snd (remove_own p entries))
      | Elapsed received \<Rightarrow>
          (case remove_own p entries of
             (True, entries') \<Rightarrow> (Inl Timeout, snd (remove_own p entries'))
           | (False, entries') \<Rightarrow>
               ((case received of
                   Some True \<Rightarrow> Inr ()
                 | Some False \<Rightarrow> Inl Denied
                 | None \<Rightarrow> Inl Timeout), snd (remove_own p entries'))))"

subsection \<open>Decimal ids\<close>

lemma inj_pad6: "inj pad6"
  by (rule inj_on_inverseI[of _ dec_val]) simp

lemma fresh_id_Some: "fresh_id entries rs = Some i \<Longrightarrow>
    hget entries i = None \<and> (\<exists>n<ID_SPACE. i = pad6 n)"
proof (induction rs)
  case (Cons r rs)
  then show ?case
    by (cases "hcontains entries (pad6 (unat r mod ID_SPACE))")
      (auto simp: Let_def hcontains_def ID_SPACE_def intro!: exI[of _ "unat r mod 1000000"])
qed simp

lemma fresh_id_exists:
  assumes "hvalid entries" "length entries < ID_SPACE"
  shows "\<exists>r. fresh_id entries [r] \<noteq> None"
proof -
  have "card (pad6 ` {..<ID_SPACE}) = ID_SPACE"
    by (simp add: card_image inj_on_subset[OF inj_pad6])
  then obtain n where n: "n < ID_SPACE" "hget entries (pad6 n) = None"
    using ht.fresh_key_exists[OF assms(1), of "pad6 ` {..<ID_SPACE}"] assms(2)
    by (auto simp: hkeys_def)
  have "n < 2 ^ 128" using n by (simp add: ID_SPACE_def)
  then have "unat (of_nat n :: u128) = n"
    by (simp add: unsigned_of_nat take_bit_nat_eq_self)
  then show ?thesis using n by (intro exI[of _ "of_nat n"]) (simp add: hcontains_def)
qed

subsection \<open>The listing\<close>

lemma set_insert_by [simp]: "set (insert_by le x xs) = insert x (set xs)"
  by (induction xs) auto

lemma set_sort_by [simp]: "set (sort_by le xs) = set xs"
  unfolding sort_by_def by (induction xs) auto

lemma mset_insert_by [simp]: "mset (insert_by le x xs) = add_mset x (mset xs)"
  by (induction xs) auto

lemma mset_sort_by [simp]: "mset (sort_by le xs) = mset xs"
  unfolding sort_by_def by (induction xs) auto

lemma sorted_insert_by:
  assumes total: "\<And>a b. le a b \<or> le b a" and trans: "\<And>a b c. le a b \<Longrightarrow> le b c \<Longrightarrow> le a c"
  shows "sorted_wrt le xs \<Longrightarrow> sorted_wrt le (insert_by le x xs)"
proof (induction xs)
  case (Cons y ys)
  then show ?case using total[of x y] by (auto intro: trans)
qed simp

lemma sorted_sort_by:
  assumes "\<And>a b. le a b \<or> le b a" "\<And>a b c. le a b \<Longrightarrow> le b c \<Longrightarrow> le a c"
  shows "sorted_wrt le (sort_by le xs)"
  unfolding sort_by_def by (induction xs) (simp_all add: sorted_insert_by[OF assms])

lemma id_less_trichotomy: "id_less s t \<or> s = t \<or> id_less t s"
  unfolding id_less_def
  by (rule lexord_linear) (metis case_prodI linorder_neqE_nat mem_Collect_eq of_char_eq_iff)

lemma id_less_trans: "id_less s t \<Longrightarrow> id_less t u \<Longrightarrow> id_less s u"
  unfolding id_less_def by (rule lexord_trans) (auto intro: transI)

lemma id_less_irrefl: "\<not> id_less s s"
  unfolding id_less_def by (rule lexord_irreflexive) auto

lemma not_id_less_iff: "\<not> id_less t s \<longleftrightarrow> id_less s t \<or> s = t"
  using id_less_trichotomy id_less_trans id_less_irrefl by blast

lemma summary_le_total: "summary_le a b \<or> summary_le b a"
proof -
  obtain t s t' s' where "a = (t, s)" "b = (t', s')" by (metis surj_pair)
  then show ?thesis using id_less_trichotomy[of "ps_id s" "ps_id s'"]
    by (auto simp: not_id_less_iff)
qed

lemma summary_le_trans:
  assumes "summary_le a b" "summary_le b c"
  shows "summary_le a c"
proof -
  obtain t s t' s' t'' s'' where "a = (t, s)" "b = (t', s')" "c = (t'', s'')" by (metis surj_pair)
  then show ?thesis using assms id_less_trans[of "ps_id s" "ps_id s'" "ps_id s''"]
    by (auto simp: not_id_less_iff)
qed

text \<open>
  the listing shows every pending request exactly once, oldest first and by id among requests
  of the same instant.
\<close>

theorem approvals_list_sorted_complete:
  "\<exists>xs. approvals_list now entries = map snd xs \<and> sorted_wrt summary_le xs
     \<and> mset xs = mset (map (\<lambda>(i, e). (created_at e, summarize now i e)) entries)"
proof (intro exI conjI)
  show "sorted_wrt summary_le
      (sort_by summary_le (map (\<lambda>(i, e). (created_at e, summarize now i e)) entries))"
    by (rule sorted_sort_by) (fact summary_le_total, fact summary_le_trans)
qed (simp_all add: approvals_list_def)

subsection \<open>The queue under concurrent waiters, decisions and timeouts\<close>

text \<open>
  The state of the running queue: the entries, the counter behind \<open>NEXT_TOKEN\<close>, the live waiters
  with what their channel holds, and two histories: the decisions the operator made (with the
  token of the entry that was decided) and the results the waiters got.
\<close>

record queue =
  q_entries :: Entries
  q_next :: nat
  q_waiters :: "(Pending \<times> bool option) list"
  q_decisions :: "(u64 \<times> bool) list"
  q_results :: "(u64 \<times> (ApprovalError + unit)) list"

definition queue_new :: queue where
  "queue_new = \<lparr>q_entries = [], q_next = 0, q_waiters = [], q_decisions = [], q_results = []\<rparr>"

definition deliver :: "u64 \<Rightarrow> bool \<Rightarrow> Pending \<times> bool option \<Rightarrow> Pending \<times> bool option" where
  "deliver tok allow w = (if pd_token (fst w) = tok then (fst w, Some allow) else w)"

text \<open>What a waiter can be woken by, given its channel and whether its sender is still queued.\<close>

definition wakes :: "bool option \<Rightarrow> bool \<Rightarrow> wakeup \<Rightarrow> bool" where
  "wakes ch queued w =
     (case w of
        Decision b \<Rightarrow> ch = Some b
      | SenderLost \<Rightarrow> ch = None \<and> \<not> queued
      | Elapsed r \<Rightarrow> r = ch)"

definition queued :: "Pending \<Rightarrow> Entries \<Rightarrow> bool" where
  "queued p entries = (case hget entries (pd_id p) of None \<Rightarrow> False | Some e \<Rightarrow> token e = pd_token p)"

inductive queue_run :: "queue \<Rightarrow> bool" where
  q_new: "queue_run queue_new"
| q_register: "queue_run q \<Longrightarrow> q_next q < 2 ^ 64 \<Longrightarrow>
    register_with req ids (of_nat (q_next q)) now (q_entries q) = Some (p, entries') \<Longrightarrow>
    queue_run (q\<lparr>q_entries := entries', q_next := Suc (q_next q),
                 q_waiters := (p, None) # q_waiters q\<rparr>)"
| q_decide: "queue_run q \<Longrightarrow> decide i allow (q_entries q) = (Some (tok, a), entries') \<Longrightarrow>
    queue_run (q\<lparr>q_entries := entries', q_waiters := map (deliver tok a) (q_waiters q),
                 q_decisions := (tok, a) # q_decisions q\<rparr>)"
| q_wake: "queue_run q \<Longrightarrow> q_waiters q = ws @ (p, ch) # ws' \<Longrightarrow>
    wakes ch (queued p (q_entries q)) w \<Longrightarrow> wait p w (q_entries q) = (res, entries') \<Longrightarrow>
    queue_run (q\<lparr>q_entries := entries', q_waiters := ws @ ws',
                 q_results := (pd_token p, res) # q_results q\<rparr>)"
| q_dropped: "queue_run q \<Longrightarrow> q_waiters q = ws @ (p, ch) # ws' \<Longrightarrow>
    queue_run (q\<lparr>q_entries := snd (remove_own p (q_entries q)), q_waiters := ws @ ws'\<rparr>)"

definition used :: "nat \<Rightarrow> u64 set" where
  "used n = of_nat ` {..<n}"

definition verdict :: "(u64 \<times> bool) list \<Rightarrow> u64 \<Rightarrow> bool option" where
  "verdict ds tok = map_of ds tok"

definition result_of :: "bool option \<Rightarrow> ApprovalError + unit" where
  "result_of v = (case v of Some True \<Rightarrow> Inr () | Some False \<Rightarrow> Inl Denied | None \<Rightarrow> Inl Timeout)"

text \<open>
  The invariant: tokens are not reused; the channel of a waiter holds exactly the verdict on its
  own token; the queue holds exactly the waiters without a verdict, each under its own id; and
  every result is the verdict of the waiter's token.
\<close>

definition queue_inv :: "queue \<Rightarrow> bool" where
  "queue_inv q \<longleftrightarrow> hvalid (q_entries q)
     \<and> distinct (map (pd_token \<circ> fst) (q_waiters q))
     \<and> (\<forall>p ch. (p, ch) \<in> set (q_waiters q) \<longrightarrow> pd_token p \<in> used (q_next q)
          \<and> ch = verdict (q_decisions q) (pd_token p)
          \<and> (ch = None \<longrightarrow> queued p (q_entries q)))
     \<and> (\<forall>i e. hget (q_entries q) i = Some e \<longrightarrow>
          (\<exists>p. (p, None) \<in> set (q_waiters q) \<and> pd_id p = i \<and> pd_token p = token e))
     \<and> fst ` set (q_decisions q) \<subseteq> used (q_next q)
     \<and> (\<forall>t r. (t, r) \<in> set (q_results q) \<longrightarrow> t \<in> used (q_next q)
          \<and> t \<notin> (pd_token \<circ> fst) ` set (q_waiters q)
          \<and> r = result_of (verdict (q_decisions q) t))"

lemma queue_invI:
  assumes "hvalid (q_entries q)"
    and "distinct (map (pd_token \<circ> fst) (q_waiters q))"
    and "\<And>p ch. (p, ch) \<in> set (q_waiters q) \<Longrightarrow> pd_token p \<in> used (q_next q)
          \<and> ch = verdict (q_decisions q) (pd_token p) \<and> (ch = None \<longrightarrow> queued p (q_entries q))"
    and "\<And>i e. hget (q_entries q) i = Some e \<Longrightarrow>
          \<exists>p. (p, None) \<in> set (q_waiters q) \<and> pd_id p = i \<and> pd_token p = token e"
    and "fst ` set (q_decisions q) \<subseteq> used (q_next q)"
    and "\<And>t r. (t, r) \<in> set (q_results q) \<Longrightarrow> t \<in> used (q_next q)
          \<and> t \<notin> (pd_token \<circ> fst) ` set (q_waiters q) \<and> r = result_of (verdict (q_decisions q) t)"
  shows "queue_inv q"
  using assms unfolding queue_inv_def by blast

lemma queue_invD:
  assumes "queue_inv q"
  shows queue_inv_valid: "hvalid (q_entries q)"
    and queue_inv_distinct: "distinct (map (pd_token \<circ> fst) (q_waiters q))"
    and queue_inv_waiter: "(p, ch) \<in> set (q_waiters q) \<Longrightarrow> pd_token p \<in> used (q_next q)
          \<and> ch = verdict (q_decisions q) (pd_token p) \<and> (ch = None \<longrightarrow> queued p (q_entries q))"
    and queue_inv_entry: "hget (q_entries q) i = Some e \<Longrightarrow>
          \<exists>p. (p, None) \<in> set (q_waiters q) \<and> pd_id p = i \<and> pd_token p = token e"
    and queue_inv_decisions: "fst ` set (q_decisions q) \<subseteq> used (q_next q)"
    and queue_inv_result: "(t, r) \<in> set (q_results q) \<Longrightarrow> t \<in> used (q_next q)
          \<and> t \<notin> (pd_token \<circ> fst) ` set (q_waiters q) \<and> r = result_of (verdict (q_decisions q) t)"
  using assms unfolding queue_inv_def by blast+

lemma same_waiter:
  assumes "queue_inv q" "(p, c) \<in> set (q_waiters q)" "(p', c') \<in> set (q_waiters q)"
    "pd_token p = pd_token p'"
  shows "(p, c) = (p', c')"
proof -
  have "inj_on (pd_token \<circ> fst) (set (q_waiters q))"
    using queue_inv_distinct[OF assms(1)] by (simp add: distinct_map)
  then show ?thesis by (rule inj_onD) (use assms in auto)
qed

lemma used_Suc: "used (Suc n) = insert (of_nat n) (used n)"
  by (auto simp: used_def lessThan_Suc)

lemma used_fresh: "n < 2 ^ 64 \<Longrightarrow> (of_nat n :: u64) \<notin> used n"
proof
  assume n: "n < 2 ^ 64" and "(of_nat n :: u64) \<in> used n"
  then obtain k where k: "k < n" "(of_nat n :: u64) = of_nat k" by (auto simp: used_def)
  have "unat (of_nat m :: u64) = m" if "m < 2 ^ 64" for m
    using that by (simp add: unsigned_of_nat take_bit_nat_eq_self)
  then show False using k n by (metis less_trans nat_neq_iff)
qed

lemma remove_own_eq:
  "remove_own p es = (queued p es, if queued p es then hremove (pd_id p) es else es)"
  by (simp add: remove_own_def queued_def Let_def)

lemma queued_removed [simp]: "\<not> queued p (snd (remove_own p es))"
  by (auto simp: remove_own_eq queued_def)

lemma remove_own_twice [simp]: "snd (remove_own p (snd (remove_own p es))) = snd (remove_own p es)"
  by (subst remove_own_eq) simp

lemma wait_entries: "snd (wait p w es) = snd (remove_own p es)"
proof -
  have "remove_own p es = (a, b) \<Longrightarrow> snd (remove_own p b) = b" for a b
    using remove_own_twice[of p es] by simp
  then show ?thesis
    by (cases "remove_own p es") (auto simp: wait_def split: wakeup.splits bool.splits)
qed

lemma wait_result:
  assumes "wakes ch (queued p es) w" "ch = None \<longleftrightarrow> queued p es"
  shows "fst (wait p w es) = result_of ch"
  using assms
  by (cases w; cases ch)
    (auto simp: wait_def wakes_def result_of_def remove_own_eq split: bool.splits if_splits)

lemma hget_remove_own:
  "hget (snd (remove_own p es)) i = (if queued p es \<and> i = pd_id p then None else hget es i)"
  by (simp add: remove_own_eq)

lemma queued_other:
  "pd_token p' \<noteq> pd_token p \<Longrightarrow> queued p' (snd (remove_own p es)) = queued p' es"
  by (auto simp: queued_def hget_remove_own split: option.splits)

lemma queue_inv_remove:
  assumes inv: "queue_inv q" and ws: "q_waiters q = ws @ (p, ch) # ws'"
  shows "queue_inv (q\<lparr>q_entries := snd (remove_own p (q_entries q)), q_waiters := ws @ ws'\<rparr>)"
    (is "queue_inv ?q")
proof (rule queue_invI)
  have dist: "distinct (map (pd_token \<circ> fst) (ws @ (p, ch) # ws'))"
    using queue_inv_distinct[OF inv] unfolding ws .
  then show "distinct (map (pd_token \<circ> fst) (q_waiters ?q))" by simp
  show "hvalid (q_entries ?q)"
    using queue_inv_valid[OF inv] by (simp add: remove_own_eq ht.valid_remove)
  fix i e assume "hget (q_entries ?q) i = Some e"
  then have e: "hget (q_entries q) i = Some e" "\<not> (queued p (q_entries q) \<and> i = pd_id p)"
    by (auto simp: hget_remove_own split: if_splits)
  then obtain p' where p': "(p', None) \<in> set (q_waiters q)" "pd_id p' = i" "pd_token p' = token e"
    using queue_inv_entry[OF inv] by blast
  have "p' \<noteq> p" using e p' by (auto simp: queued_def)
  then show "\<exists>p. (p, None) \<in> set (q_waiters ?q) \<and> pd_id p = i \<and> pd_token p = token e"
    using p' ws by auto
next
  fix p' c assume w: "(p', c) \<in> set (q_waiters ?q)"
  then have "(p', c) \<in> set (q_waiters q)" by (auto simp: ws)
  moreover have "pd_token p' \<noteq> pd_token p"
    using queue_inv_distinct[OF inv] w by (auto simp: ws image_iff)
  ultimately show "pd_token p' \<in> used (q_next ?q) \<and> c = verdict (q_decisions ?q) (pd_token p')
      \<and> (c = None \<longrightarrow> queued p' (q_entries ?q))"
    using queue_inv_waiter[OF inv] by (simp add: queued_other)
next
  fix t r assume "(t, r) \<in> set (q_results ?q)"
  then show "t \<in> used (q_next ?q) \<and> t \<notin> (pd_token \<circ> fst) ` set (q_waiters ?q)
      \<and> r = result_of (verdict (q_decisions ?q) t)"
    using queue_inv_result[OF inv, of t r] by (simp add: ws image_Un)
qed (use queue_inv_decisions[OF inv] in simp)

lemma queue_inv_channel:
  assumes "queue_inv q" "(p, ch) \<in> set (q_waiters q)"
  shows "ch = None \<longleftrightarrow> queued p (q_entries q)"
proof
  assume "queued p (q_entries q)"
  then obtain e where "hget (q_entries q) (pd_id p) = Some e" "token e = pd_token p"
    by (auto simp: queued_def split: option.splits)
  then obtain p' where "(p', None) \<in> set (q_waiters q)" "pd_token p' = pd_token p"
    using queue_inv_entry[OF assms(1)] by metis
  then show "ch = None" using same_waiter[OF assms(1)] assms(2) by blast
qed (use queue_inv_waiter[OF assms] in blast)

lemma queue_inv_add_result:
  assumes "queue_inv q" "t \<in> used (q_next q)" "t \<notin> (pd_token \<circ> fst) ` set (q_waiters q)"
    "r = result_of (verdict (q_decisions q) t)"
  shows "queue_inv (q\<lparr>q_results := (t, r) # q_results q\<rparr>)"
  using assms unfolding queue_inv_def by simp

lemma queue_inv_wake:
  assumes inv: "queue_inv q" and ws: "q_waiters q = ws @ (p, ch) # ws'"
    and wk: "wakes ch (queued p (q_entries q)) w" and wt: "wait p w (q_entries q) = (res, entries')"
  shows "queue_inv (q\<lparr>q_entries := entries', q_waiters := ws @ ws',
           q_results := (pd_token p, res) # q_results q\<rparr>)"
proof -
  have mem: "(p, ch) \<in> set (q_waiters q)" by (simp add: ws)
  have e: "entries' = snd (remove_own p (q_entries q))" and res: "res = result_of ch"
    using wt wait_entries[of p w "q_entries q"] wait_result[OF wk queue_inv_channel[OF inv mem]]
    by simp_all
  have fresh: "pd_token p \<notin> (pd_token \<circ> fst) ` set (ws @ ws')"
    using queue_inv_distinct[OF inv] by (auto simp: ws)
  show ?thesis
    using queue_inv_add_result[OF queue_inv_remove[OF inv ws], of "pd_token p" res]
      fresh queue_inv_waiter[OF inv mem]
    by (simp add: e res)
qed

lemma queue_inv_register:
  assumes inv: "queue_inv q" and n: "q_next q < 2 ^ 64"
    and reg: "register_with req ids (of_nat (q_next q)) now (q_entries q) = Some (p, entries')"
  shows "queue_inv (q\<lparr>q_entries := entries', q_next := Suc (q_next q),
           q_waiters := (p, None) # q_waiters q\<rparr>)"
    (is "queue_inv ?q")
proof -
  define tok :: u64 where "tok = of_nat (q_next q)"
  obtain i where i: "fresh_id (q_entries q) ids = Some i" "p = \<lparr>pd_id = i, pd_token = tok\<rparr>"
      "entries' = hinsert i \<lparr>token = tok, request = req, created_at = now\<rparr> (q_entries q)"
    using reg by (auto simp: register_with_def tok_def split: option.splits)
  have free: "hget (q_entries q) i = None" using fresh_id_Some[OF i(1)] by simp
  have fresh: "tok \<notin> used (q_next q)" using used_fresh[OF n] by (simp add: tok_def)
  have used: "used (q_next ?q) = insert tok (used (q_next q))" by (simp add: used_Suc tok_def)
  have undecided: "verdict (q_decisions q) tok = None"
    using queue_inv_decisions[OF inv] fresh by (auto simp: verdict_def map_of_eq_None_iff)
  have new: "tok \<notin> (pd_token \<circ> fst) ` set (q_waiters q)"
    using queue_inv_waiter[OF inv] fresh by fastforce
  have keep: "queued p' entries'" if "queued p' (q_entries q)" for p'
    using that free by (auto simp: queued_def i split: option.splits)
  show ?thesis
  proof (rule queue_invI)
    show "hvalid (q_entries ?q)" using queue_inv_valid[OF inv] by (simp add: i ht.valid_insert)
    show "distinct (map (pd_token \<circ> fst) (q_waiters ?q))"
      using queue_inv_distinct[OF inv] new by (simp add: i)
    show "fst ` set (q_decisions ?q) \<subseteq> used (q_next ?q)"
      using queue_inv_decisions[OF inv] unfolding used by auto
    show "pd_token p' \<in> used (q_next ?q) \<and> c = verdict (q_decisions ?q) (pd_token p')
        \<and> (c = None \<longrightarrow> queued p' (q_entries ?q))" if "(p', c) \<in> set (q_waiters ?q)" for p' c
    proof (cases "(p', c) = (p, None)")
      case True
      then show ?thesis using undecided unfolding used by (simp add: i queued_def)
    next
      case False
      then show ?thesis using that queue_inv_waiter[OF inv, of p' c] keep unfolding used by auto
    qed
    show "\<exists>p. (p, None) \<in> set (q_waiters ?q) \<and> pd_id p = j \<and> pd_token p = token e"
      if "hget (q_entries ?q) j = Some e" for j e
      using that queue_inv_entry[OF inv, of j e] by (auto simp: i split: if_splits)
    show "t \<in> used (q_next ?q) \<and> t \<notin> (pd_token \<circ> fst) ` set (q_waiters ?q)
        \<and> r = result_of (verdict (q_decisions ?q) t)" if "(t, r) \<in> set (q_results ?q)" for t r
      using that queue_inv_result[OF inv, of t r] fresh unfolding used by (auto simp: i)
  qed
qed

lemma verdict_Cons: "verdict ((tok, a) # ds) t = (if t = tok then Some a else verdict ds t)"
  by (simp add: verdict_def)

lemma set_map_deliver:
  "(p, c) \<in> set (map (deliver tok a) ws) \<longleftrightarrow>
     (if pd_token p = tok then c = Some a \<and> (\<exists>c'. (p, c') \<in> set ws) else (p, c) \<in> set ws)"
  by (force simp: deliver_def split: if_splits)

lemma queue_inv_decide:
  assumes inv: "queue_inv q" and dec: "decide i allow (q_entries q) = (Some (tok, a), entries')"
  shows "queue_inv (q\<lparr>q_entries := entries', q_waiters := map (deliver tok a) (q_waiters q),
           q_decisions := (tok, a) # q_decisions q\<rparr>)"
    (is "queue_inv ?q")
proof -
  obtain e where e: "hget (q_entries q) i = Some e" "token e = tok" "entries' = hremove i (q_entries q)"
    using dec by (auto simp: decide_def split: option.splits)
  obtain p where p: "(p, None) \<in> set (q_waiters q)" "pd_id p = i" "pd_token p = tok"
    using queue_inv_entry[OF inv e(1)] e by blast
  have tok: "tok \<in> used (q_next q)" using queue_inv_waiter[OF inv p(1)] p by simp
  have tokens: "map (pd_token \<circ> fst) (q_waiters ?q) = map (pd_token \<circ> fst) (q_waiters q)"
    by (auto simp: deliver_def)
  then have tokset: "(pd_token \<circ> fst) ` set (q_waiters ?q) = (pd_token \<circ> fst) ` set (q_waiters q)"
    by (metis list.set_map)
  have other: "pd_id p' \<noteq> i" if "queued p' (q_entries q)" "pd_token p' \<noteq> tok" for p'
    using that e by (auto simp: queued_def)
  show ?thesis
  proof (rule queue_invI)
    show "hvalid (q_entries ?q)" using queue_inv_valid[OF inv] by (simp add: e ht.valid_remove)
    show "distinct (map (pd_token \<circ> fst) (q_waiters ?q))"
      using queue_inv_distinct[OF inv] unfolding tokens .
    show "fst ` set (q_decisions ?q) \<subseteq> used (q_next ?q)"
      using queue_inv_decisions[OF inv] tok by auto
    show "pd_token p' \<in> used (q_next ?q) \<and> c = verdict (q_decisions ?q) (pd_token p')
        \<and> (c = None \<longrightarrow> queued p' (q_entries ?q))" if w: "(p', c) \<in> set (q_waiters ?q)" for p' c
    proof (cases "pd_token p' = tok")
      case True
      then show ?thesis using w tok by (simp add: set_map_deliver verdict_Cons del: set_map)
    next
      case False
      then have "(p', c) \<in> set (q_waiters q)" using w by (simp add: set_map_deliver del: set_map)
      then show ?thesis using queue_inv_waiter[OF inv, of p' c] False other[of p']
        by (auto simp: verdict_Cons e(3) queued_def)
    qed
    show "\<exists>p. (p, None) \<in> set (q_waiters ?q) \<and> pd_id p = j \<and> pd_token p = token f"
      if "hget (q_entries ?q) j = Some f" for j f
    proof -
      have f: "hget (q_entries q) j = Some f" "j \<noteq> i" using that e by (auto split: if_splits)
      then obtain p' where p': "(p', None) \<in> set (q_waiters q)" "pd_id p' = j" "pd_token p' = token f"
        using queue_inv_entry[OF inv] by blast
      then have "pd_token p' \<noteq> tok" using same_waiter[OF inv p'(1) p(1)] p f by auto
      then have "(p', None) \<in> set (q_waiters ?q)" using p' by (simp add: set_map_deliver del: set_map)
      then show ?thesis using p' by blast
    qed
    show "t \<in> used (q_next ?q) \<and> t \<notin> (pd_token \<circ> fst) ` set (q_waiters ?q)
        \<and> r = result_of (verdict (q_decisions ?q) t)" if "(t, r) \<in> set (q_results ?q)" for t r
    proof -
      have "tok \<in> (pd_token \<circ> fst) ` set (q_waiters q)" using p by force
      then have "t \<noteq> tok" using that queue_inv_result[OF inv, of t r] by auto
      then show ?thesis using that queue_inv_result[OF inv, of t r] unfolding tokset
        by (simp add: verdict_Cons)
    qed
  qed
qed

lemma queue_run_inv: "queue_run q \<Longrightarrow> queue_inv q"
proof (induction rule: queue_run.induct)
  case q_new
  then show ?case by (simp add: queue_inv_def queue_new_def)
qed (blast intro: queue_inv_register queue_inv_decide queue_inv_wake queue_inv_remove)+

text \<open>
  C5: however registrations, decisions, timeouts and dropped requests interleave, a waiter gets the
  answer of the operator on its own registration and on no other, even when its id was reused:
  it is approved exactly when the operator allowed it, denied exactly when the operator denied
  it, and it times out exactly when there was no decision, so a decision that races with the
  timeout is never lost.
\<close>

theorem waiter_gets_its_own_verdict:
  assumes "queue_run q" "(tok, res) \<in> set (q_results q)"
  shows "(res = Inr () \<longleftrightarrow> verdict (q_decisions q) tok = Some True)
     \<and> (res = Inl Denied \<longleftrightarrow> verdict (q_decisions q) tok = Some False)
     \<and> (res = Inl Timeout \<longleftrightarrow> verdict (q_decisions q) tok = None)"
  using queue_inv_result[OF queue_run_inv[OF assms(1)] assms(2)]
  by (auto simp: result_of_def split: option.splits bool.splits)

text \<open>One registration, approved.\<close>

definition example_request :: ApprovalRequest where
  "example_request = \<lparr>ar_method = ''login'', ar_cred_id = ''op:x'', ar_target_url = ''u'', ar_principal = ''uid:1''\<rparr>"

definition example_pending :: Pending where
  "example_pending = \<lparr>pd_id = pad6 7, pd_token = 0\<rparr>"

definition example_entries :: Entries where
  "example_entries = [(pad6 7, \<lparr>token = 0, request = example_request, created_at = 3\<rparr>)]"

definition example_waiting :: queue where
  "example_waiting = \<lparr>q_entries = example_entries, q_next = 1,
     q_waiters = [(example_pending, None)], q_decisions = [], q_results = []\<rparr>"

lemma example_waiting_run: "queue_run example_waiting"
proof -
  have "register_with example_request [7] (of_nat (q_next queue_new)) 3 (q_entries queue_new)
      = Some (example_pending, example_entries)"
    by (simp add: register_with_def queue_new_def hcontains_def example_pending_def
        example_entries_def ID_SPACE_def Let_def hinsert_def)
  from q_register[OF q_new _ this] show ?thesis
    by (simp add: queue_new_def example_waiting_def)
qed

definition example_done :: queue where
  "example_done = \<lparr>q_entries = [], q_next = 1, q_waiters = [], q_decisions = [(0, True)],
     q_results = [(0, Inr ())]\<rparr>"

lemma example_done_run: "queue_run example_done"
proof -
  have "decide (pad6 7) True (q_entries example_waiting) = (Some (0, True), [])"
    by (simp add: decide_def example_waiting_def example_entries_def hget_def hremove_def)
  note run = q_decide[OF example_waiting_run this]
  have d: "map (deliver 0 True) (q_waiters example_waiting) = [] @ (example_pending, Some True) # []"
    by (simp add: example_waiting_def deliver_def example_pending_def)
  have w: "wait example_pending (Decision True) [] = (Inr (), [])"
    by (simp add: wait_def remove_own_def)
  show ?thesis
    using q_wake[OF run, of "[]" example_pending "Some True" "[]" "Decision True" "Inr ()" "[]"] d w
    by (simp add: wakes_def example_done_def example_waiting_def example_pending_def)
qed

theorem waiter_gets_its_own_verdict_witness:
  "verdict (q_decisions example_done) 0 = Some True"
  using waiter_gets_its_own_verdict[OF example_done_run, of 0 "Inr ()"]
  by (simp add: example_done_def)

text \<open>
  C33: no entry outlives its waiter and every waiter without a verdict is listed: the ids in the
  queue are exactly those of the live undecided waiters, each under a six-digit id of its own.
\<close>

theorem queue_holds_the_undecided_waiters:
  assumes "queue_run q"
  shows "{(i, token e) | i e. hget (q_entries q) i = Some e}
      = {(pd_id p, pd_token p) | p. (p, None) \<in> set (q_waiters q)}
     \<and> (\<forall>p p'. (p, None) \<in> set (q_waiters q) \<longrightarrow> (p', None) \<in> set (q_waiters q) \<longrightarrow>
          pd_id p = pd_id p' \<longrightarrow> p = p')"
proof -
  note inv = queue_run_inv[OF assms]
  have q: "hget (q_entries q) (pd_id p) \<noteq> None
      \<and> token (the (hget (q_entries q) (pd_id p))) = pd_token p"
    if "(p, None) \<in> set (q_waiters q)" for p
    using queue_inv_channel[OF inv that] by (auto simp: queued_def split: option.splits)
  have "p = p'" if "(p, None) \<in> set (q_waiters q)" "(p', None) \<in> set (q_waiters q)" "pd_id p = pd_id p'"
    for p p'
    using same_waiter[OF inv that(1,2)] q[OF that(1)] q[OF that(2)] that(3) by simp
  moreover have "{(i, token e) | i e. hget (q_entries q) i = Some e}
      = {(pd_id p, pd_token p) | p. (p, None) \<in> set (q_waiters q)}"
    using q queue_inv_entry[OF inv] by (auto, metis, fastforce)
  ultimately show ?thesis by blast
qed

theorem queue_holds_the_undecided_waiters_witness:
  "{(i, token e) | i e. hget (q_entries example_waiting) i = Some e}
      = {(pd_id p, pd_token p) | p. (p, None) \<in> set (q_waiters example_waiting)}"
  using queue_holds_the_undecided_waiters[OF example_waiting_run] by blast

text \<open>
  registration ends: as long as fewer than a million requests are pending, some random value is
  accepted, and the loop stops at the first such value with an unused id of six decimal digits.
\<close>

theorem register_terminates:
  assumes "hvalid entries" "length entries < ID_SPACE"
  shows "\<exists>r. \<forall>ids rest. \<exists>p entries'. register_with req (ids @ r # rest) tok now entries = Some (p, entries')
     \<and> hget entries (pd_id p) = None \<and> pd_token p = tok
     \<and> length (pd_id p) = 6 \<and> list_all is_ascii_digit (pd_id p)
     \<and> hget entries' (pd_id p) = Some \<lparr>token = tok, request = req, created_at = now\<rparr>"
proof -
  obtain r where r: "fresh_id entries [r] \<noteq> None" using fresh_id_exists[OF assms] by blast
  have more: "\<exists>i. fresh_id entries (ids @ r # rest) = Some i" for ids rest
    using r by (induction ids) (auto simp: Let_def split: if_splits)
  show ?thesis
  proof (intro exI[of _ r] allI)
    fix ids rest
    obtain i where i: "fresh_id entries (ids @ r # rest) = Some i" using more by blast
    then obtain n where n: "hget entries i = None" "n < ID_SPACE" "i = pad6 n"
      using fresh_id_Some by blast
    then have "list_all is_ascii_digit i" "length i = 6"
      using pad6_digits length_pad6[of n] by (auto simp: list_all_iff ID_SPACE_def)
    then show "\<exists>p entries'. register_with req (ids @ r # rest) tok now entries = Some (p, entries')
     \<and> hget entries (pd_id p) = None \<and> pd_token p = tok
     \<and> length (pd_id p) = 6 \<and> list_all is_ascii_digit (pd_id p)
     \<and> hget entries' (pd_id p) = Some \<lparr>token = tok, request = req, created_at = now\<rparr>"
      using i n by (simp add: register_with_def)
  qed
qed

theorem register_terminates_witness:
  "\<exists>r. \<exists>p entries'. register_with example_request ([7] @ r # []) 1 4 example_entries = Some (p, entries')"
proof -
  have v: "hvalid example_entries" "length example_entries < ID_SPACE"
    by (simp_all add: example_entries_def hvalid_def ID_SPACE_def)
  show ?thesis using register_terminates[OF v, of example_request 1 4] by blast
qed

end
