(* ===== verification/Json.thy ===== *)
theory Json
  imports Tegata_Prelude
begin

section \<open>JSON values\<close>

text \<open>
  \<open>serde_json::Value\<close> and the accessors the sources call on it. A number is an integer of the
  range of \<open>i64\<close> and \<open>u64\<close> or a float, of which nothing is used but that it is no integer. An
  object is the list of its entries; \<open>jget\<close> returns the first entry of a key. Reading a text into
  a value and writing a value as text is the library's work: where a definition needs them they
  are its parameters.
\<close>

datatype json =
    JNull
  | JBool bool
  | JInt int
  | JFloat string
  | JStr string
  | JArr "json list"
  | JObj "(string \<times> json) list"

fun jget :: "json \<Rightarrow> string \<Rightarrow> json option" where
  "jget (JObj es) k = map_of es k"
| "jget _ k = None"

fun jas_str :: "json \<Rightarrow> string option" where
  "jas_str (JStr s) = Some s"
| "jas_str _ = None"

fun jas_bool :: "json \<Rightarrow> bool option" where
  "jas_bool (JBool b) = Some b"
| "jas_bool _ = None"

fun jas_u64 :: "json \<Rightarrow> nat option" where
  "jas_u64 (JInt n) = (if 0 \<le> n \<and> n < 2 ^ 64 then Some (nat n) else None)"
| "jas_u64 _ = None"

fun jas_array :: "json \<Rightarrow> json list option" where
  "jas_array (JArr xs) = Some xs"
| "jas_array _ = None"

fun jas_object :: "json \<Rightarrow> (string \<times> json) list option" where
  "jas_object (JObj es) = Some es"
| "jas_object _ = None"

definition jget_str :: "json \<Rightarrow> string \<Rightarrow> string option" where
  "jget_str v k = Option.bind (jget v k) jas_str"

definition jget_bool :: "json \<Rightarrow> string \<Rightarrow> bool option" where
  "jget_bool v k = Option.bind (jget v k) jas_bool"

definition jget_u64 :: "json \<Rightarrow> string \<Rightarrow> nat option" where
  "jget_u64 v k = Option.bind (jget v k) jas_u64"

definition jget_array :: "json \<Rightarrow> string \<Rightarrow> json list option" where
  "jget_array v k = Option.bind (jget v k) jas_array"

lemma jget_str_Some_iff: "jget_str v k = Some s \<longleftrightarrow> jget v k = Some (JStr s)"
  unfolding jget_str_def
  by (cases "jget v k") (auto elim: jas_str.elims)

lemma jget_bool_Some_iff: "jget_bool v k = Some b \<longleftrightarrow> jget v k = Some (JBool b)"
  unfolding jget_bool_def
  by (cases "jget v k") (auto elim: jas_bool.elims)

lemma jget_JObj_Cons [simp]:
  "jget (JObj ((k, v) # es)) k' = (if k' = k then Some v else jget (JObj es) k')"
  by simp

end
