(* ===== verification/Identity.thy ===== *)
theory Identity
  imports Json
begin

section \<open>Who is calling\<close>

text \<open>
  \<open>crates/tegatad/src/interop.rs\<close> (the walk up the process tree of a Windows client and its
  classification) and \<open>crates/tegatad/src/transport/mod.rs\<close> (the authenticated identity of a
  peer, what it may call, its principal and its audit fields, and the listener configuration).
\<close>

subsection \<open>The ancestors of a process\<close>

datatype Origin = Native | WslInterop | UnknownOrigin

definition Origin_as_str :: "Origin \<Rightarrow> string" where
  "Origin_as_str x =
     (case x of Native \<Rightarrow> ''native'' | WslInterop \<Rightarrow> ''wsl_interop'' | UnknownOrigin \<Rightarrow> ''unknown'')"

record ProcEntry =
  pid :: u32
  ppid :: u32
  exe :: string
  created :: "u64 option"

definition MAX_ANCESTRY_DEPTH :: nat where "MAX_ANCESTRY_DEPTH = 32"

datatype AncestryTermination =
  ClientMissing | ParentMissing | Root | Cycle | CreationTimeReversed | DepthLimit

definition AncestryTermination_as_str :: "AncestryTermination \<Rightarrow> string" where
  "AncestryTermination_as_str x =
     (case x of
        ClientMissing \<Rightarrow> ''client_missing''
      | ParentMissing \<Rightarrow> ''parent_missing''
      | Root \<Rightarrow> ''root''
      | Cycle \<Rightarrow> ''cycle''
      | CreationTimeReversed \<Rightarrow> ''creation_time_reversed''
      | DepthLimit \<Rightarrow> ''depth_limit'')"

datatype OriginWalk = Terminated AncestryTermination | SnapshotFailed

definition OriginWalk_as_str :: "OriginWalk \<Rightarrow> string" where
  "OriginWalk_as_str w =
     (case w of Terminated t \<Rightarrow> AncestryTermination_as_str t | SnapshotFailed \<Rightarrow> ''snapshot_failed'')"

record AncestryTrace =
  chain :: "ProcEntry list"
  trace_termination :: AncestryTermination

definition find_pid :: "u32 \<Rightarrow> ProcEntry list \<Rightarrow> ProcEntry option" where
  "find_pid p table = List.find (\<lambda>e. pid e = p) table"

definition created_after :: "ProcEntry \<Rightarrow> ProcEntry \<Rightarrow> bool" where
  "created_after parent child =
     (case (created child, created parent) of (Some c, Some p) \<Rightarrow> p > c | _ \<Rightarrow> False)"

text \<open>The loop of \<open>trace_ancestry\<close>; its first argument is the number of rounds left.\<close>

fun trace_loop :: "nat \<Rightarrow> u32 \<Rightarrow> ProcEntry list \<Rightarrow> ProcEntry list \<Rightarrow> AncestryTrace" where
  "trace_loop 0 current_pid ch table = \<lparr>chain = ch, trace_termination = DepthLimit\<rparr>"
| "trace_loop (Suc n) current_pid ch table =
     (case find_pid current_pid table of
        None \<Rightarrow> \<lparr>chain = ch, trace_termination = if ch = [] then ClientMissing else ParentMissing\<rparr>
      | Some current \<Rightarrow>
          (let ch = ch @ [current] in
           if ppid current = 0 then \<lparr>chain = ch, trace_termination = Root\<rparr>
           else if list_ex (\<lambda>e. pid e = ppid current) ch then \<lparr>chain = ch, trace_termination = Cycle\<rparr>
           else (case find_pid (ppid current) table of
                   None \<Rightarrow> \<lparr>chain = ch, trace_termination = ParentMissing\<rparr>
                 | Some parent \<Rightarrow>
                     if created_after parent current
                     then \<lparr>chain = ch, trace_termination = CreationTimeReversed\<rparr>
                     else trace_loop n (ppid current) ch table)))"

definition trace_ancestry :: "u32 \<Rightarrow> ProcEntry list \<Rightarrow> AncestryTrace" where
  "trace_ancestry client_pid table =
     (if client_pid = 0 then \<lparr>chain = [], trace_termination = ClientMissing\<rparr>
      else trace_loop (MAX_ANCESTRY_DEPTH + 1) client_pid [] table)"

definition basename :: "string \<Rightarrow> string" where
  "basename file = rev (takeWhile (\<lambda>c. c \<noteq> CHR 0x5C \<and> c \<noteq> CHR ''/'') (rev file))"

definition is_wsl_interop_executable :: "string \<Rightarrow> bool" where
  "is_wsl_interop_executable file =
     list_ex (eq_ignore_ascii_case (basename file))
       [''wsl.exe'', ''wslhost.exe'', ''wslservice.exe'', ''wslrelay.exe'', ''wslg.exe'']"

definition classify_ancestry :: "AncestryTrace \<Rightarrow> Origin" where
  "classify_ancestry trace =
     (if trace_termination trace = ClientMissing then UnknownOrigin
      else if list_ex (\<lambda>e. is_wsl_interop_executable (exe e)) (chain trace) then WslInterop
      else Native)"

subsection \<open>The identity of a peer\<close>

datatype PeerIdentity =
    Uid u32
  | Sid (sid: string) (elevated: bool) (administrator: bool) (normal_allowed: bool)
      (peer_pid: u32) (origin: Origin) (origin_walk: OriginWalk)
  | Peer (peer_id: string) (peer_label: string)
  | System

definition allows_normal_rpc :: "PeerIdentity \<Rightarrow> u32 list \<Rightarrow> bool" where
  "allows_normal_rpc peer allowed_uids =
     (case peer of
        Uid uid \<Rightarrow> uid \<in> set allowed_uids
      | Sid _ _ _ normal _ _ _ \<Rightarrow> normal
      | Peer _ _ \<Rightarrow> True
      | System \<Rightarrow> False)"

definition allows_admin_rpc :: "PeerIdentity \<Rightarrow> u32 list \<Rightarrow> bool" where
  "allows_admin_rpc peer operator_uids =
     (case peer of
        Uid uid \<Rightarrow> uid = 0 \<or> uid \<in> set operator_uids
      | Sid _ elev admin _ _ orig _ \<Rightarrow> elev \<and> admin \<and> orig = Native
      | Peer _ _ \<Rightarrow> False
      | System \<Rightarrow> False)"

definition principal_of :: "PeerIdentity \<Rightarrow> string" where
  "principal_of peer =
     (case peer of
        Uid uid \<Rightarrow> ''uid:'' @ decimal (unat uid)
      | Sid s _ _ _ _ _ _ \<Rightarrow> ''sid:'' @ s
      | Peer i _ \<Rightarrow> ''peer:'' @ i
      | System \<Rightarrow> ''system'')"

text \<open>The entries the audit record gets from the peer, in the order they are written.\<close>

definition serialize_peer :: "PeerIdentity \<Rightarrow> (string \<times> json) list" where
  "serialize_peer peer =
     (case peer of
        Uid uid \<Rightarrow> [(''peer_uid'', JInt (uint uid))]
      | Sid s elev admin _ p orig walk \<Rightarrow>
          [(''peer_sid'', JStr s), (''elevated'', JBool elev), (''administrator'', JBool admin),
           (''peer_pid'', JInt (uint p)), (''peer_origin'', JStr (Origin_as_str orig)),
           (''peer_origin_walk'', JStr (OriginWalk_as_str walk))]
      | Peer i label \<Rightarrow>
          [(''peer_token'', JBool True), (''peer_id'', JStr i), (''peer_label'', JStr label)]
      | System \<Rightarrow> [(''peer_system'', JBool True)])
     @ [(''principal'', JStr (principal_of peer))]"

datatype ListenConfig =
    LcUnix (path: string) (allowed_uids: "u32 list") (operator_uids: "u32 list")
  | LcTcp (bind_addr: string) (tcp_port: u16)
  | LcPipe (pipe_name: string) (allowed_sids: "string list") (operator_sid: "string option")

subsection \<open>The walk only reports what it verified\<close>

text \<open>One verified step of a chain: the parent's process id, no reuse visible in the times.\<close>

definition parent_step :: "ProcEntry \<Rightarrow> ProcEntry \<Rightarrow> bool" where
  "parent_step c p \<longleftrightarrow> ppid c = pid p \<and> ppid c \<noteq> 0 \<and> \<not> created_after p c"

definition verified_chain :: "u32 \<Rightarrow> ProcEntry list \<Rightarrow> ProcEntry list \<Rightarrow> bool" where
  "verified_chain client table ch \<longleftrightarrow>
     successively parent_step ch \<and> distinct (map pid ch) \<and> set ch \<subseteq> set table
     \<and> (case ch of [] \<Rightarrow> True | c # _ \<Rightarrow> pid c = client)"

text \<open>What the loop knows when a round starts.\<close>

definition walk_state :: "u32 \<Rightarrow> ProcEntry list \<Rightarrow> u32 \<Rightarrow> ProcEntry list \<Rightarrow> bool" where
  "walk_state client table cur ch \<longleftrightarrow> verified_chain client table ch
     \<and> (if ch = [] then cur = client
        else cur = ppid (last ch) \<and> cur \<noteq> 0 \<and> cur \<notin> pid ` set ch
             \<and> (\<exists>p. find_pid cur table = Some p \<and> \<not> created_after p (last ch)))"

lemma find_pid_SomeD: "find_pid p table = Some e \<Longrightarrow> e \<in> set table \<and> pid e = p"
  unfolding find_pid_def by (rule find_SomeD)

lemma find_pid_None_iff: "find_pid p table = None \<longleftrightarrow> p \<notin> pid ` set table"
  by (auto simp: find_pid_def find_None_iff)

lemma walk_state_push:
  assumes "walk_state client table cur ch" "find_pid cur table = Some e"
  shows "verified_chain client table (ch @ [e])"
proof -
  have e: "e \<in> set table" "pid e = cur" using find_pid_SomeD[OF assms(2)] by auto
  show ?thesis
  proof (cases "ch = []")
    case True
    then show ?thesis using assms e by (simp add: walk_state_def verified_chain_def)
  next
    case False
    then have "parent_step (last ch) e" "pid e \<notin> pid ` set ch"
      using assms e by (auto simp: walk_state_def parent_step_def)
    then show ?thesis using assms(1) e False
      by (auto simp: walk_state_def verified_chain_def successively_append_iff split: list.splits)
  qed
qed

lemma walk_state_next:
  assumes "verified_chain client table (ch @ [e])" "ppid e \<noteq> 0"
    "\<not> list_ex (\<lambda>f. pid f = ppid e) (ch @ [e])" "find_pid (ppid e) table = Some p"
    "\<not> created_after p e"
  shows "walk_state client table (ppid e) (ch @ [e])"
  using assms by (auto simp: walk_state_def list_ex_iff)

lemma trace_loop_verified:
  assumes "walk_state client table cur ch"
  shows "verified_chain client table (chain (trace_loop n cur ch table))"
  using assms
proof (induction n arbitrary: cur ch)
  case (Suc n)
  note push = walk_state_push[OF Suc.prems]
  show ?case
    using Suc.prems push Suc.IH walk_state_next[OF push]
    by (auto simp: Let_def walk_state_def split: option.splits if_splits)
qed (simp add: walk_state_def)

lemma trace_loop_length:
  "length (chain (trace_loop n cur ch table)) \<le> length ch + n"
proof (induction n arbitrary: cur ch)
  case (Suc n)
  have "length (chain (trace_loop n (ppid e) (ch @ [e]) table)) \<le> length ch + Suc n" for e
    using Suc.IH[of "ppid e" "ch @ [e]"] by simp
  then show ?case by (cases "ch = []") (simp_all add: Let_def split: option.splits)
qed simp

text \<open>How a walk ended says what its chain is.\<close>

lemma trace_loop_missing:
  "trace_termination (trace_loop n cur ch table) = ClientMissing \<Longrightarrow>
     ch = [] \<and> find_pid cur table = None \<and> chain (trace_loop n cur ch table) = []"
proof (induction n arbitrary: cur ch)
  case (Suc n)
  then show ?case using Suc.IH[of _ "ch @ _"]
    by (auto simp: Let_def split: option.splits if_splits)
qed simp

lemma trace_loop_depth:
  "trace_termination (trace_loop n cur ch table) = DepthLimit \<Longrightarrow>
     length (chain (trace_loop n cur ch table)) = length ch + n"
proof (induction n arbitrary: cur ch)
  case (Suc n)
  then show ?case using Suc.IH[of _ "ch @ _"]
    by (auto simp: Let_def split: option.splits if_splits)
qed simp

lemma trace_ancestry_missing_iff:
  "trace_termination (trace_ancestry client table) = ClientMissing \<longleftrightarrow>
     client = 0 \<or> find_pid client table = None"
proof -
  have "find_pid client table = None \<Longrightarrow> trace_termination (trace_loop (Suc 32) client [] table) = ClientMissing"
    by (simp only: trace_loop.simps) simp
  then show ?thesis
    using trace_loop_missing[of "Suc 32" client "[]" table]
    by (auto simp: trace_ancestry_def MAX_ANCESTRY_DEPTH_def simp del: trace_loop.simps)
qed

text \<open>
  C36: the walk up the process tree ends for every process table, cyclic ones too, after at most 33
  processes; the chain it returns starts at the client, has no process twice, and each process
  in it is the parent of the one before with no sign of a reused process id.
\<close>

theorem trace_ancestry_verified:
  "verified_chain client table (chain (trace_ancestry client table))
   \<and> length (chain (trace_ancestry client table)) \<le> MAX_ANCESTRY_DEPTH + 1
   \<and> (if trace_termination (trace_ancestry client table) = DepthLimit
      then length (chain (trace_ancestry client table)) = MAX_ANCESTRY_DEPTH + 1 else True)"
proof (cases "client = 0")
  case False
  have "walk_state client table client []" by (simp add: walk_state_def verified_chain_def)
  then show ?thesis
    using False trace_loop_verified[of client table client "[]" "Suc 32"]
      trace_loop_length[of "Suc 32" client "[]" table] trace_loop_depth[of "Suc 32" client "[]" table]
    by (auto simp: trace_ancestry_def MAX_ANCESTRY_DEPTH_def simp del: trace_loop.simps)
qed (simp add: trace_ancestry_def verified_chain_def MAX_ANCESTRY_DEPTH_def)

subsection \<open>Who may do what\<close>

text \<open>
  an identity built from the walk reaches the administrative calls exactly when its token is
  elevated and in the administrators group, its process is known (in particular its process id
  is not 0) and no process of the verified chain belongs to the Windows Subsystem for Linux.
\<close>

theorem admin_needs_a_native_known_process:
  "allows_admin_rpc (Sid s elev admin normal p (classify_ancestry (trace_ancestry p table)) walk) ops
   \<longleftrightarrow> elev \<and> admin \<and> p \<noteq> 0 \<and> p \<in> pid ` set table
     \<and> \<not> (\<exists>e. e \<in> set (chain (trace_ancestry p table)) \<and> is_wsl_interop_executable (exe e))"
proof -
  have "find_pid p table \<noteq> None \<longleftrightarrow> p \<in> pid ` set table"
    using find_pid_None_iff[of p table] by argo
  then show ?thesis
    using trace_ancestry_missing_iff[of p table]
    by (auto simp: allows_admin_rpc_def classify_ancestry_def list_ex_iff)
qed

text \<open>The callers that share sessions, grants and launch control.\<close>

definition same_caller :: "PeerIdentity \<Rightarrow> PeerIdentity \<Rightarrow> bool" where
  "same_caller a b =
     (case (a, b) of
        (Uid u, Uid v) \<Rightarrow> u = v
      | (Sid s _ _ _ _ _ _, Sid t _ _ _ _ _ _) \<Rightarrow> s = t
      | (Peer i _, Peer j _) \<Rightarrow> i = j
      | (System, System) \<Rightarrow> True
      | _ \<Rightarrow> False)"

text \<open>
  C37: the principal tells callers apart: two identities have the same principal exactly when they
  are of the same kind with the same uid, security identifier or peer id. Sessions, grants and
  launch limits are keyed by it.
\<close>

theorem principal_identifies_the_caller:
  "principal_of a = principal_of b \<longleftrightarrow> same_caller a b"
  by (cases a; cases b) (auto simp: principal_of_def same_caller_def word_unat_eq_iff)

end
