(* ===== verification/Peers.thy ===== *)
theory Peers
  imports Identity
begin

section \<open>The store of remote peers\<close>

text \<open>
  \<open>crates/tegatad/src/peers.rs\<close>: issuing, revoking and listing the peers that may connect over TCP,
  the check of a presented token against the stored SHA-256 digests, and the encodings involved
  (hexadecimal digests, base64url tokens, ULID peer ids). SHA-256 is a parameter. The store is the
  list in memory next to what is on disk; each write of \<open>peers.json\<close> succeeds or fails as its
  argument says, and random bytes and the clock are arguments.
\<close>

datatype io_error = InvalidData string | IoError string

record PeerRecord =
  pr_peer_id :: string
  pr_label :: string
  token_sha256 :: string
  issued_at :: string
  revoked_at :: "string option"

record IssuedPeer =
  ip_peer_id :: string
  ip_token :: string

record PeerStore =
  peers :: "PeerRecord list"
  on_disk :: "PeerRecord list"

subsection \<open>Encodings\<close>

definition hex_digits :: "byte list" where
  "hex_digits = as_bytes ''0123456789abcdef''"

definition digest_to_hex_bytes :: "byte list \<Rightarrow> byte list" where
  "digest_to_hex_bytes digest =
     concat (map (\<lambda>b. [hex_digits ! unat (drop_bit 4 b), hex_digits ! unat (b AND 0x0f)]) digest)"

definition hex_byte :: "byte \<Rightarrow> string" where
  "hex_byte b = [''0123456789abcdef'' ! (unat b div 16), ''0123456789abcdef'' ! (unat b mod 16)]"

definition digest_to_hex :: "byte list \<Rightarrow> string" where
  "digest_to_hex digest = concat (map hex_byte digest)"

definition token_hash_error :: io_error where
  "token_hash_error = InvalidData ''token hash must contain one 64-character lowercase SHA-256 hex line''"

definition decode_hex_digit :: "byte \<Rightarrow> io_error + byte" where
  "decode_hex_digit digit =
     (if 48 \<le> digit \<and> digit \<le> 57 then Inr (digit - 48)
      else if 97 \<le> digit \<and> digit \<le> 102 then Inr (digit - 97 + 10)
      else Inl token_hash_error)"

text \<open>The loop over \<open>chunks_exact(2)\<close>, which drops an odd last byte.\<close>

fun decode_hex_pairs :: "byte list \<Rightarrow> io_error + byte list" where
  "decode_hex_pairs (h # l # rest) =
     (case decode_hex_digit h of
        Inl e \<Rightarrow> Inl e
      | Inr high \<Rightarrow>
          (case decode_hex_digit l of
             Inl e \<Rightarrow> Inl e
           | Inr low \<Rightarrow> map_sum id (\<lambda>ds. (push_bit 4 high OR low) # ds) (decode_hex_pairs rest)))"
| "decode_hex_pairs _ = Inr []"

definition strip_line_end :: "byte list \<Rightarrow> byte list" where
  "strip_line_end contents =
     (case strip_suffix contents [10] of
        None \<Rightarrow> contents
      | Some c \<Rightarrow> (case strip_suffix c [13] of None \<Rightarrow> c | Some c' \<Rightarrow> c'))"

definition parse_token_digest :: "byte list \<Rightarrow> io_error + byte list" where
  "parse_token_digest contents =
     (let contents = strip_line_end contents in
      if length contents \<noteq> 64 then Inl token_hash_error else decode_hex_pairs contents)"

definition constant_time_equal :: "byte list \<Rightarrow> byte list \<Rightarrow> bool" where
  "constant_time_equal left right =
     (if length left \<noteq> length right then False
      else foldl (\<lambda>difference (l, r). difference OR (l XOR r)) 0 (zip left right) = 0)"

definition BASE64URL_ALPHABET :: string where
  "BASE64URL_ALPHABET = ''ABCDEFGHIJKLMNOPQRSTUVWXYZabcdefghijklmnopqrstuvwxyz0123456789-_''"

definition base64url_value :: "byte \<Rightarrow> byte \<Rightarrow> byte \<Rightarrow> u32" where
  "base64url_value a b c = push_bit 16 (ucast a) OR push_bit 8 (ucast b) OR ucast c"

definition base64url_char :: "u32 \<Rightarrow> nat \<Rightarrow> char" where
  "base64url_char v shift = BASE64URL_ALPHABET ! unat (drop_bit shift v AND 0x3f)"

fun base64url :: "byte list \<Rightarrow> string" where
  "base64url [] = []"
| "base64url [a] = (let v = base64url_value a 0 0 in [base64url_char v 18, base64url_char v 12])"
| "base64url [a, b] =
     (let v = base64url_value a b 0 in
      [base64url_char v 18, base64url_char v 12, base64url_char v 6])"
| "base64url (a # b # c # rest) =
     (let v = base64url_value a b c in
      [base64url_char v 18, base64url_char v 12, base64url_char v 6, base64url_char v 0]
        @ base64url rest)"

definition CROCKFORD_BASE32 :: string where
  "CROCKFORD_BASE32 = ''0123456789ABCDEFGHJKMNPQRSTVWXYZ''"

definition to_be_bytes64 :: "u64 \<Rightarrow> byte list" where
  "to_be_bytes64 w = map (\<lambda>i. ucast (drop_bit (8 * (7 - i)) w)) [0..<8]"

definition from_be_bytes128 :: "byte list \<Rightarrow> u128" where
  "from_be_bytes128 bs = foldl (\<lambda>v b. push_bit 8 v OR ucast b) 0 bs"

definition generate_ulid :: "u64 \<Rightarrow> byte list \<Rightarrow> string" where
  "generate_ulid millis random =
     (let milliseconds = millis AND (push_bit 48 1 - 1);
          value = from_be_bytes128 (drop 2 (to_be_bytes64 milliseconds) @ random)
      in map (\<lambda>index. CROCKFORD_BASE32 ! unat (drop_bit (125 - index * 5) value AND 0x1f)) [0..<26])"

definition current_timestamp :: "nat \<Rightarrow> string" where
  "current_timestamp seconds = ''unix:'' @ decimal seconds"

subsection \<open>Operations of the store\<close>

definition persist :: "bool \<Rightarrow> PeerStore \<Rightarrow> (io_error + unit) \<times> PeerStore" where
  "persist write_ok store =
     (if write_ok then (Inr (), store\<lparr>on_disk := peers store\<rparr>)
      else (Inl (IoError ''write failed''), store))"

definition is_active :: "PeerStore \<Rightarrow> string \<Rightarrow> bool" where
  "is_active store i =
     (case List.find (\<lambda>p. pr_peer_id p = i) (peers store) of
        None \<Rightarrow> False
      | Some p \<Rightarrow> revoked_at p = None)"

definition authenticator :: "PeerStore \<Rightarrow> byte list \<Rightarrow> PeerIdentity option" where
  "authenticator store digest =
     (let hash = digest_to_hex_bytes digest in
      foldl (\<lambda>identity p.
               if constant_time_equal (as_bytes (token_sha256 p)) hash
               then Some (Peer (pr_peer_id p) (pr_label p)) else identity)
        None (filter (\<lambda>p. revoked_at p = None) (peers store)))"

text \<open>
  \<open>issue\<close> takes the 32 random bytes of the token and what \<open>generate_ulid\<close> gets; an error of the
  random source comes before any change of the store.
\<close>

definition issue_peer ::
  "(byte list \<Rightarrow> byte list) \<Rightarrow> string \<Rightarrow> io_error + byte list \<Rightarrow> u64 \<Rightarrow> io_error + byte list
     \<Rightarrow> nat \<Rightarrow> bool \<Rightarrow> PeerStore \<Rightarrow> (io_error + IssuedPeer) \<times> PeerStore" where
  "issue_peer sha256 label token_bytes millis ulid_bytes now write_ok store =
     (case token_bytes of
        Inl e \<Rightarrow> (Inl e, store)
      | Inr tb \<Rightarrow>
          (let token = base64url tb; digest = sha256 (as_bytes token) in
           case ulid_bytes of
             Inl e \<Rightarrow> (Inl e, store)
           | Inr ub \<Rightarrow>
               (let p = \<lparr>pr_peer_id = ''p_'' @ generate_ulid millis ub, pr_label = label,
                         token_sha256 = digest_to_hex digest,
                         issued_at = current_timestamp now, revoked_at = None\<rparr>;
                    result = \<lparr>ip_peer_id = pr_peer_id p, ip_token = token\<rparr>;
                    store = store\<lparr>peers := peers store @ [p]\<rparr>
                in case persist write_ok store of
                     (Inl e, store) \<Rightarrow> (Inl e, store)
                   | (Inr _, store) \<Rightarrow> (Inr result, store))))"

fun set_revoked :: "string \<Rightarrow> string \<Rightarrow> PeerRecord list \<Rightarrow> PeerRecord list" where
  "set_revoked i t [] = []"
| "set_revoked i t (p # ps) =
     (if pr_peer_id p = i then p\<lparr>revoked_at := Some t\<rparr> # ps else p # set_revoked i t ps)"

definition revoke_peer :: "string \<Rightarrow> nat \<Rightarrow> bool \<Rightarrow> PeerStore \<Rightarrow> (io_error + bool) \<times> PeerStore" where
  "revoke_peer i now write_ok store =
     (case List.find (\<lambda>p. pr_peer_id p = i) (peers store) of
        None \<Rightarrow> (Inr False, store)
      | Some p \<Rightarrow>
          if revoked_at p = None
          then (let store = store\<lparr>peers := set_revoked i (current_timestamp now) (peers store)\<rparr> in
                case persist write_ok store of
                  (Inl e, store) \<Rightarrow> (Inl e, store)
                | (Inr _, store) \<Rightarrow> (Inr True, store))
          else (Inr True, store))"

definition list_peers :: "PeerStore \<Rightarrow> io_error + PeerRecord list" where
  "list_peers store = Inr (peers store)"

text \<open>
  \<open>load_or_import\<close>: \<open>stored\<close> is \<open>None\<close> when \<open>peers.json\<close> does not exist and otherwise the result of
  reading and parsing it; \<open>legacy\<close> likewise is the file of the old single token. The result comes
  with what \<open>peers.json\<close> holds afterwards and whether the legacy file was renamed.
\<close>

record load_result =
  lr_store :: "io_error + PeerStore"
  lr_written :: "PeerRecord list option"
  lr_renamed :: bool

definition load_failed :: "io_error \<Rightarrow> load_result" where
  "load_failed e = \<lparr>lr_store = Inl e, lr_written = None, lr_renamed = False\<rparr>"

fun first_digest_error :: "PeerRecord list \<Rightarrow> io_error option" where
  "first_digest_error [] = None"
| "first_digest_error (p # ps) =
     (case parse_token_digest (as_bytes (token_sha256 p)) of
        Inl e \<Rightarrow> Some e
      | Inr _ \<Rightarrow> first_digest_error ps)"

definition import_legacy ::
  "(io_error + byte list) option \<Rightarrow> nat \<Rightarrow> PeerRecord list \<Rightarrow> io_error + (PeerRecord list \<times> bool)" where
  "import_legacy legacy now ps =
     (if \<not> list_ex (\<lambda>p. pr_peer_id p = ''legacy'') ps \<and> legacy \<noteq> None
      then (case the legacy of
              Inl e \<Rightarrow> Inl e
            | Inr hash \<Rightarrow>
                (case parse_token_digest hash of
                   Inl e \<Rightarrow> Inl e
                 | Inr digest \<Rightarrow>
                     Inr (ps @ [\<lparr>pr_peer_id = ''legacy'', pr_label = ''legacy'',
                                  token_sha256 = digest_to_hex digest,
                                  issued_at = current_timestamp now, revoked_at = None\<rparr>], True)))
      else Inr (ps, False))"

definition load_or_import ::
  "(io_error + PeerRecord list) option \<Rightarrow> (io_error + byte list) option \<Rightarrow> nat \<Rightarrow> bool \<Rightarrow> bool
     \<Rightarrow> load_result" where
  "load_or_import stored legacy now write_ok rename_ok =
     (case (case stored of None \<Rightarrow> Inr [] | Some r \<Rightarrow> r) of
        Inl e \<Rightarrow> load_failed e
      | Inr ps \<Rightarrow>
          (case first_digest_error ps of
             Some e \<Rightarrow> load_failed e
           | None \<Rightarrow>
               (case import_legacy legacy now ps of
                  Inl e \<Rightarrow> load_failed e
                | Inr (ps, imported) \<Rightarrow>
                    if \<not> write_ok then load_failed (IoError ''write failed'')
                    else if imported \<or> legacy \<noteq> None
                    then (if rename_ok
                          then \<lparr>lr_store = Inr \<lparr>peers = ps, on_disk = ps\<rparr>, lr_written = Some ps, lr_renamed = True\<rparr>
                          else \<lparr>lr_store = Inl (IoError ''rename failed''), lr_written = Some ps, lr_renamed = False\<rparr>)
                    else \<lparr>lr_store = Inr \<lparr>peers = ps, on_disk = ps\<rparr>, lr_written = Some ps, lr_renamed = False\<rparr>)))"

subsection \<open>The encodings lose nothing\<close>

lemma xor_eq_0_iff_eq: "x XOR y = 0 \<longleftrightarrow> x = (y :: byte)"
  by (metis xor.assoc xor.left_neutral xor.right_neutral xor_self_eq)

lemma foldl_or_xor_eq_0:
  "length xs = length ys \<Longrightarrow>
     foldl (\<lambda>d (l, r). d OR (l XOR r)) (a :: byte) (zip xs ys) = 0 \<longleftrightarrow> a = 0 \<and> xs = ys"
proof (induction xs ys arbitrary: a rule: list_induct2)
  case (Cons x xs y ys)
  then show ?case by (simp add: or_eq_0_iff xor_eq_0_iff_eq)
qed simp

lemma nibbles_join: "push_bit 4 (drop_bit 4 b) OR (b AND 15) = (b :: byte)"
proof (rule bit_eqI)
  fix n
  show "bit (push_bit 4 (drop_bit 4 b) OR (b AND 15)) n = bit b n"
    unfolding mask_4 by (cases "n < 4") (auto simp: bit_simps dest: bit_imp_le_length)
qed

lemma hex_digit_tables:
  "k < 16 \<Longrightarrow> decode_hex_digit (hex_digits ! k) = Inr (of_nat k)"
  "k < 16 \<Longrightarrow> hex_digits ! k = of_char (''0123456789abcdef'' ! k)"
proof -
  have "\<forall>k\<in>set [0..<16]. decode_hex_digit (hex_digits ! k) = Inr (of_nat k)"
    "\<forall>k\<in>set [0..<16]. hex_digits ! k = of_char (''0123456789abcdef'' ! k)"
    by code_simp+
  then show "k < 16 \<Longrightarrow> decode_hex_digit (hex_digits ! k) = Inr (of_nat k)"
    "k < 16 \<Longrightarrow> hex_digits ! k = of_char (''0123456789abcdef'' ! k)" by simp_all
qed

lemma as_bytes_digest_to_hex: "as_bytes (digest_to_hex ds) = digest_to_hex_bytes ds"
proof -
  have "as_bytes (hex_byte b) = [hex_digits ! unat (drop_bit 4 b), hex_digits ! unat (b AND 0x0f)]" for b
    using nibble_less[of b] by (simp add: hex_byte_def as_bytes_def unat_high_nibble unat_low_nibble hex_digit_tables)
  then show ?thesis
    by (induction ds) (simp_all add: digest_to_hex_def digest_to_hex_bytes_def)
qed

lemma decode_hex_pairs_hex: "decode_hex_pairs (digest_to_hex_bytes ds) = Inr ds"
proof (induction ds)
  case (Cons b ds)
  have "decode_hex_digit (hex_digits ! unat (drop_bit 4 b)) = Inr (drop_bit 4 b)"
    using hex_digit_tables(1)[of "unat (drop_bit 4 b)"] nibble_less[of b]
    by (simp add: unat_high_nibble) (simp flip: unat_high_nibble)
  moreover have "decode_hex_digit (hex_digits ! unat (b AND 15)) = Inr (b AND 15)"
    using hex_digit_tables(1)[of "unat (b AND 15)"] by (simp add: unat_low_nibble) (simp flip: unat_low_nibble)
  ultimately show ?case using Cons nibbles_join[of b] by (simp add: digest_to_hex_bytes_def)
qed (simp add: digest_to_hex_bytes_def)

lemma length_digest_to_hex_bytes [simp]: "length (digest_to_hex_bytes ds) = 2 * length ds"
  by (induction ds) (simp_all add: digest_to_hex_bytes_def)

lemma hex_bytes_range:
  assumes "c \<in> set (digest_to_hex_bytes ds)"
  shows "c \<in> set hex_digits"
proof -
  have "hex_digits ! unat (drop_bit 4 b) \<in> set hex_digits" "hex_digits ! unat (b AND 15) \<in> set hex_digits"
    for b :: byte
    using nibble_less[of b] by (auto simp: unat_high_nibble unat_low_nibble hex_digits_def intro!: nth_mem)
  then show ?thesis using assms by (auto simp: digest_to_hex_bytes_def)
qed

lemma strip_line_end_hex:
  assumes "s \<in> {[], [10], [13, 10]}"
  shows "strip_line_end (digest_to_hex_bytes ds @ s) = digest_to_hex_bytes ds"
proof -
  have "c \<noteq> 10 \<and> c \<noteq> 13" if "c \<in> set hex_digits" for c
    using that by (auto simp: hex_digits_def as_bytes_def)
  then have no: "10 \<notin> set (digest_to_hex_bytes ds)" "13 \<notin> set (digest_to_hex_bytes ds)"
    using hex_bytes_range by blast+
  have none: "strip_suffix (digest_to_hex_bytes ds) [x] = None" if "x \<notin> set (digest_to_hex_bytes ds)" for x
    using that by (auto simp: strip_suffix_def ends_with_iff)
  have some: "strip_suffix (digest_to_hex_bytes ds @ [13, 10]) [10] = Some (digest_to_hex_bytes ds @ [13])"
    "strip_suffix (xs @ [x]) [x] = Some xs" for xs :: "byte list" and x
    by simp_all
  show ?thesis using assms none[OF no(1)] none[OF no(2)]
    by (auto simp: strip_line_end_def some simp del: strip_suffix_Some_iff)
qed

lemma base64url_alphabet: "distinct BASE64URL_ALPHABET" "length BASE64URL_ALPHABET = 64"
  by code_simp+

lemma mask_6: "(63 :: u32) = mask 6"
  by (simp add: mask_eq_exp_minus_1)

lemma base64url_char_inject:
  "base64url_char v s = base64url_char w t \<longleftrightarrow> take_bit 6 (drop_bit s v) = take_bit 6 (drop_bit t w)"
proof -
  have "unat (take_bit 6 x :: u32) < 64" for x
    using take_bit_nat_less_exp[of 6 "unat x"] by (simp add: unsigned_take_bit_eq)
  then show ?thesis
    unfolding base64url_char_def mask_6 take_bit_eq_mask[symmetric]
    by (simp add: nth_eq_iff_index_eq base64url_alphabet word_unat_eq_iff)
qed

lemma base64url_value_bits:
  assumes "base64url_char (base64url_value a b c) 18 = base64url_char (base64url_value a' b' c') 18"
    "base64url_char (base64url_value a b c) 12 = base64url_char (base64url_value a' b' c') 12"
    "base64url_char (base64url_value a b c) 6 = base64url_char (base64url_value a' b' c') 6"
    "base64url_char (base64url_value a b c) 0 = base64url_char (base64url_value a' b' c') 0"
  shows "a = a' \<and> b = b' \<and> c = c'"
proof -
  let ?v = "base64url_value a b c" and ?w = "base64url_value a' b' c'"
  have bits: "bit ?v (s + n) = bit ?w (s + n)" if "take_bit 6 (drop_bit s ?v) = take_bit 6 (drop_bit s ?w)" "n < 6" for s n
  proof -
    have "bit (take_bit 6 (drop_bit s ?v)) n = bit (take_bit 6 (drop_bit s ?w)) n" using that(1) by simp
    then show ?thesis using that(2) by (simp only: bit_take_bit_iff bit_drop_bit_eq comp_def simp_thms)
  qed
  have all: "bit ?v n = bit ?w n" if "n < 24" for n
  proof -
    have "n < 6 \<or> (6 \<le> n \<and> n < 12) \<or> (12 \<le> n \<and> n < 18) \<or> (18 \<le> n \<and> n < 24)" using that by linarith
    then show ?thesis
      using assms bits[of 0 n] bits[of 6 "n - 6"] bits[of 12 "n - 12"] bits[of 18 "n - 18"]
      by (auto simp: base64url_char_inject)
  qed
  have "bit a n = bit a' n" "bit b n = bit b' n" "bit c n = bit c' n" if "n < 8" for n
    using all[of "n + 16"] all[of "n + 8"] all[of n] that
    by (auto simp: base64url_value_def bit_simps dest: bit_imp_le_length)
  then show ?thesis by (auto intro!: bit_eqI)
qed

lemma base64url_length: "length (base64url bs) = (8 * length bs + 5) div 6"
  by (induction bs rule: base64url.induct) (auto simp: Let_def)

lemma base64url_value_1:
  assumes "base64url_char (base64url_value a 0 0) 18 = base64url_char (base64url_value a' 0 0) 18"
    "base64url_char (base64url_value a 0 0) 12 = base64url_char (base64url_value a' 0 0) 12"
  shows "a = a'"
proof -
  have z: "base64url_char (base64url_value x 0 0) 6 = CHR ''A'' \<and> base64url_char (base64url_value x 0 0) 0 = CHR ''A''" for x
  proof -
    have "take_bit 6 (drop_bit s (base64url_value x 0 0)) = 0" if "s = 6 \<or> s = 0" for s
      using that by (auto simp: base64url_value_def bit_simps intro!: bit_eqI)
    from this[of 6] this[of 0] show ?thesis unfolding base64url_char_def mask_6 take_bit_eq_mask[symmetric]
      by (simp add: BASE64URL_ALPHABET_def)
  qed
  show ?thesis using base64url_value_bits[of a 0 0 a' 0 0] assms z by simp
qed

lemma base64url_value_2:
  assumes "base64url_char (base64url_value a b 0) 18 = base64url_char (base64url_value a' b' 0) 18"
    "base64url_char (base64url_value a b 0) 12 = base64url_char (base64url_value a' b' 0) 12"
    "base64url_char (base64url_value a b 0) 6 = base64url_char (base64url_value a' b' 0) 6"
  shows "a = a' \<and> b = b'"
proof -
  have "base64url_char (base64url_value x y 0) 0 = CHR ''A''" for x y
  proof -
    have "take_bit 6 (base64url_value x y 0) = 0"
      by (auto simp: base64url_value_def bit_simps intro!: bit_eqI)
    then show ?thesis unfolding base64url_char_def mask_6 take_bit_eq_mask[symmetric]
      by (simp add: BASE64URL_ALPHABET_def)
  qed
  then show ?thesis using base64url_value_bits[of a b 0 a' b' 0] assms by simp
qed

lemma base64url_inject_length:
  "length xs = length ys \<Longrightarrow> base64url xs = base64url ys \<Longrightarrow> xs = ys"
proof (induction xs arbitrary: ys rule: base64url.induct)
  case (2 a)
  then show ?case by (cases ys rule: base64url.cases) (auto simp: Let_def dest: base64url_value_1)
next
  case (3 a b)
  then show ?case by (cases ys rule: base64url.cases) (auto simp: Let_def dest: base64url_value_2)
next
  case (4 a b c rest)
  then show ?case by (cases ys rule: base64url.cases) (auto simp: Let_def dest: base64url_value_bits)
qed simp

lemma base64url_length_strict:
  assumes "m < n"
  shows "(8 * m + 5) div 6 < (8 * n + 5 :: nat) div 6"
proof -
  have "(8 * m + 5 + 6) div 6 \<le> (8 * n + 5) div 6" using assms by (intro div_le_mono) simp
  then show ?thesis by simp
qed

lemma base64url_inject: "base64url xs = base64url ys \<Longrightarrow> xs = ys"
proof -
  assume eq: "base64url xs = base64url ys"
  then have "(8 * length xs + 5) div 6 = (8 * length ys + 5) div 6" by (metis base64url_length)
  then have "length xs = length ys"
    using base64url_length_strict nat_neq_iff by (metis less_irrefl)
  then show "xs = ys" using eq by (rule base64url_inject_length)
qed

lemma crockford_alphabet: "distinct CROCKFORD_BASE32" "length CROCKFORD_BASE32 = 32"
  by code_simp+

lemma mask_5: "(31 :: u128) = mask 5"
  by (simp add: mask_eq_exp_minus_1)

lemma ulid_groups_inject:
  fixes v w :: u128
  assumes "map (\<lambda>i. CROCKFORD_BASE32 ! unat (drop_bit (125 - i * 5) v AND 0x1f)) [0..<26]
     = map (\<lambda>i. CROCKFORD_BASE32 ! unat (drop_bit (125 - i * 5) w AND 0x1f)) [0..<26]"
  shows "v = w"
proof (rule bit_word_eqI)
  have lt: "unat (take_bit 5 x :: u128) < 32" for x
    using take_bit_nat_less_exp[of 5 "unat x"] by (simp add: unsigned_take_bit_eq)
  fix n assume "n < LENGTH(128)"
  then have n: "n < 128" by simp
  define i where "i = (25 - n div 5)"
  have i: "i < 26" "125 - i * 5 \<le> n" "n - (125 - i * 5) < 5"
    using n by (auto simp: i_def)
  have "CROCKFORD_BASE32 ! unat (drop_bit (125 - i * 5) v AND 0x1f) = CROCKFORD_BASE32 ! unat (drop_bit (125 - i * 5) w AND 0x1f)"
    using assms i(1) by (simp add: map_eq_conv)
  then have "take_bit 5 (drop_bit (125 - i * 5) v) = take_bit 5 (drop_bit (125 - i * 5) w)"
    unfolding mask_5 take_bit_eq_mask[symmetric]
    using lt by (simp add: nth_eq_iff_index_eq crockford_alphabet word_unat_eq_iff)
  then have "bit (take_bit 5 (drop_bit (125 - i * 5) v)) (n - (125 - i * 5)) = bit (take_bit 5 (drop_bit (125 - i * 5) w)) (n - (125 - i * 5))"
    by simp
  then show "bit v n = bit w n"
    using i by (simp add: bit_take_bit_iff bit_drop_bit_eq)
qed

lemma from_be_bytes128_snoc: "from_be_bytes128 (bs @ [b]) = push_bit 8 (from_be_bytes128 bs) OR ucast b"
  by (simp add: from_be_bytes128_def)

lemma from_be_bytes128_bound: "length bs \<le> 16 \<Longrightarrow> bit (from_be_bytes128 bs) n \<Longrightarrow> n < 8 * length bs"
proof (induction bs arbitrary: n rule: rev_induct)
  case (snoc b bs)
  show ?case
  proof (cases "n < 8")
    case False
    then have "bit (from_be_bytes128 bs) (n - 8)"
      using snoc.prems by (auto simp: from_be_bytes128_snoc bit_simps dest: bit_imp_le_length)
    then show ?thesis using snoc.IH[of "n - 8"] snoc.prems by simp
  qed simp
qed (simp add: from_be_bytes128_def)

lemma from_be_bytes128_inject:
  "length xs = length ys \<Longrightarrow> length xs \<le> 16 \<Longrightarrow> from_be_bytes128 xs = from_be_bytes128 ys \<Longrightarrow> xs = ys"
proof (induction xs arbitrary: ys rule: rev_induct)
  case (snoc x xs)
  then obtain ys' y where ys: "ys = ys' @ [y]" "length ys' = length xs"
    by (cases ys rule: rev_cases) auto
  have eq: "bit (push_bit 8 (from_be_bytes128 xs) OR ucast x) n = bit (push_bit 8 (from_be_bytes128 ys') OR ucast y) n" for n
    using snoc.prems by (simp add: ys from_be_bytes128_snoc)
  have "bit x n = bit y n" if "n < 8" for n
    using eq[of n] that by (simp add: bit_simps)
  then have "x = y" by (auto intro: bit_eqI)
  moreover have "bit (from_be_bytes128 xs) n = bit (from_be_bytes128 ys') n" for n
  proof (cases "n < 120")
    case True
    then show ?thesis using eq[of "n + 8"] by (auto simp: bit_simps dest: bit_imp_le_length)
  next
    case False
    then show ?thesis using from_be_bytes128_bound[of xs n] from_be_bytes128_bound[of ys' n] snoc.prems ys
      by (auto)
  qed
  then have "from_be_bytes128 xs = from_be_bytes128 ys'" by (auto intro: bit_eqI)
  then have "xs = ys'" using snoc ys by simp
  ultimately show ?case using ys by simp
qed simp

lemma length_to_be_bytes64 [simp]: "length (to_be_bytes64 w) = 8"
  by (simp add: to_be_bytes64_def)

lemma to_be_bytes64_tail_inject:
  assumes "drop 2 (to_be_bytes64 v) = drop 2 (to_be_bytes64 w)" "take_bit 48 v = v" "take_bit 48 w = w"
  shows "v = w"
proof (rule bit_word_eqI)
  fix n assume "n < LENGTH(64)"
  show "bit v n = bit w n"
  proof (cases "n < 48")
    case True
    define i where "i = 7 - n div 8"
    have i: "2 \<le> i" "i < 8" "n = 8 * (7 - i) + n mod 8" using True by (auto simp: i_def)
    have "to_be_bytes64 v ! i = to_be_bytes64 w ! i"
      using arg_cong[OF assms(1), of "\<lambda>l. l ! (i - 2)"] i(1,2) by (simp add: Suc_diff_Suc numeral_2_eq_2)
    then have "bit (ucast (drop_bit (8 * (7 - i)) v) :: byte) (n mod 8) = bit (ucast (drop_bit (8 * (7 - i)) w) :: byte) (n mod 8)"
      using i by (simp add: to_be_bytes64_def)
    then have "bit v (8 * (7 - i) + n mod 8) = bit w (8 * (7 - i) + n mod 8)"
      by (simp add: bit_simps)
    then show ?thesis using i(3) by simp
  next
    case False
    then show ?thesis using assms(2,3) by (metis bit_take_bit_iff)
  qed
qed

lemma generate_ulid_inject:
  assumes "length r = 10" "length r' = 10" "generate_ulid m r = generate_ulid m' r'"
  shows "m AND mask 48 = m' AND mask 48 \<and> r = r'"
proof -
  have mask: "push_bit 48 1 - 1 = (mask 48 :: u64)" by (simp add: mask_eq_exp_minus_1)
  let ?bytes = "\<lambda>m. drop 2 (to_be_bytes64 (m AND mask 48))"
  have "from_be_bytes128 (?bytes m @ r) = from_be_bytes128 (?bytes m' @ r')"
    using assms(3) unfolding generate_ulid_def mask Let_def by (rule ulid_groups_inject)
  then have "?bytes m @ r = ?bytes m' @ r'"
    by (rule from_be_bytes128_inject[rotated 2]) (simp_all add: assms)
  then have "?bytes m = ?bytes m'" "r = r'" by simp_all
  moreover have "take_bit 48 (x AND mask 48) = x AND mask 48" for x :: u64
    by (simp flip: take_bit_eq_mask)
  ultimately show ?thesis using to_be_bytes64_tail_inject by blast
qed

lemma constant_time_equal_iff: "constant_time_equal left right \<longleftrightarrow> left = right"
  unfolding constant_time_equal_def by (auto simp: foldl_or_xor_eq_0)

lemma digest_to_hex_bytes_inject: "digest_to_hex_bytes d = digest_to_hex_bytes d' \<longleftrightarrow> d = d'"
  by (metis decode_hex_pairs_hex sum.inject(2))

lemma digest_matches: "constant_time_equal (as_bytes (digest_to_hex d)) (digest_to_hex_bytes d') \<longleftrightarrow> d = d'"
  by (simp add: constant_time_equal_iff as_bytes_digest_to_hex digest_to_hex_bytes_inject)

text \<open>
  a digest written as the store writes it, with no line end, a line feed or a carriage return
  and a line feed, is read back as the same 32 bytes, and the comparison that runs in constant
  time is equality of the byte strings.
\<close>

theorem token_digest_roundtrip:
  assumes "length digest = 32" "line_end \<in> {[], [10], [13, 10]}"
  shows "parse_token_digest (as_bytes (digest_to_hex digest) @ line_end) = Inr digest
     \<and> constant_time_equal left right = (left = right)"
  using assms
  by (simp add: parse_token_digest_def as_bytes_digest_to_hex strip_line_end_hex
      decode_hex_pairs_hex constant_time_equal_iff Let_def)

theorem token_digest_roundtrip_witness:
  "parse_token_digest (as_bytes (digest_to_hex (replicate 32 0xab)) @ [10]) = Inr (replicate 32 0xab)
     \<and> constant_time_equal [1] [2] = ([1] = [2 :: byte])"
  by (rule token_digest_roundtrip) simp_all

subsection \<open>Who gets in\<close>

lemma foldl_last_match:
  "foldl (\<lambda>identity p. if P p then Some (f p) else identity) a ps =
     (case List.find P (rev ps) of None \<Rightarrow> a | Some p \<Rightarrow> Some (f p))"
proof (induction ps arbitrary: a)
  case (Cons p ps)
  have "List.find P (rev ps @ [p]) = (case List.find P (rev ps) of None \<Rightarrow> if P p then Some p else None | Some q \<Rightarrow> Some q)"
    by (simp add: find_append split: option.splits)
  then show ?case using Cons by (auto split: option.splits)
qed simp

definition active_peers :: "PeerStore \<Rightarrow> PeerRecord list" where
  "active_peers store = filter (\<lambda>p. revoked_at p = None) (peers store)"

lemma authenticator_eq:
  "authenticator store digest =
     map_option (\<lambda>p. Peer (pr_peer_id p) (pr_label p))
       (List.find (\<lambda>p. as_bytes (token_sha256 p) = digest_to_hex_bytes digest) (rev (active_peers store)))"
  unfolding authenticator_def Let_def foldl_last_match active_peers_def constant_time_equal_iff
  by (simp split: option.splits)

lemma authenticator_SomeD:
  "authenticator store digest = Some identity \<Longrightarrow>
     \<exists>p \<in> set (peers store). revoked_at p = None \<and> identity = Peer (pr_peer_id p) (pr_label p)
        \<and> as_bytes (token_sha256 p) = digest_to_hex_bytes digest"
  by (auto simp: authenticator_eq active_peers_def dest!: find_SomeD)

lemma issue_peer_authenticates:
  assumes "issue_peer sha256 label token_bytes millis ulid_bytes now write_ok store = (Inr issued, store')"
  shows "authenticator store' (sha256 (as_bytes (ip_token issued))) = Some (Peer (ip_peer_id issued) label)
     \<and> on_disk store' = peers store'
     \<and> (digest \<noteq> sha256 (as_bytes (ip_token issued)) \<longrightarrow> authenticator store' digest = authenticator store digest)"
proof -
  obtain tb ub where b: "token_bytes = Inr tb" "ulid_bytes = Inr ub" "write_ok"
    using assms by (auto simp: issue_peer_def persist_def Let_def split: sum.splits if_splits)
  define p where "p = \<lparr>pr_peer_id = ''p_'' @ generate_ulid millis ub, pr_label = label,
      token_sha256 = digest_to_hex (sha256 (as_bytes (base64url tb))),
      issued_at = current_timestamp now, revoked_at = None\<rparr>"
  have "store' = \<lparr>peers = peers store @ [p], on_disk = peers store @ [p]\<rparr>"
    and "issued = \<lparr>ip_peer_id = pr_peer_id p, ip_token = base64url tb\<rparr>"
    using assms b by (auto simp: issue_peer_def persist_def Let_def p_def)
  moreover have "as_bytes (token_sha256 p) = digest_to_hex_bytes d \<longleftrightarrow> d = sha256 (as_bytes (base64url tb))" for d
    by (auto simp: p_def as_bytes_digest_to_hex digest_to_hex_bytes_inject)
  ultimately show ?thesis
    by (auto simp: authenticator_eq active_peers_def find_append p_def)
qed

text \<open>
  the token handed out by a successful \<open>issue\<close> authenticates as the new peer, the new peer is
  written to disk, and tokens with another digest authenticate exactly as before.
\<close>

theorem issued_token_authenticates:
  assumes "issue_peer sha256 label token_bytes millis ulid_bytes now write_ok store = (Inr issued, store')"
  shows "authenticator store' (sha256 (as_bytes (ip_token issued))) = Some (Peer (ip_peer_id issued) label)
     \<and> on_disk store' = peers store'
     \<and> (digest \<noteq> sha256 (as_bytes (ip_token issued)) \<longrightarrow> authenticator store' digest = authenticator store digest)"
  by (rule issue_peer_authenticates[OF assms])

definition example_sha256 :: "byte list \<Rightarrow> byte list" where
  "example_sha256 bs = replicate 32 (of_nat (length bs))"

definition example_store :: PeerStore where
  "example_store = snd (issue_peer example_sha256 ''box'' (Inr (replicate 32 7)) 5 (Inr (replicate 10 9)) 3 True
     \<lparr>peers = [], on_disk = []\<rparr>)"

lemma example_issue:
  "issue_peer example_sha256 ''box'' (Inr (replicate 32 7)) 5 (Inr (replicate 10 9)) 3 True \<lparr>peers = [], on_disk = []\<rparr>
   = (Inr \<lparr>ip_peer_id = ''p_'' @ generate_ulid 5 (replicate 10 9), ip_token = base64url (replicate 32 7)\<rparr>, example_store)"
  by (simp add: example_store_def issue_peer_def persist_def Let_def)

theorem issued_token_authenticates_witness:
  "authenticator example_store (example_sha256 (as_bytes (base64url (replicate 32 7))))
     = Some (Peer (''p_'' @ generate_ulid 5 (replicate 10 9)) ''box'')"
  using issued_token_authenticates[OF example_issue] by simp

subsection \<open>Revocation\<close>

lemma set_set_revoked:
  "p \<in> set (set_revoked i t ps) \<Longrightarrow> revoked_at p = None \<Longrightarrow> p \<in> set ps"
  by (induction ps) (auto split: if_splits)

lemma set_revoked_ids [simp]: "map pr_peer_id (set_revoked i t ps) = map pr_peer_id ps"
  by (induction ps) auto

lemma set_revoked_active:
  assumes "distinct (map pr_peer_id ps)" "p \<in> set (set_revoked i t ps)" "revoked_at p = None"
  shows "pr_peer_id p \<noteq> i"
  using assms
proof (induction ps)
  case (Cons q ps)
  then show ?case by (auto split: if_splits) (metis image_eqI)
qed simp

lemma find_set_revoked:
  "List.find (\<lambda>p. pr_peer_id p = i) (set_revoked i t ps) =
     map_option (\<lambda>p. p\<lparr>revoked_at := Some t\<rparr>) (List.find (\<lambda>p. pr_peer_id p = i) ps)"
  by (induction ps) auto

lemma set_revoked_others:
  "p \<in> set ps \<Longrightarrow> pr_peer_id p \<noteq> i \<Longrightarrow> p \<in> set (set_revoked i t ps)"
  by (induction ps) auto

lemma peers_revoke_peer:
  "peers (snd (revoke_peer i now ok store)) =
     (case List.find (\<lambda>p. pr_peer_id p = i) (peers store) of
        Some p \<Rightarrow> if revoked_at p = None then set_revoked i (current_timestamp now) (peers store) else peers store
      | None \<Rightarrow> peers store)"
  by (auto simp: revoke_peer_def persist_def Let_def split: option.splits)

text \<open>
  C25: whatever the outcome of the write, a revoked peer is inactive in the running daemon and no
  token authenticates as it any more, peer ids stay distinct, and every other peer keeps its
  record.
\<close>

theorem revoked_peer_is_out:
  assumes "distinct (map pr_peer_id (peers store))"
    and "store' = snd (revoke_peer i now write_ok store)"
  shows "\<not> is_active store' i \<and> authenticator store' digest \<noteq> Some (Peer i label)
     \<and> distinct (map pr_peer_id (peers store'))
     \<and> (pr_peer_id p \<noteq> i \<longrightarrow> p \<in> set (peers store) \<longrightarrow> p \<in> set (peers store'))"
proof -
  have ps: "peers store' = (case List.find (\<lambda>p. pr_peer_id p = i) (peers store) of
        Some p \<Rightarrow> if revoked_at p = None then set_revoked i (current_timestamp now) (peers store) else peers store
      | None \<Rightarrow> peers store)"
    unfolding assms(2) by (rule peers_revoke_peer)
  have ids: "map pr_peer_id (peers store') = map pr_peer_id (peers store)"
    by (simp add: ps split: option.splits)
  have inactive: "\<not> is_active store' i"
    by (auto simp: is_active_def ps find_set_revoked split: option.splits)
  have gone: "pr_peer_id q \<noteq> i" if q: "q \<in> set (peers store')" "revoked_at q = None" for q
  proof
    assume "pr_peer_id q = i"
    then obtain r where r: "List.find (\<lambda>p. pr_peer_id p = i) (peers store') = Some r"
      using q by (cases "List.find (\<lambda>p. pr_peer_id p = i) (peers store')") (auto simp: find_None_iff)
    then have "r = q"
      using find_SomeD[OF r] q ids assms(1) \<open>pr_peer_id q = i\<close> by (metis distinct_map inj_onD)
    then show False using inactive r q by (simp add: is_active_def)
  qed
  then have "authenticator store' digest \<noteq> Some (Peer i label)"
    using authenticator_SomeD by blast
  then show ?thesis
    using inactive ids assms(1) by (auto simp: ps set_revoked_others split: option.splits if_splits)
qed

theorem revoked_peer_is_out_witness:
  "\<not> is_active (snd (revoke_peer ''p_x'' 4 False \<lparr>peers = [\<lparr>pr_peer_id = ''p_x'', pr_label = ''l'', token_sha256 = ''00'', issued_at = ''t'', revoked_at = None\<rparr>], on_disk = []\<rparr>)) ''p_x''"
  by (rule revoked_peer_is_out[THEN conjunct1]) (simp_all)

text \<open>
  a revocation whose write failed reports an error, but a second attempt reports success
  without writing: the file still has the peer as active, so it is back after a restart.
\<close>

theorem failed_revocation_is_not_retried:
  assumes "List.find (\<lambda>p. pr_peer_id p = i) (peers store) = Some p" "revoked_at p = None"
  shows "\<exists>e. fst (revoke_peer i now False store) = Inl e
     \<and> fst (revoke_peer i later True (snd (revoke_peer i now False store))) = Inr True
     \<and> on_disk (snd (revoke_peer i later True (snd (revoke_peer i now False store)))) = on_disk store"
  using assms by (simp add: revoke_peer_def persist_def Let_def find_set_revoked)

theorem failed_revocation_is_not_retried_witness:
  "\<exists>e. fst (revoke_peer (''p_'' @ generate_ulid 5 (replicate 10 9)) 7 False example_store) = Inl e"
proof -
  have "\<exists>p. List.find (\<lambda>p. pr_peer_id p = ''p_'' @ generate_ulid 5 (replicate 10 9)) (peers example_store) = Some p
      \<and> revoked_at p = None"
    by (simp add: example_store_def issue_peer_def persist_def Let_def)
  then show ?thesis using failed_revocation_is_not_retried by blast
qed

subsection \<open>Loading\<close>

text \<open>
  loading imports the token of the single-peer days once: after a successful load with the
  legacy file present it is renamed away, and its digest authenticates as the peer \<open>legacy\<close>
  unless a peer of that id, revoked ones included, was already stored; the file then holds
  exactly the loaded peers, all with readable digests.
\<close>

theorem legacy_token_imported_once:
  assumes "lr_store (load_or_import stored legacy now write_ok rename_ok) = Inr store"
  shows "(\<exists>ps. (case stored of None \<Rightarrow> Inr [] | Some r \<Rightarrow> r) = Inr ps
        \<and> first_digest_error ps = None
        \<and> (legacy = None \<longrightarrow> peers store = ps)
        \<and> (legacy \<noteq> None \<longrightarrow> \<not> list_ex (\<lambda>p. pr_peer_id p = ''legacy'') ps \<longrightarrow>
             (\<exists>hash digest. legacy = Some (Inr hash) \<and> parse_token_digest hash = Inr digest
                \<and> authenticator store digest = Some (Peer ''legacy'' ''legacy'')))
        \<and> (list_ex (\<lambda>p. pr_peer_id p = ''legacy'') ps \<longrightarrow> peers store = ps))
     \<and> lr_written (load_or_import stored legacy now write_ok rename_ok) = Some (peers store)
     \<and> on_disk store = peers store
     \<and> lr_renamed (load_or_import stored legacy now write_ok rename_ok) = (legacy \<noteq> None)"
proof -
  obtain ps ps' imported where 1: "(case stored of None \<Rightarrow> Inr [] | Some r \<Rightarrow> r) = Inr ps"
    "first_digest_error ps = None" "import_legacy legacy now ps = Inr (ps', imported)"
    "write_ok" "store = \<lparr>peers = ps', on_disk = ps'\<rparr>" "legacy \<noteq> None \<longrightarrow> rename_ok"
    using assms unfolding load_or_import_def load_failed_def
    by (auto split: sum.splits option.splits if_splits)
  have 2: "lr_written (load_or_import stored legacy now write_ok rename_ok) = Some ps'"
    "lr_renamed (load_or_import stored legacy now write_ok rename_ok) = (legacy \<noteq> None)"
    using 1 unfolding load_or_import_def by (auto simp: import_legacy_def split: if_splits)
  have 3: "imported = (legacy \<noteq> None \<and> \<not> list_ex (\<lambda>p. pr_peer_id p = ''legacy'') ps)"
    and 4: "\<not> imported \<Longrightarrow> ps' = ps"
    using 1(3) by (auto simp: import_legacy_def split: if_splits sum.splits)
  have 5: "\<exists>hash digest. legacy = Some (Inr hash) \<and> parse_token_digest hash = Inr digest
      \<and> authenticator store digest = Some (Peer ''legacy'' ''legacy'')" if imported
  proof -
    have c: "legacy \<noteq> None" "\<not> list_ex (\<lambda>p. pr_peer_id p = ''legacy'') ps" using 3 that by auto
    obtain hash digest where h: "legacy = Some (Inr hash)" "parse_token_digest hash = Inr digest"
        "ps' = ps @ [\<lparr>pr_peer_id = ''legacy'', pr_label = ''legacy'', token_sha256 = digest_to_hex digest,
                      issued_at = current_timestamp now, revoked_at = None\<rparr>]"
      using 1(3) c by (auto simp: import_legacy_def split: sum.splits)
    then show ?thesis
      by (auto simp: 1(5) authenticator_eq active_peers_def as_bytes_digest_to_hex)
  qed
  show ?thesis using 1 2 3 4 5 by (intro conjI exI[of _ ps]) auto
qed

theorem legacy_token_imported_once_witness:
  "lr_renamed (load_or_import None (Some (Inr (as_bytes (digest_to_hex (replicate 32 1)) @ [10]))) 3 True True)"
proof -
  have "parse_token_digest (as_bytes (digest_to_hex (replicate 32 1)) @ [10]) = Inr (replicate 32 1)"
    by (simp add: parse_token_digest_def as_bytes_digest_to_hex strip_line_end_hex decode_hex_pairs_hex Let_def)
  then obtain store where "lr_store (load_or_import None
      (Some (Inr (as_bytes (digest_to_hex (replicate 32 1)) @ [10]))) 3 True True) = Inr store"
    by (simp add: load_or_import_def import_legacy_def)
  from legacy_token_imported_once[OF this] show ?thesis by simp
qed

text \<open>
  peer ids do not collide: two ids are equal only when both the millisecond of issue (48 bits)
  and the ten random bytes are equal; likewise two tokens are equal only when their 32 random
  bytes are.
\<close>

theorem peer_ids_and_tokens_keep_their_randomness:
  assumes "length random = 10" "length random' = 10"
  shows "(generate_ulid millis random = generate_ulid millis' random' \<longleftrightarrow>
        take_bit 48 millis = take_bit 48 millis' \<and> random = random')
     \<and> (base64url bytes = base64url bytes' \<longleftrightarrow> bytes = bytes')
     \<and> length (base64url bytes) = (8 * length bytes + 5) div 6"
proof -
  have mask: "push_bit 48 1 - 1 = (mask 48 :: u64)" by (simp add: mask_eq_exp_minus_1)
  have "take_bit 48 millis = take_bit 48 millis' \<Longrightarrow> generate_ulid millis random = generate_ulid millis' random"
    unfolding generate_ulid_def mask by (simp add: take_bit_eq_mask)
  then show ?thesis
    using generate_ulid_inject[OF assms, of millis millis'] base64url_inject base64url_length
    by (auto simp: take_bit_eq_mask)
qed

theorem peer_ids_and_tokens_keep_their_randomness_witness:
  "generate_ulid 1 (replicate 10 0) \<noteq> generate_ulid 2 (replicate 10 0)"
  using peer_ids_and_tokens_keep_their_randomness[of "replicate 10 0" "replicate 10 0" 1 2] by simp

end
