(* ===== verification/Leakscan.thy ===== *)
theory Leakscan
  imports Tegata_Prelude
begin

section \<open>The leak scanner\<close>

text \<open>
  \<open>crates/leakscan/src/lib.rs\<close>: the search for a secret in its raw, base64, percent-encoded,
  hexadecimal and JSON forms, which the daemon runs over every response; and
  \<open>crates/leakscan/src/main.rs\<close>: the tool that runs it over files. The base64 and JSON encoders of
  the libraries are parameters. A file tree is a value in which every read may fail.
\<close>

record Hit =
  canary_index :: nat
  encoding :: string
  byte_offset :: nat

definition percent_encode :: "byte list \<Rightarrow> byte list" where
  "percent_encode bytes =
     concat (map (\<lambda>b. [of_char (CHR ''%''),
                       as_bytes ''0123456789ABCDEF'' ! unat (drop_bit 4 b),
                       as_bytes ''0123456789ABCDEF'' ! unat (b AND 0x0f)]) bytes)"

definition hex_encode :: "byte list \<Rightarrow> byte list" where
  "hex_encode bytes =
     concat (map (\<lambda>b. [as_bytes ''0123456789abcdef'' ! unat (drop_bit 4 b),
                       as_bytes ''0123456789abcdef'' ! unat (b AND 0x0f)]) bytes)"

definition byte_lower :: "byte \<Rightarrow> byte" where
  "byte_lower b = (if 65 \<le> b \<and> b \<le> 90 then b + 32 else b)"

definition byte_eq_ignore_ascii_case :: "byte \<Rightarrow> byte \<Rightarrow> bool" where
  "byte_eq_ignore_ascii_case a b \<longleftrightarrow> byte_lower a = byte_lower b"

definition windows :: "nat \<Rightarrow> 'a list \<Rightarrow> 'a list list" where
  "windows n xs = map (\<lambda>i. take n (drop i xs)) [0..<length xs + 1 - n]"

definition window_matches :: "bool \<Rightarrow> byte list \<Rightarrow> byte list \<Rightarrow> bool" where
  "window_matches ignore_ascii_case window needle =
     (if ignore_ascii_case then list_all (\<lambda>(h, n). byte_eq_ignore_ascii_case h n) (zip window needle)
      else window = needle)"

definition find_matches :: "byte list \<Rightarrow> byte list \<Rightarrow> bool \<Rightarrow> nat list" where
  "find_matches haystack needle ignore_ascii_case =
     (if needle = [] \<or> length needle > length haystack then []
      else map fst (filter (\<lambda>(_, window). window_matches ignore_ascii_case window needle)
                      (enumerate 0 (windows (length needle) haystack))))"

definition variants ::
  "(byte list \<Rightarrow> string) \<Rightarrow> (string \<Rightarrow> string) \<Rightarrow> string \<Rightarrow> (string \<times> byte list \<times> bool) list" where
  "variants base64 to_json canary =
     [(''raw'', as_bytes canary, False),
      (''base64'', as_bytes (base64 (as_bytes canary)), False),
      (''url'', percent_encode (as_bytes canary), True),
      (''hex'', hex_encode (as_bytes canary), True),
      (''json'', as_bytes (to_json canary), False)]"

definition scan_bytes ::
  "(byte list \<Rightarrow> string) \<Rightarrow> (string \<Rightarrow> string) \<Rightarrow> byte list \<Rightarrow> string list \<Rightarrow> Hit list" where
  "scan_bytes base64 to_json haystack canaries =
     concat (map (\<lambda>(i, canary).
       concat (map (\<lambda>(enc, needle, ic).
         map (\<lambda>off. \<lparr>canary_index = i, encoding = enc, byte_offset = off\<rparr>)
           (find_matches haystack needle ic)) (variants base64 to_json canary)))
       (enumerate 0 canaries))"

subsection \<open>The tool\<close>

record ReportHit =
  rh_path :: string
  rh_hit :: Hit

text \<open>
  What the tool meets at a path: a regular file with its contents, a directory with its entries
  (each with its path, or unreadable), or something else. \<open>None\<close> is a failing read of a file.
\<close>

datatype fs_node =
    RegularFile "byte list option"
  | UnreadableDirectory
  | Directory "dir_entry list"
  | OtherNode
and dir_entry = UnreadableEntry | EntryAt string fs_node

definition append_hits ::
  "(byte list \<Rightarrow> string) \<Rightarrow> (string \<Rightarrow> string) \<Rightarrow> string \<Rightarrow> byte list \<Rightarrow> string list \<Rightarrow> ReportHit list" where
  "append_hits base64 to_json path bytes canaries =
     map (\<lambda>h. \<lparr>rh_path = path, rh_hit = h\<rparr>) (scan_bytes base64 to_json bytes canaries)"

definition scan_file ::
  "(byte list \<Rightarrow> string) \<Rightarrow> (string \<Rightarrow> string) \<Rightarrow> string \<Rightarrow> byte list option \<Rightarrow> string list \<Rightarrow> bool
     \<Rightarrow> string + ReportHit list" where
  "scan_file base64 to_json path contents canaries is_target =
     (case contents of
        None \<Rightarrow> if is_target then Inl (''failed to read target '' @ path) else Inr []
      | Some bytes \<Rightarrow> Inr (append_hits base64 to_json path bytes canaries))"

fun scan_node :: "(byte list \<Rightarrow> string) \<Rightarrow> (string \<Rightarrow> string) \<Rightarrow> string list \<Rightarrow> bool \<Rightarrow> string \<Rightarrow> fs_node
     \<Rightarrow> string + ReportHit list"
  and scan_entries :: "(byte list \<Rightarrow> string) \<Rightarrow> (string \<Rightarrow> string) \<Rightarrow> string list
     \<Rightarrow> dir_entry list \<Rightarrow> string + ReportHit list" where
  "scan_node base64 to_json canaries is_target path (RegularFile contents) =
     scan_file base64 to_json path contents canaries is_target"
| "scan_node base64 to_json canaries is_target path UnreadableDirectory =
     (if is_target then Inl (''failed to read directory '' @ path) else Inr [])"
| "scan_node base64 to_json canaries is_target path (Directory entries) =
     scan_entries base64 to_json canaries entries"
| "scan_node base64 to_json canaries is_target path OtherNode = Inr []"
| "scan_entries base64 to_json canaries [] = Inr []"
| "scan_entries base64 to_json canaries (UnreadableEntry # rest) = scan_entries base64 to_json canaries rest"
| "scan_entries base64 to_json canaries (EntryAt path node # rest) =
     (case scan_node base64 to_json canaries False path node of
        Inl e \<Rightarrow> Inl e
      | Inr hits \<Rightarrow> map_sum id (\<lambda>more. hits @ more) (scan_entries base64 to_json canaries rest))"

text \<open>
  A target is the standard input (with the result of reading it) or a path with what is there,
  \<open>None\<close> when it cannot be inspected.
\<close>

datatype scan_source = Stdin "byte list option" | AtPath string "fs_node option"

definition scan_target ::
  "(byte list \<Rightarrow> string) \<Rightarrow> (string \<Rightarrow> string) \<Rightarrow> string list \<Rightarrow> scan_source \<Rightarrow> string + ReportHit list" where
  "scan_target base64 to_json canaries t =
     (case t of
        Stdin None \<Rightarrow> Inl ''failed to read stdin''
      | Stdin (Some bytes) \<Rightarrow> Inr (append_hits base64 to_json ''-'' bytes canaries)
      | AtPath path None \<Rightarrow> Inl (''failed to inspect target '' @ path)
      | AtPath path (Some node) \<Rightarrow> scan_node base64 to_json canaries True path node)"

fun scan_targets ::
  "(byte list \<Rightarrow> string) \<Rightarrow> (string \<Rightarrow> string) \<Rightarrow> string list \<Rightarrow> scan_source list \<Rightarrow> string + ReportHit list" where
  "scan_targets base64 to_json canaries [] = Inr []"
| "scan_targets base64 to_json canaries (t # ts) =
     (case scan_target base64 to_json canaries t of
        Inl e \<Rightarrow> Inl e
      | Inr hits \<Rightarrow> map_sum id (\<lambda>more. hits @ more) (scan_targets base64 to_json canaries ts))"

definition leakscan_run ::
  "(byte list \<Rightarrow> string) \<Rightarrow> (string \<Rightarrow> string) \<Rightarrow> string + string list \<Rightarrow> scan_source list
     \<Rightarrow> string + (bool \<times> ReportHit list)" where
  "leakscan_run base64 to_json canaries targets =
     (case canaries of
        Inl e \<Rightarrow> Inl e
      | Inr cs \<Rightarrow> map_sum id (\<lambda>hits. (hits \<noteq> [], hits)) (scan_targets base64 to_json cs targets))"

definition leakscan_exit_code :: "string + (bool \<times> ReportHit list) \<Rightarrow> nat" where
  "leakscan_exit_code r = (case r of Inr (has_hits, _) \<Rightarrow> if has_hits then 1 else 0 | Inl _ \<Rightarrow> 2)"

subsection \<open>The search finds every occurrence and nothing else\<close>

text \<open>An occurrence of a needle at an offset, up to ASCII case when the case is ignored.\<close>

definition occurs_at :: "bool \<Rightarrow> byte list \<Rightarrow> byte list \<Rightarrow> nat \<Rightarrow> bool" where
  "occurs_at ic haystack needle off \<longleftrightarrow>
     (\<exists>u m v. haystack = u @ m @ v \<and> length u = off \<and> length m = length needle
        \<and> (if ic then map byte_lower m = map byte_lower needle else m = needle))"

lemma window_matches_iff:
  "length w = length n \<Longrightarrow> window_matches ic w n \<longleftrightarrow>
     (if ic then map byte_lower w = map byte_lower n else w = n)"
  unfolding window_matches_def byte_eq_ignore_ascii_case_def
  by (induction w n rule: list_induct2) auto

lemma set_find_matches:
  "off \<in> set (find_matches haystack needle ic) \<longleftrightarrow> needle \<noteq> [] \<and> occurs_at ic haystack needle off"
proof -
  have "off < length haystack + 1 - length needle \<and> length needle \<le> length haystack
      \<and> window_matches ic (take (length needle) (drop off haystack)) needle \<longleftrightarrow>
      occurs_at ic haystack needle off" (is "?l \<longleftrightarrow> ?r")
  proof
    assume l: ?l
    then have "length (take (length needle) (drop off haystack)) = length needle" by auto
    moreover have "haystack = take off haystack @ take (length needle) (drop off haystack)
        @ drop (off + length needle) haystack"
      by (metis add.commute append_take_drop_id drop_drop)
    moreover have "length (take off haystack) = off" using l by auto
    ultimately show ?r
      using l window_matches_iff[of "take (length needle) (drop off haystack)" needle ic]
      unfolding occurs_at_def by blast
  next
    assume ?r
    then obtain u m v where "haystack = u @ m @ v" "length u = off" "length m = length needle"
      "if ic then map byte_lower m = map byte_lower needle else m = needle"
      unfolding occurs_at_def by blast
    then show ?l by (auto simp: window_matches_iff)
  qed
  moreover have "enumerate 0 (windows k haystack)
      = map (\<lambda>i. (i, take k (drop i haystack))) [0..<length haystack + 1 - k]" for k
    by (rule nth_equalityI) (simp_all add: windows_def nth_enumerate_eq)
  ultimately show ?thesis by (auto simp: find_matches_def image_iff)
qed

lemma mem_scan_bytes:
  "h \<in> set (scan_bytes base64 to_json haystack canaries) \<longleftrightarrow>
     canary_index h < length canaries
     \<and> (\<exists>needle ic. (encoding h, needle, ic) \<in> set (variants base64 to_json (canaries ! canary_index h))
          \<and> needle \<noteq> [] \<and> occurs_at ic haystack needle (byte_offset h))"
proof -
  have "h \<in> set (scan_bytes base64 to_json haystack canaries) \<longleftrightarrow>
    (\<exists>i enc needle ic off. i < length canaries \<and> (enc, needle, ic) \<in> set (variants base64 to_json (canaries ! i))
       \<and> off \<in> set (find_matches haystack needle ic)
       \<and> h = \<lparr>canary_index = i, encoding = enc, byte_offset = off\<rparr>)"
    by (fastforce simp: scan_bytes_def in_set_enumerate_eq)
  then show ?thesis
    by (cases h) (fastforce simp: set_find_matches)
qed

text \<open>
  C38: the scan reports a hit exactly when one of the five encoded forms of a secret occurs at that
  offset (the hexadecimal and percent forms in either letter case), so an empty report means
  that no form of any secret occurs anywhere in the scanned bytes.
\<close>

theorem scan_bytes_exact:
  "(h \<in> set (scan_bytes base64 to_json haystack canaries) \<longleftrightarrow>
     canary_index h < length canaries
     \<and> (\<exists>needle ic. (encoding h, needle, ic) \<in> set (variants base64 to_json (canaries ! canary_index h))
          \<and> needle \<noteq> [] \<and> occurs_at ic haystack needle (byte_offset h)))
   \<and> (scan_bytes base64 to_json haystack canaries = [] \<longleftrightarrow>
       \<not> (\<exists>canary enc needle ic off. canary \<in> set canaries
            \<and> (enc, needle, ic) \<in> set (variants base64 to_json canary)
            \<and> needle \<noteq> [] \<and> occurs_at ic haystack needle off))"
proof -
  have "scan_bytes base64 to_json haystack canaries = [] \<longleftrightarrow>
      (\<forall>h. h \<notin> set (scan_bytes base64 to_json haystack canaries))" by auto
  also have "\<dots> \<longleftrightarrow> \<not> (\<exists>canary enc needle ic off. canary \<in> set canaries
            \<and> (enc, needle, ic) \<in> set (variants base64 to_json canary)
            \<and> needle \<noteq> [] \<and> occurs_at ic haystack needle off)" (is "?l \<longleftrightarrow> \<not> ?r")
  proof
    show "\<not> ?r" if no: ?l
    proof
      assume ?r
      then obtain i enc needle ic off where "i < length canaries"
        "(enc, needle, ic) \<in> set (variants base64 to_json (canaries ! i))" "needle \<noteq> []"
        "occurs_at ic haystack needle off" by (metis in_set_conv_nth)
      then have "\<lparr>canary_index = i, encoding = enc, byte_offset = off\<rparr>
          \<in> set (scan_bytes base64 to_json haystack canaries)"
        unfolding mem_scan_bytes by auto
      then show False using no by blast
    qed
  qed (metis mem_scan_bytes nth_mem)
  finally show ?thesis using mem_scan_bytes by blast
qed

subsection \<open>The tool covers every readable file\<close>

fun readable_files :: "string \<Rightarrow> fs_node \<Rightarrow> (string \<times> byte list) list"
  and readable_entries :: "dir_entry list \<Rightarrow> (string \<times> byte list) list" where
  "readable_files path (RegularFile (Some bytes)) = [(path, bytes)]"
| "readable_files path (RegularFile None) = []"
| "readable_files path UnreadableDirectory = []"
| "readable_files path (Directory entries) = readable_entries entries"
| "readable_files path OtherNode = []"
| "readable_entries [] = []"
| "readable_entries (UnreadableEntry # rest) = readable_entries rest"
| "readable_entries (EntryAt path node # rest) = readable_files path node @ readable_entries rest"

definition target_files :: "scan_source \<Rightarrow> (string \<times> byte list) list" where
  "target_files t =
     (case t of
        Stdin (Some bytes) \<Rightarrow> [(''-'', bytes)]
      | Stdin None \<Rightarrow> []
      | AtPath path (Some node) \<Rightarrow> readable_files path node
      | AtPath path None \<Rightarrow> [])"

definition unreadable_target :: "scan_source \<Rightarrow> bool" where
  "unreadable_target t \<longleftrightarrow> t = Stdin None
     \<or> (\<exists>path. t = AtPath path None \<or> t = AtPath path (Some (RegularFile None))
          \<or> t = AtPath path (Some UnreadableDirectory))"

lemma scan_node_covers:
  "\<not> is_target \<or> node \<noteq> RegularFile None \<and> node \<noteq> UnreadableDirectory \<Longrightarrow>
     scan_node base64 to_json cs is_target path node
     = Inr (concat (map (\<lambda>(p, bytes). append_hits base64 to_json p bytes cs) (readable_files path node)))"
  "scan_entries base64 to_json cs entries
     = Inr (concat (map (\<lambda>(p, bytes). append_hits base64 to_json p bytes cs) (readable_entries entries)))"
proof (induction base64 to_json cs is_target path node and base64 to_json cs entries
    rule: scan_node_scan_entries.induct)
  case (1 base64 to_json canaries is_target path contents)
  then show ?case by (cases contents) (auto simp: scan_file_def)
qed auto

lemma scan_target_covers:
  "scan_target base64 to_json cs t =
     (if unreadable_target t then scan_target base64 to_json cs t
      else Inr (concat (map (\<lambda>(p, bytes). append_hits base64 to_json p bytes cs) (target_files t))))"
proof (cases t)
  case (Stdin bytes)
  then show ?thesis by (cases bytes) (auto simp: scan_target_def target_files_def unreadable_target_def)
next
  case (AtPath path node)
  then show ?thesis
    by (cases node) (auto simp: scan_target_def target_files_def unreadable_target_def scan_node_covers)
qed

lemma scan_target_fails: "unreadable_target t \<Longrightarrow> \<exists>e. scan_target base64 to_json cs t = Inl e"
  by (auto simp: unreadable_target_def scan_target_def scan_file_def)

lemma scan_targets_covers:
  "(if list_ex unreadable_target ts then \<exists>e. scan_targets base64 to_json cs ts = Inl e
    else scan_targets base64 to_json cs ts = Inr (concat (map (\<lambda>(p, bytes). append_hits base64 to_json p bytes cs)
           (concat (map target_files ts)))))"
proof (induction ts)
  case (Cons t ts)
  show ?case
  proof (cases "unreadable_target t")
    case True
    then show ?thesis using scan_target_fails[OF True, of base64 to_json cs] by auto
  next
    case False
    then have "scan_target base64 to_json cs t =
        Inr (concat (map (\<lambda>(p, bytes). append_hits base64 to_json p bytes cs) (target_files t)))"
      using scan_target_covers[of base64 to_json cs t] by simp
    then show ?thesis using Cons False by (auto split: if_splits)
  qed
qed simp

text \<open>
  the exit code of the tool: 2 when a target itself cannot be read, otherwise 1 exactly when
  some readable file below the targets contains a form of a canary, and 0 when none does.
\<close>

theorem leakscan_exit_code_correct:
  "leakscan_exit_code (leakscan_run base64 to_json (Inr cs) targets) =
     (if list_ex unreadable_target targets then 2
      else if list_all (\<lambda>(p, bytes). scan_bytes base64 to_json bytes cs = []) (concat (map target_files targets))
      then 0 else 1)"
proof (cases "list_ex unreadable_target targets")
  case True
  then obtain e where "scan_targets base64 to_json cs targets = Inl e"
    using scan_targets_covers[of targets base64 to_json cs] by auto
  then show ?thesis using True by (simp add: leakscan_run_def leakscan_exit_code_def)
next
  case False
  then have "scan_targets base64 to_json cs targets = Inr (concat (map (\<lambda>(p, bytes). append_hits base64 to_json p bytes cs)
      (concat (map target_files targets))))"
    using scan_targets_covers[of targets base64 to_json cs] by simp
  then show ?thesis using False
    by (simp add: leakscan_run_def leakscan_exit_code_def append_hits_def list_all_iff)
      (auto simp: append_hits_def)
qed

end
