(* ===== verification/Totp.thy ===== *)
theory Totp
  imports Tegata_Prelude
begin

section \<open>One-time codes and instance names\<close>

text \<open>
  \<open>crates/tegata-core/src/lib.rs\<close>: the six-digit code of RFC 6238 and the normalisation of a stored
  seed; and \<open>crates/tegata-core/src/windows_instance.rs\<close>: names derived from the name of a Windows
  service. HMAC-SHA-1 and the two base32 decoders are parameters.
\<close>

definition be_bytes64 :: "u64 \<Rightarrow> byte list" where
  "be_bytes64 w = map (\<lambda>i. ucast (drop_bit (8 * (7 - i)) w)) [0..<8]"

definition otpauth_secret :: "string \<Rightarrow> string option" where
  "otpauth_secret trimmed =
     (case split_once trimmed ''?'' of
        None \<Rightarrow> None
      | Some (_, query) \<Rightarrow>
          List.find (\<lambda>_. True)
            (List.map_filter (\<lambda>pair.
               case split_once pair ''='' of
                 None \<Rightarrow> None
               | Some (k, v) \<Rightarrow> if eq_ignore_ascii_case k ''secret'' then Some v else None)
             (split_char query (CHR ''&''))))"

definition extract_secret :: "string \<Rightarrow> string" where
  "extract_secret seed =
     (let trimmed = trim_str seed;
          body = (if 10 \<le> length trimmed \<and> eq_ignore_ascii_case (take 10 trimmed) ''otpauth://''
                  then (case otpauth_secret trimmed of Some v \<Rightarrow> v | None \<Rightarrow> trimmed)
                  else trimmed)
      in remove_whitespace body)"

definition decode_seed ::
  "(string \<Rightarrow> byte list option) \<Rightarrow> (string \<Rightarrow> byte list option) \<Rightarrow> string \<Rightarrow> byte list" where
  "decode_seed base32 base32_nopad seed =
     (let secret = extract_secret seed in
      case base32 secret of Some k \<Rightarrow> k | None \<Rightarrow>
      (case base32_nopad secret of Some k \<Rightarrow> k | None \<Rightarrow>
      (case base32 (to_ascii_uppercase secret) of Some k \<Rightarrow> k | None \<Rightarrow>
      (case base32_nopad (to_ascii_uppercase secret) of Some k \<Rightarrow> k | None \<Rightarrow> as_bytes seed))))"

text \<open>
  \<open>hmac_sha1 key message\<close> has 20 bytes. The four bytes the source indexes are at most at offset 18;
  an index past the end would panic, which is \<open>None\<close>.
\<close>

definition truncate_digest :: "byte list \<Rightarrow> u32 option" where
  "truncate_digest digest =
     (if length digest < 20 then None
      else (let off = unat (digest ! 19 AND 0x0f) in
            if length digest \<le> off + 3 then None
            else Some (push_bit 24 (ucast (digest ! off) AND 0x7f)
                       OR push_bit 16 (ucast (digest ! (off + 1)))
                       OR push_bit 8 (ucast (digest ! (off + 2)))
                       OR ucast (digest ! (off + 3)))))"

definition totp ::
  "(byte list \<Rightarrow> byte list \<Rightarrow> byte list) \<Rightarrow> (string \<Rightarrow> byte list option) \<Rightarrow> (string \<Rightarrow> byte list option)
     \<Rightarrow> string \<Rightarrow> u64 \<Rightarrow> (string \<times> u64) option" where
  "totp hmac_sha1 base32 base32_nopad seed unix_time_secs =
     (let k = decode_seed base32 base32_nopad seed;
          counter = unix_time_secs div 30;
          digest = hmac_sha1 k (be_bytes64 counter)
      in map_option (\<lambda>binary. (pad6 (unat (binary mod 1000000)), 30 - unix_time_secs mod 30))
           (truncate_digest digest))"

subsection \<open>Windows instance names\<close>

definition service_account :: "string \<Rightarrow> string" where
  "service_account name = ''NT SERVICE'' @ [CHR 0x5C] @ name"

definition firewall_rule_name :: "string \<Rightarrow> string" where
  "firewall_rule_name name = name @ '' WSL TCP''"

definition validate_service_name :: "string \<Rightarrow> string + unit" where
  "validate_service_name name =
     (if name \<noteq> [] \<and> length name \<le> 256
          \<and> list_all (\<lambda>c. is_ascii_alphanumeric c \<or> c \<in> set ''-_.'') name
      then Inr ()
      else Inl (''service_name must be 1 to 256 characters of ASCII letters, digits, ''
                @ [CHR 0x27] @ ''-'' @ [CHR 0x27] @ '', '' @ [CHR 0x27] @ ''_'' @ [CHR 0x27]
                @ '' and '' @ [CHR 0x27] @ ''.'' @ [CHR 0x27]))"

definition is_separator :: "char \<Rightarrow> bool" where
  "is_separator c \<longleftrightarrow> c = CHR 0x5C \<or> c = CHR ''/''"

definition parent_directory :: "string \<Rightarrow> string" where
  "parent_directory path =
     (let path = trim_end_matches is_separator path in
      if list_ex is_separator path
      then trim_end_matches is_separator (rev (tl (dropWhile (\<lambda>c. \<not> is_separator c) (rev path))))
      else [])"

definition normalize_for_comparison :: "string \<Rightarrow> string" where
  "normalize_for_comparison path =
     to_ascii_lowercase (map (\<lambda>c. if c = CHR ''/'' then CHR 0x5C else c) (trim_end_matches is_separator path))"

definition INVALID_CONFIGURATION_PATH :: string where
  "INVALID_CONFIGURATION_PATH = ''the configuration must live in its own directory directly under %ProgramData%, e.g. C:'' @ [CHR 0x5C] @ ''ProgramData'' @ [CHR 0x5C] @ ''tegata'' @ [CHR 0x5C] @ ''config.toml''"

definition install_root_under :: "string \<Rightarrow> string \<Rightarrow> string + string" where
  "install_root_under program_data config_path =
     (let config_directory = parent_directory config_path;
          install_root = parent_directory config_directory
      in if config_directory \<noteq> [] \<and> normalize_for_comparison install_root = normalize_for_comparison program_data
         then Inr config_directory else Inl INVALID_CONFIGURATION_PATH)"

subsection \<open>The truncation of RFC 4226\<close>

definition rfc4226_value :: "byte list \<Rightarrow> nat" where
  "rfc4226_value digest =
     (let off = unat (digest ! 19) mod 16 in
      (unat (digest ! off) mod 128) * 2 ^ 24 + unat (digest ! (off + 1)) * 2 ^ 16
        + unat (digest ! (off + 2)) * 2 ^ 8 + unat (digest ! (off + 3)))"

lemma push_bit_nat_eq_mult: "push_bit k n = n * 2 ^ k" for n :: nat
  by (rule push_bit_eq_mult)

lemma unat_shifted_byte:
  assumes "k + 8 \<le> 32"
  shows "unat (push_bit k (ucast (b :: byte)) :: u32) = unat b * 2 ^ k"
proof -
  have "unat b * 2 ^ k < 2 ^ 8 * 2 ^ k" using unat_byte_less[of b] by simp
  also have "\<dots> \<le> 2 ^ 32" using assms by (metis add.commute one_le_numeral power_add power_increasing)
  finally have "take_bit 32 (unat b * 2 ^ k) = unat b * 2 ^ k" by (simp add: take_bit_nat_eq_self)
  moreover have "unat (ucast b :: u32) = unat b" using unat_byte_less[of b]
    by (simp add: unsigned_ucast_eq take_bit_nat_eq_self)
  ultimately show ?thesis
    unfolding unsigned_push_bit_eq by (simp add: push_bit_nat_eq_mult)
qed

lemma mask_7: "(0x7f :: u32) = mask 7"
  by (simp add: mask_eq_exp_minus_1)

lemma top_byte_masked: "(ucast (b :: byte) AND 0x7f :: u32) = ucast (take_bit 7 b)"
  unfolding mask_7 by (auto simp: bit_simps intro!: bit_eqI)

lemma truncate_digest_rfc4226:
  assumes "20 \<le> length digest"
  shows "\<exists>b. truncate_digest digest = Some b \<and> unat b = rfc4226_value digest \<and> rfc4226_value digest < 2 ^ 31"
proof -
  define off where "off = unat (digest ! 19) mod 16"
  have off: "off < 16" by (simp add: off_def)
  define x y z w where "x = take_bit 7 (digest ! off)" and "y = digest ! (off + 1)"
    and "z = digest ! (off + 2)" and "w = digest ! (off + 3)"
  define v :: u32 where "v = push_bit 24 (ucast x) OR push_bit 16 (ucast y) OR push_bit 8 (ucast z) OR ucast w"
  have "v = push_bit 24 (ucast x) + (push_bit 16 (ucast y) + (push_bit 8 (ucast z) + ucast w))"
    unfolding v_def or.assoc
    by (subst disjunctive_add, auto simp: bit_simps dest: bit_imp_le_length)+
  moreover have "unat x < 128" "unat x = unat (digest ! off) mod 128"
    using take_bit_nat_less_exp[of 7 "unat (digest ! off)"]
    unfolding x_def unsigned_take_bit_eq by (simp_all add: take_bit_eq_mod)
  ultimately have "unat v = rfc4226_value digest \<and> rfc4226_value digest < 2 ^ 31"
    using unat_shifted_byte[of 24 x] unat_shifted_byte[of 16 y] unat_shifted_byte[of 8 z] unat_shifted_byte[of 0 w]
      unat_byte_less[of y] unat_byte_less[of z] unat_byte_less[of w]
    unfolding rfc4226_value_def Let_def off_def[symmetric] y_def[symmetric] z_def[symmetric] w_def[symmetric]
    by (simp add: unat_word_ariths)
  moreover have "truncate_digest digest = Some v"
    using assms off
    by (simp add: truncate_digest_def Let_def unat_low_nibble top_byte_masked v_def x_def y_def z_def w_def off_def)
  ultimately show ?thesis by blast
qed

text \<open>
  C39: the code is the RFC 6238 code: six decimal digits whose value is the dynamic truncation of
  HMAC-SHA-1 over the 30-second counter modulo a million, with a remaining life of 1 to 30
  seconds that ends exactly at the next counter step; all instants of one step give one code.
\<close>

theorem totp_correct:
  assumes hmac: "\<And>k m. length (hmac_sha1 k m) = 20"
  shows "\<exists>code expires. totp hmac_sha1 base32 base32_nopad seed t = Some (code, expires)
     \<and> dec_val code = rfc4226_value (hmac_sha1 (decode_seed base32 base32_nopad seed) (be_bytes64 (t div 30))) mod 1000000
     \<and> length code = 6 \<and> list_all is_ascii_digit code
     \<and> 1 \<le> unat expires \<and> unat expires \<le> 30 \<and> (unat t + unat expires) mod 30 = 0
     \<and> (t' div 30 = t div 30 \<longrightarrow> map_option fst (totp hmac_sha1 base32 base32_nopad seed t') = Some code)"
proof -
  define digest where "digest = hmac_sha1 (decode_seed base32 base32_nopad seed) (be_bytes64 (t div 30))"
  obtain b where b: "truncate_digest digest = Some b" "unat b = rfc4226_value digest"
    using truncate_digest_rfc4226[of digest] hmac by (auto simp: digest_def)
  define n where "n = unat (b mod 1000000)"
  have n: "n = rfc4226_value digest mod 1000000" "n < 1000000" using b by (simp_all add: n_def unat_mod)
  have m: "unat (t mod 30) = unat t mod 30" by (simp add: unat_mod)
  then have "unat (30 - t mod 30) = 30 - unat t mod 30"
    by (simp add: unat_sub word_le_nat_alt less_imp_le)
  moreover have "(unat t + (30 - unat t mod 30)) mod 30 = 0"
  proof -
    have "unat t + (30 - unat t mod 30) = unat t div 30 * 30 + 30"
      using div_mult_mod_eq[of "unat t" 30] mod_less_divisor[of 30 "unat t"] by linarith
    then show ?thesis by simp
  qed
  moreover have "list_all is_ascii_digit (pad6 n)" by (auto simp: list_all_iff dest: pad6_digits)
  ultimately show ?thesis
    using b n length_pad6[of n]
    by (auto simp: totp_def Let_def digest_def[symmetric] n_def[symmetric] Suc_le_eq)
qed

theorem totp_correct_witness:
  "\<exists>code expires. totp (\<lambda>k m. replicate 20 3) (\<lambda>_. None) (\<lambda>_. None) ''seed'' 59 = Some (code, expires)
     \<and> length code = 6 \<and> 1 \<le> unat expires \<and> unat expires \<le> 30"
proof -
  have h: "length ((\<lambda>k m. replicate 20 (3 :: byte)) k m) = 20" for k m :: "byte list" by simp
  from totp_correct[OF h, of "\<lambda>_. None" "\<lambda>_. None" "''seed''" 59 0] show ?thesis by blast
qed

subsection \<open>The forms of a stored seed\<close>

definition is_ws :: "char \<Rightarrow> bool" where
  "is_ws c = is_whitespace_cp (of_char c)"

lemma is_whitespace_char_ascii: "(of_char c :: nat) < 128 \<Longrightarrow> is_whitespace_char [c] = is_ws c"
  by (simp add: is_whitespace_char_def is_ws_def)

lemma remove_whitespace_ascii:
  assumes "is_ascii s"
  shows "remove_whitespace s = filter (\<lambda>c. \<not> is_ws c) s"
proof -
  have "is_ascii s \<Longrightarrow> concat (filter (\<lambda>ch. \<not> is_whitespace_char ch) (map (\<lambda>c. [c]) s)) = filter (\<lambda>c. \<not> is_ws c) s"
    by (induction s) (auto simp: is_ascii_def is_whitespace_char_ascii)
  then show ?thesis using assms by (simp add: remove_whitespace_def utf8_chunks_ascii)
qed

lemma dropWhile_chunks:
  "is_ascii s \<Longrightarrow> dropWhile is_whitespace_char (map (\<lambda>c. [c]) s) = map (\<lambda>c. [c]) (dropWhile is_ws s)"
  by (induction s) (auto simp: is_ascii_def is_whitespace_char_ascii)

lemma is_ascii_simps [simp]:
  "is_ascii (s @ t) \<longleftrightarrow> is_ascii s \<and> is_ascii t" "is_ascii (rev s) \<longleftrightarrow> is_ascii s" "is_ascii []"
  "is_ascii (c # s) \<longleftrightarrow> (of_char c :: nat) < 128 \<and> is_ascii s"
  by (auto simp: is_ascii_def list_all_iff)

lemma is_ascii_dropWhile: "is_ascii s \<Longrightarrow> is_ascii (dropWhile P s)"
  by (auto simp: is_ascii_def list_all_iff dest: set_dropWhileD)

lemma trim_str_ascii:
  assumes "is_ascii s"
  shows "trim_str s = trim_end_matches is_ws (dropWhile is_ws s)"
proof -
  let ?t = "dropWhile is_ws s"
  have t: "is_ascii (rev ?t)" using is_ascii_dropWhile[OF assms] by simp
  have "concat (map (\<lambda>c. [c]) u) = u" for u :: string by (induction u) auto
  then have "concat (rev (map (\<lambda>c. [c]) (dropWhile is_ws (rev ?t)))) = rev (dropWhile is_ws (rev ?t))"
    unfolding rev_map .
  then show ?thesis
    using dropWhile_chunks[OF t] dropWhile_chunks[OF assms]
    by (simp add: trim_str_def utf8_chunks_ascii[OF assms] trim_end_matches_def rev_map)
qed

lemma filter_trim: "filter (\<lambda>c. \<not> is_ws c) (trim_end_matches is_ws (dropWhile is_ws s)) = filter (\<lambda>c. \<not> is_ws c) s"
proof -
  have drop: "filter (\<lambda>c. \<not> is_ws c) (dropWhile is_ws u) = filter (\<lambda>c. \<not> is_ws c) u" for u
    by (induction u) auto
  show ?thesis using drop[of s] drop[of "rev (dropWhile is_ws s)"]
    by (simp add: trim_end_matches_def rev_filter[symmetric])
qed

lemma trim_no_ws: "list_all (\<lambda>c. \<not> is_ws c) s \<Longrightarrow> trim_end_matches is_ws (dropWhile is_ws s) = s"
proof -
  assume a: "list_all (\<lambda>c. \<not> is_ws c) s"
  have d: "dropWhile is_ws u = u" if "list_all (\<lambda>c. \<not> is_ws c) u" for u
    using that by (cases u) auto
  have "list_all (\<lambda>c. \<not> is_ws c) (rev s)" using a by (simp add: list_all_iff)
  then show ?thesis using d[OF a] d[of "rev s"] by (simp add: trim_end_matches_def)
qed

lemma otpauth_secret_uri:
  assumes "CHR ''?'' \<notin> set label" "CHR ''&'' \<notin> set secret"
  shows "otpauth_secret (''otpauth://'' @ label @ ''?secret='' @ secret @ ''&'' @ rest) = Some secret"
proof -
  have q: "split_once ((''otpauth://'' @ label) @ CHR ''?'' # (''secret='' @ secret @ ''&'' @ rest)) ''?''
      = Some (''otpauth://'' @ label, ''secret='' @ secret @ ''&'' @ rest)"
    by (rule split_once_char) (use assms in auto)
  have split: "split_char (u @ CHR ''&'' # v) (CHR ''&'') = u # split_char v (CHR ''&'')"
    if "CHR ''&'' \<notin> set u" for u v :: string
    using that by (induction u) auto
  have "split_char (''secret='' @ secret @ ''&'' @ rest) (CHR ''&'') = (''secret='' @ secret) # split_char rest (CHR ''&'')"
    using split[of "''secret='' @ secret" rest] assms(2) by simp
  moreover have "split_once (''secret'' @ CHR ''='' # secret) ''='' = Some (''secret'', secret)"
    by (rule split_once_char) simp
  ultimately show ?thesis using q by (simp add: otpauth_secret_def map_filter_simps)
qed

text \<open>
  the forms in which a vault stores a seed carry the same secret: an \<open>otpauth://\<close> address yields
  its secret parameter, and whitespace around or inside a plain secret is ignored.
\<close>

theorem seed_forms_agree:
  assumes "is_ascii seed" "\<not> eq_ignore_ascii_case (take 10 (filter (\<lambda>c. \<not> is_ws c) seed)) ''otpauth://''"
    and "secret = filter (\<lambda>c. \<not> is_ws c) seed"
    and "is_ascii label" "list_all (\<lambda>c. \<not> is_ws c) label" "CHR ''?'' \<notin> set label"
    and "is_ascii rest" "list_all (\<lambda>c. \<not> is_ws c) rest" "CHR ''&'' \<notin> set seed"
    and "\<not> eq_ignore_ascii_case (take 10 (trim_str seed)) ''otpauth://''"
  shows "extract_secret seed = secret
     \<and> extract_secret secret = secret
     \<and> extract_secret (''otpauth://'' @ label @ ''?secret='' @ secret @ ''&'' @ rest) = secret"
proof -
  have ascii: "is_ascii secret" using assms(1) by (auto simp: assms(3) is_ascii_def list_all_iff)
  have nows: "list_all (\<lambda>c. \<not> is_ws c) secret" by (auto simp: assms(3) list_all_iff)
  then have plain: "filter (\<lambda>c. \<not> is_ws c) secret = secret" by (simp add: list_all_iff filter_True)
  have "is_ascii (trim_str seed)"
    using is_ascii_dropWhile[of "rev (dropWhile is_ws seed)" is_ws] is_ascii_dropWhile[OF assms(1), of is_ws]
    by (simp add: trim_str_ascii[OF assms(1)] trim_end_matches_def)
  then have 1: "extract_secret seed = secret"
    using assms(10) by (auto simp: extract_secret_def Let_def remove_whitespace_ascii
        trim_str_ascii[OF assms(1)] filter_trim assms(3))
  have "trim_str secret = secret" using trim_str_ascii[OF ascii] trim_no_ws[OF nows] by simp
  moreover have rw: "remove_whitespace secret = secret"
    using remove_whitespace_ascii[OF ascii] plain by simp
  ultimately have 2: "extract_secret secret = secret"
    using assms(2)[folded assms(3)] by (auto simp: extract_secret_def Let_def)
  let ?uri = "''otpauth://'' @ label @ ''?secret='' @ secret @ ''&'' @ rest"
  have u: "is_ascii ?uri" "list_all (\<lambda>c. \<not> is_ws c) ?uri"
    using assms ascii nows by (simp_all add: is_ws_def is_whitespace_cp_def)
  then have "trim_str ?uri = ?uri" using trim_str_ascii[OF u(1)] trim_no_ws[OF u(2)] by simp
  moreover have "otpauth_secret ?uri = Some secret"
    by (rule otpauth_secret_uri) (use assms in auto)
  ultimately have 3: "extract_secret ?uri = secret"
    using rw by (simp add: extract_secret_def Let_def)
  show ?thesis using 1 2 3 by blast
qed

theorem seed_forms_agree_witness:
  "extract_secret ''jbsw y3dp'' = ''jbswy3dp''
     \<and> extract_secret (''otpauth://totp/x?secret=jbswy3dp&period=30'') = ''jbswy3dp''"
proof -
  have "extract_secret ''jbsw y3dp'' = ''jbswy3dp'' \<and> extract_secret ''jbswy3dp'' = ''jbswy3dp''
     \<and> extract_secret (''otpauth://'' @ ''totp/x'' @ ''?secret='' @ ''jbswy3dp'' @ ''&'' @ ''period=30'') = ''jbswy3dp''"
    by (rule seed_forms_agree[where seed = "''jbsw y3dp''"])
      (simp_all add: is_ws_def is_whitespace_cp_def eq_ignore_ascii_case_def to_ascii_lowercase_def
        ascii_lower_def is_ascii_upper_def trim_str_ascii trim_end_matches_def)
  then show ?thesis by simp
qed

end
