(* ===== verification/Session_Table.thy ===== *)
theory Session_Table
  imports Start_Control
begin

section \<open>The table of live sessions\<close>

text \<open>
  The session part of \<open>crates/tegatad/src/main.rs\<close>: the browsers (and hosted services) by id, the
  shared browser of each caller and credential, and the ports that the TCP transport may tunnel
  to. Every definition named \<open>\<dots>_locked\<close> is what one handler does between taking and releasing
  the lock of the daemon state; the handlers between two such sections, with their requests to
  the executors, are in \<open>Daemon\<close> and \<open>Handlers\<close>. Session and browser ids are fresh
  UUIDs, arguments of the definitions that create them.
\<close>

record session_table =
  browsers :: "(string, Browser) table"
  shared_browsers :: "(BrowserKey, string) table"
  ports :: "(string, string \<times> u16) table"

definition lease_expiry :: "instant \<Rightarrow> duration \<Rightarrow> instant \<Rightarrow> instant" where
  "lease_expiry now lease_ttl limit = min (now + lease_ttl) limit"

definition remove_ports :: "string list \<Rightarrow> session_table \<Rightarrow> session_table" where
  "remove_ports ids st = st\<lparr>ports := fold hremove ids (ports st)\<rparr>"

definition forget_shared :: "Browser \<Rightarrow> session_table \<Rightarrow> session_table" where
  "forget_shared b st =
     (if exclusive b then st else st\<lparr>shared_browsers := hremove (key b) (shared_browsers st)\<rparr>)"

definition take_browser_locked :: "string \<Rightarrow> session_table \<Rightarrow> Browser option \<times> session_table" where
  "take_browser_locked bid st =
     (case hget (browsers st) bid of
        None \<Rightarrow> (None, st)
      | Some b \<Rightarrow>
          (let st = st\<lparr>browsers := hremove bid (browsers st)\<rparr>;
               st = forget_shared b st
           in (Some b, remove_ports (hkeys (leases b)) st)))"

definition expire_browser_locked :: "string \<Rightarrow> instant \<Rightarrow> session_table \<Rightarrow> Browser option \<times> session_table" where
  "expire_browser_locked bid now st =
     (let expired = (case hget (browsers st) bid of None \<Rightarrow> False | Some b \<Rightarrow> deadline b \<le> now) in
      if expired then take_browser_locked bid st else (None, st))"

subsection \<open>The reaper\<close>

record expired_lease =
  xl_session :: string
  xl_lease :: Lease
  xl_executor :: nat
  xl_key :: BrowserKey
  xl_shutdown :: bool
  xl_persist :: bool

text \<open>The removal of the given leases of one browser, one after the other.\<close>

fun remove_leases :: "string list \<Rightarrow> Browser \<Rightarrow> expired_lease list \<times> Browser" where
  "remove_leases [] b = ([], b)"
| "remove_leases (sid # sids) b =
     (case hget (leases b) sid of
        None \<Rightarrow> remove_leases sids b
      | Some l \<Rightarrow>
          (let b = b\<lparr>leases := hremove sid (leases b)\<rparr>;
               (rest, b') = remove_leases sids b
           in (\<lparr>xl_session = sid, xl_lease = l, xl_executor = executor b, xl_key = key b,
                xl_shutdown = (leases b = []), xl_persist = persist_cookies b\<rparr> # rest, b')))"

definition expired_ids :: "instant \<Rightarrow> Browser \<Rightarrow> string list" where
  "expired_ids now b = map fst (filter (\<lambda>(_, l). expires_at l \<le> now) (leases b))"

definition reap_one ::
  "instant \<Rightarrow> string \<Rightarrow> Browser list \<times> expired_lease list \<times> session_table
     \<Rightarrow> Browser list \<times> expired_lease list \<times> session_table" where
  "reap_one now bid acc =
     (case acc of (dead, expired, st) \<Rightarrow>
       (case hget (browsers st) bid of
          None \<Rightarrow> (dead, expired, st)
        | Some b \<Rightarrow>
            if deadline b \<le> now
            then (case take_browser_locked bid st of
                    (None, st) \<Rightarrow> (dead, expired, st)
                  | (Some b, st) \<Rightarrow> (dead @ [b], expired, st))
            else (let ids = expired_ids now b; (removed, b') = remove_leases ids b;
                      st = st\<lparr>browsers := hinsert bid b' (browsers st)\<rparr>
                  in (dead, expired @ removed, remove_ports ids st))))"

definition drop_empty_one :: "string \<Rightarrow> session_table \<Rightarrow> session_table" where
  "drop_empty_one bid st =
     (case hget (browsers st) bid of
        None \<Rightarrow> st
      | Some b \<Rightarrow> forget_shared b (st\<lparr>browsers := hremove bid (browsers st)\<rparr>))"

definition drop_empty_browsers :: "session_table \<Rightarrow> session_table" where
  "drop_empty_browsers st =
     fold drop_empty_one (map fst (filter (\<lambda>(_, b). leases b = []) (browsers st))) st"

definition session_reaper_locked ::
  "instant \<Rightarrow> session_table \<Rightarrow> Browser list \<times> expired_lease list \<times> session_table" where
  "session_reaper_locked now st =
     (case fold (reap_one now) (hkeys (browsers st)) ([], [], st) of
        (dead, expired, st) \<Rightarrow> (dead, expired, drop_empty_browsers st))"

subsection \<open>Joining and registering\<close>

record join_look =
  jl_browser :: string
  jl_executor :: nat
  jl_endpoint :: string
  jl_expired :: bool

definition join_look_locked :: "BrowserKey \<Rightarrow> instant \<Rightarrow> session_table \<Rightarrow> join_look option" where
  "join_look_locked k now st =
     (case hget (shared_browsers st) k of
        None \<Rightarrow> None
      | Some bid \<Rightarrow>
          (case hget (browsers st) bid of
             None \<Rightarrow> None
           | Some b \<Rightarrow> Some \<lparr>jl_browser = bid, jl_executor = executor b, jl_endpoint = endpoint b,
                             jl_expired = (deadline b \<le> now)\<rparr>))"

definition join_active_locked :: "string \<Rightarrow> instant \<Rightarrow> session_table \<Rightarrow> bool" where
  "join_active_locked bid now st =
     (case hget (browsers st) bid of None \<Rightarrow> False | Some b \<Rightarrow> deadline b > now)"

definition join_insert_locked ::
  "string \<Rightarrow> string \<Rightarrow> string \<Rightarrow> string \<Rightarrow> duration \<Rightarrow> instant \<Rightarrow> session_table
     \<Rightarrow> bool \<times> Browser option \<times> session_table" where
  "join_insert_locked bid sid prin target_id lease_ttl now st =
     (case hget (browsers st) bid of
        None \<Rightarrow> (False, None, st)
      | Some b \<Rightarrow>
          if deadline b \<le> now
          then (case take_browser_locked bid st of (taken, st) \<Rightarrow> (False, taken, st))
          else (let l = \<lparr>lease_principal = prin, expires_at = lease_expiry now lease_ttl (deadline b),
                         target = Tab target_id\<rparr>
                in (True, None,
                    st\<lparr>browsers := hinsert bid (b\<lparr>leases := hinsert sid l (leases b)\<rparr>) (browsers st),
                       ports := hinsert sid (prin, port b) (ports st)\<rparr>)))"

text \<open>
  The two critical sections of \<open>register_login_browser\<close> and \<open>register_service_lease\<close>: the port first,
  then the browser. For a service the browser is exclusive and has no endpoint.
\<close>

definition new_browser ::
  "BrowserKey \<Rightarrow> nat \<Rightarrow> u16 \<Rightarrow> string \<Rightarrow> instant \<Rightarrow> string \<Rightarrow> string \<Rightarrow> LeaseTarget \<Rightarrow> duration \<Rightarrow> instant
     \<Rightarrow> bool \<Rightarrow> bool \<Rightarrow> Browser" where
  "new_browser k conn prt endp limit sid prin tgt lease_ttl now excl persist =
     \<lparr>key = k, executor = conn, port = prt, endpoint = endp, deadline = limit,
      leases = [(sid, \<lparr>lease_principal = prin, expires_at = lease_expiry now lease_ttl limit, target = tgt\<rparr>)],
      exclusive = excl, persist_cookies = persist\<rparr>"

definition register_port_locked :: "string \<Rightarrow> string \<Rightarrow> u16 \<Rightarrow> session_table \<Rightarrow> session_table" where
  "register_port_locked sid prin prt st = st\<lparr>ports := hinsert sid (prin, prt) (ports st)\<rparr>"

definition register_browser_locked :: "string \<Rightarrow> Browser \<Rightarrow> session_table \<Rightarrow> session_table" where
  "register_browser_locked bid b st =
     (let st = st\<lparr>browsers := hinsert bid b (browsers st)\<rparr> in
      if exclusive b then st else st\<lparr>shared_browsers := hinsert (key b) bid (shared_browsers st)\<rparr>)"

subsection \<open>Ending leases\<close>

definition disconnect_locked ::
  "string \<Rightarrow> string \<Rightarrow> session_table \<Rightarrow> (Lease \<times> nat \<times> bool \<times> BrowserKey option) option \<times> session_table" where
  "disconnect_locked sid prin st =
     (case List.find (\<lambda>(_, b). case hget (leases b) sid of None \<Rightarrow> False | Some l \<Rightarrow> lease_principal l = prin)
             (browsers st) of
        None \<Rightarrow> (None, st)
      | Some (bid, b) \<Rightarrow>
          (let l = the (hget (leases b) sid);
               b' = b\<lparr>leases := hremove sid (leases b)\<rparr>;
               empty = (leases b' = []);
               cookie_key = (if persist_cookies b' then Some (key b') else None);
               st = (if empty then forget_shared b' (st\<lparr>browsers := hremove bid (browsers st)\<rparr>)
                     else st\<lparr>browsers := hinsert bid b' (browsers st)\<rparr>)
           in (Some (l, executor b', empty, cookie_key), remove_ports [sid] st)))"

definition drain_one ::
  "string \<Rightarrow> Browser list \<times> session_table \<Rightarrow> Browser list \<times> session_table" where
  "drain_one bid acc =
     (case acc of (taken, st) \<Rightarrow>
       (case take_browser_locked bid st of
          (None, st) \<Rightarrow> (taken, st)
        | (Some b, st) \<Rightarrow> (taken @ [b], st)))"

definition drain_browsers :: "string option \<Rightarrow> session_table \<Rightarrow> Browser list \<times> session_table" where
  "drain_browsers ns st =
     fold drain_one
       (map fst (filter (\<lambda>(_, b). case ns of None \<Rightarrow> True | Some n \<Rightarrow> n = namespace (key b)) (browsers st)))
       ([], st)"

definition revoke_leases_one ::
  "string \<Rightarrow> string \<Rightarrow> expired_lease list \<times> session_table \<Rightarrow> expired_lease list \<times> session_table" where
  "revoke_leases_one prin bid acc =
     (case acc of (removed, st) \<Rightarrow>
       (case hget (browsers st) bid of
          None \<Rightarrow> (removed, st)
        | Some b \<Rightarrow>
            (let ids = map fst (filter (\<lambda>(_, l). lease_principal l = prin) (leases b));
                 (gone, b') = remove_leases ids b
             in (removed @ gone, st\<lparr>browsers := hinsert bid b' (browsers st)\<rparr>))))"

definition terminate_peer_leases_locked :: "string \<Rightarrow> session_table \<Rightarrow> expired_lease list \<times> session_table" where
  "terminate_peer_leases_locked i st =
     (let prin = ''peer:'' @ i in
      case fold (revoke_leases_one prin) (hkeys (browsers st)) ([], st) of
        (removed, st) \<Rightarrow> (removed, remove_ports (map xl_session removed) (drop_empty_browsers st)))"

text \<open>
  The executor of a browser disconnects: the last section of \<open>spawn_executor_reaper\<close> does what
  \<open>take_browser_locked\<close> does.
\<close>

definition executor_gone_locked :: "string \<Rightarrow> session_table \<Rightarrow> Browser option \<times> session_table" where
  "executor_gone_locked bid st =
     (case hget (browsers st) bid of
        None \<Rightarrow> (None, st)
      | Some b \<Rightarrow>
          (let st = forget_shared b (st\<lparr>browsers := hremove bid (browsers st)\<rparr>)
           in (Some b, remove_ports (hkeys (leases b)) st)))"

subsection \<open>Reading the table\<close>

definition status_counts :: "session_table \<Rightarrow> nat \<times> nat" where
  "status_counts st =
     (length (filter (\<lambda>b. \<not> Browser_is_service b) (hvalues (browsers st))),
      sum_list (map (\<lambda>b. length (leases b)) (hvalues (browsers st))))"

text \<open>The resolver the TCP transport asks before it opens a tunnel.\<close>

definition resolve_cdp_port :: "string \<Rightarrow> string \<Rightarrow> session_table \<Rightarrow> u16 option" where
  "resolve_cdp_port sid prin st =
     (case hget (ports st) sid of
        None \<Rightarrow> None
      | Some (owner, prt) \<Rightarrow> if owner = prin then Some prt else None)"

subsection \<open>The invariant of the table\<close>

text \<open>The lease of a session in a browser.\<close>

definition lease_in :: "session_table \<Rightarrow> string \<Rightarrow> string \<Rightarrow> Lease option" where
  "lease_in st bid sid = Option.bind (hget (browsers st) bid) (\<lambda>b. hget (leases b) sid)"

text \<open>
  The tables are consistent, up to browsers without leases and the ports of the registrations
  \<open>regs\<close> that have written their port and not yet their browser.
\<close>

definition table_ok :: "session_table \<Rightarrow> bool" where
  "table_ok st \<longleftrightarrow> hvalid (browsers st) \<and> hvalid (shared_browsers st) \<and> hvalid (ports st)
     \<and> (\<forall>bid b. hget (browsers st) bid = Some b \<longrightarrow> hvalid (leases b))"

definition shared_ok :: "session_table \<Rightarrow> bool" where
  "shared_ok st \<longleftrightarrow> (\<forall>k bid. hget (shared_browsers st) k = Some bid \<longleftrightarrow>
     (\<exists>b. hget (browsers st) bid = Some b \<and> \<not> exclusive b \<and> key b = k))"

definition leases_ok :: "session_table \<Rightarrow> bool" where
  "leases_ok st \<longleftrightarrow>
     (\<forall>bid bid' sid. lease_in st bid sid \<noteq> None \<longrightarrow> lease_in st bid' sid \<noteq> None \<longrightarrow> bid = bid')
     \<and> (\<forall>bid b sid l. hget (browsers st) bid = Some b \<longrightarrow> hget (leases b) sid = Some l \<longrightarrow>
          lease_principal l = principal (key b) \<and> expires_at l \<le> deadline b)"

definition ports_ok :: "(string \<times> string \<times> u16) list \<Rightarrow> session_table \<Rightarrow> bool" where
  "ports_ok regs st \<longleftrightarrow>
     (\<forall>sid prin prt. hget (ports st) sid = Some (prin, prt) \<longleftrightarrow>
        (\<exists>bid b l. hget (browsers st) bid = Some b \<and> hget (leases b) sid = Some l
            \<and> prin = lease_principal l \<and> prt = port b)
        \<or> (sid, prin, prt) \<in> set regs)
     \<and> distinct (map fst regs)
     \<and> (\<forall>bid sid. sid \<in> fst ` set regs \<longrightarrow> lease_in st bid sid = None)"

definition no_empty :: "session_table \<Rightarrow> bool" where
  "no_empty st \<longleftrightarrow> (\<forall>bid b. hget (browsers st) bid = Some b \<longrightarrow> leases b \<noteq> [])"

definition base_inv :: "session_table \<Rightarrow> bool" where
  "base_inv st \<longleftrightarrow> table_ok st \<and> shared_ok st \<and> leases_ok st"

definition table_inv :: "(string \<times> string \<times> u16) list \<Rightarrow> session_table \<Rightarrow> bool" where
  "table_inv regs st \<longleftrightarrow> base_inv st \<and> ports_ok regs st \<and> no_empty st"

subsection \<open>Removals\<close>

text \<open>
  Every operation that ends sessions removes whole browsers (those that satisfy \<open>T\<close>) and single
  leases (those that satisfy \<open>Q\<close>); \<open>removes\<close> says what that does to the browsers and to the shared
  ones, \<open>unports\<close> what it does to the ports.
\<close>

type_synonym browser_sel = "string \<Rightarrow> Browser \<Rightarrow> bool"
type_synonym lease_sel = "string \<Rightarrow> Browser \<Rightarrow> string \<Rightarrow> Lease \<Rightarrow> bool"

definition keep_leases :: "lease_sel \<Rightarrow> string \<Rightarrow> Browser \<Rightarrow> Browser" where
  "keep_leases Q bid b = b\<lparr>leases := hretain (\<lambda>sid l. \<not> Q bid b sid l) (leases b)\<rparr>"

definition removes :: "browser_sel \<Rightarrow> lease_sel \<Rightarrow> session_table \<Rightarrow> session_table \<Rightarrow> bool" where
  "removes T Q st st' \<longleftrightarrow> hvalid (browsers st') \<and> hvalid (shared_browsers st') \<and> hvalid (ports st')
     \<and> (\<forall>bid. hget (browsers st') bid = (case hget (browsers st) bid of None \<Rightarrow> None
          | Some b \<Rightarrow> if T bid b then None else Some (keep_leases Q bid b)))
     \<and> (\<forall>k. hget (shared_browsers st') k = (case hget (shared_browsers st) k of None \<Rightarrow> None
          | Some bid \<Rightarrow> if hget (browsers st') bid = None then None else Some bid))"

definition removed_lease :: "browser_sel \<Rightarrow> lease_sel \<Rightarrow> session_table \<Rightarrow> string \<Rightarrow> bool" where
  "removed_lease T Q st sid \<longleftrightarrow> (\<exists>bid b l. hget (browsers st) bid = Some b
     \<and> hget (leases b) sid = Some l \<and> (T bid b \<or> Q bid b sid l))"

definition unports :: "browser_sel \<Rightarrow> lease_sel \<Rightarrow> session_table \<Rightarrow> session_table \<Rightarrow> bool" where
  "unports T Q st st' \<longleftrightarrow> (\<forall>sid. hget (ports st') sid =
     (if removed_lease T Q st sid then None else hget (ports st) sid))"

lemma keep_leases_fields [simp]:
  "key (keep_leases Q bid b) = key b" "exclusive (keep_leases Q bid b) = exclusive b"
  "deadline (keep_leases Q bid b) = deadline b" "port (keep_leases Q bid b) = port b"
  "executor (keep_leases Q bid b) = executor b" "persist_cookies (keep_leases Q bid b) = persist_cookies b"
  by (simp_all add: keep_leases_def)

lemma hget_keep_leases:
  "hvalid (leases b) \<Longrightarrow> hget (leases (keep_leases Q bid b)) sid = Some l \<longleftrightarrow>
     hget (leases b) sid = Some l \<and> \<not> Q bid b sid l"
  by (auto simp: keep_leases_def split: option.splits if_splits)

lemma hvalid_keep_leases: "hvalid (leases b) \<Longrightarrow> hvalid (leases (keep_leases Q bid b))"
  by (simp add: keep_leases_def ht.valid_retain)

lemma removes_browser:
  assumes "removes T Q st st'"
  shows "hget (browsers st') bid = Some b' \<longleftrightarrow>
    (\<exists>b. hget (browsers st) bid = Some b \<and> \<not> T bid b \<and> b' = keep_leases Q bid b)"
  using assms unfolding removes_def by (auto split: option.splits if_splits)

lemma removes_base_inv:
  assumes inv: "base_inv st" and rem: "removes T Q st st'"
  shows "base_inv st'"
proof -
  note b = removes_browser[OF rem]
  have ok: "table_ok st" "shared_ok st" "leases_ok st" using inv by (simp_all add: base_inv_def)
  have valid: "hget (browsers st) bid = Some br \<Longrightarrow> hvalid (leases br)" for bid br
    using ok(1) by (simp add: table_ok_def)
  have 1: "table_ok st'"
    using rem valid unfolding table_ok_def b by (auto simp: removes_def hvalid_keep_leases)
  have 2: "shared_ok st'"
    unfolding shared_ok_def
  proof (intro allI)
    fix k bid
    have "hget (shared_browsers st') k = Some bid \<longleftrightarrow>
        hget (shared_browsers st) k = Some bid \<and> hget (browsers st') bid \<noteq> None"
      using rem unfolding removes_def by (auto split: option.splits if_splits)
    also have "\<dots> \<longleftrightarrow> (\<exists>b'. hget (browsers st') bid = Some b' \<and> \<not> exclusive b' \<and> key b' = k)"
      using ok(2) b[of bid] unfolding shared_ok_def by force
    finally show "hget (shared_browsers st') k = Some bid \<longleftrightarrow>
        (\<exists>b. hget (browsers st') bid = Some b \<and> \<not> exclusive b \<and> key b = k)" .
  qed
  have sub: "lease_in st' bid sid = Some l \<Longrightarrow> lease_in st bid sid = Some l" for bid sid l
    using valid by (auto simp: lease_in_def b hget_keep_leases bind_eq_Some_conv)
  have 3: "leases_ok st'"
    unfolding leases_ok_def
  proof (intro conjI allI impI)
    fix bid bid' sid assume "lease_in st' bid sid \<noteq> None" "lease_in st' bid' sid \<noteq> None"
    then show "bid = bid'" using sub ok(3) unfolding leases_ok_def by (metis not_None_eq)
  next
    fix bid b' sid l assume "hget (browsers st') bid = Some b'" "hget (leases b') sid = Some l"
    then obtain b0 where "hget (browsers st) bid = Some b0" "b' = keep_leases Q bid b0" "hget (leases b0) sid = Some l"
      using b valid by (auto simp: hget_keep_leases)
    then show "lease_principal l = principal (key b')" "expires_at l \<le> deadline b'"
      using ok(3) unfolding leases_ok_def by auto
  qed
  show ?thesis using 1 2 3 by (simp add: base_inv_def)
qed

lemma removes_ports_ok:
  assumes inv: "base_inv st" and rem: "removes T Q st st'" and un: "unports T Q st st'"
    and ports: "ports_ok regs st"
  shows "ports_ok regs st'"
proof -
  note b = removes_browser[OF rem]
  have valid: "hget (browsers st) bid = Some br \<Longrightarrow> hvalid (leases br)" for bid br
    using inv by (simp add: base_inv_def table_ok_def)
  have uniq: "hget (browsers st) bid = Some x \<Longrightarrow> hget (leases x) sid = Some l \<Longrightarrow>
      hget (browsers st) bid' = Some y \<Longrightarrow> hget (leases y) sid = Some l' \<Longrightarrow> bid = bid' \<and> x = y \<and> l = l'"
    for bid bid' x y sid l l'
  proof -
    assume a: "hget (browsers st) bid = Some x" "hget (leases x) sid = Some l"
      "hget (browsers st) bid' = Some y" "hget (leases y) sid = Some l'"
    then have "lease_in st bid sid \<noteq> None" "lease_in st bid' sid \<noteq> None" by (simp_all add: lease_in_def)
    then have "bid = bid'" using inv unfolding base_inv_def leases_ok_def by blast
    then show ?thesis using a by simp
  qed
  have reg: "sid \<in> fst ` set regs \<Longrightarrow> hget (browsers st) bid = Some x \<Longrightarrow> hget (leases x) sid = None" for sid bid x
  proof -
    assume "sid \<in> fst ` set regs" and x: "hget (browsers st) bid = Some x"
    then have "lease_in st bid sid = None" using ports by (simp add: ports_ok_def)
    then show ?thesis using x by (simp add: lease_in_def)
  qed
  have keep: "(\<exists>bid b' l. hget (browsers st') bid = Some b' \<and> hget (leases b') sid = Some l
        \<and> prin = lease_principal l \<and> prt = port b') \<longleftrightarrow>
      \<not> removed_lease T Q st sid \<and> (\<exists>bid b l. hget (browsers st) bid = Some b \<and> hget (leases b) sid = Some l
        \<and> prin = lease_principal l \<and> prt = port b)" (is "?l \<longleftrightarrow> ?r") for sid prin prt
  proof
    assume ?l
    then obtain bid x l where x: "hget (browsers st) bid = Some x" "\<not> T bid x" "hget (leases x) sid = Some l"
        "\<not> Q bid x sid l" "prin = lease_principal l" "prt = port x"
      by (auto simp: b hget_keep_leases valid)
    then have "\<not> removed_lease T Q st sid" using uniq unfolding removed_lease_def by metis
    then show ?r using x by blast
  next
    assume ?r
    then obtain bid x l where x: "hget (browsers st) bid = Some x" "hget (leases x) sid = Some l"
        "prin = lease_principal l" "prt = port x" "\<not> T bid x" "\<not> Q bid x sid l"
      unfolding removed_lease_def by blast
    then have "hget (leases (keep_leases Q bid x)) sid = Some l" using valid by (simp add: hget_keep_leases)
    then show ?l using x b[of bid "keep_leases Q bid x"] by (metis keep_leases_fields(4))
  qed
  have regs: "sid \<in> fst ` set regs \<Longrightarrow> \<not> removed_lease T Q st sid" for sid
    using reg unfolding removed_lease_def by fastforce
  show ?thesis
    unfolding ports_ok_def
  proof (intro conjI allI impI)
    fix sid prin prt
    have "hget (ports st') sid = Some (prin, prt) \<longleftrightarrow>
        \<not> removed_lease T Q st sid \<and> hget (ports st) sid = Some (prin, prt)"
      using un unfolding unports_def by auto
    also have "\<dots> \<longleftrightarrow> \<not> removed_lease T Q st sid \<and> ((\<exists>bid b l. hget (browsers st) bid = Some b \<and> hget (leases b) sid = Some l
        \<and> prin = lease_principal l \<and> prt = port b) \<or> (sid, prin, prt) \<in> set regs)"
      using ports by (simp add: ports_ok_def)
    also have "\<dots> \<longleftrightarrow> (\<exists>bid b' l. hget (browsers st') bid = Some b' \<and> hget (leases b') sid = Some l
        \<and> prin = lease_principal l \<and> prt = port b') \<or> (sid, prin, prt) \<in> set regs"
    proof -
      have "(sid, prin, prt) \<in> set regs \<Longrightarrow> \<not> removed_lease T Q st sid" using regs[of sid] by force
      then show ?thesis unfolding keep by argo
    qed
    finally show "hget (ports st') sid = Some (prin, prt) \<longleftrightarrow> \<dots>" .
  next
    fix bid sid assume "sid \<in> fst ` set regs"
    then show "lease_in st' bid sid = None"
      using reg valid
      by (cases "lease_in st' bid sid") (fastforce simp: lease_in_def bind_eq_Some_conv b hget_keep_leases)+
  qed (use ports in \<open>simp add: ports_ok_def\<close>)
qed

subsection \<open>What each operation removes\<close>

lemma fold_hremove_eq: "fold hremove ids m = filter (\<lambda>e. fst e \<notin> set ids) m"
  by (induction ids arbitrary: m) (auto simp: hremove_def intro: filter_cong)

lemma fold_hremove_selected:
  assumes "hvalid m"
  shows "fold hremove (map fst (filter (\<lambda>(_, l). P l) m)) m = hretain (\<lambda>_ l. \<not> P l) m"
proof -
  have "fst e \<in> set (map fst (filter (\<lambda>(_, l). P l) m)) \<longleftrightarrow> P (snd e)" if "e \<in> set m" for e
    using that assms unfolding hvalid_def
    by (auto simp: case_prod_unfold) (metis eq_key_imp_eq_value prod.collapse)
  then show ?thesis unfolding fold_hremove_eq hretain_def by (intro filter_cong) auto
qed

lemma snd_remove_leases: "snd (remove_leases ids b) = b\<lparr>leases := fold hremove ids (leases b)\<rparr>"
proof (induction ids arbitrary: b)
  case (Cons sid ids)
  have "hget (leases b) sid = None \<Longrightarrow> hremove sid (leases b) = leases b"
    by (auto simp: hremove_def hget_def map_of_eq_None_iff filter_id_conv)
  then show ?case using Cons by (auto simp: Let_def case_prod_unfold split: option.splits)
qed simp

lemma hget_forget_shared:
  assumes "shared_ok st" "hget (browsers st) bid = Some b" "shared_browsers st' = shared_browsers st"
  shows "hget (shared_browsers (forget_shared b st')) k =
     (case hget (shared_browsers st) k of None \<Rightarrow> None | Some x \<Rightarrow> if x = bid then None else Some x)"
proof -
  have "hget (shared_browsers st) k = Some bid \<longleftrightarrow> \<not> exclusive b \<and> key b = k"
    using assms(1,2) unfolding shared_ok_def by auto
  then show ?thesis using assms(3) by (auto simp: forget_shared_def split: option.splits)
qed

lemma forget_shared_fields [simp]:
  "browsers (forget_shared b st) = browsers st" "ports (forget_shared b st) = ports st"
  by (simp_all add: forget_shared_def)

lemma hvalid_forget_shared:
  "hvalid (shared_browsers st) \<Longrightarrow> hvalid (shared_browsers (forget_shared b st))"
  by (simp add: forget_shared_def ht.valid_remove)

lemma remove_ports_fields [simp]:
  "browsers (remove_ports ids st) = browsers st"
  "shared_browsers (remove_ports ids st) = shared_browsers st"
  "ports (remove_ports ids st) = fold hremove ids (ports st)"
  by (simp_all add: remove_ports_def)

lemma keep_all [simp]: "keep_leases (\<lambda>_ _ _ _. False) bid b = b"
  by (simp add: keep_leases_def hretain_def)

lemma shared_browser_exists:
  "shared_ok st \<Longrightarrow> hget (browsers st) x = None \<Longrightarrow> hget (shared_browsers st) k = Some x \<Longrightarrow> False"
  by (auto simp: shared_ok_def)

lemma take_browser_eq:
  "hget (browsers st) bid = Some b \<Longrightarrow> snd (take_browser_locked bid st) =
     remove_ports (hkeys (leases b)) (forget_shared b (st\<lparr>browsers := hremove bid (browsers st)\<rparr>))"
  "hget (browsers st) bid = None \<Longrightarrow> snd (take_browser_locked bid st) = st"
  by (simp_all add: take_browser_locked_def Let_def)

lemma base_invD:
  assumes "base_inv st"
  shows "hvalid (browsers st)" "hvalid (shared_browsers st)" "hvalid (ports st)" "shared_ok st"
    "hget (browsers st) bid = Some b \<Longrightarrow> hvalid (leases b)"
  using assms by (simp_all add: base_inv_def table_ok_def)

lemma removes_nothing:
  assumes "base_inv st" "\<And>bid b. hget (browsers st) bid = Some b \<Longrightarrow> \<not> T bid b \<and> keep_leases Q bid b = b"
  shows "removes T Q st st"
  using assms(2) base_invD(1-4)[OF assms(1)]
  unfolding removes_def by (auto split: option.splits dest: shared_browser_exists)

lemma removes_take:
  assumes inv: "base_inv st"
  shows "removes (\<lambda>x _. x = bid) (\<lambda>_ _ _ _. False) st (snd (take_browser_locked bid st))"
proof (cases "hget (browsers st) bid")
  case None
  then show ?thesis using inv by (simp add: take_browser_eq) (rule removes_nothing, auto)
next
  case (Some b)
  note v = base_invD[OF inv]
  show ?thesis
    using v(1-4) hget_forget_shared[OF v(4) Some, of "st\<lparr>browsers := hremove bid (browsers st)\<rparr>"] Some
    unfolding take_browser_eq(1)[OF Some] removes_def
    by (auto simp: ht.valid_remove ht.valid_fold_remove hvalid_forget_shared
        split: option.splits dest: shared_browser_exists)
qed

lemma unports_take:
  "unports (\<lambda>x _. x = bid) (\<lambda>_ _ _ _. False) st (snd (take_browser_locked bid st))"
  by (auto simp: take_browser_locked_def unports_def removed_lease_def forget_shared_def remove_ports_def
      Let_def hkeys_iff split: option.splits)

text \<open>Two removals in a row.\<close>

definition insensitive :: "browser_sel \<Rightarrow> lease_sel \<Rightarrow> bool" where
  "insensitive T Q \<longleftrightarrow> (\<forall>bid b ls sid l. T bid (b\<lparr>leases := ls\<rparr>) = T bid b
     \<and> Q bid (b\<lparr>leases := ls\<rparr>) sid l = Q bid b sid l)"

lemma keep_leases_keep_leases:
  "insensitive T Q' \<Longrightarrow> keep_leases Q' bid (keep_leases Q bid b)
     = keep_leases (\<lambda>bid b sid l. Q bid b sid l \<or> Q' bid b sid l) bid b"
  by (auto simp: keep_leases_def hretain_def insensitive_def)

lemma removes_trans:
  assumes 1: "removes T Q st st1" and 2: "removes T' Q' st1 st2" and ins: "insensitive T' Q'"
  shows "removes (\<lambda>bid b. T bid b \<or> T' bid b) (\<lambda>bid b sid l. Q bid b sid l \<or> Q' bid b sid l) st st2"
proof -
  have T': "T' bid (keep_leases Q bid b) = T' bid b" for bid b
    using ins by (simp add: insensitive_def keep_leases_def)
  have b1: "hget (browsers st1) bid = (case hget (browsers st) bid of None \<Rightarrow> None
          | Some b \<Rightarrow> if T bid b then None else Some (keep_leases Q bid b))" for bid
    using 1 by (simp add: removes_def)
  have b2: "hget (browsers st2) bid = (case hget (browsers st1) bid of None \<Rightarrow> None
          | Some b \<Rightarrow> if T' bid b then None else Some (keep_leases Q' bid b))" for bid
    using 2 by (simp add: removes_def)
  have "hget (browsers st2) bid = (case hget (browsers st) bid of None \<Rightarrow> None
          | Some b \<Rightarrow> if T bid b \<or> T' bid b then None
              else Some (keep_leases (\<lambda>bid b sid l. Q bid b sid l \<or> Q' bid b sid l) bid b))" for bid
    by (simp add: b2 b1 T' keep_leases_keep_leases[OF ins] split: option.splits)
  moreover have "hget (browsers st1) bid = None \<Longrightarrow> hget (browsers st2) bid = None" for bid
    by (simp add: b2)
  ultimately show ?thesis
    using 1 2 unfolding removes_def by (auto split: option.splits)
qed

lemma unports_trans:
  assumes inv: "base_inv st" and 1: "removes T Q st st1" "unports T Q st st1"
    and 2: "unports T' Q' st1 st2" and ins: "insensitive T' Q'"
  shows "unports (\<lambda>bid b. T bid b \<or> T' bid b) (\<lambda>bid b sid l. Q bid b sid l \<or> Q' bid b sid l) st st2"
proof -
  have ins': "T' bid (keep_leases Q bid b) = T' bid b" "Q' bid (keep_leases Q bid b) sid l = Q' bid b sid l" for bid b sid l
    using ins by (simp_all add: insensitive_def keep_leases_def)
  have "removed_lease T' Q' st1 sid \<longleftrightarrow> (\<exists>bid b l. hget (browsers st) bid = Some b \<and> \<not> T bid b
      \<and> hget (leases b) sid = Some l \<and> \<not> Q bid b sid l \<and> (T' bid b \<or> Q' bid b sid l))" for sid
    unfolding removed_lease_def removes_browser[OF 1(1)]
    using base_invD(5)[OF inv] by (auto simp: hget_keep_leases ins') (metis hget_keep_leases ins')+
  then have "removed_lease T Q st sid \<or> removed_lease T' Q' st1 sid \<longleftrightarrow>
      removed_lease (\<lambda>bid b. T bid b \<or> T' bid b) (\<lambda>bid b sid l. Q bid b sid l \<or> Q' bid b sid l) st sid" for sid
    unfolding removed_lease_def by blast
  then show ?thesis using 1(2) 2 unfolding unports_def by auto
qed

lemma removes_remove_ports: "removes T Q st st' \<Longrightarrow> removes T Q st (remove_ports ids st')"
  unfolding removes_def remove_ports_fields by (simp only: ht.valid_fold_remove simp_thms)

lemma removes_cong:
  assumes "removes T Q st st'"
    and "\<And>bid b. hget (browsers st) bid = Some b \<Longrightarrow> T bid b = T' bid b \<and> Q bid b = Q' bid b"
  shows "removes T' Q' st st'"
  using assms unfolding removes_def keep_leases_def by (auto split: option.splits)

lemma unports_cong:
  assumes "unports T Q st st'"
    and "\<And>bid b. hget (browsers st) bid = Some b \<Longrightarrow> T bid b = T' bid b \<and> Q bid b = Q' bid b"
  shows "unports T' Q' st st'"
proof -
  have "removed_lease T Q st sid = removed_lease T' Q' st sid" for sid
    using assms(2) unfolding removed_lease_def by metis
  then show ?thesis using assms(1) by (simp add: unports_def)
qed

lemma lease_in_removes:
  assumes "base_inv st" "removes T Q st st'"
  shows "lease_in st' bid sid = Some l \<longleftrightarrow> (\<exists>b. hget (browsers st) bid = Some b
     \<and> hget (leases b) sid = Some l \<and> \<not> T bid b \<and> \<not> Q bid b sid l)"
  using base_invD(5)[OF assms(1)]
  by (auto simp: lease_in_def bind_eq_Some_conv removes_browser[OF assms(2)] hget_keep_leases)

text \<open>The removal of some leases of one browser.\<close>

lemma removes_some_leases:
  assumes inv: "base_inv st" and b: "hget (browsers st) bid = Some b"
    and b': "b' = b\<lparr>leases := hretain (\<lambda>sid l. \<not> P sid l) (leases b)\<rparr>"
  shows "removes (\<lambda>_ _. False) (\<lambda>x _ sid l. x = bid \<and> P sid l) st
           (st\<lparr>browsers := hinsert bid b' (browsers st)\<rparr>)"
proof -
  have "keep_leases (\<lambda>x _ sid l. x = bid \<and> P sid l) x y = (if x = bid then y\<lparr>leases := hretain (\<lambda>sid l. \<not> P sid l) (leases y)\<rparr> else y)" for x y
    by (simp add: keep_leases_def hretain_def)
  then show ?thesis
    using base_invD(1-4)[OF inv] b unfolding removes_def b'
    by (auto simp: ht.valid_insert split: option.splits dest: shared_browser_exists)
qed

lemma keep_expired_eq:
  assumes "hvalid (leases b)"
  shows "snd (remove_leases (map fst (filter (\<lambda>(_, l). P l) (leases b))) b)
     = b\<lparr>leases := hretain (\<lambda>_ l. \<not> P l) (leases b)\<rparr>"
  by (simp add: snd_remove_leases fold_hremove_selected[OF assms])

lemma selected_ids_iff:
  "hvalid m \<Longrightarrow> sid \<in> set (map fst (filter (\<lambda>(_, l). P l) m)) \<longleftrightarrow> (\<exists>l. hget m sid = Some l \<and> P l)"
  by (force simp: hget_iff_mem)

definition reap_T :: "instant \<Rightarrow> string list \<Rightarrow> browser_sel" where
  "reap_T now ids bid b \<longleftrightarrow> bid \<in> set ids \<and> deadline b \<le> now"

definition reap_Q :: "instant \<Rightarrow> string list \<Rightarrow> lease_sel" where
  "reap_Q now ids bid b sid l \<longleftrightarrow> bid \<in> set ids \<and> \<not> deadline b \<le> now \<and> expires_at l \<le> now"

lemma insensitive_reap: "insensitive (reap_T now ids) (reap_Q now ids)"
  by (simp add: insensitive_def reap_T_def reap_Q_def)

lemma reap_one_removes:
  assumes inv: "base_inv st" and st': "st' = snd (snd (reap_one now bid (dead, expired, st)))"
  shows "removes (reap_T now [bid]) (reap_Q now [bid]) st st' \<and> unports (reap_T now [bid]) (reap_Q now [bid]) st st'"
proof (cases "hget (browsers st) bid")
  case None
  have "removes (\<lambda>x _. x = bid) (\<lambda>_ _ _ _. False) st st" "unports (\<lambda>x _. x = bid) (\<lambda>_ _ _ _. False) st st"
    using removes_take[OF inv, of bid] unports_take[of bid st] None by (simp_all add: take_browser_eq)
  moreover have "st' = st" using None st' by (simp add: reap_one_def)
  ultimately show ?thesis using None
    by (auto simp: reap_T_def reap_Q_def fun_eq_iff elim!: removes_cong unports_cong)
next
  case (Some b)
  show ?thesis
  proof (cases "deadline b \<le> now")
    case True
    have "st' = snd (take_browser_locked bid st)"
      using Some True st' by (auto simp: reap_one_def take_browser_locked_def Let_def)
    then show ?thesis using removes_take[OF inv, of bid] unports_take[of bid st] Some True
      by (auto simp: reap_T_def reap_Q_def fun_eq_iff elim!: removes_cong unports_cong)
  next
    case False
    define b' where "b' = b\<lparr>leases := hretain (\<lambda>_ l. \<not> expires_at l \<le> now) (leases b)\<rparr>"
    have "snd (remove_leases (expired_ids now b) b) = b'"
      unfolding expired_ids_def b'_def by (rule keep_expired_eq) (use base_invD(5)[OF inv Some] in simp)
    then have st'': "st' = remove_ports (expired_ids now b) (st\<lparr>browsers := hinsert bid b' (browsers st)\<rparr>)"
      using Some False st' by (simp add: reap_one_def Let_def case_prod_unfold)
    have "removes (\<lambda>_ _. False) (\<lambda>x _ sid l. x = bid \<and> expires_at l \<le> now) st (st\<lparr>browsers := hinsert bid b' (browsers st)\<rparr>)"
      by (rule removes_some_leases[OF inv Some]) (simp add: b'_def)
    then have "removes (\<lambda>_ _. False) (\<lambda>x _ sid l. x = bid \<and> expires_at l \<le> now) st st'"
      unfolding st'' by (rule removes_remove_ports)
    moreover have "unports (\<lambda>_ _. False) (\<lambda>x _ sid l. x = bid \<and> expires_at l \<le> now) st st'"
    proof -
      have "removed_lease (\<lambda>_ _. False) (\<lambda>x _ sid l. x = bid \<and> expires_at l \<le> now) st sid \<longleftrightarrow> sid \<in> set (expired_ids now b)" for sid
        using Some selected_ids_iff[OF base_invD(5)[OF inv Some], of sid "\<lambda>l. expires_at l \<le> now"]
        by (auto simp: removed_lease_def expired_ids_def)
      then show ?thesis unfolding unports_def st'' by simp
    qed
    ultimately show ?thesis using False Some
      by (auto simp: reap_T_def reap_Q_def fun_eq_iff elim!: removes_cong unports_cong)
  qed
qed

lemma fold_reap_removes:
  assumes "base_inv st"
  shows "removes (reap_T now ids) (reap_Q now ids) st (snd (snd (fold (reap_one now) ids (dead, expired, st))))
     \<and> unports (reap_T now ids) (reap_Q now ids) st (snd (snd (fold (reap_one now) ids (dead, expired, st))))"
  using assms
proof (induction ids arbitrary: st dead expired)
  case Nil
  then show ?case
    by (auto simp: reap_T_def reap_Q_def keep_leases_def hretain_def unports_def removed_lease_def
        intro!: removes_nothing)
next
  case (Cons bid ids)
  obtain dead1 expired1 st1 where r: "reap_one now bid (dead, expired, st) = (dead1, expired1, st1)"
    by (metis surj_pair)
  have 1: "removes (reap_T now [bid]) (reap_Q now [bid]) st st1" "unports (reap_T now [bid]) (reap_Q now [bid]) st st1"
    using reap_one_removes[OF Cons.prems, of st1 now bid dead expired] by (simp_all add: r)
  note 2 = Cons.IH[OF removes_base_inv[OF Cons.prems 1(1)], of dead1 expired1]
  have "(\<lambda>x b. reap_T now [bid] x b \<or> reap_T now ids x b) = reap_T now (bid # ids)"
    "(\<lambda>x b sid l. reap_Q now [bid] x b sid l \<or> reap_Q now ids x b sid l) = reap_Q now (bid # ids)"
    by (auto simp: reap_T_def reap_Q_def fun_eq_iff)
  then show ?case
    using removes_trans[OF 1(1) conjunct1[OF 2] insensitive_reap]
      unports_trans[OF Cons.prems 1 conjunct2[OF 2] insensitive_reap]
    by (simp add: r)
qed

lemma drop_empty_one_removes:
  assumes inv: "base_inv st"
  shows "removes (\<lambda>x _. x = bid) (\<lambda>_ _ _ _. False) st (drop_empty_one bid st)"
    and "ports (drop_empty_one bid st) = ports st"
proof -
  show "removes (\<lambda>x _. x = bid) (\<lambda>_ _ _ _. False) st (drop_empty_one bid st)"
  proof (cases "hget (browsers st) bid")
    case None
    then show ?thesis using removes_take[OF inv, of bid] by (simp add: drop_empty_one_def take_browser_eq)
  next
    case (Some b)
    have "removes (\<lambda>x _. x = bid) (\<lambda>_ _ _ _. False) st (remove_ports (hkeys (leases b)) (drop_empty_one bid st))"
      using removes_take[OF inv, of bid] by (simp add: drop_empty_one_def take_browser_eq Some)
    then show ?thesis
      using base_invD(3)[OF inv] unfolding removes_def remove_ports_fields
      by (simp add: drop_empty_one_def Some)
  qed
  show "ports (drop_empty_one bid st) = ports st"
    by (simp add: drop_empty_one_def split: option.splits)
qed

lemma fold_drop_empty_removes:
  assumes "base_inv st"
  shows "removes (\<lambda>x _. x \<in> set ids) (\<lambda>_ _ _ _. False) st (fold drop_empty_one ids st)
     \<and> ports (fold drop_empty_one ids st) = ports st"
  using assms
proof (induction ids arbitrary: st)
  case Nil
  then show ?case by (auto intro!: removes_nothing)
next
  case (Cons bid ids)
  note 1 = drop_empty_one_removes[OF Cons.prems, of bid]
  note 2 = Cons.IH[OF removes_base_inv[OF Cons.prems 1(1)]]
  have "removes (\<lambda>x _. x = bid \<or> x \<in> set ids) (\<lambda>_ _ _ _. False \<or> False) st (fold drop_empty_one ids (drop_empty_one bid st))"
    by (rule removes_trans[OF 1(1) conjunct1[OF 2]]) (simp add: insensitive_def)
  then show ?case using 1(2) 2 by simp
qed

lemma drop_empty_removes:
  assumes inv: "base_inv st"
  shows "removes (\<lambda>_ b. leases b = []) (\<lambda>_ _ _ _. False) st (drop_empty_browsers st)"
    and "ports (drop_empty_browsers st) = ports st"
    and "no_empty (drop_empty_browsers st)"
proof -
  have "bid \<in> set (map fst (filter (\<lambda>(_, b). leases b = []) (browsers st))) \<longleftrightarrow> leases b = []"
    if "hget (browsers st) bid = Some b" for bid b
    using that selected_ids_iff[OF base_invD(1)[OF inv], of bid "\<lambda>b. leases b = []"] by simp
  then show rem: "removes (\<lambda>_ b. leases b = []) (\<lambda>_ _ _ _. False) st (drop_empty_browsers st)"
    unfolding drop_empty_browsers_def
    by (intro removes_cong[OF conjunct1[OF fold_drop_empty_removes[OF inv]]]) simp
  show "ports (drop_empty_browsers st) = ports st"
    unfolding drop_empty_browsers_def using fold_drop_empty_removes[OF inv] by simp
  show "no_empty (drop_empty_browsers st)"
    by (auto simp: no_empty_def removes_browser[OF rem])
qed

lemma drop_empty_ports_ok:
  assumes "base_inv st" "ports_ok regs st"
  shows "ports_ok regs (drop_empty_browsers st)"
proof (rule removes_ports_ok[OF assms(1) drop_empty_removes(1)[OF assms(1)] _ assms(2)])
  show "unports (\<lambda>_ b. leases b = []) (\<lambda>_ _ _ _. False) st (drop_empty_browsers st)"
    by (auto simp: unports_def removed_lease_def drop_empty_removes(2)[OF assms(1)] hget_def)
qed

lemma lease_in_drop_empty:
  "base_inv st \<Longrightarrow> lease_in (drop_empty_browsers st) bid sid = lease_in st bid sid"
proof -
  assume inv: "base_inv st"
  have "lease_in (drop_empty_browsers st) bid sid = Some l \<longleftrightarrow> lease_in st bid sid = Some l" for l
    unfolding lease_in_removes[OF inv drop_empty_removes(1)[OF inv]]
    by (auto simp: lease_in_def bind_eq_Some_conv hget_def)
  then show ?thesis by (metis not_Some_eq)
qed

lemma session_reaper_state:
  "snd (snd (session_reaper_locked now st)) =
     drop_empty_browsers (snd (snd (fold (reap_one now) (hkeys (browsers st)) ([], [], st))))"
  by (simp add: session_reaper_locked_def case_prod_unfold)

lemma session_reaper_inv:
  assumes "table_inv regs st"
  shows "table_inv regs (snd (snd (session_reaper_locked now st)))"
proof -
  have inv: "base_inv st" "ports_ok regs st" using assms by (simp_all add: table_inv_def)
  note r = fold_reap_removes[OF inv(1), of now "hkeys (browsers st)" "[]" "[]"]
  show ?thesis
    using drop_empty_removes[OF removes_base_inv[OF inv(1) conjunct1[OF r]]]
      removes_base_inv[OF removes_base_inv[OF inv(1) conjunct1[OF r]]]
      drop_empty_ports_ok[OF removes_base_inv[OF inv(1) conjunct1[OF r]]]
      removes_ports_ok[OF inv(1) conjunct1[OF r] conjunct2[OF r] inv(2)]
    by (auto simp: table_inv_def session_reaper_state)
qed

lemma session_reaper_leases:
  assumes "base_inv st"
  shows "lease_in (snd (snd (session_reaper_locked now st))) bid sid = Some l \<longleftrightarrow>
    (\<exists>b. hget (browsers st) bid = Some b \<and> hget (leases b) sid = Some l \<and> now < deadline b \<and> now < expires_at l)"
proof -
  note r = fold_reap_removes[OF assms, of now "hkeys (browsers st)" "[]" "[]"]
  show ?thesis
    unfolding session_reaper_state lease_in_drop_empty[OF removes_base_inv[OF assms conjunct1[OF r]]]
      lease_in_removes[OF assms conjunct1[OF r]]
    by (auto simp: reap_T_def reap_Q_def hkeys_iff)
qed

lemma take_inv: "table_inv regs st \<Longrightarrow> table_inv regs (snd (take_browser_locked bid st))"
proof -
  assume "table_inv regs st"
  then have inv: "base_inv st" "ports_ok regs st" "no_empty st" by (simp_all add: table_inv_def)
  note r = removes_take[OF inv(1), of bid]
  have "no_empty (snd (take_browser_locked bid st))"
    using inv(3) by (auto simp: no_empty_def removes_browser[OF r])
  then show ?thesis
    using removes_base_inv[OF inv(1) r] removes_ports_ok[OF inv(1) r unports_take inv(2)] by (simp add: table_inv_def)
qed

lemma executor_gone_eq_take: "executor_gone_locked bid st = take_browser_locked bid st"
  by (simp add: executor_gone_locked_def take_browser_locked_def Let_def split: option.splits)

lemma expire_inv: "table_inv regs st \<Longrightarrow> table_inv regs (snd (expire_browser_locked bid now st))"
  by (simp add: expire_browser_locked_def take_inv)

lemma fold_drain:
  "snd (fold drain_one ids (taken, st)) = fold (\<lambda>bid st. snd (take_browser_locked bid st)) ids st"
proof (induction ids arbitrary: taken st)
  case (Cons bid ids)
  obtain t st1 where "take_browser_locked bid st = (t, st1)" by (metis surj_pair)
  then show ?case using Cons by (cases t) (simp_all add: drain_one_def)
qed simp

lemma drain_inv: "table_inv regs st \<Longrightarrow> table_inv regs (snd (drain_browsers ns st))"
proof -
  have "table_inv regs st \<Longrightarrow> table_inv regs (fold (\<lambda>bid st. snd (take_browser_locked bid st)) ids st)" for ids
    by (induction ids arbitrary: st) (auto simp: take_inv)
  then show "table_inv regs st \<Longrightarrow> ?thesis" by (simp add: drain_browsers_def fold_drain)
qed

lemma fold_take_removes:
  assumes "base_inv st"
  shows "removes (\<lambda>x _. x \<in> set ids) (\<lambda>_ _ _ _. False) st (fold (\<lambda>bid st. snd (take_browser_locked bid st)) ids st)"
  using assms
proof (induction ids arbitrary: st)
  case Nil
  then show ?case by (auto intro!: removes_nothing)
next
  case (Cons bid ids)
  note 1 = removes_take[OF Cons.prems, of bid]
  note 2 = Cons.IH[OF removes_base_inv[OF Cons.prems 1]]
  have "removes (\<lambda>x _. x = bid \<or> x \<in> set ids) (\<lambda>_ _ _ _. False \<or> False) st
      (fold (\<lambda>bid st. snd (take_browser_locked bid st)) ids (snd (take_browser_locked bid st)))"
    by (rule removes_trans[OF 1 2]) (simp add: insensitive_def)
  then show ?case by simp
qed

text \<open>What every removal has in common, as seen by a login that waits on a shared browser.\<close>

definition shrinks :: "session_table \<Rightarrow> session_table \<Rightarrow> bool" where
  "shrinks st st' \<longleftrightarrow>
     (\<forall>bid b'. hget (browsers st') bid = Some b' \<longrightarrow> (\<exists>b. hget (browsers st) bid = Some b \<and> deadline b' = deadline b))
     \<and> (\<forall>k bid. hget (shared_browsers st') k = Some bid \<longleftrightarrow>
          hget (shared_browsers st) k = Some bid \<and> hget (browsers st') bid \<noteq> None)"

lemma removes_shrinks:
  assumes "removes T Q st st'"
  shows "shrinks st st'"
proof -
  have "hget (shared_browsers st') k = Some bid \<longleftrightarrow>
      hget (shared_browsers st) k = Some bid \<and> hget (browsers st') bid \<noteq> None" for k bid
    using assms unfolding removes_def by (auto split: option.splits if_splits)
  moreover have "\<exists>b. hget (browsers st) bid = Some b \<and> deadline b' = deadline b"
    if "hget (browsers st') bid = Some b'" for bid b'
    using that removes_browser[OF assms, of bid b'] by auto
  ultimately show ?thesis unfolding shrinks_def by blast
qed

lemma shrinks_refl: "base_inv st \<Longrightarrow> shrinks st st"
  by (rule removes_shrinks[OF removes_nothing[where T = "\<lambda>_ _. False" and Q = "\<lambda>_ _ _ _. False"]]) simp_all

lemma shrinks_trans:
  assumes "shrinks st st1" "shrinks st1 st2"
  shows "shrinks st st2"
proof -
  have "\<exists>b. hget (browsers st) bid = Some b \<and> deadline b' = deadline b" if b: "hget (browsers st2) bid = Some b'" for bid b'
  proof -
    obtain b1 where b1: "hget (browsers st1) bid = Some b1" "deadline b' = deadline b1"
      using assms(2) b unfolding shrinks_def by blast
    then show ?thesis using assms(1) unfolding shrinks_def by fastforce
  qed
  moreover have "hget (browsers st2) bid \<noteq> None \<Longrightarrow> hget (browsers st1) bid \<noteq> None" for bid
    using assms(2) unfolding shrinks_def by (cases "hget (browsers st2) bid") fastforce+
  moreover have "hget (shared_browsers st2) k = Some bid \<longleftrightarrow>
      hget (shared_browsers st1) k = Some bid \<and> hget (browsers st2) bid \<noteq> None" for k bid
    using assms(2) by (simp add: shrinks_def)
  moreover have "hget (shared_browsers st1) k = Some bid \<longleftrightarrow>
      hget (shared_browsers st) k = Some bid \<and> hget (browsers st1) bid \<noteq> None" for k bid
    using assms(1) by (simp add: shrinks_def)
  ultimately show ?thesis unfolding shrinks_def by blast
qed

lemma take_shrinks: "base_inv st \<Longrightarrow> shrinks st (snd (take_browser_locked bid st))"
  by (rule removes_shrinks[OF removes_take])

lemma expire_shrinks: "base_inv st \<Longrightarrow> shrinks st (snd (expire_browser_locked bid now st))"
  by (simp add: expire_browser_locked_def take_shrinks shrinks_refl)

lemma session_reaper_shrinks:
  assumes "base_inv st"
  shows "shrinks st (snd (snd (session_reaper_locked now st)))"
  unfolding session_reaper_state
  using removes_shrinks[OF conjunct1[OF fold_reap_removes[OF assms]]]
    removes_shrinks[OF drop_empty_removes(1)[OF removes_base_inv[OF assms conjunct1[OF fold_reap_removes[OF assms]]]]]
  by (rule shrinks_trans)

lemma drain_shrinks: "base_inv st \<Longrightarrow> shrinks st (snd (drain_browsers ns st))"
  by (simp add: drain_browsers_def fold_drain removes_shrinks[OF fold_take_removes])

lemma hremove_hinsert [simp]: "hremove k (hinsert k v m) = hremove k m"
  by (simp add: hremove_def hinsert_def)

lemma disconnect_state:
  assumes "List.find (\<lambda>(_, b). case hget (leases b) sid of None \<Rightarrow> False | Some l \<Rightarrow> lease_principal l = prin)
             (browsers st) = Some (bid, b)"
    and "b' = b\<lparr>leases := hremove sid (leases b)\<rparr>"
    and "st1 = remove_ports [sid] (st\<lparr>browsers := hinsert bid b' (browsers st)\<rparr>)"
  shows "snd (disconnect_locked sid prin st) = (if leases b' = [] then drop_empty_one bid st1 else st1)"
  using assms
  by (simp add: disconnect_locked_def Let_def drop_empty_one_def remove_ports_def forget_shared_def)

lemma disconnect_found:
  assumes inv: "base_inv st"
    and f: "List.find (\<lambda>(_, b). case hget (leases b) sid of None \<Rightarrow> False | Some l \<Rightarrow> lease_principal l = prin)
             (browsers st) = Some (bid, b)"
  shows "hget (browsers st) bid = Some b \<and> (\<exists>l. hget (leases b) sid = Some l \<and> lease_principal l = prin)"
  using find_SomeD[OF f] base_invD(1)[OF inv] by (auto simp: hget_iff_mem split: option.splits)

lemma drop_empty_one_inv:
  assumes "base_inv st" "ports_ok regs st" "hget (browsers st) bid = Some b" "leases b = []"
  shows "base_inv (drop_empty_one bid st) \<and> ports_ok regs (drop_empty_one bid st)"
proof -
  note r = drop_empty_one_removes[OF assms(1), of bid]
  have "unports (\<lambda>x _. x = bid) (\<lambda>_ _ _ _. False) st (drop_empty_one bid st)"
    using assms(3,4) by (auto simp: unports_def removed_lease_def r(2) hget_def)
  then show ?thesis using removes_base_inv[OF assms(1) r(1)] removes_ports_ok[OF assms(1) r(1) _ assms(2)] by blast
qed

lemma disconnect_inv:
  assumes "table_inv regs st"
  shows "table_inv regs (snd (disconnect_locked sid prin st)) \<and> shrinks st (snd (disconnect_locked sid prin st))"
proof (cases "List.find (\<lambda>(_, b). case hget (leases b) sid of None \<Rightarrow> False | Some l \<Rightarrow> lease_principal l = prin) (browsers st)")
  case None
  then show ?thesis using assms by (simp add: disconnect_locked_def shrinks_refl table_inv_def)
next
  case (Some p)
  obtain bid b where p: "p = (bid, b)" by (metis surj_pair)
  have inv: "base_inv st" "ports_ok regs st" "no_empty st" using assms by (simp_all add: table_inv_def)
  obtain l where b: "hget (browsers st) bid = Some b" and l: "hget (leases b) sid = Some l"
    using disconnect_found[OF inv(1) Some[unfolded p]] by blast
  define b' where "b' = b\<lparr>leases := hremove sid (leases b)\<rparr>"
  define st0 where "st0 = st\<lparr>browsers := hinsert bid b' (browsers st)\<rparr>"
  define st1 where "st1 = remove_ports [sid] st0"
  have "removes (\<lambda>_ _. False) (\<lambda>x _ s _. x = bid \<and> s = sid) st st0"
    unfolding st0_def
    by (rule removes_some_leases[OF inv(1) b, where P = "\<lambda>s _. s = sid"])
      (simp add: b'_def hremove_def hretain_def)
  then have r: "removes (\<lambda>_ _. False) (\<lambda>x _ s _. x = bid \<and> s = sid) st st1"
    unfolding st1_def by (rule removes_remove_ports)
  have "removed_lease (\<lambda>_ _. False) (\<lambda>x _ s _. x = bid \<and> s = sid) st s \<longleftrightarrow> s = sid" for s
    using b l by (auto simp: removed_lease_def)
  then have u: "unports (\<lambda>_ _. False) (\<lambda>x _ s _. x = bid \<and> s = sid) st st1"
    by (simp add: unports_def st1_def st0_def)
  have inv1: "base_inv st1" "ports_ok regs st1"
    using removes_base_inv[OF inv(1) r] removes_ports_ok[OF inv(1) r u inv(2)] by blast+
  have b1: "hget (browsers st1) bid = Some b'" by (simp add: st1_def st0_def)
  have others: "x \<noteq> bid \<Longrightarrow> hget (browsers st1) x = Some y \<Longrightarrow> leases y \<noteq> []" for x y
    using inv(3) by (simp add: st1_def st0_def no_empty_def)
  have final: "snd (disconnect_locked sid prin st) = (if leases b' = [] then drop_empty_one bid st1 else st1)"
    by (rule disconnect_state[OF Some[unfolded p] b'_def]) (simp add: st1_def st0_def)
  show ?thesis
  proof (cases "leases b' = []")
    case True
    have "no_empty (drop_empty_one bid st1)"
      using others removes_browser[OF drop_empty_one_removes(1)[OF inv1(1), of bid]] by (auto simp: no_empty_def)
    then show ?thesis
      using drop_empty_one_inv[OF inv1 b1 True] shrinks_trans[OF removes_shrinks[OF r]
          removes_shrinks[OF drop_empty_one_removes(1)[OF inv1(1), of bid]]]
      by (simp add: final True table_inv_def)
  next
    case False
    have "leases y \<noteq> []" if "hget (browsers st1) x = Some y" for x y
      using others[OF _ that] b1 that False by (cases "x = bid") auto
    then show ?thesis using inv1 False removes_shrinks[OF r] by (simp add: final table_inv_def no_empty_def)
  qed
qed

text \<open>Revoking the leases of a peer.\<close>

lemma remove_leases_sessions:
  "distinct ids \<Longrightarrow> (\<And>i. i \<in> set ids \<Longrightarrow> hget (leases b) i \<noteq> None) \<Longrightarrow>
     map xl_session (fst (remove_leases ids b)) = ids"
proof (induction ids arbitrary: b)
  case (Cons i ids)
  obtain l where l: "hget (leases b) i = Some l" using Cons.prems(2)[of i] by auto
  have "map xl_session (fst (remove_leases ids (b\<lparr>leases := hremove i (leases b)\<rparr>))) = ids"
  proof (rule Cons.IH)
    fix j assume "j \<in> set ids"
    then show "hget (leases (b\<lparr>leases := hremove i (leases b)\<rparr>)) j \<noteq> None"
      using Cons.prems by auto
  qed (use Cons.prems in simp)
  then show ?case using l by (simp add: Let_def case_prod_unfold)
qed simp

definition peer_Q :: "string \<Rightarrow> string list \<Rightarrow> lease_sel" where
  "peer_Q prin ids bid b sid l \<longleftrightarrow> bid \<in> set ids \<and> lease_principal l = prin"

lemma revoke_one_removes:
  assumes inv: "base_inv st" and r: "revoke_leases_one prin bid (removed, st) = (removed', st')"
  shows "removes (\<lambda>_ _. False) (peer_Q prin [bid]) st st'" "ports st' = ports st"
    "set (map xl_session removed') = set (map xl_session removed)
       \<union> {sid. removed_lease (\<lambda>_ _. False) (peer_Q prin [bid]) st sid}"
    "\<And>x. x \<noteq> bid \<Longrightarrow> hget (browsers st') x = hget (browsers st) x"
proof -
  have Q: "peer_Q prin [bid] = (\<lambda>x _ _ l. x = bid \<and> lease_principal l = prin)" by (auto simp: peer_Q_def fun_eq_iff)
  have "removes (\<lambda>_ _. False) (peer_Q prin [bid]) st st' \<and> ports st' = ports st
    \<and> set (map xl_session removed') = set (map xl_session removed) \<union> {sid. removed_lease (\<lambda>_ _. False) (peer_Q prin [bid]) st sid}
    \<and> (\<forall>x. x \<noteq> bid \<longrightarrow> hget (browsers st') x = hget (browsers st) x)"
  proof (cases "hget (browsers st) bid")
    case None
    then have "st' = st" "removed' = removed" using r by (simp_all add: revoke_leases_one_def)
    moreover have "removes (\<lambda>_ _. False) (peer_Q prin [bid]) st st"
    proof (rule removes_nothing[OF inv])
      fix x y assume "hget (browsers st) x = Some y"
      then have "x \<noteq> bid" using None by auto
      then show "\<not> False \<and> keep_leases (peer_Q prin [bid]) x y = y" by (simp add: Q keep_leases_def hretain_def)
    qed
    ultimately show ?thesis using None by (auto simp: removed_lease_def Q)
  next
    case (Some b)
    note v = base_invD(5)[OF inv Some]
    let ?ids = "map fst (filter (\<lambda>(_, l). lease_principal l = prin) (leases b))"
    have ids: "distinct ?ids" "\<And>i. i \<in> set ?ids \<longleftrightarrow> (\<exists>l. hget (leases b) i = Some l \<and> lease_principal l = prin)"
      using v selected_ids_iff[OF v, of _ "\<lambda>l. lease_principal l = prin"] by (auto simp: hvalid_def distinct_map_fst_filter)
    have st': "st' = st\<lparr>browsers := hinsert bid (b\<lparr>leases := hretain (\<lambda>_ l. \<not> lease_principal l = prin) (leases b)\<rparr>) (browsers st)\<rparr>"
      and rem: "removed' = removed @ fst (remove_leases ?ids b)"
      using r keep_expired_eq[OF v, of "\<lambda>l. lease_principal l = prin"]
      by (auto simp: revoke_leases_one_def Some Let_def case_prod_unfold)
    have "map xl_session (fst (remove_leases ?ids b)) = ?ids"
      by (rule remove_leases_sessions) (use ids in auto)
    then have "set (map xl_session removed') = set (map xl_session removed) \<union> set ?ids"
      unfolding rem by (simp only: map_append set_append)
    moreover have "set ?ids = {sid. removed_lease (\<lambda>_ _. False) (peer_Q prin [bid]) st sid}"
    proof (rule set_eqI)
      show "i \<in> set ?ids \<longleftrightarrow> i \<in> {sid. removed_lease (\<lambda>_ _. False) (peer_Q prin [bid]) st sid}" for i
        unfolding ids(2) mem_Collect_eq removed_lease_def Q using Some by auto
    qed
    moreover have "removes (\<lambda>_ _. False) (peer_Q prin [bid]) st st'"
      unfolding Q st' by (rule removes_some_leases[OF inv Some]) simp
    ultimately show ?thesis by (simp add: st')
  qed
  then show "removes (\<lambda>_ _. False) (peer_Q prin [bid]) st st'" "ports st' = ports st"
    "set (map xl_session removed') = set (map xl_session removed)
       \<union> {sid. removed_lease (\<lambda>_ _. False) (peer_Q prin [bid]) st sid}"
    "\<And>x. x \<noteq> bid \<Longrightarrow> hget (browsers st') x = hget (browsers st) x" by simp_all
qed

lemma fold_revoke_removes:
  assumes "base_inv st" "distinct ids" "fold (revoke_leases_one prin) ids (removed, st) = (removed', st')"
  shows "removes (\<lambda>_ _. False) (peer_Q prin ids) st st' \<and> ports st' = ports st
    \<and> set (map xl_session removed') = set (map xl_session removed)
       \<union> {sid. removed_lease (\<lambda>_ _. False) (peer_Q prin ids) st sid}"
  using assms
proof (induction ids arbitrary: st removed)
  case Nil
  then show ?case
    by (auto simp: peer_Q_def keep_leases_def hretain_def removed_lease_def intro!: removes_nothing)
next
  case (Cons bid ids)
  obtain removed1 st1 where r: "revoke_leases_one prin bid (removed, st) = (removed1, st1)" by (metis surj_pair)
  note 1 = revoke_one_removes[OF Cons.prems(1) r]
  have 2: "removes (\<lambda>_ _. False) (peer_Q prin ids) st1 st' \<and> ports st' = ports st1
    \<and> set (map xl_session removed') = set (map xl_session removed1)
       \<union> {sid. removed_lease (\<lambda>_ _. False) (peer_Q prin ids) st1 sid}"
    by (rule Cons.IH) (use removes_base_inv[OF Cons.prems(1) 1(1)] Cons.prems r in simp_all)
  have "removes (\<lambda>_ _. False \<or> False) (\<lambda>x b sid l. peer_Q prin [bid] x b sid l \<or> peer_Q prin ids x b sid l) st st'"
    by (rule removes_trans[OF 1(1) conjunct1[OF 2]]) (simp add: insensitive_def peer_Q_def)
  moreover have "(\<lambda>x b sid l. peer_Q prin [bid] x b sid l \<or> peer_Q prin ids x b sid l) = peer_Q prin (bid # ids)"
    by (auto simp: peer_Q_def fun_eq_iff)
  moreover have "removed_lease (\<lambda>_ _. False) (peer_Q prin ids) st1 sid = removed_lease (\<lambda>_ _. False) (peer_Q prin ids) st sid" for sid
    using 1(4) Cons.prems(2) unfolding removed_lease_def peer_Q_def by (metis distinct.simps(2))
  moreover have "removed_lease (\<lambda>_ _. False) (peer_Q prin [bid]) st sid \<or> removed_lease (\<lambda>_ _. False) (peer_Q prin ids) st sid
      \<longleftrightarrow> removed_lease (\<lambda>_ _. False) (peer_Q prin (bid # ids)) st sid" for sid
    unfolding removed_lease_def peer_Q_def by simp blast
  ultimately show ?case using 1(2,3) 2 by auto
qed

lemma drop_empty_one_remove_ports: "drop_empty_one bid (remove_ports ids st) = remove_ports ids (drop_empty_one bid st)"
  by (simp add: drop_empty_one_def remove_ports_def forget_shared_def split: option.splits)

lemma drop_empty_remove_ports: "drop_empty_browsers (remove_ports ids st) = remove_ports ids (drop_empty_browsers st)"
proof -
  have "fold drop_empty_one bids (remove_ports ids s) = remove_ports ids (fold drop_empty_one bids s)" for bids s
    by (induction bids arbitrary: s) (auto simp: drop_empty_one_remove_ports)
  then show ?thesis by (simp add: drop_empty_browsers_def)
qed

lemma terminate_peer_state:
  assumes inv: "base_inv st" and p: "p = ''peer:'' @ i"
  obtains st1 where "removes (\<lambda>_ _. False) (\<lambda>_ _ _ l. lease_principal l = p) st st1"
    "unports (\<lambda>_ _. False) (\<lambda>_ _ _ l. lease_principal l = p) st st1"
    "snd (terminate_peer_leases_locked i st) = drop_empty_browsers st1"
proof -
  obtain removed st0 where f: "fold (revoke_leases_one p) (hkeys (browsers st)) ([], st) = (removed, st0)"
    by (metis surj_pair)
  have d: "distinct (hkeys (browsers st))" using base_invD(1)[OF inv] by (simp add: ht.distinct_keys)
  note r = fold_revoke_removes[OF inv d f]
  let ?st1 = "remove_ports (map xl_session removed) st0"
  have cong: "hget (browsers st) bid = Some b \<Longrightarrow> peer_Q p (hkeys (browsers st)) bid b = (\<lambda>_ l. lease_principal l = p)" for bid b
    by (auto simp: peer_Q_def fun_eq_iff hkeys_iff)
  have "removes (\<lambda>_ _. False) (\<lambda>_ _ _ l. lease_principal l = p) st ?st1"
    by (rule removes_cong[OF removes_remove_ports[OF conjunct1[OF r]]]) (simp add: cong)
  moreover have "unports (\<lambda>_ _. False) (\<lambda>_ _ _ l. lease_principal l = p) st ?st1"
  proof (rule unports_cong)
    show "unports (\<lambda>_ _. False) (peer_Q p (hkeys (browsers st))) st ?st1"
      using r by (auto simp: unports_def)
  qed (simp add: cong)
  moreover have "snd (terminate_peer_leases_locked i st) = drop_empty_browsers ?st1"
    using f unfolding p by (simp add: terminate_peer_leases_locked_def Let_def drop_empty_remove_ports)
  ultimately show ?thesis using that by blast
qed

lemma terminate_peer_inv:
  assumes "table_inv regs st"
  shows "table_inv regs (snd (terminate_peer_leases_locked i st))
     \<and> shrinks st (snd (terminate_peer_leases_locked i st))"
proof -
  have inv: "base_inv st" "ports_ok regs st" using assms by (simp_all add: table_inv_def)
  obtain p where p: "p = ''peer:'' @ i" by blast
  obtain st1 where 1: "removes (\<lambda>_ _. False) (\<lambda>_ _ _ l. lease_principal l = p) st st1"
    "unports (\<lambda>_ _. False) (\<lambda>_ _ _ l. lease_principal l = p) st st1"
    "snd (terminate_peer_leases_locked i st) = drop_empty_browsers st1"
    by (rule terminate_peer_state[OF inv(1) p])
  note b1 = removes_base_inv[OF inv(1) 1(1)]
  show ?thesis
    using removes_base_inv[OF b1 drop_empty_removes(1)[OF b1]] drop_empty_removes(3)[OF b1]
      drop_empty_ports_ok[OF b1 removes_ports_ok[OF inv(1) 1(1,2) inv(2)]]
      shrinks_trans[OF removes_shrinks[OF 1(1)] removes_shrinks[OF drop_empty_removes(1)[OF b1]]]
    by (simp add: table_inv_def 1(3))
qed

subsection \<open>Additions\<close>

lemma lease_in_None_iff:
  "lease_in st bid sid = None \<longleftrightarrow> (\<forall>b. hget (browsers st) bid = Some b \<longrightarrow> hget (leases b) sid = None)"
  by (cases "hget (browsers st) bid") (auto simp: lease_in_def)

lemma ports_ok_nolease: "ports_ok regs st \<Longrightarrow> s \<in> fst ` set regs \<Longrightarrow> lease_in st x s = None"
  by (simp add: ports_ok_def)

lemma join_insert_inv:
  assumes inv: "table_inv regs st" and b: "hget (browsers st) bid = Some b" "\<not> deadline b \<le> now"
    and prin: "prin = principal (key b)"
    and fresh: "\<And>x. lease_in st x sid = None" "sid \<notin> fst ` set regs"
  shows "table_inv regs (snd (snd (join_insert_locked bid sid prin tgt t now st)))"
proof -
  define l where "l = \<lparr>lease_principal = prin, expires_at = lease_expiry now t (deadline b), target = Tab tgt\<rparr>"
  define st' where "st' = st\<lparr>browsers := hinsert bid (b\<lparr>leases := hinsert sid l (leases b)\<rparr>) (browsers st),
                       ports := hinsert sid (prin, port b) (ports st)\<rparr>"
  have st': "snd (snd (join_insert_locked bid sid prin tgt t now st)) = st'"
    using b by (simp add: join_insert_locked_def st'_def l_def Let_def)
  have base: "base_inv st" "ports_ok regs st" "no_empty st" using inv by (simp_all add: table_inv_def)
  have br: "hget (browsers st') x = (if x = bid then Some (b\<lparr>leases := hinsert sid l (leases b)\<rparr>) else hget (browsers st) x)" for x
    by (simp add: st'_def)
  have li: "lease_in st' x s = (if x = bid \<and> s = sid then Some l else lease_in st x s)" for x s
    using b by (simp add: lease_in_def br)
  have "table_ok st'"
    using base(1) b unfolding base_inv_def table_ok_def br by (auto simp: st'_def ht.valid_insert)
  moreover have "shared_ok st'"
    using base(1) b unfolding base_inv_def shared_ok_def br by (auto simp: st'_def)
  moreover have "leases_ok st'"
  proof -
    have "bid1 = bid2" if "lease_in st' bid1 s \<noteq> None" "lease_in st' bid2 s \<noteq> None" for bid1 bid2 s
      using that base(1) fresh(1) unfolding li base_inv_def leases_ok_def by (cases "s = sid") (auto split: if_splits)
    moreover have "lease_principal m = principal (key y) \<and> expires_at m \<le> deadline y"
      if "hget (browsers st') x = Some y" "hget (leases y) s = Some m" for x y s m
      using that base(1) b prin unfolding br base_inv_def leases_ok_def
      by (auto simp: l_def lease_expiry_def split: if_splits)
    ultimately show ?thesis unfolding leases_ok_def by blast
  qed
  moreover have "ports_ok regs st'"
    unfolding ports_ok_def
  proof (intro conjI allI impI)
    fix s p prt
    have old: "hget (ports st) s = Some (p, prt) \<longleftrightarrow> (\<exists>x y m. hget (browsers st) x = Some y \<and> hget (leases y) s = Some m
          \<and> p = lease_principal m \<and> prt = port y) \<or> (s, p, prt) \<in> set regs"
      using base(2) by (simp add: ports_ok_def)
    show "hget (ports st') s = Some (p, prt) \<longleftrightarrow> (\<exists>x y m. hget (browsers st') x = Some y \<and> hget (leases y) s = Some m
          \<and> p = lease_principal m \<and> prt = port y) \<or> (s, p, prt) \<in> set regs"
    proof (cases "s = sid")
      case True
      have "(sid, p, prt) \<notin> set regs" using fresh(2) by force
      moreover have "hget (browsers st') x = Some y \<Longrightarrow> hget (leases y) sid = Some m \<Longrightarrow> x = bid \<and> port y = port b \<and> m = l" for x y m
        using fresh(1)[of x] by (auto simp: br lease_in_def split: if_splits)
      ultimately have "(\<exists>x y m. hget (browsers st') x = Some y \<and> hget (leases y) sid = Some m \<and> p = lease_principal m \<and> prt = port y)
          \<longleftrightarrow> p = lease_principal l \<and> prt = port b" (is "?l \<longleftrightarrow> ?r")
      proof (intro iffI)
        assume ?r
        then show ?l
          by (intro exI[of _ bid] exI[of _ "b\<lparr>leases := hinsert sid l (leases b)\<rparr>"] exI[of _ l]) (simp add: br)
      qed blast
      then show ?thesis using True \<open>(sid, p, prt) \<notin> set regs\<close> by (auto simp: st'_def l_def)
    next
      case False
      have "(\<exists>x y m. hget (browsers st') x = Some y \<and> hget (leases y) s = Some m \<and> p = lease_principal m \<and> prt = port y)
          \<longleftrightarrow> (\<exists>x y m. hget (browsers st) x = Some y \<and> hget (leases y) s = Some m \<and> p = lease_principal m \<and> prt = port y)"
      proof -
        have "hget (browsers st') x = Some y \<Longrightarrow> \<exists>y0. hget (browsers st) x = Some y0 \<and> port y = port y0
            \<and> hget (leases y) s = hget (leases y0) s" for x y
          using False b(1) by (cases "x = bid") (auto simp: br)
        moreover have "hget (browsers st) x = Some y \<Longrightarrow> \<exists>y0. hget (browsers st') x = Some y0 \<and> port y = port y0
            \<and> hget (leases y) s = hget (leases y0) s" for x y
          using False b(1) by (cases "x = bid") (auto simp: br)
        ultimately show ?thesis by metis
      qed
      then show ?thesis using old False by (simp add: st'_def)
    qed
  next
    fix x s assume "s \<in> fst ` set regs"
    then show "lease_in st' x s = None" using ports_ok_nolease[OF base(2)] fresh(2) unfolding li by auto
  qed (use base(2) in \<open>simp add: ports_ok_def\<close>)
  moreover have "no_empty st'" using base(3) by (simp add: no_empty_def br)
  ultimately show ?thesis unfolding st' by (simp add: table_inv_def base_inv_def)
qed

lemma register_port_inv:
  assumes inv: "table_inv regs st" and fresh: "\<And>x. lease_in st x sid = None" "sid \<notin> fst ` set regs"
  shows "table_inv ((sid, prin, prt) # regs) (register_port_locked sid prin prt st)"
proof -
  have base: "base_inv st" "ports_ok regs st" "no_empty st" using inv by (simp_all add: table_inv_def)
  let ?st = "register_port_locked sid prin prt st"
  have same: "browsers ?st = browsers st" "shared_browsers ?st = shared_browsers st"
    by (simp_all add: register_port_locked_def)
  have nolease: "hget (browsers st) x = Some y \<Longrightarrow> hget (leases y) sid = None" for x y
    using fresh(1)[of x] by (simp add: lease_in_None_iff)
  have "ports_ok ((sid, prin, prt) # regs) ?st"
    unfolding ports_ok_def
  proof (intro conjI allI impI)
    fix s p q
    have old: "hget (ports st) s = Some (p, q) \<longleftrightarrow> (\<exists>x y m. hget (browsers st) x = Some y \<and> hget (leases y) s = Some m
          \<and> p = lease_principal m \<and> q = port y) \<or> (s, p, q) \<in> set regs"
      using base(2) by (simp add: ports_ok_def)
    show "hget (ports ?st) s = Some (p, q) \<longleftrightarrow> (\<exists>x y m. hget (browsers ?st) x = Some y \<and> hget (leases y) s = Some m
          \<and> p = lease_principal m \<and> q = port y) \<or> (s, p, q) \<in> set ((sid, prin, prt) # regs)"
    proof (cases "s = sid")
      case True
      have "(sid, p, q) \<notin> set regs" using fresh(2) by force
      then show ?thesis using True nolease unfolding same by (auto simp: register_port_locked_def)
    next
      case False
      then show ?thesis using old unfolding same by (simp add: register_port_locked_def)
    qed
  next
    fix x s assume "s \<in> fst ` set ((sid, prin, prt) # regs)"
    moreover have "lease_in ?st x s = lease_in st x s" by (simp add: lease_in_def same)
    moreover have "s = sid \<or> s \<in> fst ` set regs" using \<open>s \<in> _\<close> by auto
    ultimately show "lease_in ?st x s = None" using ports_ok_nolease[OF base(2)] fresh(1) by auto
  qed (use base(2) fresh(2) in \<open>auto simp: ports_ok_def\<close>)
  moreover have "base_inv ?st"
    using base(1) by (simp add: base_inv_def table_ok_def shared_ok_def leases_ok_def lease_in_def same
        register_port_locked_def ht.valid_insert)
  ultimately show ?thesis using base(3) by (simp add: table_inv_def no_empty_def same)
qed

lemma register_browser_inv:
  assumes inv: "table_inv ((sid, prin, prt) # regs) st"
    and bid: "hget (browsers st) bid = None"
    and free: "\<not> excl \<Longrightarrow> hget (shared_browsers st) k = None"
    and prin: "prin = principal k"
  shows "table_inv regs (register_browser_locked bid
           (new_browser k conn prt endp limit sid prin tgt t now excl persist) st)"
proof -
  have base: "base_inv st" "ports_ok ((sid, prin, prt) # regs) st" "no_empty st"
    using inv by (simp_all add: table_inv_def)
  define b where "b = new_browser k conn prt endp limit sid prin tgt t now excl persist"
  define l where "l = \<lparr>lease_principal = prin, expires_at = lease_expiry now t limit, target = tgt\<rparr>"
  let ?st = "register_browser_locked bid b st"
  have bf: "key b = k" "exclusive b = excl" "deadline b = limit" "port b = prt" "leases b = [(sid, l)]"
    by (simp_all add: b_def new_browser_def l_def)
  have gl: "hget (leases b) s = (if s = sid then Some l else None)" for s by (simp add: bf hget_def)
  have br: "hget (browsers ?st) x = (if x = bid then Some b else hget (browsers st) x)" for x
    by (simp add: register_browser_locked_def Let_def)
  have ps: "ports ?st = ports st" by (simp add: register_browser_locked_def Let_def)
  have sh: "hget (shared_browsers ?st) x = (if \<not> excl \<and> x = k then Some bid else hget (shared_browsers st) x)" for x
    by (simp add: register_browser_locked_def Let_def bf)
  have nolease: "lease_in st x sid = None" for x using base(2) by (simp add: ports_ok_def)
  have li: "lease_in ?st x s = (if x = bid then (if s = sid then Some l else None) else lease_in st x s)" for x s
    by (simp add: lease_in_def br gl)
  have "table_ok ?st"
  proof -
    have "hvalid (leases b)" by (simp add: hvalid_def bf)
    then show ?thesis
      using base(1) unfolding base_inv_def table_ok_def br
      by (auto simp: register_browser_locked_def Let_def ht.valid_insert)
  qed
  moreover have "shared_ok ?st"
  proof -
    have "hget (shared_browsers st) k' = Some x \<longleftrightarrow> (\<exists>y. hget (browsers st) x = Some y \<and> \<not> exclusive y \<and> key y = k')" for k' x
      using base(1) by (simp add: base_inv_def shared_ok_def)
    moreover from this have "\<not> excl \<Longrightarrow> hget (browsers st) x = Some y \<Longrightarrow> \<not> exclusive y \<Longrightarrow> key y \<noteq> k" for x y
      using free by (metis option.distinct(1))
    ultimately show ?thesis using bid unfolding shared_ok_def br sh by (auto simp: bf)
  qed
  moreover have "leases_ok ?st"
  proof -
    have "x = y" if "lease_in ?st x s \<noteq> None" "lease_in ?st y s \<noteq> None" for x y s
    proof -
      have "lease_in st x s \<noteq> None \<Longrightarrow> lease_in st y s \<noteq> None \<Longrightarrow> x = y"
        using base(1) unfolding base_inv_def leases_ok_def by blast
      then show ?thesis using that nolease unfolding li by (cases "x = bid"; cases "y = bid") (auto split: if_splits)
    qed
    moreover have "lease_principal m = principal (key y) \<and> expires_at m \<le> deadline y"
      if "hget (browsers ?st) x = Some y" "hget (leases y) s = Some m" for x y s m
    proof (cases "x = bid")
      case True
      then have "y = b" using that(1) by (simp add: br)
      moreover from this have "m = l" using that(2) by (simp add: gl split: if_splits)
      ultimately show ?thesis using prin by (simp add: l_def bf lease_expiry_def)
    next
      case False
      then show ?thesis using that base(1) by (simp add: br base_inv_def leases_ok_def)
    qed
    ultimately show ?thesis unfolding leases_ok_def by blast
  qed
  moreover have "ports_ok regs ?st"
    unfolding ports_ok_def
  proof (intro conjI allI impI)
    fix s p q
    have old: "hget (ports st) s = Some (p, q) \<longleftrightarrow> (\<exists>x y m. hget (browsers st) x = Some y \<and> hget (leases y) s = Some m
          \<and> p = lease_principal m \<and> q = port y) \<or> (s, p, q) = (sid, prin, prt) \<or> (s, p, q) \<in> set regs"
      using base(2) by (simp add: ports_ok_def)
    have "(\<exists>x y m. hget (browsers ?st) x = Some y \<and> hget (leases y) s = Some m \<and> p = lease_principal m \<and> q = port y)
        \<longleftrightarrow> (\<exists>x y m. hget (browsers st) x = Some y \<and> hget (leases y) s = Some m \<and> p = lease_principal m \<and> q = port y)
          \<or> (s, p, q) = (sid, prin, prt)"
    proof -
      have in_new: "hget (browsers ?st) bid = Some b" "hget (leases b) sid = Some l" "lease_principal l = prin"
        by (simp_all add: br gl) (simp add: l_def)
      have new: "hget (browsers ?st) x = Some y \<Longrightarrow> y = b \<or> hget (browsers st) x = Some y" for x y
        by (auto simp: br split: if_splits)
      have old_new: "hget (browsers st) x = Some y \<Longrightarrow> hget (browsers ?st) x = Some y" for x y
        using bid by (auto simp: br)
      have only: "hget (leases b) s = Some m \<Longrightarrow> s = sid \<and> m = l" for m by (auto simp: gl split: if_splits)
      show ?thesis (is "?l \<longleftrightarrow> ?o \<or> ?n")
      proof (intro iffI)
        assume ?l
        then obtain x y m where x: "hget (browsers ?st) x = Some y" "hget (leases y) s = Some m"
          "p = lease_principal m" "q = port y" by blast
        then consider "y = b" | "hget (browsers st) x = Some y" using new by blast
        then show "?o \<or> ?n"
        proof cases
          case 1
          then show ?thesis using x only[of m] bf(4) in_new(3) by auto
        qed (use x in blast)
      next
        assume "?o \<or> ?n"
        then show ?l using old_new in_new bf(4) by blast
      qed
    qed
    then show "hget (ports ?st) s = Some (p, q) \<longleftrightarrow> (\<exists>x y m. hget (browsers ?st) x = Some y \<and> hget (leases y) s = Some m
          \<and> p = lease_principal m \<and> q = port y) \<or> (s, p, q) \<in> set regs"
      unfolding ps using old by blast
  next
    fix x s assume s: "s \<in> fst ` set regs"
    then have "s \<noteq> sid" "lease_in st x s = None" using base(2) by (auto simp: ports_ok_def)
    then show "lease_in ?st x s = None" unfolding li by simp
  qed (use base(2) in \<open>simp add: ports_ok_def\<close>)
  moreover have "no_empty ?st" using base(3) by (simp add: no_empty_def br bf)
  ultimately show ?thesis unfolding b_def by (simp add: table_inv_def base_inv_def)
qed

end
