(* ===== verification/Session_Runs.thy ===== *)
theory Session_Runs
  imports Session_Table
begin

section \<open>Sessions under concurrent requests\<close>

text \<open>
  The handlers that share the session table, as threads between two critical sections: a login of
  a caller and credential holds the start control of that pair from before it looks for a shared
  browser until it has registered its own (\<open>start_login\<close>, \<open>begin_after_approval\<close>, \<open>hand_off_step\<close>),
  so no two threads hold the same one; services register without it. Everything else (the reaper,
  disconnects, vault locks, revocations, executors that go away) happens at any moment.
\<close>

datatype thread =
    Holding BrowserKey bool
  | Expiring BrowserKey string
  | Leasing BrowserKey string
  | Ready BrowserKey bool
  | PortWritten BrowserKey bool string u16
  | ServiceReady BrowserKey
  | ServicePort BrowserKey string u16

fun guard_of :: "thread \<Rightarrow> BrowserKey option" where
  "guard_of (Holding k _) = Some k"
| "guard_of (Expiring k _) = Some k"
| "guard_of (Leasing k _) = Some k"
| "guard_of (Ready k _) = Some k"
| "guard_of (PortWritten k _ _ _) = Some k"
| "guard_of (ServiceReady _) = None"
| "guard_of (ServicePort _ _ _) = None"

fun registering :: "thread \<Rightarrow> (string \<times> string \<times> u16) list" where
  "registering (PortWritten k _ sid prt) = [(sid, principal k, prt)]"
| "registering (ServicePort k sid prt) = [(sid, principal k, prt)]"
| "registering _ = []"

fun waits_for :: "thread \<Rightarrow> string list" where
  "waits_for (Expiring _ bid) = [bid]"
| "waits_for (Leasing _ bid) = [bid]"
| "waits_for _ = []"

record run_state =
  rs_table :: session_table
  rs_threads :: "thread list"
  rs_now :: instant

definition guards :: "thread list \<Rightarrow> BrowserKey list" where
  "guards ts = List.map_filter guard_of ts"

definition regs_of :: "thread list \<Rightarrow> (string \<times> string \<times> u16) list" where
  "regs_of ts = concat (map registering ts)"

definition fresh_session :: "string \<Rightarrow> run_state \<Rightarrow> bool" where
  "fresh_session sid s \<longleftrightarrow> (\<forall>x. lease_in (rs_table s) x sid = None) \<and> sid \<notin> fst ` set (regs_of (rs_threads s))"

definition fresh_browser :: "string \<Rightarrow> run_state \<Rightarrow> bool" where
  "fresh_browser bid s \<longleftrightarrow> hget (browsers (rs_table s)) bid = None
     \<and> bid \<notin> set (concat (map waits_for (rs_threads s)))"

definition run_new :: run_state where
  "run_new = \<lparr>rs_table = \<lparr>browsers = [], shared_browsers = [], ports = []\<rparr>, rs_threads = [], rs_now = 0\<rparr>"

text \<open>
  One step of the daemon. In \<open>replaces\<close>, a thread of the list gives way to its next phase, or ends.
\<close>

definition replaces :: "run_state \<Rightarrow> thread \<Rightarrow> thread list \<Rightarrow> session_table \<Rightarrow> run_state \<Rightarrow> bool" where
  "replaces s t next st s' \<longleftrightarrow> (\<exists>us vs. rs_threads s = us @ t # vs
     \<and> s' = s\<lparr>rs_table := st, rs_threads := us @ next @ vs\<rparr>)"

inductive session_step :: "run_state \<Rightarrow> run_state \<Rightarrow> bool" where
  clock: "rs_now s \<le> t \<Longrightarrow> session_step s (s\<lparr>rs_now := t\<rparr>)"
| acquire: "k \<notin> set (guards (rs_threads s)) \<Longrightarrow>
    session_step s (s\<lparr>rs_threads := Holding k excl # rs_threads s\<rparr>)"
| join_none: "join_look_locked k (rs_now s) (rs_table s) = None \<Longrightarrow>
    replaces s (Holding k False) [Ready k False] (rs_table s) s' \<Longrightarrow> session_step s s'"
| join_expired: "join_look_locked k (rs_now s) (rs_table s) = Some j \<Longrightarrow> jl_expired j \<Longrightarrow>
    replaces s (Holding k False) [Expiring k (jl_browser j)] (rs_table s) s' \<Longrightarrow> session_step s s'"
| join_lease: "join_look_locked k (rs_now s) (rs_table s) = Some j \<Longrightarrow> \<not> jl_expired j \<Longrightarrow>
    replaces s (Holding k False) [Leasing k (jl_browser j)] (rs_table s) s' \<Longrightarrow> session_step s s'"
| expire: "expire_browser_locked bid (rs_now s) (rs_table s) = (taken, st) \<Longrightarrow>
    replaces s (Expiring k bid) [Ready k False] st s' \<Longrightarrow> session_step s s'"
| lease_refused: "join_active_locked bid (rs_now s) (rs_table s) \<Longrightarrow>
    replaces s (Leasing k bid) [] (rs_table s) s' \<Longrightarrow> session_step s s'"
| lease_lost: "\<not> join_active_locked bid (rs_now s) (rs_table s) \<Longrightarrow>
    replaces s (Leasing k bid) [Expiring k bid] (rs_table s) s' \<Longrightarrow> session_step s s'"
| joined: "fresh_session sid s \<Longrightarrow>
    join_insert_locked bid sid (principal k) tgt lease_ttl (rs_now s) (rs_table s) = (True, None, st) \<Longrightarrow>
    replaces s (Leasing k bid) [] st s' \<Longrightarrow> session_step s s'"
| not_joined: "join_insert_locked bid sid (principal k) tgt lease_ttl (rs_now s) (rs_table s) = (False, taken, st) \<Longrightarrow>
    replaces s (Leasing k bid) [Ready k False] st s' \<Longrightarrow> session_step s s'"
| exclusive_login: "replaces s (Holding k True) [Ready k True] (rs_table s) s' \<Longrightarrow> session_step s s'"
| hand_off: "replaces s (Holding k excl) [Ready k (excl \<or> hcontains (shared_browsers (rs_table s)) k)] (rs_table s) s' \<Longrightarrow>
    session_step s s'"
| gives_up: "registering t = [] \<Longrightarrow> replaces s t [] (rs_table s) s' \<Longrightarrow> session_step s s'"
| writes_port: "fresh_session sid s \<Longrightarrow>
    replaces s (Ready k excl) [PortWritten k excl sid prt]
      (register_port_locked sid (principal k) prt (rs_table s)) s' \<Longrightarrow> session_step s s'"
| registers: "fresh_browser bid s \<Longrightarrow>
    replaces s (PortWritten k excl sid prt) []
      (register_browser_locked bid (new_browser k conn prt endp limit sid (principal k) (Tab tgt) lease_ttl (rs_now s)
         excl persist) (rs_table s)) s' \<Longrightarrow> session_step s s'"
| service: "session_step s (s\<lparr>rs_threads := ServiceReady k # rs_threads s\<rparr>)"
| service_port: "fresh_session sid s \<Longrightarrow>
    replaces s (ServiceReady k) [ServicePort k sid prt]
      (register_port_locked sid (principal k) prt (rs_table s)) s' \<Longrightarrow> session_step s s'"
| service_registers: "fresh_browser bid s \<Longrightarrow> LeaseTarget_is_service tgt \<Longrightarrow>
    replaces s (ServicePort k sid prt) []
      (register_browser_locked bid (new_browser k conn prt [] limit sid (principal k) tgt lease_ttl (rs_now s)
         True False) (rs_table s)) s' \<Longrightarrow> session_step s s'"
| reaps: "session_reaper_locked (rs_now s) (rs_table s) = (dead, gone, st) \<Longrightarrow> session_step s (s\<lparr>rs_table := st\<rparr>)"
| disconnects: "disconnect_locked sid prin (rs_table s) = (r, st) \<Longrightarrow> session_step s (s\<lparr>rs_table := st\<rparr>)"
| drains: "drain_browsers ns (rs_table s) = (taken, st) \<Longrightarrow> session_step s (s\<lparr>rs_table := st\<rparr>)"
| revokes: "terminate_peer_leases_locked i (rs_table s) = (gone, st) \<Longrightarrow> session_step s (s\<lparr>rs_table := st\<rparr>)"
| executor_ends: "executor_gone_locked bid (rs_table s) = (b, st) \<Longrightarrow> session_step s (s\<lparr>rs_table := st\<rparr>)"
| service_ends: "take_browser_locked bid (rs_table s) = (b, st) \<Longrightarrow> session_step s (s\<lparr>rs_table := st\<rparr>)"

inductive session_run :: "run_state \<Rightarrow> bool" where
  starts: "session_run run_new"
| steps: "session_run s \<Longrightarrow> session_step s s' \<Longrightarrow> session_run s'"

subsection \<open>The invariant\<close>

fun thread_ok :: "session_table \<Rightarrow> instant \<Rightarrow> thread \<Rightarrow> bool" where
  "thread_ok st now (Expiring k bid) \<longleftrightarrow> hget (shared_browsers st) k = None
     \<or> (hget (shared_browsers st) k = Some bid \<and> (\<exists>b. hget (browsers st) bid = Some b \<and> deadline b \<le> now))"
| "thread_ok st now (Leasing k bid) \<longleftrightarrow> (hget (browsers st) bid = None \<and> hget (shared_browsers st) k = None)
     \<or> hget (shared_browsers st) k = Some bid"
| "thread_ok st now (Ready k excl) \<longleftrightarrow> excl \<or> hget (shared_browsers st) k = None"
| "thread_ok st now (PortWritten k excl _ _) \<longleftrightarrow> excl \<or> hget (shared_browsers st) k = None"
| "thread_ok st now _ \<longleftrightarrow> True"

definition run_inv :: "run_state \<Rightarrow> bool" where
  "run_inv s \<longleftrightarrow> table_inv (regs_of (rs_threads s)) (rs_table s) \<and> distinct (guards (rs_threads s))
     \<and> (\<forall>t \<in> set (rs_threads s). thread_ok (rs_table s) (rs_now s) t)"

lemma thread_ok_shrinks:
  assumes "shrinks st st'" "now \<le> now'" "thread_ok st now t"
  shows "thread_ok st' now' t"
proof -
  have sh: "hget (shared_browsers st) k = None \<Longrightarrow> hget (shared_browsers st') k = None" for k
    using assms(1) unfolding shrinks_def by (metis not_None_eq)
  have sh': "hget (shared_browsers st) k = Some bid \<Longrightarrow>
      (if hget (browsers st') bid = None then hget (shared_browsers st') k = None
       else hget (shared_browsers st') k = Some bid)" for k bid
    using assms(1) unfolding shrinks_def by (metis not_None_eq option.inject)
  have br: "hget (browsers st') bid = Some b' \<Longrightarrow> \<exists>b. hget (browsers st) bid = Some b \<and> deadline b' = deadline b" for bid b'
    using assms(1) unfolding shrinks_def by blast
  show ?thesis
  proof (cases t)
    case (Expiring k bid)
    then show ?thesis
      using assms(2,3) sh[of k] sh'[of k bid] br[of bid]
      by (cases "hget (browsers st') bid") (fastforce split: if_splits)+
  next
    case (Leasing k bid)
    then show ?thesis
      using assms(3) sh[of k] sh'[of k bid] br[of bid]
      by (cases "hget (browsers st') bid") (auto split: if_splits)
  qed (use assms(3) sh in auto)
qed

lemma regs_of_simps [simp]:
  "regs_of (us @ vs) = regs_of us @ regs_of vs" "regs_of [] = []" "regs_of (t # ts) = registering t @ regs_of ts"
  by (simp_all add: regs_of_def)

lemma guards_simps [simp]:
  "guards (us @ vs) = guards us @ guards vs" "guards [] = []"
  "guards (t # ts) = (case guard_of t of None \<Rightarrow> [] | Some k \<Rightarrow> [k]) @ guards ts"
  by (simp_all add: guards_def map_filter_def split: option.splits)

lemma join_insert_shrinks:
  assumes inv: "base_inv st"
  shows "shrinks st (snd (snd (join_insert_locked bid sid prin tgt t now st)))"
proof (cases "\<exists>b. hget (browsers st) bid = Some b \<and> \<not> deadline b \<le> now")
  case True
  then obtain b where b: "hget (browsers st) bid = Some b" "\<not> deadline b \<le> now" by blast
  then show ?thesis
    using base_invD(4)[OF inv]
    by (auto simp: join_insert_locked_def Let_def shrinks_def dest: shared_browser_exists)
next
  case False
  then have "snd (snd (join_insert_locked bid sid prin tgt t now st)) = st
      \<or> snd (snd (join_insert_locked bid sid prin tgt t now st)) = snd (take_browser_locked bid st)"
    by (auto simp: join_insert_locked_def case_prod_unfold split: option.splits)
  then show ?thesis using take_shrinks[OF inv, of bid] shrinks_refl[OF inv] by auto
qed

lemma register_port_shrinks: "base_inv st \<Longrightarrow> shrinks st (register_port_locked sid prin prt st)"
  using base_invD(4)[of st]
  by (auto simp: register_port_locked_def shrinks_def dest: shared_browser_exists)

lemma replace_inv:
  assumes inv: "run_inv s" and rep: "replaces s t next st s'"
    and shr: "shrinks (rs_table s) st"
    and tab: "\<And>us vs. rs_threads s = us @ t # vs \<Longrightarrow> table_inv (regs_of (us @ next @ vs)) st"
    and gd: "guards next = guards [t] \<or> guards next = []"
    and ok: "\<And>t'. t' \<in> set next \<Longrightarrow> thread_ok st (rs_now s) t'"
  shows "run_inv s'"
proof -
  obtain us vs where s: "rs_threads s = us @ t # vs" and s': "s' = s\<lparr>rs_table := st, rs_threads := us @ next @ vs\<rparr>"
    using rep by (auto simp: replaces_def)
  have "distinct (guards us @ guards [t] @ guards vs)" using inv by (simp add: run_inv_def s)
  then have "distinct (guards (us @ next @ vs))" using gd by auto
  moreover have "thread_ok st (rs_now s) u" if "u \<in> set (us @ next @ vs)" for u
  proof -
    have "u \<in> set next \<or> u \<in> set (rs_threads s)" using that by (auto simp: s)
    then show ?thesis
      using ok inv thread_ok_shrinks[OF shr order_refl] by (auto simp: run_inv_def)
  qed
  ultimately show ?thesis using tab[OF s] by (simp add: run_inv_def s')
qed

lemma replace_same_regs:
  assumes "run_inv s" "replaces s t next st s'" "shrinks (rs_table s) st"
    "table_inv (regs_of (rs_threads s)) st"
    "guards next = guards [t] \<or> guards next = []"
    "\<And>t'. t' \<in> set next \<Longrightarrow> thread_ok st (rs_now s) t'"
    "regs_of next = registering t"
  shows "run_inv s'"
  by (rule replace_inv[OF assms(1-3) _ assms(5-6)]) (use assms(4,7) in simp_all)

lemma table_step_inv:
  assumes "run_inv s" "shrinks (rs_table s) st" "table_inv (regs_of (rs_threads s)) st"
  shows "run_inv (s\<lparr>rs_table := st\<rparr>)"
  using assms thread_ok_shrinks[OF assms(2) order_refl] by (auto simp: run_inv_def)

lemma run_invD:
  assumes "run_inv s"
  shows "table_inv (regs_of (rs_threads s)) (rs_table s)" "base_inv (rs_table s)"
    "shrinks (rs_table s) (rs_table s)" "shared_ok (rs_table s)"
  using assms shrinks_refl base_invD(4) by (auto simp: run_inv_def table_inv_def)

lemma replaced_ok: "run_inv s \<Longrightarrow> replaces s t next st s' \<Longrightarrow> thread_ok (rs_table s) (rs_now s) t"
  by (auto simp: run_inv_def replaces_def)

lemma join_look_None:
  "shared_ok st \<Longrightarrow> join_look_locked k now st = None \<Longrightarrow> hget (shared_browsers st) k = None"
  by (auto simp: join_look_locked_def split: option.splits dest: shared_browser_exists)

lemma join_look_Some:
  "join_look_locked k now st = Some j \<Longrightarrow> hget (shared_browsers st) k = Some (jl_browser j)
     \<and> (\<exists>b. hget (browsers st) (jl_browser j) = Some b \<and> jl_expired j = (deadline b \<le> now))"
  by (auto simp: join_look_locked_def split: option.splits)

lemma taken_not_shared:
  assumes "base_inv st" "hget (shared_browsers st) k = None \<or> hget (shared_browsers st) k = Some bid"
  shows "hget (shared_browsers (snd (take_browser_locked bid st))) k = None"
proof -
  have "hget (browsers (snd (take_browser_locked bid st))) bid = None"
    using removes_take[OF assms(1), of bid] by (auto simp: removes_def split: option.splits)
  then show ?thesis using take_shrinks[OF assms(1), of bid] assms(2) unfolding shrinks_def
    by (metis not_None_eq option.inject)
qed

lemma register_run_inv:
  assumes inv: "run_inv s" and fresh: "fresh_browser bid s"
    and rep: "replaces s t [] (register_browser_locked bid
        (new_browser k conn prt endp limit sid (principal k) tgt lt (rs_now s) excl persist) (rs_table s)) s'"
    and t: "t = PortWritten k excl sid prt \<or> (t = ServicePort k sid prt \<and> excl)"
  shows "run_inv s'"
proof -
  let ?b = "new_browser k conn prt endp limit sid (principal k) tgt lt (rs_now s) excl persist"
  let ?st = "register_browser_locked bid ?b (rs_table s)"
  obtain us vs where s: "rs_threads s = us @ t # vs" and s': "s' = s\<lparr>rs_table := ?st, rs_threads := us @ vs\<rparr>"
    using rep by (auto simp: replaces_def)
  have free: "\<not> excl \<Longrightarrow> hget (shared_browsers (rs_table s)) k = None"
    using replaced_ok[OF inv rep] t by auto
  have reg: "registering t = [(sid, principal k, prt)]" using t by auto
  have perm: "table_inv ((sid, principal k, prt) # regs_of us @ regs_of vs) (rs_table s)"
    using run_invD(1)[OF inv] by (simp add: s reg table_inv_def ports_ok_def)
  have tab: "table_inv (regs_of us @ regs_of vs) ?st"
    by (rule register_browser_inv[OF perm _ free]) (use fresh in \<open>simp_all add: fresh_browser_def\<close>)
  have dist: "distinct (guards us @ guards vs)" and notin: "\<not> excl \<Longrightarrow> k \<notin> set (guards us @ guards vs)"
    using inv t by (auto simp: run_inv_def s)
  have "thread_ok ?st (rs_now s) u" if u: "u \<in> set (us @ vs)" for u
  proof -
    have ok: "thread_ok (rs_table s) (rs_now s) u" using inv u by (auto simp: run_inv_def s)
    have g: "guard_of u = Some k' \<Longrightarrow> k' \<in> set (guards us @ guards vs)" for k'
      using u by (force simp: guards_def map_filter_def)
    have sh: "hget (shared_browsers ?st) k' = (if \<not> excl \<and> k' = k then Some bid else hget (shared_browsers (rs_table s)) k')" for k'
      by (simp add: register_browser_locked_def Let_def new_browser_def)
    have br: "hget (browsers ?st) x = (if x = bid then Some ?b else hget (browsers (rs_table s)) x)" for x
      by (simp add: register_browser_locked_def Let_def)
    have w: "bid \<notin> set (waits_for u)" using fresh u by (auto simp: fresh_browser_def s)
    show ?thesis using ok g notin w unfolding thread_ok.simps
      by (cases u) (auto simp: sh br split: if_splits)
  qed
  then show ?thesis using tab dist by (simp add: run_inv_def s')
qed

lemma join_insert_cases:
  assumes "join_insert_locked bid sid prin tgt t now st = (joined, taken, st')"
  shows "(joined \<and> (\<exists>b. hget (browsers st) bid = Some b \<and> \<not> deadline b \<le> now)) \<or>
     (\<not> joined \<and> hget (browsers st) bid = None \<and> st' = st) \<or>
     (\<not> joined \<and> st' = snd (take_browser_locked bid st))"
  using assms by (auto simp: join_insert_locked_def Let_def case_prod_unfold split: option.splits if_splits)

lemma join_insert_run:
  assumes inv: "run_inv s" and sid: "fresh_session sid s"
    and ins: "join_insert_locked bid sid (principal k) tgt lt (rs_now s) (rs_table s) = (True, None, st)"
    and rep: "replaces s (Leasing k bid) [] st s'"
  shows "run_inv s'"
proof (rule replace_same_regs[OF inv rep])
  obtain b where b: "hget (browsers (rs_table s)) bid = Some b" "\<not> deadline b \<le> rs_now s"
    using join_insert_cases[OF ins] by auto
  have "key b = k" using replaced_ok[OF inv rep] b run_invD(4)[OF inv] by (auto simp: shared_ok_def)
  then show "table_inv (regs_of (rs_threads s)) st"
    using join_insert_inv[OF run_invD(1)[OF inv] b, of "principal k" sid tgt lt] sid ins by (simp add: fresh_session_def)
  show "shrinks (rs_table s) st"
    using join_insert_shrinks[OF run_invD(2)[OF inv], of bid sid "principal k" tgt lt "rs_now s"] ins by simp
qed simp_all

lemma not_joined_run:
  assumes inv: "run_inv s"
    and ins: "join_insert_locked bid sid (principal k) tgt lt (rs_now s) (rs_table s) = (False, taken, st)"
    and rep: "replaces s (Leasing k bid) [Ready k False] st s'"
  shows "run_inv s'"
proof (rule replace_same_regs[OF inv rep])
  have ok: "(hget (browsers (rs_table s)) bid = None \<and> hget (shared_browsers (rs_table s)) k = None)
      \<or> hget (shared_browsers (rs_table s)) k = Some bid"
    using replaced_ok[OF inv rep] by simp
  have c: "(hget (browsers (rs_table s)) bid = None \<and> st = rs_table s) \<or> st = snd (take_browser_locked bid (rs_table s))"
    using join_insert_cases[OF ins] by auto
  then show "table_inv (regs_of (rs_threads s)) st" using run_invD(1)[OF inv] take_inv by auto
  show "shrinks (rs_table s) st"
    using join_insert_shrinks[OF run_invD(2)[OF inv], of bid sid "principal k" tgt lt "rs_now s"] ins by simp
  show "\<And>t'. t' \<in> set [Ready k False] \<Longrightarrow> thread_ok st (rs_now s) t'"
    using c ok taken_not_shared[OF run_invD(2)[OF inv], of k bid] shared_browser_exists[OF run_invD(4)[OF inv], of bid k] by auto
qed simp_all

lemma expire_run:
  assumes inv: "run_inv s" and ex: "expire_browser_locked bid (rs_now s) (rs_table s) = (taken, st)"
    and rep: "replaces s (Expiring k bid) [Ready k False] st s'"
  shows "run_inv s'"
proof (rule replace_same_regs[OF inv rep])
  have st: "st = snd (expire_browser_locked bid (rs_now s) (rs_table s))" using ex by simp
  show "table_inv (regs_of (rs_threads s)) st" unfolding st by (rule expire_inv[OF run_invD(1)[OF inv]])
  show "shrinks (rs_table s) st" unfolding st by (rule expire_shrinks[OF run_invD(2)[OF inv]])
  show "\<And>t'. t' \<in> set [Ready k False] \<Longrightarrow> thread_ok st (rs_now s) t'"
    using replaced_ok[OF inv rep] taken_not_shared[OF run_invD(2)[OF inv], of k bid] ex
    by (auto simp: expire_browser_locked_def split: if_splits option.splits)
qed simp_all

lemma session_step_inv: "session_step s s' \<Longrightarrow> run_inv s \<Longrightarrow> run_inv s'"
proof (induction rule: session_step.induct)
  case (clock s t)
  then show ?case using thread_ok_shrinks[OF run_invD(3), of s _ t] by (auto simp: run_inv_def)
next
  case (acquire k s excl)
  then show ?case by (simp add: run_inv_def)
next
  case (join_none k s s')
  show ?case
    by (rule replace_same_regs[OF join_none(3,2)])
      (use run_invD[OF join_none(3)] join_look_None join_none in auto)
next
  case (join_expired k s j s')
  show ?case
    by (rule replace_same_regs[OF join_expired(4,3)])
      (use run_invD[OF join_expired(4)] join_look_Some[OF join_expired(1)] join_expired(2) in auto)
next
  case (join_lease k s j s')
  show ?case
    by (rule replace_same_regs[OF join_lease(4,3)])
      (use run_invD[OF join_lease(4)] join_look_Some[OF join_lease(1)] in auto)
next
  case (expire bid s taken st k s')
  show ?case by (rule expire_run[OF expire(3,1,2)])
next
  case (lease_refused bid s k s')
  show ?case by (rule replace_same_regs[OF lease_refused(3,2)]) (use run_invD[OF lease_refused(3)] in auto)
next
  case (lease_lost bid s k s')
  show ?case
  proof (rule replace_same_regs[OF lease_lost(3,2)])
    show "\<And>t'. t' \<in> set [Expiring k bid] \<Longrightarrow> thread_ok (rs_table s) (rs_now s) t'"
      using replaced_ok[OF lease_lost(3,2)] lease_lost(1) run_invD(4)[OF lease_lost(3)]
      by (auto simp: join_active_locked_def shared_ok_def split: option.splits)
  qed (use run_invD[OF lease_lost(3)] in auto)
next
  case (joined sid s bid k tgt lt st s')
  show ?case by (rule join_insert_run[OF joined(4,1,2,3)])
next
  case (not_joined bid sid k tgt lt s taken st s')
  show ?case by (rule not_joined_run[OF not_joined(3,1,2)])
next
  case (exclusive_login s k s')
  show ?case by (rule replace_same_regs[OF exclusive_login(2,1)]) (use run_invD[OF exclusive_login(2)] in auto)
next
  case (hand_off s k excl s')
  show ?case by (rule replace_same_regs[OF hand_off(2,1)]) (use run_invD[OF hand_off(2)] in \<open>auto simp: hcontains_def\<close>)
next
  case (gives_up t s s')
  show ?case by (rule replace_same_regs[OF gives_up(3,2)]) (use run_invD[OF gives_up(3)] gives_up(1) in auto)
next
  case (writes_port sid s k excl prt s')
  note inv = writes_port(3)
  show ?case
  proof (rule replace_inv[OF inv writes_port(2)])
    fix us vs assume s: "rs_threads s = us @ Ready k excl # vs"
    have "table_inv ((sid, principal k, prt) # regs_of us @ regs_of vs) (register_port_locked sid (principal k) prt (rs_table s))"
      by (rule register_port_inv) (use run_invD(1)[OF inv] writes_port(1) in \<open>auto simp: s fresh_session_def\<close>)
    then show "table_inv (regs_of (us @ [PortWritten k excl sid prt] @ vs)) (register_port_locked sid (principal k) prt (rs_table s))"
      using writes_port(1) by (auto simp: table_inv_def ports_ok_def s fresh_session_def)
  qed (use register_port_shrinks[OF run_invD(2)[OF inv]] replaced_ok[OF inv writes_port(2)] in
      \<open>auto simp: register_port_locked_def\<close>)
next
  case (registers bid s k excl sid prt conn endp limit tgt lt persist s')
  show ?case by (rule register_run_inv[OF registers(3,1,2)]) simp
next
  case (service s k)
  then show ?case by (simp add: run_inv_def)
next
  case (service_port sid s k prt s')
  note inv = service_port(3)
  show ?case
  proof (rule replace_inv[OF inv service_port(2)])
    fix us vs assume s: "rs_threads s = us @ ServiceReady k # vs"
    have "table_inv ((sid, principal k, prt) # regs_of us @ regs_of vs) (register_port_locked sid (principal k) prt (rs_table s))"
      by (rule register_port_inv) (use run_invD(1)[OF inv] service_port(1) in \<open>auto simp: s fresh_session_def\<close>)
    then show "table_inv (regs_of (us @ [ServicePort k sid prt] @ vs)) (register_port_locked sid (principal k) prt (rs_table s))"
      using service_port(1) by (auto simp: table_inv_def ports_ok_def s fresh_session_def)
  qed (use register_port_shrinks[OF run_invD(2)[OF inv]] in auto)
next
  case (service_registers bid s tgt k sid prt conn limit lt s')
  show ?case by (rule register_run_inv[OF service_registers(4,1,3)]) simp
next
  case (reaps s dead gone st)
  then show ?case
    using table_step_inv session_reaper_inv session_reaper_shrinks run_invD(1,2) by (metis snd_conv)
next
  case (disconnects sid prin s r st)
  then show ?case using table_step_inv disconnect_inv run_invD(1) by (metis snd_conv)
next
  case (drains ns s taken st)
  then show ?case using table_step_inv drain_inv drain_shrinks run_invD(1,2) by (metis snd_conv)
next
  case (revokes i s gone st)
  then show ?case using table_step_inv terminate_peer_inv run_invD(1) by (metis snd_conv)
next
  case (executor_ends bid s b st)
  then show ?case using table_step_inv take_inv take_shrinks run_invD(1,2) executor_gone_eq_take by (metis snd_conv)
next
  case (service_ends bid s b st)
  then show ?case using table_step_inv take_inv take_shrinks run_invD(1,2) by (metis snd_conv)
qed

lemma session_run_inv: "session_run s \<Longrightarrow> run_inv s"
proof (induction rule: session_run.induct)
  case starts
  then show ?case
    by (simp add: run_new_def run_inv_def table_inv_def base_inv_def table_ok_def shared_ok_def leases_ok_def
        lease_in_def ports_ok_def no_empty_def hvalid_def)
qed (rule session_step_inv)

subsection \<open>What the table guarantees\<close>

text \<open>A small run: one caller logs in and its browser is registered as shared.\<close>

definition example_key :: BrowserKey where
  "example_key = BrowserKey_new ''uid:1'' ''op'' ''op:x''"

definition example_browser :: Browser where
  "example_browser = new_browser example_key 7 9222 ''ws://e'' 100 ''s1'' ''uid:1'' (Tab ''t1'') 30 0 False False"

definition example_table :: session_table where
  "example_table = \<lparr>browsers = [(''b1'', example_browser)], shared_browsers = [(example_key, ''b1'')],
     ports = [(''s1'', (''uid:1'', 9222))]\<rparr>"

definition example_run :: run_state where
  "example_run = \<lparr>rs_table = example_table, rs_threads = [], rs_now = 0\<rparr>"

lemma example_session_run: "session_run example_run"
proof -
  have e: "principal example_key = ''uid:1''" by (simp add: example_key_def BrowserKey_new_def)
  define t0 where "t0 = rs_table run_new"
  define s1 where "s1 = run_new\<lparr>rs_threads := [Holding example_key False]\<rparr>"
  have 1: "session_run s1"
    using steps[OF starts acquire[of example_key run_new False]] by (simp add: s1_def run_new_def)
  define s2 where "s2 = run_new\<lparr>rs_threads := [Ready example_key False]\<rparr>"
  have "replaces s1 (Holding example_key False) [Ready example_key False] (rs_table s1) s2"
    unfolding replaces_def s1_def s2_def
    by (rule exI[of _ "[]"], rule exI[of _ "[]"]) (simp add: run_new_def)
  then have 2: "session_run s2"
    by (intro steps[OF 1] join_none) (auto simp: s1_def run_new_def join_look_locked_def)
  define t3 where "t3 = register_port_locked ''s1'' (principal example_key) 9222 t0"
  define s3 where "s3 = run_new\<lparr>rs_table := t3, rs_threads := [PortWritten example_key False ''s1'' 9222]\<rparr>"
  have "replaces s2 (Ready example_key False) [PortWritten example_key False ''s1'' 9222] t3 s3"
    unfolding replaces_def s2_def s3_def
    by (rule exI[of _ "[]"], rule exI[of _ "[]"]) (simp add: run_new_def)
  then have 3: "session_run s3"
    by (intro steps[OF 2] writes_port[where sid = "''s1''"])
      (auto simp: fresh_session_def s2_def run_new_def lease_in_def t3_def t0_def)
  have "replaces s3 (PortWritten example_key False ''s1'' 9222) []
      (register_browser_locked ''b1'' (new_browser example_key 7 9222 ''ws://e'' 100 ''s1'' (principal example_key) (Tab ''t1'') 30 (rs_now s3) False False) (rs_table s3)) example_run"
    unfolding replaces_def
    by (rule exI[of _ "[]"], rule exI[of _ "[]"])
      (simp add: s3_def run_new_def example_run_def example_table_def example_browser_def t3_def t0_def e
        register_browser_locked_def register_port_locked_def hinsert_def new_browser_def Let_def)
  then show ?thesis
    by (intro steps[OF 3] registers[where bid = "''b1''"])
      (auto simp: fresh_browser_def s3_def run_new_def t3_def t0_def register_port_locked_def)
qed

text \<open>
  C12: a TCP client reaches a debugging port exactly through a session id of its own: the port of a
  browser in which it holds that lease (or is about to, its port already written), and such a
  browser was opened for the same caller. No other session id, caller or port is ever served.
\<close>

theorem tunnels_reach_own_sessions_only:
  assumes "session_run s"
  shows "resolve_cdp_port sid prin (rs_table s) = Some prt \<longleftrightarrow>
     (\<exists>bid b l. hget (browsers (rs_table s)) bid = Some b \<and> hget (leases b) sid = Some l
        \<and> lease_principal l = prin \<and> principal (key b) = prin \<and> port b = prt)
     \<or> (sid, prin, prt) \<in> set (regs_of (rs_threads s))"
proof -
  note inv = session_run_inv[OF assms]
  have "hget (ports (rs_table s)) sid = Some (prin, prt) \<longleftrightarrow>
     (\<exists>bid b l. hget (browsers (rs_table s)) bid = Some b \<and> hget (leases b) sid = Some l
        \<and> prin = lease_principal l \<and> prt = port b) \<or> (sid, prin, prt) \<in> set (regs_of (rs_threads s))"
    using run_invD(1)[OF inv] unfolding table_inv_def ports_ok_def by blast
  moreover have "hget (browsers (rs_table s)) bid = Some b \<Longrightarrow> hget (leases b) sid = Some l \<Longrightarrow>
      lease_principal l = principal (key b)" for bid b l
    using run_invD(2)[OF inv] unfolding base_inv_def leases_ok_def by blast
  moreover have "resolve_cdp_port sid prin (rs_table s) = Some prt \<longleftrightarrow> hget (ports (rs_table s)) sid = Some (prin, prt)"
    by (auto simp: resolve_cdp_port_def split: option.splits if_splits)
  ultimately show ?thesis by metis
qed

theorem tunnels_reach_own_sessions_only_witness:
  "resolve_cdp_port ''s1'' ''uid:1'' (rs_table example_run) = Some 9222"
  unfolding tunnels_reach_own_sessions_only[OF example_session_run]
  by (rule disjI1, rule exI[of _ "''b1''"], rule exI[of _ example_browser])
    (simp add: example_run_def example_table_def example_browser_def new_browser_def example_key_def
      BrowserKey_new_def hget_def)

text \<open>
  C26: sharing is consistent at every moment: the shared browser of a caller and credential is the one
  live browser of that pair that is not exclusive, there is at most one, and no browser is kept
  without a lease; every lease belongs to the caller of its browser and ends by its deadline.
\<close>

theorem shared_browser_is_unique:
  assumes "session_run s"
  shows "(hget (shared_browsers (rs_table s)) k = Some bid \<longleftrightarrow>
        (\<exists>b. hget (browsers (rs_table s)) bid = Some b \<and> \<not> exclusive b \<and> key b = k))
     \<and> (hget (browsers (rs_table s)) bid = Some b \<and> hget (browsers (rs_table s)) bid' = Some b'
          \<and> \<not> exclusive b \<and> \<not> exclusive b' \<and> key b = key b' \<longrightarrow> bid = bid')
     \<and> (hget (browsers (rs_table s)) bid = Some b \<longrightarrow> leases b \<noteq> [])
     \<and> (hget (browsers (rs_table s)) bid = Some b \<and> hget (leases b) sid = Some l \<longrightarrow>
          lease_principal l = principal (key b) \<and> expires_at l \<le> deadline b)"
proof -
  note inv = session_run_inv[OF assms]
  have sh: "hget (shared_browsers (rs_table s)) k = Some bid \<longleftrightarrow>
        (\<exists>b. hget (browsers (rs_table s)) bid = Some b \<and> \<not> exclusive b \<and> key b = k)" for k bid
    using run_invD(4)[OF inv] by (simp add: shared_ok_def)
  show ?thesis
  proof (intro conjI impI)
    assume a: "hget (browsers (rs_table s)) bid = Some b \<and> hget (browsers (rs_table s)) bid' = Some b'
          \<and> \<not> exclusive b \<and> \<not> exclusive b' \<and> key b = key b'"
    then have "hget (shared_browsers (rs_table s)) (key b) = Some bid" "hget (shared_browsers (rs_table s)) (key b) = Some bid'"
      using sh by metis+
    then show "bid = bid'" by simp
  qed (use sh run_invD(1,2)[OF inv] in \<open>auto simp: table_inv_def no_empty_def base_inv_def leases_ok_def\<close>)
qed

theorem shared_browser_is_unique_witness:
  "\<exists>b. hget (browsers (rs_table example_run)) ''b1'' = Some b \<and> \<not> exclusive b \<and> key b = example_key"
  using shared_browser_is_unique[OF example_session_run, of example_key "''b1''"]
  by (auto simp: example_run_def example_table_def hget_def)

text \<open>
  C34: a pass of the reaper ends exactly the leases whose own expiry or whose browser's deadline has
  come, leaves every other lease as it was, and closes the browsers that have no lease left.
\<close>

theorem reaper_ends_exactly_the_expired:
  assumes "session_run s" "session_reaper_locked (rs_now s) (rs_table s) = (dead, gone, st')"
  shows "(lease_in st' bid sid = Some l \<longleftrightarrow>
        (\<exists>b. hget (browsers (rs_table s)) bid = Some b \<and> hget (leases b) sid = Some l
           \<and> rs_now s < deadline b \<and> rs_now s < expires_at l))
     \<and> (hget (browsers st') bid = Some b' \<longrightarrow> (\<exists>sid l. lease_in st' bid sid = Some l))"
proof -
  note inv = session_run_inv[OF assms(1)]
  have st': "st' = snd (snd (session_reaper_locked (rs_now s) (rs_table s)))" using assms(2) by simp
  have "no_empty st'" "table_ok st'"
    using session_reaper_inv[OF run_invD(1)[OF inv], of "rs_now s"] unfolding st' table_inv_def base_inv_def by blast+
  then have "hget (browsers st') bid = Some b' \<Longrightarrow> \<exists>sid l. hget (leases b') sid = Some l"
    unfolding no_empty_def by (metis not_None_eq table_eq_Nil_iff)
  then show ?thesis
    using session_reaper_leases[OF run_invD(2)[OF inv], of "rs_now s" bid sid l] unfolding st'
    by (auto simp: lease_in_def)
qed

theorem reaper_ends_exactly_the_expired_witness:
  "lease_in (snd (snd (session_reaper_locked 0 example_table))) ''b1'' ''s1'' \<noteq> None"
proof -
  have t: "rs_now example_run = 0" "rs_table example_run = example_table" by (simp_all add: example_run_def)
  obtain dead gone st' where r: "session_reaper_locked 0 example_table = (dead, gone, st')" by (metis surj_pair)
  have "\<exists>l. lease_in st' ''b1'' ''s1'' = Some l"
    using reaper_ends_exactly_the_expired[OF example_session_run, unfolded t, OF r]
    by (simp add: example_table_def example_browser_def new_browser_def hget_def lease_expiry_def)
  then show ?thesis by (simp add: r)
qed

lemma take_other: "x \<noteq> bid \<Longrightarrow> hget (browsers (snd (take_browser_locked bid st))) x = hget (browsers st) x"
  by (simp add: take_browser_locked_def Let_def split: option.splits)

lemma fst_take: "fst (take_browser_locked bid st) = hget (browsers st) bid"
  by (simp add: take_browser_locked_def Let_def split: option.splits)

lemma fold_drain_taken:
  assumes "distinct ids"
  shows "set (fst (fold drain_one ids (taken, st))) = set taken \<union> {b. \<exists>bid. bid \<in> set ids \<and> hget (browsers st) bid = Some b}"
  using assms
proof (induction ids arbitrary: taken st)
  case (Cons bid ids)
  obtain t st1 where t: "take_browser_locked bid st = (t, st1)" by (metis surj_pair)
  have "t = hget (browsers st) bid" using fst_take[of bid st] by (simp add: t)
  moreover have "hget (browsers st1) x = hget (browsers st) x" if "x \<in> set ids" for x
    using take_other[of x bid st] that Cons.prems by (auto simp: t)
  moreover have "drain_one bid (taken, st) = (taken @ (case t of None \<Rightarrow> [] | Some b \<Rightarrow> [b]), st1)"
    by (cases t) (simp_all add: drain_one_def t)
  ultimately show ?case
    using Cons.IH[of "taken @ (case t of None \<Rightarrow> [] | Some b \<Rightarrow> [b])" st1] Cons.prems by (cases t) auto
qed simp

lemma drain_exact:
  assumes base: "base_inv st" and "drain_browsers ns st = (taken, st')"
  shows "hget (browsers st') bid = (case hget (browsers st) bid of None \<Rightarrow> None
        | Some b \<Rightarrow> if ns = None \<or> ns = Some (namespace (key b)) then None else Some b)
     \<and> set taken = {b. \<exists>bid. hget (browsers st) bid = Some b \<and> (ns = None \<or> ns = Some (namespace (key b)))}"
proof -
  let ?P = "\<lambda>b. case ns of None \<Rightarrow> True | Some n \<Rightarrow> n = namespace (key b)"
  define ids where "ids = map fst (filter (\<lambda>(_, b). ?P b) (browsers st))"
  have P: "?P b \<longleftrightarrow> ns = None \<or> ns = Some (namespace (key b))" for b by (auto split: option.splits)
  have mem: "bid \<in> set ids \<longleftrightarrow> (\<exists>b. hget (browsers st) bid = Some b \<and> (ns = None \<or> ns = Some (namespace (key b))))" for bid
    using selected_ids_iff[OF base_invD(1)[OF base], of bid ?P] by (simp add: ids_def P)
  have d: "distinct ids" using base_invD(1)[OF base] by (simp add: ids_def hvalid_def distinct_map_fst_filter)
  have st': "st' = fold (\<lambda>bid st. snd (take_browser_locked bid st)) ids st"
    using fold_drain[of ids "[]" st] assms(2) by (simp add: drain_browsers_def ids_def)
  have "hget (browsers st') bid = (case hget (browsers st) bid of None \<Rightarrow> None
        | Some b \<Rightarrow> if bid \<in> set ids then None else Some b)"
    using fold_take_removes[OF base, of ids] unfolding st' removes_def keep_all by blast
  moreover have "set taken = {b. \<exists>bid. bid \<in> set ids \<and> hget (browsers st) bid = Some b}"
    using fold_drain_taken[OF d, of "[]" st] assms(2) unfolding drain_browsers_def ids_def by simp
  ultimately show ?thesis
    unfolding mem by (auto split: option.splits)
qed

text \<open>
  locking the vault of a namespace (or all of them) takes exactly the browsers of that
  namespace out of the table, hands each of them to termination, and leaves the others untouched.
\<close>

theorem drain_takes_exactly_the_namespace:
  assumes "session_run s" "drain_browsers ns (rs_table s) = (taken, st')"
  shows "hget (browsers st') bid = (case hget (browsers (rs_table s)) bid of None \<Rightarrow> None
        | Some b \<Rightarrow> if ns = None \<or> ns = Some (namespace (key b)) then None else Some b)
     \<and> set taken = {b. \<exists>bid. hget (browsers (rs_table s)) bid = Some b \<and> (ns = None \<or> ns = Some (namespace (key b)))}"
  by (rule drain_exact[OF run_invD(2)[OF session_run_inv[OF assms(1)]] assms(2)])

theorem drain_takes_exactly_the_namespace_witness:
  "hget (browsers (snd (drain_browsers (Some ''op'') example_table))) ''b1'' = None
   \<and> hget (browsers (snd (drain_browsers (Some ''other'') example_table))) ''b1'' = Some example_browser"
proof -
  have t: "rs_table example_run = example_table" by (simp add: example_run_def)
  have e: "hget (browsers example_table) ''b1'' = Some example_browser" "namespace (key example_browser) = ''op''"
    by (simp_all add: example_table_def hget_def example_browser_def new_browser_def example_key_def BrowserKey_new_def)
  show ?thesis
    using drain_takes_exactly_the_namespace[OF example_session_run, unfolded t, of "Some ''op''" _ _ "''b1''", OF prod.collapse[symmetric]]
      drain_takes_exactly_the_namespace[OF example_session_run, unfolded t, of "Some ''other''" _ _ "''b1''", OF prod.collapse[symmetric]]
    by (simp add: e)
qed

lemma revocation_exact:
  assumes base: "base_inv st" and gone: "terminate_peer_leases_locked i st = (gone, st')"
  shows "lease_in st' bid sid = Some l \<longleftrightarrow> lease_in st bid sid = Some l \<and> lease_principal l \<noteq> ''peer:'' @ i"
proof -
  obtain p where p: "p = ''peer:'' @ i" by blast
  obtain st1 where 1: "removes (\<lambda>_ _. False) (\<lambda>_ _ _ l. lease_principal l = p) st st1"
    "snd (terminate_peer_leases_locked i st) = drop_empty_browsers st1"
    by (rule terminate_peer_state[OF base p])
  have "st' = drop_empty_browsers st1" using 1(2) gone by simp
  then have "lease_in st' bid sid = lease_in st1 bid sid"
    using lease_in_drop_empty[OF removes_base_inv[OF base 1(1)]] by simp
  then show ?thesis
    using lease_in_removes[OF base 1(1), of bid sid l] unfolding p
    by (auto simp: lease_in_def bind_eq_Some_conv)
qed

text \<open>
  revoking a peer ends exactly the leases of that peer; the leases of other callers, in whatever
  browser, stay.
\<close>

theorem revocation_ends_exactly_the_peers_leases:
  assumes "session_run s" "terminate_peer_leases_locked i (rs_table s) = (gone, st')"
  shows "lease_in st' bid sid = Some l \<longleftrightarrow>
     lease_in (rs_table s) bid sid = Some l \<and> lease_principal l \<noteq> ''peer:'' @ i"
  by (rule revocation_exact[OF run_invD(2)[OF session_run_inv[OF assms(1)]] assms(2)])

theorem revocation_ends_exactly_the_peers_leases_witness:
  "lease_in (snd (terminate_peer_leases_locked ''9'' example_table)) ''b1'' ''s1'' = lease_in example_table ''b1'' ''s1''"
proof -
  have t: "rs_table example_run = example_table" by (simp add: example_run_def)
  obtain l where l: "lease_in example_table ''b1'' ''s1'' = Some l" "lease_principal l = ''uid:1''"
    by (simp add: lease_in_def example_table_def hget_def example_browser_def new_browser_def)
  then show ?thesis
    using revocation_ends_exactly_the_peers_leases[OF example_session_run, unfolded t, of "''9''" _ _ "''b1''" "''s1''" l,
        OF prod.collapse[symmetric]] by simp
qed

text \<open>
  C35: \<open>disconnect\<close> serves the holder of a lease only. For anyone else, and for an unknown session, it
  finds nothing and changes nothing; for the holder it ends that lease and no other, and closes
  the browser exactly when it was the last one.
\<close>

theorem disconnect_is_for_the_holder:
  assumes "session_run s" "disconnect_locked sid prin (rs_table s) = (r, st')"
  shows "(if \<exists>bid l. lease_in (rs_table s) bid sid = Some l \<and> lease_principal l = prin
      then (\<exists>bid b l. hget (browsers (rs_table s)) bid = Some b \<and> hget (leases b) sid = Some l \<and> lease_principal l = prin
              \<and> r = Some (l, executor b, leases b = [(sid, l)], if persist_cookies b then Some (key b) else None)
              \<and> (\<forall>x y. lease_in st' x y = (if x = bid \<and> y = sid then None else lease_in (rs_table s) x y))
              \<and> (hget (browsers st') bid = None) = (leases b = [(sid, l)])
              \<and> hget (ports st') sid = None)
      else r = None \<and> st' = rs_table s)"
proof -
  let ?st = "rs_table s"
  note base = run_invD(2)[OF session_run_inv[OF assms(1)]]
  let ?f = "\<lambda>(_, b). case hget (leases b) sid of None \<Rightarrow> False | Some l \<Rightarrow> lease_principal l = prin"
  show ?thesis
  proof (cases "List.find ?f (browsers ?st)")
    case None
    then have "\<not> ?f (bid, b)" if "hget (browsers ?st) bid = Some b" for bid b
      using that hget_mem unfolding find_None_iff by fast
    then have "\<not> (\<exists>bid l. lease_in ?st bid sid = Some l \<and> lease_principal l = prin)"
      by (fastforce simp: lease_in_def bind_eq_Some_conv)
    then show ?thesis using None assms(2) by (simp add: disconnect_locked_def)
  next
    case (Some p)
    obtain bid b where p: "p = (bid, b)" by (metis surj_pair)
    obtain l where b: "hget (browsers ?st) bid = Some b" and l: "hget (leases b) sid = Some l" "lease_principal l = prin"
      using disconnect_found[OF base Some[unfolded p]] by blast
    have v: "hvalid (leases b)" by (rule base_invD(5)[OF base b])
    have last: "hremove sid (leases b) = [] \<longleftrightarrow> leases b = [(sid, l)]"
    proof
      assume "hremove sid (leases b) = []"
      then have "\<forall>e\<in>set (leases b). fst e = sid" by (auto simp: hremove_def filter_empty_conv)
      then show "leases b = [(sid, l)]" using v l
        by (cases "leases b"; cases "tl (leases b)") (auto simp: hvalid_def hget_def)
    qed (simp add: hremove_def)
    have r: "r = Some (l, executor b, leases b = [(sid, l)], if persist_cookies b then Some (key b) else None)"
      and br: "hget (browsers st') x = (if x = bid then (if leases b = [(sid, l)] then None else Some (b\<lparr>leases := hremove sid (leases b)\<rparr>))
          else hget (browsers ?st) x)" and pt: "hget (ports st') sid = None" for x
      using assms(2) Some p l last by (auto simp: disconnect_locked_def Let_def)
    have "lease_in st' x y = (if x = bid \<and> y = sid then None else lease_in ?st x y)" for x y
      using b l(1) by (auto simp: lease_in_def br)
    moreover have "lease_in ?st bid sid = Some l" using b l(1) by (simp add: lease_in_def)
    moreover have "(hget (browsers st') bid = None) = (leases b = [(sid, l)])" by (simp add: br)
    moreover have "\<exists>bid l. lease_in ?st bid sid = Some l \<and> lease_principal l = prin"
      using \<open>lease_in ?st bid sid = Some l\<close> l(2) by blast
    ultimately show ?thesis using b l r pt by (simp only: if_True) (intro exI[of _ bid] exI[of _ b] exI[of _ l], simp)
  qed
qed

theorem disconnect_is_for_the_holder_witness:
  "disconnect_locked ''s1'' ''uid:2'' example_table = (None, example_table)"
proof -
  have t: "rs_table example_run = example_table" by (simp add: example_run_def)
  have "\<not> (\<exists>bid l. lease_in example_table bid ''s1'' = Some l \<and> lease_principal l = ''uid:2'')"
    by (auto simp: lease_in_def example_table_def hget_def example_browser_def new_browser_def bind_eq_Some_conv)
  then show ?thesis
    using disconnect_is_for_the_holder[OF example_session_run, unfolded t, OF prod.collapse[symmetric], of "''s1''" "''uid:2''"]
    by (metis prod.collapse)
qed

end
