(* ===== verification/Urls.thy ===== *)
theory Urls
  imports Json
begin

section \<open>Addresses\<close>

text \<open>
  The helpers of \<open>crates/tegatad/src/main.rs\<close> that take apart URLs: the origin and the audited form
  of a target, the check of an upstream of an injection proxy, the port of a browser endpoint, and
  small character checks. A URL is the text the caller sent; only the parts these functions look
  at are taken apart, by the same searches as in the source.
\<close>

text \<open>The integer parser of the standard library, for \<open>u16\<close>: an optional plus sign, digits, no overflow.\<close>

definition parse_u16 :: "string \<Rightarrow> u16 option" where
  "parse_u16 s =
     (let d = (case strip_prefix s ''+'' of Some t \<Rightarrow> t | None \<Rightarrow> s) in
      if d \<noteq> [] \<and> list_all is_ascii_digit d \<and> dec_val d < 2 ^ 16 then Some (of_nat (dec_val d)) else None)"

definition authority_end :: "char \<Rightarrow> bool" where
  "authority_end c \<longleftrightarrow> c \<in> set ''/?#''"

definition split_authority :: "string \<Rightarrow> (string \<times> string \<times> string) option" where
  "split_authority value =
     (case split_once value ''://'' of
        None \<Rightarrow> None
      | Some (scheme, remainder) \<Rightarrow>
          Some (scheme, takeWhile (\<lambda>c. \<not> authority_end c) remainder, dropWhile (\<lambda>c. \<not> authority_end c) remainder))"

definition http_origin :: "string \<Rightarrow> string option" where
  "http_origin value =
     (case split_authority value of
        None \<Rightarrow> None
      | Some (scheme, authority, _) \<Rightarrow>
          if \<not> eq_ignore_ascii_case scheme ''http'' \<and> \<not> eq_ignore_ascii_case scheme ''https'' then None
          else if authority = [] \<or> list_ex (\<lambda>c. is_ascii_control c \<or> is_ascii_whitespace c) authority then None
          else Some (to_ascii_lowercase scheme @ ''://'' @ authority))"

definition audit_target_url :: "string \<Rightarrow> string option" where
  "audit_target_url value =
     (case http_origin value of
        None \<Rightarrow> None
      | Some orig \<Rightarrow>
          (case split_once orig ''://'' of
             None \<Rightarrow> None
           | Some (scheme, authority) \<Rightarrow>
               (let host = (case rsplit_once_char authority (CHR ''@'') of Some (_, h) \<Rightarrow> h | None \<Rightarrow> authority) in
                if host = [] then None
                else (case split_authority value of
                        None \<Rightarrow> None
                      | Some (_, _, rest) \<Rightarrow>
                          (let p = (if starts_with rest ''/''
                                    then takeWhile (\<lambda>c. c \<noteq> CHR ''?'' \<and> c \<noteq> CHR ''#'') rest else [])
                           in Some (scheme @ ''://'' @ host @ p))))))"

definition url_host_port :: "string \<Rightarrow> (string \<times> string option) option" where
  "url_host_port host_port =
     (case strip_prefix host_port ''['' of
        Some bracketed \<Rightarrow>
          (case split_once bracketed '']'' of
             None \<Rightarrow> None
           | Some (host, tail) \<Rightarrow>
               if tail = [] then Some (host, None)
               else (case strip_prefix tail '':'' of Some p \<Rightarrow> Some (host, Some p) | None \<Rightarrow> None))
      | None \<Rightarrow>
          (case split_once host_port '':'' of
             Some (host, p) \<Rightarrow> Some (host, Some p)
           | None \<Rightarrow> Some (host_port, None)))"

definition api_proxy_upstream_allowed :: "string \<Rightarrow> bool" where
  "api_proxy_upstream_allowed upstream =
     (if list_ex (\<lambda>ch. is_control_char ch \<or> is_whitespace_char ch \<or> ch = [CHR 0x5C]) (utf8_chunks upstream) then False
      else case split_authority upstream of
        None \<Rightarrow> False
      | Some (scheme, authority, _) \<Rightarrow>
          (let host_port = (case rsplit_once_char authority (CHR ''@'') of Some (_, hp) \<Rightarrow> hp | None \<Rightarrow> authority) in
           case url_host_port host_port of
             None \<Rightarrow> False
           | Some (host, prt) \<Rightarrow>
               if host = [] \<or> (case prt of None \<Rightarrow> False
                              | Some p \<Rightarrow> p \<noteq> [] \<and> (\<not> list_all is_ascii_digit p \<or> parse_u16 p = None)) then False
               else if eq_ignore_ascii_case scheme ''https'' then True
               else eq_ignore_ascii_case scheme ''http''
                    \<and> (host = ''127.0.0.1'' \<or> host = ''::1'' \<or> eq_ignore_ascii_case host ''localhost'')))"

definition cdp_port_from_endpoint :: "string \<Rightarrow> u16 option" where
  "cdp_port_from_endpoint endp =
     (case split_once endp ''://'' of
        None \<Rightarrow> None
      | Some (_, rest) \<Rightarrow>
          (case rsplit_once_char (takeWhile (\<lambda>c. c \<noteq> CHR ''/'') rest) (CHR '':'') of
             None \<Rightarrow> None
           | Some (_, p) \<Rightarrow>
               (case parse_u16 p of None \<Rightarrow> None | Some prt \<Rightarrow> if prt \<noteq> 0 then Some prt else None)))"

definition valid_base64url_secret :: "string \<Rightarrow> bool" where
  "valid_base64url_secret secret \<longleftrightarrow>
     secret \<noteq> [] \<and> list_all (\<lambda>c. is_ascii_alphanumeric c \<or> c = CHR ''-'' \<or> c = CHR ''_'') secret"

definition safe_path_component :: "string \<Rightarrow> string" where
  "safe_path_component value =
     map (\<lambda>ch. case ch of
            [c] \<Rightarrow> if is_ascii_alphanumeric c \<or> c = CHR ''-'' \<or> c = CHR ''_'' then c else CHR ''_''
          | _ \<Rightarrow> CHR ''_'')
       (utf8_chunks value)"

subsection \<open>What the audit keeps of a URL\<close>

lemma find_sub_scheme:
  assumes "CHR '':'' \<notin> set a"
  shows "find_sub (a @ ''://'' @ b) ''://'' = Some (length a)"
  using assms by (induction a) (auto simp: starts_with_def)

lemma split_once_scheme: "CHR '':'' \<notin> set a \<Longrightarrow> split_once (a @ ''://'' @ b) ''://'' = Some (a, b)"
  using find_sub_scheme[of a b] by (simp add: split_once_def)

lemma ascii_lower_colon [simp]: "ascii_lower (CHR '':'') = CHR '':''"
  by code_simp

lemma lower_http [simp]: "to_ascii_lowercase ''http'' = ''http''" "to_ascii_lowercase ''https'' = ''https''"
  by code_simp+

lemma http_scheme_iff:
  "eq_ignore_ascii_case s ''http'' \<or> eq_ignore_ascii_case s ''https'' \<longleftrightarrow> to_ascii_lowercase s \<in> {''http'', ''https''}"
  by (simp add: eq_ignore_ascii_case_def)

lemma http_scheme_no_colon:
  assumes "to_ascii_lowercase s \<in> {''http'', ''https''}"
  shows "CHR '':'' \<notin> set s" "CHR '':'' \<notin> set (to_ascii_lowercase s)"
proof -
  show n: "CHR '':'' \<notin> set (to_ascii_lowercase s)" using assms by auto
  show "CHR '':'' \<notin> set s"
  proof
    assume "CHR '':'' \<in> set s"
    then have "ascii_lower (CHR '':'') \<in> ascii_lower ` set s" by (rule imageI)
    then show False using n by (simp add: to_ascii_lowercase_def)
  qed
qed

lemma span_append:
  assumes "list_all P a" "b = [] \<or> \<not> P (hd b)"
  shows "takeWhile P (a @ b) = a" "dropWhile P (a @ b) = b"
  using assms by (induction a; cases b; simp)+

lemma rsplit_once_char_None_iff: "rsplit_once_char s c = None \<longleftrightarrow> c \<notin> set s"
  by (auto simp: rsplit_once_char_def)

lemma rsplit_once_char_append:
  "c \<notin> set b \<Longrightarrow> rsplit_once_char (a @ c # b) c = Some (a, b)"
proof -
  assume "c \<notin> set b"
  then have "list_all (\<lambda>x. x \<noteq> c) (rev b)" by (auto simp: list_all_iff)
  then show ?thesis
    using span_append[of "\<lambda>x. x \<noteq> c" "rev b" "c # rev a"] by (simp add: rsplit_once_char_def)
qed

lemma rsplit_once_char_Some_iff:
  "rsplit_once_char s c = Some (a, b) \<longleftrightarrow> s = a @ c # b \<and> c \<notin> set b"
proof
  assume r: "rsplit_once_char s c = Some (a, b)"
  then have "c \<in> set s" by (metis option.discI rsplit_once_char_None_iff)
  then obtain x y where "s = x @ c # y" "c \<notin> set y" by (meson split_list_last)
  then show "s = a @ c # b \<and> c \<notin> set b" using r rsplit_once_char_append[of c y x] by simp
qed (simp add: rsplit_once_char_append)

lemma after_userinfo:
  "\<exists>ui. a = ui @ (case rsplit_once_char a (CHR ''@'') of Some (_, h) \<Rightarrow> h | None \<Rightarrow> a) \<and> (ui = [] \<or> last ui = CHR ''@'')
     \<and> CHR ''@'' \<notin> set (case rsplit_once_char a (CHR ''@'') of Some (_, h) \<Rightarrow> h | None \<Rightarrow> a)"
proof (cases "rsplit_once_char a (CHR ''@'')")
  case None
  then show ?thesis by (simp add: rsplit_once_char_None_iff[symmetric])
next
  case (Some q)
  obtain w h where q: "q = (w, h)" by (cases q)
  then have "a = w @ CHR ''@'' # h \<and> CHR ''@'' \<notin> set h"
    using Some by (simp add: rsplit_once_char_Some_iff)
  then show ?thesis using Some q by (intro exI[of _ "w @ ''@''"]) simp
qed

lemma split_authority_Some:
  assumes "split_authority v = Some (sch, auth, rest)"
  shows "v = sch @ ''://'' @ auth @ rest" "rest = [] \<or> authority_end (hd rest)" "list_all (\<lambda>c. \<not> authority_end c) auth"
proof -
  obtain rm where v: "v = sch @ ''://'' @ rm" and ar: "auth = takeWhile (\<lambda>c. \<not> authority_end c) rm"
      "rest = dropWhile (\<lambda>c. \<not> authority_end c) rm"
    using assms split_once_Some by (fastforce simp: split_authority_def split: option.splits)
  show "v = sch @ ''://'' @ auth @ rest" unfolding v ar by simp
  show "rest = [] \<or> authority_end (hd rest)" unfolding ar using hd_dropWhile[of "\<lambda>c. \<not> authority_end c" rm] by blast
  show "list_all (\<lambda>c. \<not> authority_end c) auth" unfolding ar by (auto simp: list_all_iff dest: set_takeWhileD)
qed

text \<open>
  The parts of a URL: the scheme, the user information with its separator, the host with its port,
  the path, and the query and fragment.
\<close>

definition url_parts :: "string \<Rightarrow> string \<Rightarrow> string \<Rightarrow> string \<Rightarrow> string \<Rightarrow> bool" where
  "url_parts sch ui host p tail \<longleftrightarrow>
     to_ascii_lowercase sch \<in> {''http'', ''https''}
     \<and> (ui = [] \<or> last ui = CHR ''@'') \<and> host \<noteq> [] \<and> CHR ''@'' \<notin> set host
     \<and> list_all (\<lambda>c. \<not> authority_end c \<and> \<not> is_ascii_control c \<and> \<not> is_ascii_whitespace c) (ui @ host)
     \<and> (p = [] \<or> hd p = CHR ''/'') \<and> CHR ''?'' \<notin> set p \<and> CHR ''#'' \<notin> set p
     \<and> (tail = [] \<or> hd tail \<in> set ''?#'')"

lemma split_authority_parts:
  assumes "url_parts sch ui host p tail"
  shows "split_authority (sch @ ''://'' @ ui @ host @ p @ tail) = Some (sch, ui @ host, p @ tail)"
proof -
  have c: "CHR '':'' \<notin> set sch" using assms http_scheme_no_colon(1) unfolding url_parts_def by blast
  have e: "list_all (\<lambda>c. \<not> authority_end c) (ui @ host)"
    using assms by (simp add: url_parts_def list_all_iff)
  have r: "p @ tail = [] \<or> \<not> \<not> authority_end (hd (p @ tail))"
    using assms by (cases p) (auto simp: url_parts_def authority_end_def)
  show ?thesis
    using span_append[OF e r] unfolding split_authority_def split_once_scheme[OF c] by simp
qed

lemma url_parts_lower_no_colon: "url_parts sch ui host p tail \<Longrightarrow> CHR '':'' \<notin> set (to_ascii_lowercase sch)"
  unfolding url_parts_def using http_scheme_no_colon(2) by blast

lemma audit_target_url_of_parts:
  assumes "url_parts sch ui host p tail"
  shows "audit_target_url (sch @ ''://'' @ ui @ host @ p @ tail) = Some (to_ascii_lowercase sch @ ''://'' @ host @ p)"
proof -
  have o: "http_origin (sch @ ''://'' @ ui @ host @ p @ tail) = Some (to_ascii_lowercase sch @ ''://'' @ ui @ host)"
    using assms split_authority_parts[OF assms] http_scheme_iff[of sch]
    by (auto simp: http_origin_def url_parts_def list_ex_iff list_all_iff)
  have h: "(case rsplit_once_char (ui @ host) (CHR ''@'') of Some (_, h) \<Rightarrow> h | None \<Rightarrow> ui @ host) = host"
  proof (cases "ui = []")
    case True
    then show ?thesis using assms by (simp add: url_parts_def rsplit_once_char_def)
  next
    case False
    then have "ui @ host = butlast ui @ CHR ''@'' # host"
      using assms append_butlast_last_id[of ui] unfolding url_parts_def by (metis append_Cons append_Nil append_assoc)
    then have "rsplit_once_char (ui @ host) (CHR ''@'') = Some (butlast ui, host)"
      using assms rsplit_once_char_append[of "CHR ''@''" host "butlast ui"] unfolding url_parts_def by metis
    then show ?thesis by simp
  qed
  have p: "(if starts_with (p @ tail) ''/'' then takeWhile (\<lambda>c. c \<noteq> CHR ''?'' \<and> c \<noteq> CHR ''#'') (p @ tail) else []) = p"
  proof (cases "p = []")
    case True
    then show ?thesis using assms by (cases tail) (auto simp: url_parts_def starts_with_def)
  next
    case False
    have "list_all (\<lambda>c. c \<noteq> CHR ''?'' \<and> c \<noteq> CHR ''#'') p" "tail = [] \<or> \<not> (hd tail \<noteq> CHR ''?'' \<and> hd tail \<noteq> CHR ''#'')"
      using assms by (auto simp: url_parts_def list_all_iff)
    then show ?thesis
      using False assms span_append(1)[of "\<lambda>c. c \<noteq> CHR ''?'' \<and> c \<noteq> CHR ''#''" p tail]
      by (cases p) (simp_all add: url_parts_def starts_with_def)
  qed
  show ?thesis
    unfolding audit_target_url_def o option.case split_once_scheme[OF url_parts_lower_no_colon[OF assms]] prod.case
      h Let_def split_authority_parts[OF assms] p
    using assms by (simp add: url_parts_def)
qed

lemma audit_target_url_parts_of:
  assumes "audit_target_url v = Some u"
  shows "\<exists>sch ui host p tail. v = sch @ ''://'' @ ui @ host @ p @ tail \<and> url_parts sch ui host p tail"
proof -
  obtain orig where o: "http_origin v = Some orig" using assms by (auto simp: audit_target_url_def split: option.splits)
  then obtain sch auth rest where sp: "split_authority v = Some (sch, auth, rest)"
    and sch: "to_ascii_lowercase sch \<in> {''http'', ''https''}" and auth: "auth \<noteq> []"
      "list_all (\<lambda>c. \<not> is_ascii_control c \<and> \<not> is_ascii_whitespace c) auth"
    and orig: "orig = to_ascii_lowercase sch @ ''://'' @ auth"
    using http_scheme_iff by (auto simp: http_origin_def list_all_iff list_ex_iff split: option.splits if_splits)
  note v = split_authority_Some[OF sp]
  define host where "host = (case rsplit_once_char auth (CHR ''@'') of Some (_, h) \<Rightarrow> h | None \<Rightarrow> auth)"
  have host: "host \<noteq> []"
    using assms o split_once_scheme[OF http_scheme_no_colon(2)[OF sch], of auth]
    by (auto simp: audit_target_url_def orig host_def Let_def split: option.splits if_splits)
  obtain ui where ui: "auth = ui @ host" "ui = [] \<or> last ui = CHR ''@''" "CHR ''@'' \<notin> set host"
    using after_userinfo[of auth] unfolding host_def by blast
  define p where "p = (if starts_with rest ''/'' then takeWhile (\<lambda>c. c \<noteq> CHR ''?'' \<and> c \<noteq> CHR ''#'') rest else [])"
  define tail where "tail = drop (length p) rest"
  have pt: "rest = p @ tail"
    by (simp add: tail_def p_def takeWhile_dropWhile_id dropWhile_eq_drop[symmetric])
  have p: "(p = [] \<or> hd p = CHR ''/'') \<and> CHR ''?'' \<notin> set p \<and> CHR ''#'' \<notin> set p"
    by (cases rest) (auto simp: p_def starts_with_def dest: set_takeWhileD)
  have t: "tail = [] \<or> hd tail \<in> set ''?#''"
  proof (cases "starts_with rest ''/''")
    case True
    then have "tail = dropWhile (\<lambda>c. c \<noteq> CHR ''?'' \<and> c \<noteq> CHR ''#'') rest"
      by (simp add: tail_def p_def dropWhile_eq_drop)
    then show ?thesis using hd_dropWhile[of "\<lambda>c. c \<noteq> CHR ''?'' \<and> c \<noteq> CHR ''#''" rest] by auto
  next
    case False
    then have "tail = rest" by (simp add: tail_def p_def)
    then show ?thesis using v(2) False by (cases rest) (auto simp: authority_end_def starts_with_def)
  qed
  have "url_parts sch ui host p tail"
    using sch ui host auth(2) v(3) p t by (simp add: url_parts_def list_all_iff)
  moreover have "v = sch @ ''://'' @ ui @ host @ p @ tail" using v(1) ui(1) pt by simp
  ultimately show ?thesis by blast
qed

text \<open>
  what the audit log and the approval hook see of a target address. There is something exactly
  for an \<open>http\<close> or \<open>https\<close> address with a host, and it is the scheme in lower case, the host with its
  port and the path: never the user name and password in front of the host, the query or the
  fragment.
\<close>

theorem audit_target_url_keeps_host_and_path:
  "audit_target_url v = Some u \<longleftrightarrow>
     (\<exists>sch ui host p tail. v = sch @ ''://'' @ ui @ host @ p @ tail \<and> url_parts sch ui host p tail
        \<and> u = to_ascii_lowercase sch @ ''://'' @ host @ p)"
  using audit_target_url_parts_of[of v u] audit_target_url_of_parts by (metis option.inject)

subsection \<open>Upstreams and endpoints\<close>

lemma url_host_port_shape:
  assumes "url_host_port hp = Some (h, prt)"
  shows "(hp = h \<or> hp = ''['' @ h @ '']'') \<and> prt = None \<or> (\<exists>p. prt = Some p \<and> (hp = h @ '':'' @ p \<or> hp = ''['' @ h @ '']:'' @ p))"
proof (cases "strip_prefix hp ''[''")
  case None
  show ?thesis
  proof (cases "split_once hp '':''")
    case (Some q)
    then show ?thesis using assms None split_once_Some[of hp "'':''" "fst q" "snd q"]
      by (cases q) (auto simp: url_host_port_def)
  qed (use assms None in \<open>simp add: url_host_port_def\<close>)
next
  case (Some br)
  then obtain q where q: "split_once br '']'' = Some q" using assms
    by (cases "split_once br '']''") (simp_all add: url_host_port_def del: strip_prefix_Some_iff)
  then have "hp = ''['' @ fst q @ '']'' @ snd q" using Some split_once_Some[of br "'']''" "fst q" "snd q"] by simp
  moreover have "(if snd q = [] then Some (fst q, None)
      else (case strip_prefix (snd q) '':'' of Some p \<Rightarrow> Some (fst q, Some p) | None \<Rightarrow> None)) = Some (h, prt)"
    using assms unfolding url_host_port_def Some option.case q by (simp only: case_prod_unfold option.case)
  ultimately show ?thesis by (auto split: option.splits if_splits)
qed

lemma parse_u16_digits:
  assumes "list_all is_ascii_digit p" "p \<noteq> []"
  shows "parse_u16 p = (if dec_val p < 2 ^ 16 then Some (of_nat (dec_val p)) else None)"
proof -
  have "strip_prefix p ''+'' = None"
    using assms by (cases p) (auto simp: strip_prefix_def starts_with_def is_ascii_digit_def)
  then show ?thesis using assms by (simp add: parse_u16_def)
qed

text \<open>
  C37: the credential an injection proxy adds to requests travels in clear text only on the local
  machine: an upstream that the configuration may name is \<open>https\<close>, or \<open>http\<close> on a loopback host,
  possibly in brackets, with user information, a port and anything after it.
\<close>

definition loopback_host :: "string \<Rightarrow> bool" where
  "loopback_host h \<longleftrightarrow> h = ''127.0.0.1'' \<or> h = ''::1'' \<or> eq_ignore_ascii_case h ''localhost''"

theorem cleartext_upstream_is_loopback:
  assumes "api_proxy_upstream_allowed u" "\<not> eq_ignore_ascii_case (fst (the (split_authority u))) ''https''"
  shows "\<exists>sch ui h hp rest. u = sch @ ''://'' @ ui @ hp @ rest \<and> eq_ignore_ascii_case sch ''http''
     \<and> (ui = [] \<or> last ui = CHR ''@'') \<and> CHR ''@'' \<notin> set hp \<and> (rest = [] \<or> authority_end (hd rest)) \<and> loopback_host h
     \<and> (hp \<in> {h, ''['' @ h @ '']''} \<or> (\<exists>p. hp \<in> {h @ '':'' @ p, ''['' @ h @ '']:'' @ p} \<and> list_all is_ascii_digit p \<and> dec_val p < 2 ^ 16))"
proof -
  obtain sch auth rest where sp: "split_authority u = Some (sch, auth, rest)"
    using assms(1) by (auto simp: api_proxy_upstream_allowed_def split: option.splits if_splits)
  define hp where "hp = (case rsplit_once_char auth (CHR ''@'') of Some (_, h) \<Rightarrow> h | None \<Rightarrow> auth)"
  obtain ui where ui: "auth = ui @ hp" "ui = [] \<or> last ui = CHR ''@''" "CHR ''@'' \<notin> set hp"
    using after_userinfo[of auth] unfolding hp_def by blast
  obtain h prt where h: "url_host_port hp = Some (h, prt)"
    using assms(1) unfolding api_proxy_upstream_allowed_def sp option.case prod.case hp_def[symmetric] Let_def
    by (cases "url_host_port hp") (auto split: if_splits)
  have al: "\<not> (h = [] \<or> (case prt of None \<Rightarrow> False | Some p \<Rightarrow> p \<noteq> [] \<and> (\<not> list_all is_ascii_digit p \<or> parse_u16 p = None)))"
      "eq_ignore_ascii_case sch ''https'' \<or> eq_ignore_ascii_case sch ''http'' \<and> loopback_host h"
    using assms(1) unfolding api_proxy_upstream_allowed_def sp option.case prod.case hp_def[symmetric] Let_def h loopback_host_def
    by (simp_all split: if_splits del: de_Morgan_disj)
  have l: "eq_ignore_ascii_case sch ''http''" "loopback_host h" using al(2) assms(2) sp by simp_all
  have p: "p = [] \<or> list_all is_ascii_digit p \<and> parse_u16 p \<noteq> None" if "prt = Some p" for p
    using al(1) that by auto
  have pd: "list_all is_ascii_digit p \<and> dec_val p < 2 ^ 16" if "prt = Some p" for p
    using p[OF that] parse_u16_digits[of p] by (cases "p = []") (auto simp: dec_val_def split: if_splits)
  have "hp \<in> {h, ''['' @ h @ '']''} \<or> (\<exists>p. hp \<in> {h @ '':'' @ p, ''['' @ h @ '']:'' @ p} \<and> list_all is_ascii_digit p \<and> dec_val p < 2 ^ 16)"
    using url_host_port_shape[OF h] pd by blast
  then show ?thesis
    using split_authority_Some[OF sp] ui l by (intro exI[of _ sch] exI[of _ ui] exI[of _ h] exI[of _ hp] exI[of _ rest]) simp
qed

theorem cleartext_upstream_is_loopback_witness:
  "\<exists>sch ui h hp rest. ''http://localhost/x'' = sch @ ''://'' @ ui @ hp @ rest \<and> eq_ignore_ascii_case sch ''http'' \<and> loopback_host h"
proof -
  have a: "is_ascii ''http://localhost/x''" by (simp add: is_ascii_def)
  have c: "\<not> list_ex (\<lambda>ch. is_control_char ch \<or> is_whitespace_char ch \<or> ch = [CHR 0x5C]) (utf8_chunks ''http://localhost/x'')"
    unfolding utf8_chunks_ascii[OF a] by (simp add: is_control_char_def is_whitespace_char_def is_control_cp_def is_whitespace_cp_def)
  have "api_proxy_upstream_allowed ''http://localhost/x''"
    unfolding api_proxy_upstream_allowed_def if_not_P[OF c] by code_simp
  moreover have "\<not> eq_ignore_ascii_case (fst (the (split_authority ''http://localhost/x''))) ''https''"
    by code_simp
  ultimately show ?thesis using cleartext_upstream_is_loopback[of "''http://localhost/x''"] by blast
qed

text \<open>
  The port of a browser endpoint is read back from every address of the shape the executor sends.
\<close>

lemma cdp_port_roundtrip:
  assumes "CHR '':'' \<notin> set sch" "CHR ''/'' \<notin> set host" "prt \<noteq> 0" "rest = [] \<or> hd rest = CHR ''/''"
  shows "cdp_port_from_endpoint (sch @ ''://'' @ host @ '':'' @ decimal (unat prt) @ rest) = Some prt"
proof -
  have d: "list_all is_ascii_digit (decimal (unat prt))" by (auto simp: list_all_iff dest: decimal_digits)
  then have nc: "CHR '':'' \<notin> set (decimal (unat prt))" "CHR ''/'' \<notin> set (decimal (unat prt))"
    by (auto simp: list_all_iff is_ascii_digit_def)
  have t: "takeWhile (\<lambda>c. c \<noteq> CHR ''/'') ((host @ '':'' @ decimal (unat prt)) @ rest) = host @ '':'' @ decimal (unat prt)"
    by (rule span_append) (use assms nc in \<open>auto simp: list_all_iff\<close>)
  have u: "unat prt < 2 ^ 16" using unsigned_less[of prt] by simp
  have "decimal (unat prt) \<noteq> []" by (subst decimal.simps) simp
  then
  have "parse_u16 (decimal (unat prt)) = Some prt"
    using parse_u16_digits[OF d] u by (simp del: decimal.simps)
  then show ?thesis
    using t rsplit_once_char_append[OF nc(1), of host] assms(3)
    unfolding cdp_port_from_endpoint_def split_once_scheme[OF assms(1)] by simp
qed

end
