(* ===== verification/Rpc_Wire.thy ===== *)
theory Rpc_Wire
  imports Urls Identity Grants
begin

section \<open>Requests, replies and audit lines\<close>

text \<open>
  The messages of \<open>crates/tegata-core/src/wire.rs\<close> and the part of \<open>crates/tegatad/src/main.rs\<close> that
  builds and reads them: error codes, replies, the fields of an audit line, and the replies of the
  executor. A message is the typed value; where a text is decoded into one, the decoder (serde's)
  is a parameter \<open>decode\<close>, and \<open>parse\<close> is the reader of JSON texts. Strings that are zeroed after use
  are plain strings.
\<close>

subsection \<open>Error codes\<close>

datatype ErrorCode =
    OAuthGrantFailed | InvalidCredential | MfaRequired | SelectorNotFound | FillMismatch
  | FillTargetRefused | SnapshotRejected | DeviceCodeRejected | LoginResultTimeout | VaultLocked
  | RateLimited | TotpNotExposable | ApprovalDenied | ApprovalTimeout | ProviderUnavailable
  | Internal | NotFound | Unauthorized | AdminRequired | AdminSealUnavailable

fun ErrorCode_as_str :: "ErrorCode \<Rightarrow> string" where
  "ErrorCode_as_str OAuthGrantFailed = ''OAUTH_GRANT_FAILED''"
| "ErrorCode_as_str InvalidCredential = ''INVALID_CREDENTIAL''"
| "ErrorCode_as_str MfaRequired = ''MFA_REQUIRED''"
| "ErrorCode_as_str SelectorNotFound = ''SELECTOR_NOT_FOUND''"
| "ErrorCode_as_str FillMismatch = ''FILL_MISMATCH''"
| "ErrorCode_as_str FillTargetRefused = ''FILL_TARGET_REFUSED''"
| "ErrorCode_as_str SnapshotRejected = ''SNAPSHOT_REJECTED''"
| "ErrorCode_as_str DeviceCodeRejected = ''DEVICE_CODE_REJECTED''"
| "ErrorCode_as_str LoginResultTimeout = ''LOGIN_RESULT_TIMEOUT''"
| "ErrorCode_as_str VaultLocked = ''VAULT_LOCKED''"
| "ErrorCode_as_str RateLimited = ''RATE_LIMITED''"
| "ErrorCode_as_str TotpNotExposable = ''TOTP_NOT_EXPOSABLE''"
| "ErrorCode_as_str ApprovalDenied = ''APPROVAL_DENIED''"
| "ErrorCode_as_str ApprovalTimeout = ''APPROVAL_TIMEOUT''"
| "ErrorCode_as_str ProviderUnavailable = ''PROVIDER_UNAVAILABLE''"
| "ErrorCode_as_str Internal = ''INTERNAL''"
| "ErrorCode_as_str NotFound = ''NOT_FOUND''"
| "ErrorCode_as_str Unauthorized = ''UNAUTHORIZED''"
| "ErrorCode_as_str AdminRequired = ''ADMIN_REQUIRED''"
| "ErrorCode_as_str AdminSealUnavailable = ''ADMIN_SEAL_UNAVAILABLE''"

definition parse_error_code :: "string \<Rightarrow> ErrorCode" where
  "parse_error_code value =
     (if value = ''OAUTH_GRANT_FAILED'' then OAuthGrantFailed
      else if value = ''INVALID_CREDENTIAL'' then InvalidCredential
      else if value = ''MFA_REQUIRED'' then MfaRequired
      else if value = ''SELECTOR_NOT_FOUND'' then SelectorNotFound
      else if value = ''FILL_MISMATCH'' then FillMismatch
      else if value = ''FILL_TARGET_REFUSED'' then FillTargetRefused
      else if value = ''SNAPSHOT_REJECTED'' then SnapshotRejected
      else if value = ''DEVICE_CODE_REJECTED'' then DeviceCodeRejected
      else if value = ''LOGIN_RESULT_TIMEOUT'' then LoginResultTimeout
      else if value = ''VAULT_LOCKED'' then VaultLocked
      else if value = ''RATE_LIMITED'' then RateLimited
      else if value = ''TOTP_NOT_EXPOSABLE'' then TotpNotExposable
      else if value = ''APPROVAL_DENIED'' then ApprovalDenied
      else if value = ''APPROVAL_TIMEOUT'' then ApprovalTimeout
      else if value = ''PROVIDER_UNAVAILABLE'' then ProviderUnavailable
      else if value = ''INTERNAL'' then Internal
      else if value = ''NOT_FOUND'' then NotFound
      else Internal)"

definition parse_authorize_error_code :: "string \<Rightarrow> ErrorCode" where
  "parse_authorize_error_code value =
     (if value \<in> {''INVALID_CREDENTIAL'', ''MFA_REQUIRED'', ''SELECTOR_NOT_FOUND'', ''FILL_MISMATCH'',
                  ''DEVICE_CODE_REJECTED'', ''LOGIN_RESULT_TIMEOUT''}
      then parse_error_code value else Internal)"

definition parse_api_proxy_error_code :: "string \<Rightarrow> ErrorCode" where
  "parse_api_proxy_error_code value =
     (if value = ''OAUTH_GRANT_FAILED'' \<or> value = ''INTERNAL'' then parse_error_code value
      else parse_authorize_error_code value)"

record ExecutorFailure =
  ef_code :: ErrorCode
  ef_step :: "nat option"

definition failure_of :: "ErrorCode \<Rightarrow> ExecutorFailure" where
  "failure_of c = \<lparr>ef_code = c, ef_step = None\<rparr>"

subsection \<open>Requests and replies\<close>

record RpcRequest =
  rq_jsonrpc :: string
  rq_id :: json
  rq_method :: string
  rq_params :: json

record RpcError =
  re_code :: int
  re_message :: string
  re_data :: "json option"

record RpcResponse =
  rp_jsonrpc :: string
  rp_id :: json
  rp_result :: "json option"
  rp_error :: "RpcError option"

definition JSON_RPC_VERSION :: string where "JSON_RPC_VERSION = ''2.0''"
definition METHOD_NOT_FOUND :: int where "METHOD_NOT_FOUND = -32601"
definition CLASSIFICATION_ERROR :: int where "CLASSIFICATION_ERROR = -32000"

text \<open>The JSON value of a reply; absent parts are left out.\<close>

definition opt_entry :: "string \<Rightarrow> json option \<Rightarrow> (string \<times> json) list" where
  "opt_entry k v = (case v of None \<Rightarrow> [] | Some j \<Rightarrow> [(k, j)])"

definition rpc_error_json :: "RpcError \<Rightarrow> json" where
  "rpc_error_json e = JObj ([(''code'', JInt (re_code e)), (''message'', JStr (re_message e))] @ opt_entry ''data'' (re_data e))"

definition rpc_response_json :: "RpcResponse \<Rightarrow> json" where
  "rpc_response_json r =
     JObj ([(''jsonrpc'', JStr (rp_jsonrpc r)), (''id'', rp_id r)] @ opt_entry ''result'' (rp_result r)
           @ opt_entry ''error'' (map_option rpc_error_json (rp_error r)))"

definition parse_params :: "(json \<Rightarrow> 'p option) \<Rightarrow> json \<Rightarrow> ErrorCode + 'p" where
  "parse_params decode params =
     (case decode (if params = JNull then JObj [] else params) of None \<Rightarrow> Inl Internal | Some p \<Rightarrow> Inr p)"

definition required_string_param :: "json \<Rightarrow> string \<Rightarrow> ErrorCode + string" where
  "required_string_param params key =
     (case Option.bind (jget params key) jas_str of None \<Rightarrow> Inl Internal | Some s \<Rightarrow> Inr s)"

definition optional_namespace :: "json \<Rightarrow> ErrorCode + string option" where
  "optional_namespace params =
     (if params = JNull then Inr None
      else case jget params ''namespace'' of
             None \<Rightarrow> Inr None
           | Some JNull \<Rightarrow> Inr None
           | Some (JStr n) \<Rightarrow> Inr (Some n)
           | Some _ \<Rightarrow> Inl Internal)"

definition carries_step :: "ErrorCode \<Rightarrow> bool" where
  "carries_step c \<longleftrightarrow> c \<in> {SelectorNotFound, FillMismatch, FillTargetRefused}"

definition error_response_with_step :: "json \<Rightarrow> ErrorCode \<Rightarrow> nat option \<Rightarrow> RpcResponse" where
  "error_response_with_step i e stp =
     \<lparr>rp_jsonrpc = JSON_RPC_VERSION, rp_id = i, rp_result = None,
      rp_error = Some \<lparr>re_code = CLASSIFICATION_ERROR, re_message = ErrorCode_as_str e,
        re_data = (if carries_step e then map_option (\<lambda>s. JObj [(''step'', JInt (int s))]) stp else None)\<rparr>\<rparr>"

definition error_response :: "json \<Rightarrow> ErrorCode \<Rightarrow> RpcResponse" where
  "error_response i e = error_response_with_step i e None"

subsection \<open>Audit lines\<close>

record AuditFields =
  af_cred_id :: "string option"
  af_target_url :: "string option"
  af_session_id :: "string option"
  af_namespace :: "string option"
  af_shared :: "bool option"
  af_approval_id :: "string option"
  af_approval_allow :: "bool option"
  af_approval_grant :: "ApprovalGrant option"
  af_proxy :: "string option"
  af_http_method :: "string option"
  af_path :: "string option"
  af_status :: "u16 option"
  af_oauth_action :: "string option"
  af_mcp_server :: "string option"
  af_mcp_action :: "string option"
  af_exit_code :: "int option"
  af_cookies :: "string option"
  af_steps_skipped :: "bool option"
  af_cookies_saved :: "bool option"
  af_removed :: "nat option"
  af_all :: "bool option"
  af_login_id :: "string option"
  af_action :: "string option"
  af_stepwise :: "bool option"

definition AuditFields_default :: AuditFields where
  "AuditFields_default =
     \<lparr>af_cred_id = None, af_target_url = None, af_session_id = None, af_namespace = None, af_shared = None,
      af_approval_id = None, af_approval_allow = None, af_approval_grant = None, af_proxy = None,
      af_http_method = None, af_path = None, af_status = None, af_oauth_action = None, af_mcp_server = None,
      af_mcp_action = None, af_exit_code = None, af_cookies = None, af_steps_skipped = None,
      af_cookies_saved = None, af_removed = None, af_all = None, af_login_id = None, af_action = None,
      af_stepwise = None\<rparr>"

definition or_null :: "string option \<Rightarrow> json" where
  "or_null s = (case s of None \<Rightarrow> JNull | Some t \<Rightarrow> JStr t)"

definition grant_str :: "ApprovalGrant \<Rightarrow> string" where
  "grant_str g = (case g of Issued \<Rightarrow> ''issued'' | Reused \<Rightarrow> ''reused'')"

definition audit_fields_entries :: "AuditFields \<Rightarrow> (string \<times> json) list" where
  "audit_fields_entries f =
     [(''cred_id'', or_null (af_cred_id f)), (''target_url'', or_null (af_target_url f)),
      (''session_id'', or_null (af_session_id f)), (''namespace'', or_null (af_namespace f))]
     @ opt_entry ''shared'' (map_option JBool (af_shared f))
     @ opt_entry ''approval_id'' (map_option JStr (af_approval_id f))
     @ opt_entry ''approval_allow'' (map_option JBool (af_approval_allow f))
     @ opt_entry ''approval_grant'' (map_option (JStr \<circ> grant_str) (af_approval_grant f))
     @ opt_entry ''proxy'' (map_option JStr (af_proxy f))
     @ opt_entry ''http_method'' (map_option JStr (af_http_method f))
     @ opt_entry ''path'' (map_option JStr (af_path f))
     @ opt_entry ''status'' (map_option (JInt \<circ> uint) (af_status f))
     @ opt_entry ''oauth_action'' (map_option JStr (af_oauth_action f))
     @ opt_entry ''mcp_server'' (map_option JStr (af_mcp_server f))
     @ opt_entry ''mcp_action'' (map_option JStr (af_mcp_action f))
     @ opt_entry ''exit_code'' (map_option JInt (af_exit_code f))
     @ opt_entry ''cookies'' (map_option JStr (af_cookies f))
     @ opt_entry ''steps_skipped'' (map_option JBool (af_steps_skipped f))
     @ opt_entry ''cookies_saved'' (map_option JBool (af_cookies_saved f))
     @ opt_entry ''removed'' (map_option (JInt \<circ> int) (af_removed f))
     @ opt_entry ''all'' (map_option JBool (af_all f))
     @ opt_entry ''login_id'' (map_option JStr (af_login_id f))
     @ opt_entry ''action'' (map_option JStr (af_action f))
     @ opt_entry ''stepwise'' (map_option JBool (af_stepwise f))"

datatype AuditPeer = AuditPeer PeerIdentity | AuditSystem

definition serialize_audit_peer :: "AuditPeer \<Rightarrow> (string \<times> json) list" where
  "serialize_audit_peer p = (case p of AuditPeer i \<Rightarrow> serialize_peer i | AuditSystem \<Rightarrow> serialize_peer System)"

record AuditRecord =
  ar_ts :: string
  ar_peer :: AuditPeer
  ar_method :: string
  ar_fields :: AuditFields
  ar_outcome :: string

definition audit_record_json :: "AuditRecord \<Rightarrow> json" where
  "audit_record_json r =
     JObj ([(''ts'', JStr (ar_ts r))] @ serialize_audit_peer (ar_peer r) @ [(''method'', JStr (ar_method r))]
           @ audit_fields_entries (ar_fields r) @ [(''outcome'', JStr (ar_outcome r))])"

record CookieAudit =
  ca_cookies :: "string option"
  ca_steps_skipped :: "bool option"
  ca_cookies_saved :: "bool option"

definition CookieAudit_login :: "bool \<Rightarrow> bool \<Rightarrow> CookieAudit" where
  "CookieAudit_login restored skipped =
     \<lparr>ca_cookies = Some (if restored then ''restored'' else ''none''), ca_steps_skipped = Some skipped, ca_cookies_saved = None\<rparr>"

definition CookieAudit_session_end :: "bool option \<Rightarrow> CookieAudit" where
  "CookieAudit_session_end saved = \<lparr>ca_cookies = None, ca_steps_skipped = None, ca_cookies_saved = saved\<rparr>"

definition opt_or :: "'a option \<Rightarrow> 'a option \<Rightarrow> 'a option" where
  "opt_or a b = (case a of None \<Rightarrow> b | Some x \<Rightarrow> Some x)"

definition CookieAudit_apply :: "CookieAudit \<Rightarrow> AuditFields \<Rightarrow> AuditFields" where
  "CookieAudit_apply c f =
     f\<lparr>af_cookies := opt_or (ca_cookies c) (af_cookies f),
       af_steps_skipped := opt_or (ca_steps_skipped c) (af_steps_skipped f),
       af_cookies_saved := opt_or (ca_cookies_saved c) (af_cookies_saved f)\<rparr>"

record HandledRequest =
  hr_response :: RpcResponse
  hr_outcome :: string
  hr_audit_shared :: "bool option"
  hr_audit_approval :: "(string \<times> bool) option"
  hr_audit_approval_grant :: "ApprovalGrant option"
  hr_audit_fields :: "AuditFields option"
  hr_audit_cookies :: "CookieAudit option"

definition handled :: "RpcResponse \<Rightarrow> string \<Rightarrow> HandledRequest" where
  "handled r out =
     \<lparr>hr_response = r, hr_outcome = out, hr_audit_shared = None, hr_audit_approval = None,
      hr_audit_approval_grant = None, hr_audit_fields = None, hr_audit_cookies = None\<rparr>"

definition success :: "json \<Rightarrow> json \<Rightarrow> HandledRequest" where
  "success i r = handled \<lparr>rp_jsonrpc = JSON_RPC_VERSION, rp_id = i, rp_result = Some r, rp_error = None\<rparr> ''ok''"

definition classified_with_step :: "json \<Rightarrow> ErrorCode \<Rightarrow> nat option \<Rightarrow> HandledRequest" where
  "classified_with_step i e stp = handled (error_response_with_step i e stp) (ErrorCode_as_str e)"

definition classified :: "json \<Rightarrow> ErrorCode \<Rightarrow> HandledRequest" where
  "classified i e = classified_with_step i e None"

definition method_not_found :: "json \<Rightarrow> HandledRequest" where
  "method_not_found i =
     handled \<lparr>rp_jsonrpc = JSON_RPC_VERSION, rp_id = i, rp_result = None,
              rp_error = Some \<lparr>re_code = METHOD_NOT_FOUND, re_message = ''method not found'', re_data = None\<rparr>\<rparr>
       ''method_not_found''"

definition with_audit_shared :: "bool \<Rightarrow> HandledRequest \<Rightarrow> HandledRequest" where
  "with_audit_shared b h = h\<lparr>hr_audit_shared := Some b\<rparr>"

definition with_audit_approval :: "string \<Rightarrow> bool \<Rightarrow> HandledRequest \<Rightarrow> HandledRequest" where
  "with_audit_approval i allow h = h\<lparr>hr_audit_approval := Some (i, allow)\<rparr>"

definition with_audit_fields :: "AuditFields \<Rightarrow> HandledRequest \<Rightarrow> HandledRequest" where
  "with_audit_fields f h = h\<lparr>hr_audit_fields := Some f\<rparr>"

definition with_audit_approval_grant :: "ApprovalGrant option \<Rightarrow> HandledRequest \<Rightarrow> HandledRequest" where
  "with_audit_approval_grant g h = h\<lparr>hr_audit_approval_grant := g\<rparr>"

definition with_audit_cookies :: "CookieAudit option \<Rightarrow> HandledRequest \<Rightarrow> HandledRequest" where
  "with_audit_cookies c h = h\<lparr>hr_audit_cookies := c\<rparr>"

subsection \<open>What a request puts into its audit line\<close>

definition ACTION_KINDS :: "string list" where
  "ACTION_KINDS = [''click'', ''wait_for'', ''fill'', ''fill_submit'', ''snapshot'', ''abort'']"

definition audit_action :: "json \<Rightarrow> string option" where
  "audit_action params =
     (case Option.bind (jget params ''action'') jas_str of
        Some a \<Rightarrow> if a \<in> set ACTION_KINDS then Some a else None
      | None \<Rightarrow> None)"

text \<open>\<open>uuid\<close> reads a text as a UUID and prints it in its canonical form.\<close>

definition audit_login_id :: "(string \<Rightarrow> string option) \<Rightarrow> json \<Rightarrow> string option" where
  "audit_login_id uuid params = Option.bind (Option.bind (jget params ''login_id'') jas_str) uuid"

definition audit_param_keys :: "string \<Rightarrow> string list" where
  "audit_param_keys meth =
     (if meth = ''login'' \<or> meth = ''login_begin'' then [''cred_id'', ''target_url'']
      else if meth = ''authorize_device'' then [''cred_id'', ''verification_url'']
      else if meth = ''disconnect'' then [''session_id'']
      else if meth = ''get_totp'' then [''cred_id'']
      else if meth = ''list_credentials'' \<or> meth = ''lock_vault'' then [''namespace'']
      else [])"

definition audit_field :: "string \<Rightarrow> json \<Rightarrow> string \<Rightarrow> string option" where
  "audit_field meth params k =
     (if k \<notin> set (audit_param_keys meth) then None else Option.bind (jget params k) jas_str)"

definition audit_fields :: "(string \<Rightarrow> string option) \<Rightarrow> string \<Rightarrow> json \<Rightarrow> AuditFields" where
  "audit_fields uuid meth params =
     (let field = audit_field meth params;
          target_url = (if meth = ''authorize_device'' then Option.bind (field ''verification_url'') audit_target_url
                        else field ''target_url'');
          c = field ''cred_id'';
          ns = (if meth \<in> {''login'', ''login_begin'', ''authorize_device'', ''get_totp''}
                then map_option fst (Option.bind c (\<lambda>c. split_once c '':'')) else field ''namespace'');
          (lid, act) = (if meth = ''login_step'' then (audit_login_id uuid params, audit_action params) else (None, None))
      in AuditFields_default\<lparr>af_cred_id := c, af_target_url := target_url, af_session_id := field ''session_id'',
           af_namespace := ns, af_login_id := lid, af_action := act,
           af_stepwise := (if meth = ''login_begin'' \<or> meth = ''login_step'' then Some True else None)\<rparr>)"

text \<open>The fields of the line written after the handler, as \<open>serve_connection\<close> combines them.\<close>

definition final_audit_fields :: "(string \<Rightarrow> string option) \<Rightarrow> RpcRequest \<Rightarrow> HandledRequest \<Rightarrow> AuditFields" where
  "final_audit_fields uuid req h =
     (let fields = audit_fields uuid (rq_method req) (rq_params req);
          fields = (if rq_method req \<in> {''login'', ''login_begin'', ''login_step''} \<and> hr_outcome h = ''ok''
                    then (case rp_result (hr_response h) of
                            None \<Rightarrow> fields
                          | Some r \<Rightarrow>
                              (let fields = fields\<lparr>af_session_id := Option.bind (jget r ''session_id'') jas_str,
                                                   af_shared := hr_audit_shared h\<rparr>
                               in if rq_method req = ''login_begin''
                                  then fields\<lparr>af_login_id := Option.bind (jget r ''login_id'') jas_str\<rparr> else fields))
                    else fields);
          fields = (case hr_audit_fields h of None \<Rightarrow> fields | Some f \<Rightarrow> f);
          fields = (case hr_audit_approval h of None \<Rightarrow> fields
                    | Some (i, allow) \<Rightarrow> fields\<lparr>af_approval_id := Some i, af_approval_allow := Some allow\<rparr>);
          fields = (case hr_audit_approval_grant h of None \<Rightarrow> fields
                    | Some g \<Rightarrow> fields\<lparr>af_approval_grant := Some g\<rparr>)
      in case hr_audit_cookies h of None \<Rightarrow> fields | Some c \<Rightarrow> CookieAudit_apply c fields)"

subsection \<open>Codes and audit fields cannot be forged\<close>

lemma error_code_back:
  "parse_error_code (ErrorCode_as_str c) = (if c \<in> {Unauthorized, AdminRequired, AdminSealUnavailable} then Internal else c)"
  by (cases c) (simp_all add: parse_error_code_def)

lemma error_code_text: "parse_error_code v = Internal \<or> ErrorCode_as_str (parse_error_code v) = v"
  by (simp add: parse_error_code_def)


lemma audit_field_cong:
  assumes "\<forall>k \<in> set (audit_param_keys m). jget p k = jget q k"
  shows "audit_field m p = audit_field m q"
  using assms by (auto simp: audit_field_def)

text \<open>
  a caller cannot write into the audit log what the called method does not interpret: the fields
  of the line depend on the parameters of that method only, and for a step of a stepwise login
  on a login id that is a UUID and an action of the known kinds.
\<close>

theorem audit_line_depends_on_interpreted_params:
  assumes "\<forall>k \<in> set (audit_param_keys m). jget p k = jget q k"
    and "m = ''login_step'' \<Longrightarrow> audit_login_id uuid p = audit_login_id uuid q \<and> audit_action p = audit_action q"
  shows "audit_fields uuid m p = audit_fields uuid m q
    \<and> (case af_action (audit_fields uuid m p) of None \<Rightarrow> True | Some a \<Rightarrow> m = ''login_step'' \<and> a \<in> set ACTION_KINDS)"
proof
  show "audit_fields uuid m p = audit_fields uuid m q"
    using assms(2) unfolding audit_fields_def audit_field_cong[OF assms(1)] by (cases "m = ''login_step''") simp_all
  have "audit_action p = Some a \<Longrightarrow> a \<in> set ACTION_KINDS" for a
    by (auto simp: audit_action_def split: option.splits if_splits)
  then show "case af_action (audit_fields uuid m p) of None \<Rightarrow> True | Some a \<Rightarrow> m = ''login_step'' \<and> a \<in> set ACTION_KINDS"
    by (cases "m = ''login_step''") (auto simp: audit_fields_def Let_def AuditFields_default_def split: option.splits)
qed

theorem audit_line_depends_on_interpreted_params_witness:
  "audit_fields Some ''get_totp'' (JObj [(''cred_id'', JStr ''a:b''), (''session_id'', JStr ''forged'')])
     = audit_fields Some ''get_totp'' (JObj [(''cred_id'', JStr ''a:b'')])"
  using audit_line_depends_on_interpreted_params[of "''get_totp''" "JObj [(''cred_id'', JStr ''a:b''), (''session_id'', JStr ''forged'')]"
      "JObj [(''cred_id'', JStr ''a:b'')]" Some]
  by (simp add: audit_param_keys_def)

end
