(* ===== verification/Executor_Wire.thy ===== *)
theory Executor_Wire
  imports Rpc_Wire Totp
begin

section \<open>The executor's messages\<close>

text \<open>
  The requests the daemon writes to the executor and what it makes of the reply lines and event
  lines (\<open>crates/tegata-core/src/wire.rs\<close> and \<open>crates/tegatad/src/main.rs\<close>). A reply line is text;
  \<open>decode\<close> stands for serde's reading of it into the reply type, \<open>parse\<close> for its reading as a JSON value.
\<close>

record LoginStep =
  ls_action :: string
  ls_selector :: string
  ls_value :: "string option"

record LoginParams =
  lp_cred_id :: string
  lp_target_url :: string
  lp_steps :: "LoginStep list option"
  lp_success_selector :: "string option"
  lp_failure_selector :: "string option"

record LoginRequestParams =
  lr_login :: LoginParams
  lr_exclusive :: bool

record AuthorizeDeviceParams =
  ad_cred_id :: string
  ad_verification_url :: string
  ad_user_code :: string
  ad_steps :: "LoginStep list option"
  ad_success_selector :: string
  ad_failure_selector :: "string option"

definition valid_authorize_step :: "LoginStep \<Rightarrow> bool" where
  "valid_authorize_step s =
     (if ls_action s = ''click'' then ls_value s = None
      else if ls_action s = ''wait_for'' then ls_value s = None
      else if ls_action s = ''fill''
      then ls_value s \<in> {Some ''{{username}}'', Some ''{{password}}'', Some ''{{totp}}'', Some ''{{user_code}}''}
      else False)"

definition valid_authorize_steps :: "LoginStep list option \<Rightarrow> bool" where
  "valid_authorize_steps steps = (case steps of None \<Rightarrow> True | Some ss \<Rightarrow> list_all valid_authorize_step ss)"

record CredentialRef =
  cr_id :: string
  cr_name :: string
  cr_uri :: "string option"
  cr_kind :: "string option"

record ResolvedCredential =
  rc_locked :: bool
  rc_secrets_preregistered :: bool
  rc_uri :: "string option"
  rc_username :: string
  rc_password :: string
  rc_totp_seed :: "string option"
  rc_totp_exposable :: bool

text \<open>
  \<open>code_of seed now\<close> is the code of \<open>totp\<close> at the time of the wall clock; the functions behind it are its
  parameters, so it is one here.
\<close>

definition current_totp :: "(string \<Rightarrow> u64 \<Rightarrow> string) \<Rightarrow> u64 \<Rightarrow> ResolvedCredential \<Rightarrow> string option" where
  "current_totp code_of now cred = map_option (\<lambda>seed. code_of seed now) (rc_totp_seed cred)"

record ExecutorSecret =
  es_username :: string
  es_password :: string
  es_totp :: "string option"

record ExecutorLoginRequest =
  el_op :: string
  el_id :: nat
  el_target_url :: string
  el_steps :: "LoginStep list option"
  el_success_selector :: "string option"
  el_failure_selector :: "string option"
  el_secret :: ExecutorSecret

record 'cookie ExecutorLoginWithCookies =
  elc_login :: ExecutorLoginRequest
  elc_cookies :: "'cookie list option"

definition executor_secret :: "(string \<Rightarrow> u64 \<Rightarrow> string) \<Rightarrow> u64 \<Rightarrow> ResolvedCredential \<Rightarrow> ExecutorSecret" where
  "executor_secret code_of now cred =
     \<lparr>es_username = rc_username cred, es_password = rc_password cred, es_totp = current_totp code_of now cred\<rparr>"

definition login_request ::
  "(string \<Rightarrow> u64 \<Rightarrow> string) \<Rightarrow> u64 \<Rightarrow> LoginParams \<Rightarrow> ResolvedCredential \<Rightarrow> 'cookie list option \<Rightarrow> 'cookie ExecutorLoginWithCookies" where
  "login_request code_of now p cred cookies =
     \<lparr>elc_login = \<lparr>el_op = ''login'', el_id = 1, el_target_url = lp_target_url p, el_steps = lp_steps p,
        el_success_selector = lp_success_selector p, el_failure_selector = lp_failure_selector p,
        el_secret = executor_secret code_of now cred\<rparr>,
      elc_cookies = cookies\<rparr>"

record ExecutorAuthorizeDeviceRequest =
  ea_op :: string
  ea_id :: nat
  ea_login_url :: string
  ea_verification_url :: string
  ea_user_code :: string
  ea_steps :: "LoginStep list option"
  ea_success_selector :: string
  ea_failure_selector :: "string option"
  ea_secret :: ExecutorSecret
  ea_cookies :: "json list option"

definition authorize_device_request ::
  "(string \<Rightarrow> u64 \<Rightarrow> string) \<Rightarrow> u64 \<Rightarrow> AuthorizeDeviceParams \<Rightarrow> string \<Rightarrow> ResolvedCredential \<Rightarrow> json list option
     \<Rightarrow> ExecutorAuthorizeDeviceRequest" where
  "authorize_device_request code_of now p login_url cred cookies =
     \<lparr>ea_op = ''authorize_device'', ea_id = 1, ea_login_url = login_url, ea_verification_url = ad_verification_url p,
      ea_user_code = ad_user_code p, ea_steps = ad_steps p, ea_success_selector = ad_success_selector p,
      ea_failure_selector = ad_failure_selector p, ea_secret = executor_secret code_of now cred, ea_cookies = cookies\<rparr>"

subsection \<open>Replies\<close>

record ExecutorResponse =
  er_id :: "nat option"
  er_ok :: bool
  er_endpoint :: "string option"
  er_error :: "string option"
  er_step :: "json option"
  er_target_id :: "string option"

definition selector_step :: "ExecutorResponse \<Rightarrow> ErrorCode \<Rightarrow> nat option" where
  "selector_step r c = (if \<not> carries_step c then None else Option.bind (er_step r) jas_u64)"

record ReturnedCookies =
  rk_cookies :: "json option"
  rk_steps_skipped :: bool

definition ReturnedCookies_default :: ReturnedCookies where
  "ReturnedCookies_default = \<lparr>rk_cookies = None, rk_steps_skipped = False\<rparr>"

definition parse_returned_cookies :: "(string \<Rightarrow> json option) \<Rightarrow> string \<Rightarrow> ReturnedCookies" where
  "parse_returned_cookies parse line =
     (let response = (case parse line of Some v \<Rightarrow> v | None \<Rightarrow> JNull) in
      \<lparr>rk_cookies = (case jget response ''cookies'' of Some JNull \<Rightarrow> None | c \<Rightarrow> c),
       rk_steps_skipped = (case Option.bind (jget response ''steps_skipped'') jas_bool of Some b \<Rightarrow> b | None \<Rightarrow> False)\<rparr>)"

record ParsedLoginResponse =
  pl_endpoint :: string
  pl_target_id :: string
  pl_cookies :: "json option"
  pl_steps_skipped :: bool

definition reply_code :: "(string \<Rightarrow> ErrorCode) \<Rightarrow> string option \<Rightarrow> ErrorCode" where
  "reply_code classify err = (case err of Some e \<Rightarrow> classify e | None \<Rightarrow> Internal)"

definition parse_login_response ::
  "(string \<Rightarrow> ExecutorResponse option) \<Rightarrow> (string \<Rightarrow> json option) \<Rightarrow> string \<Rightarrow> ExecutorFailure + ParsedLoginResponse" where
  "parse_login_response decode parse line =
     (case decode line of
        None \<Rightarrow> Inl (failure_of Internal)
      | Some r \<Rightarrow>
          if er_id r \<noteq> Some 1 then Inl (failure_of Internal)
          else if er_ok r
          then (case er_endpoint r of
                  None \<Rightarrow> Inl (failure_of Internal)
                | Some endp \<Rightarrow>
                    (case er_target_id r of
                       None \<Rightarrow> Inl (failure_of Internal)
                     | Some t \<Rightarrow>
                         (let rk = parse_returned_cookies parse line in
                          Inr \<lparr>pl_endpoint = endp, pl_target_id = t, pl_cookies = rk_cookies rk,
                               pl_steps_skipped = rk_steps_skipped rk\<rparr>)))
          else (let c = reply_code parse_error_code (er_error r) in
                Inl \<lparr>ef_code = c, ef_step = selector_step r c\<rparr>))"

definition parse_authorize_response ::
  "(string \<Rightarrow> ExecutorResponse option) \<Rightarrow> (string \<Rightarrow> json option) \<Rightarrow> string \<Rightarrow> ExecutorFailure + ReturnedCookies" where
  "parse_authorize_response decode parse line =
     (case decode line of
        None \<Rightarrow> Inl (failure_of Internal)
      | Some r \<Rightarrow>
          if er_id r \<noteq> Some 1 then Inl (failure_of Internal)
          else if er_ok r then Inr (parse_returned_cookies parse line)
          else (let c = reply_code parse_authorize_error_code (er_error r) in
                Inl \<lparr>ef_code = c, ef_step = selector_step r c\<rparr>))"

record ExecutorLeaseResponse =
  le_id :: "nat option"
  le_ok :: bool
  le_target_id :: "string option"
  le_error :: "string option"

definition executor_lease_reply :: "(json \<Rightarrow> ExecutorLeaseResponse option) \<Rightarrow> json \<Rightarrow> ErrorCode + string" where
  "executor_lease_reply decode v =
     (case decode v of
        None \<Rightarrow> Inl Internal
      | Some r \<Rightarrow>
          if le_ok r then (case le_target_id r of None \<Rightarrow> Inl Internal | Some t \<Rightarrow> Inr t)
          else Inl (reply_code parse_error_code (le_error r)))"

definition executor_release_reply :: "(json \<Rightarrow> ExecutorLeaseResponse option) \<Rightarrow> json \<Rightarrow> ErrorCode + unit" where
  "executor_release_reply decode v =
     (case decode v of
        None \<Rightarrow> Inl Internal
      | Some r \<Rightarrow> if le_ok r then Inr () else Inl (reply_code parse_error_code (le_error r)))"

definition executor_service_stop_reply :: "json \<Rightarrow> ErrorCode + unit" where
  "executor_service_stop_reply v =
     (if Option.bind (jget v ''ok'') jas_bool = Some True then Inr () else Inl Internal)"

definition export_cookies_reply :: "json \<Rightarrow> json option" where
  "export_cookies_reply v =
     (if Option.bind (jget v ''ok'') jas_bool \<noteq> Some True then None
      else case jget v ''cookies'' of Some (JArr cs) \<Rightarrow> Some (JArr cs) | _ \<Rightarrow> None)"

record ExecutorMcpServerStartResponse =
  ms_id :: "nat option"
  ms_ok :: bool
  ms_port :: "u16 option"
  ms_stream_secret :: "string option"

definition parse_mcp_server_start_response ::
  "(string \<Rightarrow> ExecutorMcpServerStartResponse option) \<Rightarrow> string \<Rightarrow> ErrorCode + (u16 \<times> string)" where
  "parse_mcp_server_start_response decode line =
     (case decode line of
        None \<Rightarrow> Inl Internal
      | Some r \<Rightarrow>
          if ms_id r \<noteq> Some 1 \<or> \<not> ms_ok r then Inl Internal
          else (case ms_port r of
                  None \<Rightarrow> Inl Internal
                | Some p \<Rightarrow>
                    if p = 0 then Inl Internal
                    else (case ms_stream_secret r of
                            None \<Rightarrow> Inl Internal
                          | Some s \<Rightarrow> if valid_base64url_secret s then Inr (p, s) else Inl Internal)))"

record ExecutorApiProxyStartResponse =
  ap_id :: "nat option"
  ap_ok :: bool
  ap_port :: "u16 option"
  ap_secret :: "string option"
  ap_error :: "string option"

definition parse_api_proxy_start_response ::
  "(string \<Rightarrow> ExecutorApiProxyStartResponse option) \<Rightarrow> (string \<Rightarrow> json option) \<Rightarrow> string \<Rightarrow> bool
     \<Rightarrow> ErrorCode + (u16 \<times> string \<times> ReturnedCookies)" where
  "parse_api_proxy_start_response decode parse line oauth_enabled =
     (case decode line of
        None \<Rightarrow> Inl Internal
      | Some r \<Rightarrow>
          if ap_id r \<noteq> Some 1 then Inl Internal
          else if \<not> ap_ok r
          then Inl (if oauth_enabled then reply_code parse_api_proxy_error_code (ap_error r) else Internal)
          else (case ap_port r of
                  None \<Rightarrow> Inl Internal
                | Some p \<Rightarrow>
                    if p = 0 then Inl Internal
                    else (case ap_secret r of
                            None \<Rightarrow> Inl Internal
                          | Some s \<Rightarrow>
                              if \<not> valid_base64url_secret s then Inl Internal
                              else Inr (p, s, if oauth_enabled then parse_returned_cookies parse line
                                              else ReturnedCookies_default))))"

subsection \<open>Events\<close>

definition executor_event :: "(string \<Rightarrow> json option) \<Rightarrow> string \<Rightarrow> json option" where
  "executor_event parse line =
     (case parse line of
        None \<Rightarrow> None
      | Some v \<Rightarrow> if jget v ''id'' = None \<and> jget v ''event'' \<noteq> None then Some v else None)"

record ExecutorMcpServerEvent =
  me_event :: string
  me_action :: string
  me_exit_code :: "int option"

definition classify_mcp_server_event :: "ExecutorMcpServerEvent \<Rightarrow> (string option \<times> string \<times> int option) option" where
  "classify_mcp_server_event e =
     (if me_event e \<noteq> ''mcp_server'' then None
      else if me_action e = ''connected'' then Some (None, ''ok'', None)
      else if me_action e = ''exit'' then Some (Some ''mcp_server_exit'', ''ok'', me_exit_code e)
      else if me_action e = ''leak'' then Some (Some ''mcp_server_leak'', ''leak'', None)
      else None)"

definition AUDIT_PROXY_PATH_MAX_BYTES :: nat where "AUDIT_PROXY_PATH_MAX_BYTES = 512"
definition API_PROXY_SECRET_LEN :: nat where "API_PROXY_SECRET_LEN = 22"

text \<open>\<open>str::is_char_boundary\<close>, and the loop that steps back to the last boundary.\<close>

definition is_continuation :: "char \<Rightarrow> bool" where
  "is_continuation c \<longleftrightarrow> 128 \<le> (of_char c :: nat) \<and> (of_char c :: nat) < 192"

definition is_char_boundary :: "string \<Rightarrow> nat \<Rightarrow> bool" where
  "is_char_boundary s i \<longleftrightarrow> i = 0 \<or> i = length s \<or> (i < length s \<and> \<not> is_continuation (s ! i))"

fun floor_char_boundary :: "string \<Rightarrow> nat \<Rightarrow> nat" where
  "floor_char_boundary s 0 = 0"
| "floor_char_boundary s (Suc n) = (if is_char_boundary s (Suc n) then Suc n else floor_char_boundary s n)"

definition truncate_utf8 :: "nat \<Rightarrow> string \<Rightarrow> string" where
  "truncate_utf8 n s = (if length s > n then take (floor_char_boundary s n) s else s)"

definition redact_proxy_path :: "string \<Rightarrow> string" where
  "redact_proxy_path p =
     (case strip_prefix p ''/'' of
        Some rest \<Rightarrow>
          (let segment = takeWhile (\<lambda>c. c \<noteq> CHR ''/'') rest; tail = dropWhile (\<lambda>c. c \<noteq> CHR ''/'') rest in
           if length segment = API_PROXY_SECRET_LEN \<and> valid_base64url_secret segment
           then ''/[redacted]'' @ tail else p)
      | None \<Rightarrow> p)"

definition audit_proxy_path :: "string \<Rightarrow> string" where
  "audit_proxy_path p = truncate_utf8 AUDIT_PROXY_PATH_MAX_BYTES (redact_proxy_path p)"

definition api_proxy_outcome :: "u16 \<Rightarrow> string" where
  "api_proxy_outcome st = (if st < 400 then ''ok'' else if st = 502 then ''upstream_unreachable'' else ''upstream_error'')"

subsection \<open>Truncation keeps UTF-8 text intact\<close>

text \<open>A text is valid when each of its characters is one leading byte with its continuation bytes.\<close>

definition valid_char :: "string \<Rightarrow> bool" where
  "valid_char ch \<longleftrightarrow> ch \<noteq> [] \<and> \<not> is_continuation (hd ch) \<and> length ch = utf8_len (hd ch) \<and> list_all is_continuation (tl ch)"

definition valid_utf8 :: "string \<Rightarrow> bool" where
  "valid_utf8 s \<longleftrightarrow> list_all valid_char (utf8_chunks s)"

lemma utf8_len_le_4: "utf8_len c \<le> 4"
  by (simp add: utf8_len_def Let_def)

text \<open>The first character of a valid text, and the text after it.\<close>

lemma valid_utf8_Cons:
  assumes "valid_utf8 (c # s)"
  defines "k \<equiv> utf8_len c - 1"
  shows "k \<le> length s" "k \<le> 3" "\<forall>i<k. is_continuation (s ! i)" "valid_utf8 (drop k s)" "valid_char (c # take k s)"
proof -
  have v: "valid_char (c # take k s)" "valid_utf8 (drop k s)"
    using assms by (simp_all add: valid_utf8_def k_def)
  then show "valid_char (c # take k s)" "valid_utf8 (drop k s)" by simp_all
  have l: "Suc (min (length s) k) = utf8_len c" using v by (simp add: valid_char_def)
  then show ks: "k \<le> length s" unfolding k_def by linarith
  show "k \<le> 3" using utf8_len_le_4[of c] by (simp add: k_def)
  show "\<forall>i<k. is_continuation (s ! i)"
  proof (intro allI impI)
    fix i assume i: "i < k"
    then have "take k s ! i \<in> set (take k s)" using ks by (intro nth_mem) simp
    then show "is_continuation (s ! i)" using v i by (simp add: valid_char_def list_all_iff)
  qed
qed

lemma boundary_in_first_char:
  assumes "valid_utf8 (c # s)" "is_char_boundary (c # s) n" "n \<noteq> 0"
  shows "utf8_len c \<le> n"
proof (rule ccontr)
  assume "\<not> utf8_len c \<le> n"
  then obtain m where m: "n = Suc m" "m < utf8_len c - 1" using assms(3) by (cases n) auto
  then have "is_continuation (s ! m)" "m < length s" using valid_utf8_Cons[OF assms(1)] by auto
  then show False using assms(2) m by (simp add: is_char_boundary_def)
qed

lemma valid_utf8_hd: "valid_utf8 (c # s) \<Longrightarrow> \<not> is_continuation c"
  by (simp add: valid_utf8_def valid_char_def)

lemma boundary_shift:
  assumes v: "valid_utf8 (c # s)" and n: "utf8_len c \<le> n" "n \<le> length (c # s)"
  shows "is_char_boundary (c # s) n \<longleftrightarrow> is_char_boundary (drop (utf8_len c - 1) s) (n - utf8_len c)"
proof -
  obtain k where k: "utf8_len c = Suc k" by (metis gr0_conv_Suc utf8_len_pos)
  obtain m where m: "n = Suc (k + m)" using n(1) k by (metis add_Suc le_Suc_ex)
  have vr: "valid_utf8 (drop k s)" and ks: "k \<le> length s" using valid_utf8_Cons[OF v] k by simp_all
  show ?thesis
  proof (cases m)
    case 0
    then show ?thesis
      using vr ks k m n(2) valid_utf8_hd[of "s ! k" "drop (Suc k) s"]
      by (cases "k = length s") (auto simp: is_char_boundary_def Cons_nth_drop_Suc)
  next
    case (Suc i)
    have "s ! (k + m) = drop k s ! m" using ks n(2) m by (simp add: nth_drop)
    then show ?thesis using Suc k m ks n(2) by (auto simp: is_char_boundary_def)
  qed
qed

lemma floor_boundary: "is_char_boundary s (floor_char_boundary s n) \<and> floor_char_boundary s n \<le> n"
  by (induction n) (auto simp: is_char_boundary_def)

lemma floor_boundary_max: "is_char_boundary s j \<Longrightarrow> j \<le> n \<Longrightarrow> j \<le> floor_char_boundary s n"
  by (induction n) (auto simp: le_Suc_eq)

lemma valid_utf8_take:
  "valid_utf8 s \<Longrightarrow> is_char_boundary s n \<Longrightarrow> n \<le> length s \<Longrightarrow> valid_utf8 (take n s)"
proof (induction s arbitrary: n rule: utf8_chunks.induct)
  case (2 c s)
  show ?case
  proof (cases "n = 0")
    case False
    note v = valid_utf8_Cons[OF "2.prems"(1)]
    have ln: "utf8_len c \<le> n" by (rule boundary_in_first_char[OF "2.prems"(1,2) False])
    have "n - utf8_len c \<le> length (drop (utf8_len c - 1) s)"
      using "2.prems"(3) ln utf8_len_pos[of c] by (simp del: utf8_len_pos)
    then have vr: "valid_utf8 (take (n - utf8_len c) (drop (utf8_len c - 1) s))"
      using "2.IH"[OF v(4)] boundary_shift[OF "2.prems"(1) ln "2.prems"(3)] "2.prems"(2) by blast
    obtain k where k: "utf8_len c = Suc k" by (metis gr0_conv_Suc utf8_len_pos)
    obtain m where m: "n = Suc m" "k \<le> m" using ln k by (cases n) auto
    then have "take k (take m s) = take k s" "drop k (take m s) = take (m - k) (drop k s)"
      by (simp_all add: min_absorb1 drop_take)
    then show ?thesis using vr v(5) k m by (simp add: valid_utf8_def)
  qed (simp add: valid_utf8_def)
qed simp

lemma boundary_near: "valid_utf8 s \<Longrightarrow> n \<le> length s \<Longrightarrow> \<exists>j. is_char_boundary s j \<and> j \<le> n \<and> n \<le> j + 3"
proof (induction s arbitrary: n rule: utf8_chunks.induct)
  case (2 c s)
  note v = valid_utf8_Cons[OF "2.prems"(1)]
  show ?case
  proof (cases "utf8_len c \<le> n")
    case True
    have "n - utf8_len c \<le> length (drop (utf8_len c - 1) s)"
      using "2.prems"(2) True utf8_len_pos[of c] by (simp del: utf8_len_pos)
    then obtain j where j: "is_char_boundary (drop (utf8_len c - 1) s) j" "j \<le> n - utf8_len c" "n - utf8_len c \<le> j + 3"
      using "2.IH"[OF v(4)] by blast
    then have "is_char_boundary (c # s) (j + utf8_len c)"
      using boundary_shift[OF "2.prems"(1), of "j + utf8_len c"] True "2.prems"(2) by simp
    moreover have "j + utf8_len c \<le> n" "n \<le> j + utf8_len c + 3" using j(2,3) True by linarith+
    ultimately show ?thesis by blast
  next
    case False
    then show ?thesis using utf8_len_le_4[of c] by (intro exI[of _ 0]) (simp add: is_char_boundary_def)
  qed
qed (simp add: is_char_boundary_def)

lemma truncate_utf8_ok:
  assumes "valid_utf8 s"
  shows "\<exists>m. truncate_utf8 n s = take m s \<and> valid_utf8 (take m s) \<and> length (truncate_utf8 n s) \<le> n
     \<and> (m = length s \<or> n \<le> m + 3)"
proof (cases "length s > n")
  case True
  obtain j where j: "is_char_boundary s j" "j \<le> n" "n \<le> j + 3" using boundary_near[OF assms, of n] True by auto
  have "n \<le> floor_char_boundary s n + 3" using floor_boundary_max[OF j(1,2)] j(3) by simp
  then show ?thesis
    using floor_boundary[of s n] True valid_utf8_take[OF assms, of "floor_char_boundary s n"]
    by (intro exI[of _ "floor_char_boundary s n"]) (simp add: truncate_utf8_def)
next
  case False
  then show ?thesis using assms by (intro exI[of _ "length s"]) (simp add: truncate_utf8_def)
qed

lemma utf8_chunks_ascii_append: "is_ascii a \<Longrightarrow> utf8_chunks (a @ t) = map (\<lambda>c. [c]) a @ utf8_chunks t"
  by (induction a) (auto simp: is_ascii_def utf8_len_def)

lemma valid_utf8_ascii_append: "is_ascii a \<Longrightarrow> valid_utf8 (a @ t) \<longleftrightarrow> valid_utf8 t"
  by (auto simp: valid_utf8_def utf8_chunks_ascii_append list_all_iff valid_char_def is_ascii_def is_continuation_def utf8_len_def)

lemma base64url_ascii: "valid_base64url_secret s \<Longrightarrow> is_ascii s"
  by (auto simp: valid_base64url_secret_def is_ascii_def list_all_iff ascii_defs)

definition first_segment :: "string \<Rightarrow> string" where
  "first_segment p = (case p of c # s \<Rightarrow> if c = CHR ''/'' then takeWhile (\<lambda>c. c \<noteq> CHR ''/'') s else [] | [] \<Rightarrow> [])"

definition secret_shaped :: "string \<Rightarrow> bool" where
  "secret_shaped s \<longleftrightarrow> length s = API_PROXY_SECRET_LEN \<and> valid_base64url_secret s"

lemma redact_proxy_path_cases:
  "redact_proxy_path p = (if secret_shaped (first_segment p)
     then ''/[redacted]'' @ dropWhile (\<lambda>c. c \<noteq> CHR ''/'') (tl p) else p)"
proof (cases "strip_prefix p ''/''")
  case None
  then have "first_segment p = []"
    by (auto simp: first_segment_def strip_prefix_def starts_with_def split: list.splits if_splits)
  then show ?thesis using None by (simp add: redact_proxy_path_def secret_shaped_def valid_base64url_secret_def)
next
  case (Some rest)
  then have "p = CHR ''/'' # rest" by simp
  then show ?thesis using Some
    by (simp add: redact_proxy_path_def secret_shaped_def first_segment_def Let_def del: strip_prefix_Some_iff)
qed

lemma redacted_not_secret: "\<not> secret_shaped (first_segment (redact_proxy_path p))"
proof (cases "secret_shaped (first_segment p)")
  case True
  have "takeWhile (\<lambda>c. c \<noteq> CHR ''/'') (''[redacted]'' @ dropWhile (\<lambda>c. c \<noteq> CHR ''/'') q) = ''[redacted]''" for q :: string
    using hd_dropWhile[of "\<lambda>c. c \<noteq> CHR ''/''" q] by (intro span_append) auto
  then show ?thesis using True
    unfolding redact_proxy_path_cases by (simp add: first_segment_def secret_shaped_def API_PROXY_SECRET_LEN_def)
qed (simp add: redact_proxy_path_cases)

lemma redact_valid: "valid_utf8 p \<Longrightarrow> valid_utf8 (redact_proxy_path p)"
proof (cases "secret_shaped (first_segment p)")
  case True
  assume v: "valid_utf8 p"
  have fs: "first_segment p \<noteq> []" "is_ascii (first_segment p)"
    using True base64url_ascii by (auto simp: secret_shaped_def valid_base64url_secret_def)
  then obtain s where p: "p = CHR ''/'' # s" by (auto simp: first_segment_def split: list.splits if_splits)
  have "p = (''/'' @ first_segment p) @ dropWhile (\<lambda>c. c \<noteq> CHR ''/'') (tl p)" using p by (simp add: first_segment_def)
  moreover have "is_ascii (''/'' @ first_segment p)" using fs by (simp add: is_ascii_def)
  ultimately have "valid_utf8 (dropWhile (\<lambda>c. c \<noteq> CHR ''/'') (tl p))"
    using v valid_utf8_ascii_append by metis
  moreover have "is_ascii ''/[redacted]''" by (simp add: is_ascii_def)
  ultimately show ?thesis using True valid_utf8_ascii_append by (simp only: redact_proxy_path_cases if_True)
qed (simp add: redact_proxy_path_cases)

lemma takeWhile_of_take: "takeWhile P (take n xs) = take n (takeWhile P xs)"
  by (induction xs arbitrary: n) (simp_all add: take_Cons split: nat.splits)

text \<open>
  C31: the path of a proxied request in the audit log. It is valid text of at most 512 bytes, a prefix
  of the path or of the redacted path, and its first segment never has the shape of the secret
  that opens the proxy.
\<close>

theorem audit_proxy_path_hides_the_secret:
  assumes "valid_utf8 p"
  shows "valid_utf8 (audit_proxy_path p) \<and> length (audit_proxy_path p) \<le> 512
    \<and> \<not> secret_shaped (first_segment (audit_proxy_path p))
    \<and> (\<exists>t. redact_proxy_path p = audit_proxy_path p @ t)"
proof -
  let ?q = "redact_proxy_path p"
  have a: "audit_proxy_path p = truncate_utf8 512 ?q" by (simp add: audit_proxy_path_def AUDIT_PROXY_PATH_MAX_BYTES_def)
  obtain m where m: "audit_proxy_path p = take m ?q" "valid_utf8 (take m ?q)" "length (audit_proxy_path p) \<le> 512"
      "m = length ?q \<or> 512 \<le> m + 3"
    using truncate_utf8_ok[OF redact_valid[OF assms], of 512] unfolding a by blast
  have "\<not> secret_shaped (first_segment (take m ?q))"
  proof (cases "m = length ?q")
    case True
    then show ?thesis using redacted_not_secret[of p] by simp
  next
    case False
    then have "509 \<le> m" using m(4) by simp
    then obtain i where i: "m = Suc i" "508 \<le> i" by (cases m) auto
    have "first_segment (take m ?q) = take i (first_segment ?q)"
      using i by (cases ?q) (simp_all add: first_segment_def takeWhile_of_take)
    moreover have "length (take i (first_segment ?q)) = 22 \<Longrightarrow> take i (first_segment ?q) = first_segment ?q"
      using i by simp
    ultimately show ?thesis
      using redacted_not_secret[of p] unfolding secret_shaped_def API_PROXY_SECRET_LEN_def by metis
  qed
  then show ?thesis using m by (metis append_take_drop_id)
qed

theorem audit_proxy_path_hides_the_secret_witness:
  "\<not> secret_shaped (first_segment (audit_proxy_path ''/AAAAAAAAAAAAAAAAAAAAAA/x''))"
proof -
  have "valid_utf8 ''/AAAAAAAAAAAAAAAAAAAAAA/x''"
    using valid_utf8_ascii_append[of "''/AAAAAAAAAAAAAAAAAAAAAA/x''" "[]"] by (simp add: is_ascii_def valid_utf8_def)
  then show ?thesis using audit_proxy_path_hides_the_secret by blast
qed

end
