(* ===== verification/Service_Config.thy ===== *)
theory Service_Config
  imports Executor_Wire
begin

section \<open>Configured services\<close>

text \<open>
  The injection proxies and MCP servers of the configuration (\<open>crates/tegatad/src/main.rs\<close>): the
  checks at startup that refuse a bad configuration, the choice of listeners, and the values that
  are put into the start request of a service, with the substitution of placeholders and the list
  of strings to watch for in the server's output. The configuration is the decoded value; for the
  listeners the keys of its top-level table are given too.
\<close>

record ApiProxyOAuthConfig =
  oc_client_id :: string
  oc_device_authorization_url :: string
  oc_token_url :: string
  oc_revocation_url :: "string option"
  oc_scope :: "string option"
  oc_login_cred_id :: string
  oc_steps :: "LoginStep list option"
  oc_success_selector :: string
  oc_failure_selector :: "string option"

record ApiProxyConfig =
  pc_name :: string
  pc_cred_id :: "string option"
  pc_upstream :: string
  pc_header :: string
  pc_value :: string
  pc_oauth :: "ApiProxyOAuthConfig option"

definition API_PROXY_SECRET_PLACEHOLDER :: string where
  "API_PROXY_SECRET_PLACEHOLDER = ''{{secret}}''"

definition api_proxy_cred_id :: "ApiProxyConfig \<Rightarrow> string option" where
  "api_proxy_cred_id p =
     (case pc_cred_id p of Some c \<Rightarrow> Some c | None \<Rightarrow> map_option oc_login_cred_id (pc_oauth p))"

definition quoted :: "string \<Rightarrow> string" where
  "quoted s = [CHR 0x22] @ s @ [CHR 0x22]"

definition URL_RULE :: string where
  "URL_RULE = '' must be https:// or http:// on a loopback host (127.0.0.1, ::1, localhost)''"

definition bad_oauth_url :: "ApiProxyOAuthConfig \<Rightarrow> string option" where
  "bad_oauth_url oauth =
     map_option fst (List.find (\<lambda>(_, url). case url of None \<Rightarrow> False | Some u \<Rightarrow> \<not> api_proxy_upstream_allowed u)
       [(''device_authorization_url'', Some (oc_device_authorization_url oauth)),
        (''token_url'', Some (oc_token_url oauth)), (''revocation_url'', oc_revocation_url oauth)])"

definition validate_api_proxy_oauth :: "string \<Rightarrow> ApiProxyOAuthConfig \<Rightarrow> string + unit" where
  "validate_api_proxy_oauth name oauth =
     (if split_once (oc_login_cred_id oauth) '':'' = None
      then Inl (''api_proxy '' @ quoted name @ '': login_cred_id must be <namespace>:<entry id>'')
      else case bad_oauth_url oauth of
        Some field \<Rightarrow> Inl (''api_proxy '' @ quoted name @ '': '' @ field @ URL_RULE)
      | None \<Rightarrow>
          if \<not> valid_authorize_steps (oc_steps oauth)
          then Inl (''api_proxy '' @ quoted name @ '': oauth steps contain an unsupported action or value'')
          else Inr ())"

definition check_api_proxy :: "ApiProxyConfig \<Rightarrow> string + unit" where
  "check_api_proxy p =
     (if (pc_cred_id p \<noteq> None) = (pc_oauth p \<noteq> None)
      then Inl (''api_proxy '' @ quoted (pc_name p) @ '': ''
                @ (if pc_cred_id p \<noteq> None then ''cred_id and oauth are mutually exclusive''
                   else ''exactly one of cred_id or oauth is required''))
      else if (case pc_cred_id p of None \<Rightarrow> False | Some c \<Rightarrow> split_once c '':'' = None)
      then Inl (''api_proxy '' @ quoted (pc_name p) @ '': cred_id must be <namespace>:<entry id>'')
      else if \<not> api_proxy_upstream_allowed (pc_upstream p)
      then Inl (''api_proxy '' @ quoted (pc_name p) @ '': upstream'' @ URL_RULE)
      else case (case pc_oauth p of None \<Rightarrow> Inr () | Some oauth \<Rightarrow> validate_api_proxy_oauth (pc_name p) oauth) of
             Inl e \<Rightarrow> Inl e
           | Inr _ \<Rightarrow>
               if \<not> contains_sub (pc_value p) API_PROXY_SECRET_PLACEHOLDER
               then Inl (''api_proxy '' @ quoted (pc_name p) @ '': value must contain '' @ API_PROXY_SECRET_PLACEHOLDER)
               else Inr ())"

fun validate_api_proxies_from :: "string list \<Rightarrow> ApiProxyConfig list \<Rightarrow> string + unit" where
  "validate_api_proxies_from names [] = Inr ()"
| "validate_api_proxies_from names (p # ps) =
     (if pc_name p = [] then Inl ''api_proxy name must not be empty''
      else if pc_name p \<in> set names then Inl (''api_proxy '' @ quoted (pc_name p) @ '' is defined more than once'')
      else case check_api_proxy p of
             Inl e \<Rightarrow> Inl e
           | Inr _ \<Rightarrow> validate_api_proxies_from (pc_name p # names) ps)"

definition validate_api_proxies :: "ApiProxyConfig list \<Rightarrow> string + unit" where
  "validate_api_proxies ps = validate_api_proxies_from [] ps"

subsection \<open>MCP servers\<close>

text \<open>The environment is a \<open>BTreeMap\<close>: the list of its entries in the order of their keys.\<close>

record McpServerConfig =
  mc_name :: string
  mc_cred_id :: string
  mc_command :: string
  mc_args :: "string list"
  mc_env :: "(string \<times> string) list"

definition MCP_USERNAME_PLACEHOLDER :: string where "MCP_USERNAME_PLACEHOLDER = ''{{username}}''"
definition MCP_TOTP_PLACEHOLDER :: string where "MCP_TOTP_PLACEHOLDER = ''{{totp}}''"
definition MCP_PLACEHOLDERS :: "string list" where
  "MCP_PLACEHOLDERS = [API_PROXY_SECRET_PLACEHOLDER, MCP_USERNAME_PLACEHOLDER, MCP_TOTP_PLACEHOLDER]"

definition contains_mcp_placeholder :: "string \<Rightarrow> bool" where
  "contains_mcp_placeholder template = list_ex (\<lambda>p. contains_sub template p) MCP_PLACEHOLDERS"

definition mcp_server_contains_nul :: "McpServerConfig \<Rightarrow> bool" where
  "mcp_server_contains_nul s =
     list_ex (\<lambda>v. CHR 0x00 \<in> set v) (mc_command s # mc_args s @ concat (map (\<lambda>(k, v). [k, v]) (mc_env s)))"

text \<open>\<open>Path::is_absolute\<close> on Unix.\<close>

definition is_absolute :: "string \<Rightarrow> bool" where
  "is_absolute p = starts_with p ''/''"

definition check_mcp_server :: "McpServerConfig \<Rightarrow> string + unit" where
  "check_mcp_server s =
     (let err = (\<lambda>m. Inl (''mcp_server '' @ quoted (mc_name s) @ m)) in
      if split_once (mc_cred_id s) '':'' = None then err '': cred_id must be <namespace>:<entry id>''
      else if \<not> is_absolute (mc_command s) then err '': command must be an absolute path''
      else if mcp_server_contains_nul s then err '': command, args, and env must not contain NUL''
      else if list_ex (\<lambda>(k, _). k = [] \<or> CHR ''='' \<in> set k) (mc_env s)
      then err ('': env names must not be empty or contain '' @ [CHR 0x27] @ ''='' @ [CHR 0x27])
      else if \<not> list_ex (\<lambda>(_, template). contains_mcp_placeholder template) (mc_env s)
      then err ('': env must contain at least one of {{secret}}, {{username}}, {{totp}}'')
      else Inr ())"

fun validate_mcp_servers_from :: "string list \<Rightarrow> McpServerConfig list \<Rightarrow> string + unit" where
  "validate_mcp_servers_from names [] = Inr ()"
| "validate_mcp_servers_from names (s # ss) =
     (if mc_name s = [] then Inl ''mcp_server name must not be empty''
      else if mc_name s \<in> set names then Inl (''mcp_server '' @ quoted (mc_name s) @ '' is defined more than once'')
      else case check_mcp_server s of
             Inl e \<Rightarrow> Inl e
           | Inr _ \<Rightarrow> validate_mcp_servers_from (mc_name s # names) ss)"

definition validate_mcp_servers :: "McpServerConfig list \<Rightarrow> string + unit" where
  "validate_mcp_servers ss = validate_mcp_servers_from [] ss"

subsection \<open>The daemon's configuration\<close>

record Config =
  cf_browser_max_lifetime_secs :: nat
  cf_stepwise_idle_secs :: nat
  cf_stepwise_max_secs :: nat
  cf_listen :: "ListenConfig list option"
  cf_socket_path :: "string option"
  cf_allowed_uids :: "u32 list option"
  cf_api_proxy :: "ApiProxyConfig list"
  cf_mcp_server :: "McpServerConfig list"

definition normalize_listeners :: "string list \<Rightarrow> Config \<Rightarrow> string + ListenConfig list" where
  "normalize_listeners document_keys cfg =
     (if cf_listen cfg \<noteq> None \<and> list_ex (\<lambda>k. k \<in> set document_keys) [''socket_path'', ''allowed_uids'']
      then Inl ''listen cannot be combined with legacy transport keys''
      else case cf_listen cfg of
        Some ls \<Rightarrow> if ls = [] then Inl ''listen must contain at least one listener'' else Inr ls
      | None \<Rightarrow>
          (case cf_socket_path cfg of
             None \<Rightarrow> Inl ''socket_path is required''
           | Some p \<Rightarrow>
               (case cf_allowed_uids cfg of
                  None \<Rightarrow> Inl ''allowed_uids is required''
                | Some uids \<Rightarrow> Inr [LcUnix p uids []])))"

text \<open>The checks \<open>run_daemon\<close> makes on a Unix host before it touches anything.\<close>

definition check_config :: "string list \<Rightarrow> Config \<Rightarrow> string + ListenConfig list" where
  "check_config document_keys cfg =
     (if cf_browser_max_lifetime_secs cfg = 0 then Inl ''browser_max_lifetime_secs must be at least 1''
      else if cf_stepwise_idle_secs cfg = 0 then Inl ''stepwise_idle_secs must be at least 1''
      else if cf_stepwise_max_secs cfg = 0 then Inl ''stepwise_max_secs must be at least 1''
      else case normalize_listeners document_keys cfg of
        Inl e \<Rightarrow> Inl e
      | Inr ls \<Rightarrow>
          (case validate_api_proxies (cf_api_proxy cfg) of
             Inl e \<Rightarrow> Inl e
           | Inr _ \<Rightarrow>
               (case validate_mcp_servers (cf_mcp_server cfg) of
                  Inl e \<Rightarrow> Inl e
                | Inr _ \<Rightarrow> Inr ls)))"

subsection \<open>Start requests\<close>

record ExecutorApiProxyOAuth =
  eo_client_id :: string
  eo_device_authorization_url :: string
  eo_token_url :: string
  eo_revocation_url :: "string option"
  eo_scope :: "string option"
  eo_login_url :: string
  eo_steps :: "LoginStep list option"
  eo_success_selector :: string
  eo_failure_selector :: "string option"
  eo_secret :: ExecutorSecret
  eo_cookies :: "json list option"

record ApiProxyStartOptions =
  so_value_template :: "string option"
  so_header_value :: "string option"
  so_oauth :: "ExecutorApiProxyOAuth option"

definition build_oauth_start ::
  "(string \<Rightarrow> u64 \<Rightarrow> string) \<Rightarrow> u64 \<Rightarrow> string \<Rightarrow> ApiProxyOAuthConfig \<Rightarrow> ResolvedCredential \<Rightarrow> json list option
     \<Rightarrow> ErrorCode + ApiProxyStartOptions" where
  "build_oauth_start code_of now value_template oauth cred cookies =
     (let login_url = (case rc_uri cred of
                         Some uri \<Rightarrow> if uri \<noteq> [] then Some uri else http_origin (oc_device_authorization_url oauth)
                       | None \<Rightarrow> http_origin (oc_device_authorization_url oauth)) in
      case login_url of
        None \<Rightarrow> Inl Internal
      | Some url \<Rightarrow>
          Inr \<lparr>so_value_template = Some value_template, so_header_value = None,
               so_oauth = Some \<lparr>eo_client_id = oc_client_id oauth,
                 eo_device_authorization_url = oc_device_authorization_url oauth, eo_token_url = oc_token_url oauth,
                 eo_revocation_url = oc_revocation_url oauth, eo_scope = oc_scope oauth, eo_login_url = url,
                 eo_steps = oc_steps oauth, eo_success_selector = oc_success_selector oauth,
                 eo_failure_selector = oc_failure_selector oauth, eo_secret = executor_secret code_of now cred,
                 eo_cookies = cookies\<rparr>\<rparr>)"

text \<open>\<open>str::replace\<close>: every occurrence from the left, without looking at what was put in.\<close>

function str_replace :: "string \<Rightarrow> string \<Rightarrow> string \<Rightarrow> string" where
  "str_replace s p v =
     (if p = [] then s
      else case s of
        [] \<Rightarrow> []
      | c # cs \<Rightarrow> if starts_with s p then v @ str_replace (drop (length p) s) p v else c # str_replace cs p v)"
  by pat_completeness auto
termination by (relation "measure (\<lambda>(s, p, v). length s)") (auto split: list.splits)

declare str_replace.simps [simp del]

definition api_proxy_launch ::
  "(string \<Rightarrow> u64 \<Rightarrow> string) \<Rightarrow> u64 \<Rightarrow> ApiProxyConfig \<Rightarrow> ResolvedCredential \<Rightarrow> json list option
     \<Rightarrow> ErrorCode + ApiProxyStartOptions" where
  "api_proxy_launch code_of now p cred cookies =
     (case pc_oauth p of
        Some oauth \<Rightarrow> build_oauth_start code_of now (pc_value p) oauth cred cookies
      | None \<Rightarrow> Inr \<lparr>so_value_template = None,
                     so_header_value = Some (str_replace (pc_value p) API_PROXY_SECRET_PLACEHOLDER (rc_password cred)),
                     so_oauth = None\<rparr>)"

record McpPlaceholderValue =
  mv_placeholder :: string
  mv_value :: string
  mv_scanned :: bool

text \<open>The loop over the rest of the template; an empty placeholder would make it run forever.\<close>

partial_function (option) render_loop ::
  "McpPlaceholderValue list \<Rightarrow> string \<Rightarrow> bool \<Rightarrow> string \<Rightarrow> (string \<times> bool) option" where
  "render_loop values rendered scanned rest =
     (case utf8_chunks rest of
        [] \<Rightarrow> Some (rendered, scanned)
      | ch # _ \<Rightarrow>
          (case List.find (\<lambda>e. starts_with rest (mv_placeholder e)) values of
             Some e \<Rightarrow>
               render_loop values (rendered @ mv_value e) (scanned \<or> mv_scanned e) (drop (length (mv_placeholder e)) rest)
           | None \<Rightarrow> render_loop values (rendered @ ch) scanned (drop (length ch) rest)))"

definition render_mcp_env_value :: "string \<Rightarrow> McpPlaceholderValue list \<Rightarrow> (string \<times> bool) option" where
  "render_mcp_env_value template values = render_loop values [] False template"

definition push_scan_value :: "string list \<Rightarrow> string \<Rightarrow> string list" where
  "push_scan_value scan value = (if value \<noteq> [] \<and> value \<notin> set scan then scan @ [value] else scan)"

record McpServerLaunch =
  ml_env :: "(string \<times> string) list"
  ml_scan :: "string list"

definition mcp_values :: "string \<Rightarrow> string \<Rightarrow> string option \<Rightarrow> McpPlaceholderValue list" where
  "mcp_values password username totp_code =
     [\<lparr>mv_placeholder = API_PROXY_SECRET_PLACEHOLDER, mv_value = password, mv_scanned = True\<rparr>,
      \<lparr>mv_placeholder = MCP_USERNAME_PLACEHOLDER, mv_value = username, mv_scanned = False\<rparr>]
     @ (case totp_code of None \<Rightarrow> []
        | Some t \<Rightarrow> [\<lparr>mv_placeholder = MCP_TOTP_PLACEHOLDER, mv_value = t, mv_scanned = True\<rparr>])"

fun mcp_env_loop ::
  "McpPlaceholderValue list \<Rightarrow> (string \<times> string) list \<Rightarrow> (string \<times> string) list \<times> string list
     \<Rightarrow> ((string \<times> string) list \<times> string list) option" where
  "mcp_env_loop values [] acc = Some acc"
| "mcp_env_loop values ((k, template) # ts) acc =
     (case render_mcp_env_value template values of
        None \<Rightarrow> None
      | Some (value, scanned) \<Rightarrow>
          mcp_env_loop values ts
            (fst acc @ [(k, value)], if scanned then push_scan_value (snd acc) value else snd acc))"

text \<open>\<open>None\<close> is a loop that does not end.\<close>

definition build_mcp_server_launch ::
  "(string \<Rightarrow> u64 \<Rightarrow> string) \<Rightarrow> u64 \<Rightarrow> (string \<times> string) list \<Rightarrow> ResolvedCredential \<Rightarrow> (ErrorCode + McpServerLaunch) option" where
  "build_mcp_server_launch code_of now templates cred =
     (let uses_totp = list_ex (\<lambda>(_, template). contains_sub template MCP_TOTP_PLACEHOLDER) templates;
          totp_code = current_totp code_of now cred in
      if uses_totp \<and> totp_code = None then Some (Inl Internal)
      else (let values = mcp_values (rc_password cred) (rc_username cred) (if uses_totp then totp_code else None);
                scan = push_scan_value [] (rc_password cred)
            in map_option (\<lambda>(env, scan). Inr \<lparr>ml_env = env, ml_scan = scan\<rparr>) (mcp_env_loop values templates ([], scan))))"

subsection \<open>Placeholders are replaced in one pass\<close>

text \<open>
  A template as the sequence of characters and placeholders a reader sees: at a character no
  placeholder starts.
\<close>

datatype token = Literal string | Hole McpPlaceholderValue

fun tok_src :: "token \<Rightarrow> string" where
  "tok_src (Literal ch) = ch"
| "tok_src (Hole e) = mv_placeholder e"

fun tok_val :: "token \<Rightarrow> string" where
  "tok_val (Literal ch) = ch"
| "tok_val (Hole e) = mv_value e"

fun tok_scanned :: "token \<Rightarrow> bool" where
  "tok_scanned (Literal ch) = False"
| "tok_scanned (Hole e) = mv_scanned e"

definition src_of :: "token list \<Rightarrow> string" where
  "src_of ts = concat (map tok_src ts)"

fun one_pass :: "McpPlaceholderValue list \<Rightarrow> token list \<Rightarrow> bool" where
  "one_pass values [] = True"
| "one_pass values (Literal ch # ts) \<longleftrightarrow> valid_char ch
     \<and> list_all (\<lambda>e. \<not> starts_with (src_of (Literal ch # ts)) (mv_placeholder e)) values \<and> one_pass values ts"
| "one_pass values (Hole e # ts) \<longleftrightarrow> e \<in> set values \<and> one_pass values ts"

lemma src_of_simps [simp]: "src_of [] = []" "src_of (t # ts) = tok_src t @ src_of ts"
  by (simp_all add: src_of_def)

definition holes_ok :: "McpPlaceholderValue list \<Rightarrow> bool" where
  "holes_ok values = list_all (\<lambda>e. mv_placeholder e \<noteq> [] \<and> is_ascii (mv_placeholder e)) values"

lemma render_loop_one_pass:
  assumes "holes_ok values"
  shows "valid_utf8 rest \<Longrightarrow> \<exists>ts. render_loop values r s rest = Some (r @ concat (map tok_val ts), s \<or> list_ex tok_scanned ts)
     \<and> src_of ts = rest \<and> one_pass values ts"
proof (induction "length rest" arbitrary: rest r s rule: less_induct)
  case less
  show ?case
  proof (cases rest)
    case Nil
    then show ?thesis by (intro exI[of _ "[]"]) (simp add: render_loop.simps)
  next
    case (Cons c cs)
    show ?thesis
    proof (cases "List.find (\<lambda>e. starts_with rest (mv_placeholder e)) values")
      case None
      define k where "k = utf8_len c - 1"
      note v = valid_utf8_Cons[of c cs, folded k_def]
      have ok: "valid_char (c # take k cs)" "valid_utf8 (drop k cs)" and k: "k \<le> length cs" using v less.prems Cons by simp_all
      have ch: "utf8_chunks rest = (c # take k cs) # utf8_chunks (drop k cs)" by (simp add: Cons k_def)
      have "length (drop k cs) < length rest" using Cons by simp
      then obtain ts where ts: "render_loop values (r @ c # take k cs) s (drop k cs) =
            Some ((r @ c # take k cs) @ concat (map tok_val ts), s \<or> list_ex tok_scanned ts)"
          "src_of ts = drop k cs" "one_pass values ts"
        using less.hyps[of "drop k cs" "r @ c # take k cs" s] ok by blast
      have "render_loop values r s rest = render_loop values (r @ c # take k cs) s (drop k cs)"
        unfolding render_loop.simps[of _ _ _ rest] ch None list.case option.case using k Cons by (simp add: min_absorb2)
      moreover have "list_all (\<lambda>e. \<not> starts_with rest (mv_placeholder e)) values"
        using None by (simp add: find_None_iff list_all_iff)
      ultimately show ?thesis using ts ok Cons by (intro exI[of _ "Literal (c # take k cs) # ts"]) simp
    next
      case (Some e)
      then have e: "e \<in> set values" "starts_with rest (mv_placeholder e)" using find_SomeD by metis+
      obtain t where t: "rest = mv_placeholder e @ t" using e(2) by (auto simp: starts_with_iff)
      have d: "drop (length (mv_placeholder e)) rest = t" by (simp add: t)
      obtain ch chs where ch: "utf8_chunks rest = ch # chs" using Cons by simp
      have ph: "mv_placeholder e \<noteq> []" "is_ascii (mv_placeholder e)" using assms e(1) by (auto simp: holes_ok_def list_all_iff)
      then obtain ts where ts: "render_loop values (r @ mv_value e) (s \<or> mv_scanned e) t =
            Some ((r @ mv_value e) @ concat (map tok_val ts), (s \<or> mv_scanned e) \<or> list_ex tok_scanned ts)"
          "src_of ts = t" "one_pass values ts"
        using less.hyps[of t "r @ mv_value e" "s \<or> mv_scanned e"] less.prems t valid_utf8_ascii_append[of "mv_placeholder e" t] by auto
      have "render_loop values r s rest = render_loop values (r @ mv_value e) (s \<or> mv_scanned e) t"
        unfolding render_loop.simps[of _ _ _ rest] ch Some list.case option.case d ..
      then show ?thesis using ts e t by (intro exI[of _ "Hole e # ts"]) auto
    qed
  qed
qed

lemma mcp_values_ok: "holes_ok (mcp_values pw un tc)"
  by (cases tc) (simp_all add: holes_ok_def mcp_values_def API_PROXY_SECRET_PLACEHOLDER_def MCP_USERNAME_PLACEHOLDER_def
      MCP_TOTP_PLACEHOLDER_def is_ascii_def)

text \<open>
  the environment of an MCP server. For every template the substitution ends, and its value is
  the template with each placeholder replaced by its value, reading it once from the start: what
  a value contains is never taken for a placeholder. It is marked for the leak scan exactly when a
  scanned placeholder was replaced.
\<close>

theorem placeholders_are_replaced_in_one_pass:
  assumes "valid_utf8 template"
  shows "\<exists>ts. render_mcp_env_value template (mcp_values pw un tc) = Some (concat (map tok_val ts), list_ex tok_scanned ts)
     \<and> src_of ts = template \<and> one_pass (mcp_values pw un tc) ts"
  using render_loop_one_pass[OF mcp_values_ok assms, of pw un tc "[]" False] by (simp add: render_mcp_env_value_def)

theorem placeholders_are_replaced_in_one_pass_witness:
  "\<exists>ts. render_mcp_env_value ''{{username}}'' (mcp_values ''p'' ''{{secret}}'' None)
     = Some (concat (map tok_val ts), list_ex tok_scanned ts) \<and> src_of ts = ''{{username}}''"
proof -
  have "valid_utf8 ''{{username}}''"
    using valid_utf8_ascii_append[of "''{{username}}''" "[]"] by (simp add: is_ascii_def valid_utf8_def)
  then show ?thesis using placeholders_are_replaced_in_one_pass by blast
qed

subsection \<open>What the leak scan watches\<close>

definition watched :: "McpPlaceholderValue list \<Rightarrow> string \<Rightarrow> bool" where
  "watched values ph \<longleftrightarrow> (\<exists>e\<in>set values. mv_placeholder e = ph)
     \<and> ph \<in> {API_PROXY_SECRET_PLACEHOLDER, MCP_TOTP_PLACEHOLDER}"

lemma mcp_values_cases:
  assumes "e \<in> set (mcp_values pw un tc)"
  shows "mv_placeholder e = ''{{secret}}'' \<and> mv_scanned e \<or> mv_placeholder e = ''{{username}}'' \<or> mv_placeholder e = ''{{totp}}'' \<and> mv_scanned e"
  using assms by (auto simp: mcp_values_def API_PROXY_SECRET_PLACEHOLDER_def MCP_USERNAME_PLACEHOLDER_def
      MCP_TOTP_PLACEHOLDER_def split: option.splits)

lemma no_overlap:
  assumes "pe \<in> {''{{secret}}'', ''{{username}}'', ''{{totp}}''}" "ph \<in> {''{{secret}}'', ''{{totp}}''}"
    "pe = u @ w" "u \<noteq> []" "w \<noteq> []" "w @ r = ph @ v"
  shows False
  using assms by (auto simp: Cons_eq_append_conv append_eq_Cons_conv)

lemma same_place:
  assumes "pe \<in> {''{{secret}}'', ''{{username}}'', ''{{totp}}''}" "ph \<in> {''{{secret}}'', ''{{totp}}''}" "pe @ r = ph @ v"
  shows "pe = ph"
  using assms by auto

lemma watched_is_scanned:
  assumes "watched (mcp_values pw un tc) ph"
  shows "one_pass (mcp_values pw un tc) ts \<Longrightarrow> src_of ts = u @ ph @ v \<Longrightarrow> list_ex tok_scanned ts"
proof (induction ts arbitrary: u)
  case Nil
  then show ?case using assms by (auto simp: watched_def API_PROXY_SECRET_PLACEHOLDER_def MCP_TOTP_PLACEHOLDER_def)
next
  case (Cons t ts)
  have ph: "ph \<in> {''{{secret}}'', ''{{totp}}''}" "\<exists>e\<in>set (mcp_values pw un tc). mv_placeholder e = ph"
    using assms by (auto simp: watched_def API_PROXY_SECRET_PLACEHOLDER_def MCP_TOTP_PLACEHOLDER_def)
  have rest: "list_ex tok_scanned ts" if "length (tok_src t) \<le> length u"
  proof -
    have "take (length (tok_src t)) u = tok_src t"
      using arg_cong[OF Cons.prems(2), of "take (length (tok_src t))"] that by simp
    then obtain u' where "u = tok_src t @ u'" by (metis append_take_drop_id)
    then show ?thesis using Cons.IH[of u'] Cons.prems by (cases t) simp_all
  qed
  show ?case
  proof (cases "length (tok_src t) \<le> length u")
    case False
    then have "take (length u) (tok_src t) = u" using arg_cong[OF Cons.prems(2), of "take (length u)"] by simp
    then obtain w where w1: "tok_src t = u @ w" by (metis append_take_drop_id)
    then have w: "tok_src t = u @ w" "w \<noteq> []" "w @ src_of ts = ph @ v" using Cons.prems(2) False by auto
    show ?thesis
    proof (cases t)
      case (Literal ch)
      have "valid_char ch" using Cons.prems(1) Literal by simp
      moreover have "w ! 0 = CHR ''{''" using w ph(1) by (cases w) auto
      moreover have "u = [] \<Longrightarrow> False"
        using Cons.prems Literal ph(2) by (auto simp: list_all_iff starts_with_iff)
      ultimately show ?thesis using w Literal
        by (cases u; cases w) (auto simp: valid_char_def list_all_iff is_continuation_def)
    next
      case (Hole e)
      then have e: "mv_placeholder e = ''{{secret}}'' \<and> mv_scanned e \<or> mv_placeholder e = ''{{username}}''
          \<or> mv_placeholder e = ''{{totp}}'' \<and> mv_scanned e"
        using Cons.prems(1) mcp_values_cases[of e pw un tc] by simp
      have "u = []" using no_overlap[of "mv_placeholder e" ph u w "src_of ts" v] e w ph Hole by auto
      then have "mv_placeholder e = ph" using same_place[of "mv_placeholder e" ph "src_of ts" v] e w ph Hole by auto
      then have "mv_scanned e" using e ph(1) by auto
      then show ?thesis using Hole by simp
    qed
  qed (use rest in simp)
qed

lemma mcp_env_loop_spec:
  assumes "list_all (\<lambda>(_, t). valid_utf8 t) ts" "distinct scan" "[] \<notin> set scan"
  shows "\<exists>env' scan'. mcp_env_loop (mcp_values pw un tc) ts (env, scan) = Some (env @ env', scan')
     \<and> map fst env' = map fst ts \<and> set scan \<subseteq> set scan' \<and> distinct scan' \<and> [] \<notin> set scan'
     \<and> list_all2 (\<lambda>(_, template) (_, value). \<forall>ph. watched (mcp_values pw un tc) ph \<longrightarrow> contains_sub template ph
          \<longrightarrow> value = [] \<or> value \<in> set scan') ts env'"
  using assms
proof (induction ts arbitrary: env scan)
  case (Cons kt ts)
  obtain k template where kt: "kt = (k, template)" by (cases kt)
  then have "valid_utf8 template" using Cons.prems(1) by simp
  then obtain toks where r: "render_mcp_env_value template (mcp_values pw un tc) = Some (concat (map tok_val toks), list_ex tok_scanned toks)"
      "src_of toks = template" "one_pass (mcp_values pw un tc) toks"
    using render_loop_one_pass[OF mcp_values_ok, of template pw un tc "[]" False] by (auto simp: render_mcp_env_value_def)
  let ?v = "concat (map tok_val toks)"
  let ?scan = "if list_ex tok_scanned toks then push_scan_value scan ?v else scan"
  have sc: "distinct ?scan" "[] \<notin> set ?scan" "set scan \<subseteq> set ?scan" "list_ex tok_scanned toks \<Longrightarrow> ?v = [] \<or> ?v \<in> set ?scan"
    using Cons.prems by (auto simp: push_scan_value_def)
  obtain env' scan' where IH: "mcp_env_loop (mcp_values pw un tc) ts (env @ [(k, ?v)], ?scan) = Some ((env @ [(k, ?v)]) @ env', scan')"
      "map fst env' = map fst ts" "set ?scan \<subseteq> set scan'" "distinct scan'" "[] \<notin> set scan'"
      "list_all2 (\<lambda>(_, template) (_, value). \<forall>ph. watched (mcp_values pw un tc) ph \<longrightarrow> contains_sub template ph
          \<longrightarrow> value = [] \<or> value \<in> set scan') ts env'"
    using Cons.IH[OF _ sc(1,2), of "env @ [(k, ?v)]"] Cons.prems(1) by auto
  have "?v = [] \<or> ?v \<in> set scan'" if w: "watched (mcp_values pw un tc) ph" and c: "contains_sub template ph" for ph
  proof -
    obtain u v where "template = u @ ph @ v" using c by (auto simp: contains_sub_iff)
    then have "list_ex tok_scanned toks" using watched_is_scanned[OF w r(3)] r(2) by blast
    then show ?thesis using sc(4) IH(3) by blast
  qed
  then show ?case using IH sc(3) r(1) kt by (intro exI[of _ "(k, ?v) # env'"] exI[of _ scan']) auto
qed simp

text \<open>
  C32: what an MCP server learns is watched for. Building its environment always ends; it fails exactly
  when a template asks for a one-time code of a credential without a seed. Otherwise every entry is
  there, and the password and the whole value of each entry whose template names the secret or the
  code are on the list of strings the server's output is searched for, unless they are empty.
\<close>

theorem mcp_secrets_are_watched:
  assumes "list_all (\<lambda>(_, t). valid_utf8 t) templates"
  shows "(if list_ex (\<lambda>(_, t). contains_sub t MCP_TOTP_PLACEHOLDER) templates \<and> rc_totp_seed cred = None
      then build_mcp_server_launch code_of now templates cred = Some (Inl Internal)
      else \<exists>l. build_mcp_server_launch code_of now templates cred = Some (Inr l)
        \<and> map fst (ml_env l) = map fst templates \<and> distinct (ml_scan l) \<and> [] \<notin> set (ml_scan l)
        \<and> (rc_password cred = [] \<or> rc_password cred \<in> set (ml_scan l))
        \<and> list_all2 (\<lambda>(_, t) (_, v). if contains_sub t API_PROXY_SECRET_PLACEHOLDER \<or> contains_sub t MCP_TOTP_PLACEHOLDER
              then v = [] \<or> v \<in> set (ml_scan l) else True) templates (ml_env l))"
proof (cases "list_ex (\<lambda>(_, t). contains_sub t MCP_TOTP_PLACEHOLDER) templates \<and> rc_totp_seed cred = None")
  case True
  then show ?thesis by (simp add: build_mcp_server_launch_def current_totp_def)
next
  case False
  define uses where "uses = list_ex (\<lambda>(_, t). contains_sub t MCP_TOTP_PLACEHOLDER) templates"
  define vals where "vals = mcp_values (rc_password cred) (rc_username cred) (if uses then current_totp code_of now cred else None)"
  let ?scan = "push_scan_value [] (rc_password cred)"
  have sc: "distinct ?scan" "[] \<notin> set ?scan" "rc_password cred = [] \<or> rc_password cred \<in> set ?scan"
    by (auto simp: push_scan_value_def)
  obtain env scan where l: "mcp_env_loop vals templates ([], ?scan) = Some (env, scan)" "map fst env = map fst templates"
      "set ?scan \<subseteq> set scan" "distinct scan" "[] \<notin> set scan"
      "list_all2 (\<lambda>(_, t) (_, v). \<forall>ph. watched vals ph \<longrightarrow> contains_sub t ph \<longrightarrow> v = [] \<or> v \<in> set scan) templates env"
    using mcp_env_loop_spec[OF assms sc(1,2), where pw = "rc_password cred" and un = "rc_username cred"
        and tc = "if uses then current_totp code_of now cred else None" and env = "[]"]
    unfolding vals_def[symmetric] append_Nil by blast
  have ws: "watched vals API_PROXY_SECRET_PLACEHOLDER" by (simp add: watched_def vals_def mcp_values_def)
  have wt: "uses \<Longrightarrow> watched vals MCP_TOTP_PLACEHOLDER"
    using False by (auto simp: watched_def vals_def mcp_values_def uses_def current_totp_def)
  have "list_all2 (\<lambda>(_, t) (_, v). if contains_sub t API_PROXY_SECRET_PLACEHOLDER \<or> contains_sub t MCP_TOTP_PLACEHOLDER
              then v = [] \<or> v \<in> set scan else True) templates env"
    unfolding list_all2_conv_all_nth
  proof (intro conjI allI impI)
    show "length templates = length env" using l(2) by (metis length_map)
    fix i assume i: "i < length templates"
    obtain k t where t: "templates ! i = (k, t)" by (cases "templates ! i")
    obtain k' v where v: "env ! i = (k', v)" by (cases "env ! i")
    have w: "\<forall>ph. watched vals ph \<longrightarrow> contains_sub t ph \<longrightarrow> v = [] \<or> v \<in> set scan"
      using list_all2_nthD[OF l(6) i] t v by simp
    have "contains_sub t MCP_TOTP_PLACEHOLDER \<Longrightarrow> uses"
      using nth_mem[OF i] t by (auto simp: uses_def list_ex_iff)
    then show "(\<lambda>(_, t) (_, v). if contains_sub t API_PROXY_SECRET_PLACEHOLDER \<or> contains_sub t MCP_TOTP_PLACEHOLDER
              then v = [] \<or> v \<in> set scan else True) (templates ! i) (env ! i)"
      using w ws wt t v by auto
  qed
  moreover have "build_mcp_server_launch code_of now templates cred = Some (Inr \<lparr>ml_env = env, ml_scan = scan\<rparr>)"
  proof -
    have "\<not> (uses \<and> current_totp code_of now cred = None)" using False by (auto simp: uses_def current_totp_def)
    then show ?thesis
      unfolding build_mcp_server_launch_def Let_def uses_def[symmetric] vals_def[symmetric] l(1) by simp
  qed
  moreover have "rc_password cred = [] \<or> rc_password cred \<in> set scan" using sc(3) l(3) by blast
  ultimately show ?thesis unfolding if_not_P[OF False] using l(2,4,5)
    by (intro exI[of _ "\<lparr>ml_env = env, ml_scan = scan\<rparr>"]) (simp only: McpServerLaunch.simps simp_thms)
qed

definition example_credential :: ResolvedCredential where
  "example_credential = \<lparr>rc_locked = False, rc_secrets_preregistered = False, rc_uri = None, rc_username = ''u'',
     rc_password = ''pw'', rc_totp_seed = None, rc_totp_exposable = False\<rparr>"

theorem mcp_secrets_are_watched_witness:
  "\<exists>l. build_mcp_server_launch (\<lambda>_ _. []) 0 [(''KEY'', ''{{secret}}'')] example_credential = Some (Inr l)
     \<and> ''pw'' \<in> set (ml_scan l)"
proof -
  have "valid_utf8 ''{{secret}}''"
    using valid_utf8_ascii_append[of "''{{secret}}''" "[]"] by (simp add: is_ascii_def valid_utf8_def)
  moreover have "\<not> contains_sub ''{{secret}}'' MCP_TOTP_PLACEHOLDER" unfolding MCP_TOTP_PLACEHOLDER_def by code_simp
  ultimately show ?thesis
    using mcp_secrets_are_watched[of "[(''KEY'', ''{{secret}}'')]" example_credential "\<lambda>_ _. []" 0]
    by (auto simp: example_credential_def)
qed

subsection \<open>A configuration that passed the checks\<close>

text \<open>
  What the checks at startup guarantee of the proxies: the names identify them, each has exactly one
  source of its credential, and none of its addresses can carry it to another machine in clear text.
\<close>

definition oauth_ok :: "ApiProxyOAuthConfig \<Rightarrow> bool" where
  "oauth_ok oauth \<longleftrightarrow> contains_sub (oc_login_cred_id oauth) '':'' \<and> valid_authorize_steps (oc_steps oauth)
     \<and> api_proxy_upstream_allowed (oc_device_authorization_url oauth) \<and> api_proxy_upstream_allowed (oc_token_url oauth)
     \<and> (case oc_revocation_url oauth of None \<Rightarrow> True | Some u \<Rightarrow> api_proxy_upstream_allowed u)"

definition api_proxy_ok :: "ApiProxyConfig \<Rightarrow> bool" where
  "api_proxy_ok p \<longleftrightarrow> pc_name p \<noteq> [] \<and> api_proxy_upstream_allowed (pc_upstream p)
     \<and> contains_sub (pc_value p) API_PROXY_SECRET_PLACEHOLDER
     \<and> (case (pc_cred_id p, pc_oauth p) of
          (Some c, None) \<Rightarrow> contains_sub c '':''
        | (None, Some oauth) \<Rightarrow> oauth_ok oauth
        | _ \<Rightarrow> False)"

lemma validate_api_proxy_oauth_ok: "validate_api_proxy_oauth n oauth = Inr () \<longleftrightarrow> oauth_ok oauth"
proof -
  have "bad_oauth_url oauth = None \<longleftrightarrow> api_proxy_upstream_allowed (oc_device_authorization_url oauth)
      \<and> api_proxy_upstream_allowed (oc_token_url oauth)
      \<and> (case oc_revocation_url oauth of None \<Rightarrow> True | Some u \<Rightarrow> api_proxy_upstream_allowed u)"
    by (cases "oc_revocation_url oauth") (auto simp: bad_oauth_url_def)
  then show ?thesis
    by (cases "bad_oauth_url oauth") (auto simp: validate_api_proxy_oauth_def split_once_None_iff oauth_ok_def)
qed

lemma check_api_proxy_ok: "pc_name p \<noteq> [] \<Longrightarrow> check_api_proxy p = Inr () \<longleftrightarrow> api_proxy_ok p"
proof (cases "pc_oauth p")
  case (Some oauth)
  assume "pc_name p \<noteq> []"
  then show ?thesis using Some validate_api_proxy_oauth_ok[of "pc_name p" oauth]
    by (cases "validate_api_proxy_oauth (pc_name p) oauth"; cases "pc_cred_id p") (auto simp: check_api_proxy_def api_proxy_ok_def)
qed (cases "pc_cred_id p"; auto simp: check_api_proxy_def api_proxy_ok_def split_once_None_iff)

lemma validate_api_proxies_from_ok:
  "validate_api_proxies_from names ps = Inr () \<longleftrightarrow>
     distinct (map pc_name ps) \<and> set (map pc_name ps) \<inter> set names = {} \<and> list_all api_proxy_ok ps"
proof (induction ps arbitrary: names)
  case (Cons p ps)
  have "pc_name p = [] \<Longrightarrow> \<not> api_proxy_ok p" by (simp add: api_proxy_ok_def)
  then show ?case using Cons.IH[of "pc_name p # names"] check_api_proxy_ok[of p]
    by (cases "check_api_proxy p") auto
qed simp

lemma validate_api_proxies_ok:
  "validate_api_proxies ps = Inr () \<longleftrightarrow> distinct (map pc_name ps) \<and> list_all api_proxy_ok ps"
  by (simp add: validate_api_proxies_def validate_api_proxies_from_ok)

definition mcp_server_ok :: "McpServerConfig \<Rightarrow> bool" where
  "mcp_server_ok s \<longleftrightarrow> mc_name s \<noteq> [] \<and> contains_sub (mc_cred_id s) '':'' \<and> is_absolute (mc_command s) \<and> \<not> mcp_server_contains_nul s
     \<and> list_all (\<lambda>(k, _). k \<noteq> [] \<and> CHR ''='' \<notin> set k) (mc_env s)
     \<and> list_ex (\<lambda>(_, t). contains_mcp_placeholder t) (mc_env s)"

lemma check_mcp_server_ok: "mc_name s \<noteq> [] \<Longrightarrow> check_mcp_server s = Inr () \<longleftrightarrow> mcp_server_ok s"
proof -
  have "list_ex (\<lambda>(k, _). k = [] \<or> CHR ''='' \<in> set k) (mc_env s) \<longleftrightarrow> \<not> list_all (\<lambda>(k, _). k \<noteq> [] \<and> CHR ''='' \<notin> set k) (mc_env s)"
    by (auto simp: list_ex_iff list_all_iff)
  moreover assume "mc_name s \<noteq> []"
  ultimately show ?thesis by (simp add: check_mcp_server_def mcp_server_ok_def split_once_None_iff)
qed

lemma validate_mcp_servers_from_ok:
  "validate_mcp_servers_from names ss = Inr () \<longleftrightarrow>
     distinct (map mc_name ss) \<and> set (map mc_name ss) \<inter> set names = {} \<and> list_all mcp_server_ok ss"
proof (induction ss arbitrary: names)
  case (Cons s ss)
  have "mc_name s = [] \<Longrightarrow> \<not> mcp_server_ok s" by (simp add: mcp_server_ok_def)
  then show ?case using Cons.IH[of "mc_name s # names"] check_mcp_server_ok[of s]
    by (cases "check_mcp_server s") auto
qed simp

lemma validate_mcp_servers_ok:
  "validate_mcp_servers ss = Inr () \<longleftrightarrow> distinct (map mc_name ss) \<and> list_all mcp_server_ok ss"
  by (simp add: validate_mcp_servers_def validate_mcp_servers_from_ok)

text \<open>
  the configurations the daemon starts with are exactly those with positive lifetimes, at least
  one listener from one of the two ways to name it, distinct well-formed proxies whose addresses
  keep the credential off the network in clear text, and distinct well-formed servers that use
  their credential.
\<close>

theorem accepted_configurations:
  "check_config document_keys cfg = Inr ls \<longleftrightarrow>
     0 < cf_browser_max_lifetime_secs cfg \<and> 0 < cf_stepwise_idle_secs cfg \<and> 0 < cf_stepwise_max_secs cfg
     \<and> (case cf_listen cfg of
          Some given \<Rightarrow> ls = given \<and> ls \<noteq> [] \<and> ''socket_path'' \<notin> set document_keys \<and> ''allowed_uids'' \<notin> set document_keys
        | None \<Rightarrow> \<exists>p uids. cf_socket_path cfg = Some p \<and> cf_allowed_uids cfg = Some uids \<and> ls = [LcUnix p uids []])
     \<and> distinct (map pc_name (cf_api_proxy cfg)) \<and> list_all api_proxy_ok (cf_api_proxy cfg)
     \<and> distinct (map mc_name (cf_mcp_server cfg)) \<and> list_all mcp_server_ok (cf_mcp_server cfg)"
proof -
  have n: "normalize_listeners document_keys cfg = Inr ls \<longleftrightarrow>
      (case cf_listen cfg of
          Some given \<Rightarrow> ls = given \<and> ls \<noteq> [] \<and> ''socket_path'' \<notin> set document_keys \<and> ''allowed_uids'' \<notin> set document_keys
        | None \<Rightarrow> \<exists>p uids. cf_socket_path cfg = Some p \<and> cf_allowed_uids cfg = Some uids \<and> ls = [LcUnix p uids []])"
    by (auto simp: normalize_listeners_def split: option.splits)
  have "check_config document_keys cfg = Inr ls \<longleftrightarrow>
      0 < cf_browser_max_lifetime_secs cfg \<and> 0 < cf_stepwise_idle_secs cfg \<and> 0 < cf_stepwise_max_secs cfg
      \<and> normalize_listeners document_keys cfg = Inr ls
      \<and> validate_api_proxies (cf_api_proxy cfg) = Inr () \<and> validate_mcp_servers (cf_mcp_server cfg) = Inr ()"
    by (cases "normalize_listeners document_keys cfg"; cases "validate_api_proxies (cf_api_proxy cfg)";
        cases "validate_mcp_servers (cf_mcp_server cfg)") (simp_all add: check_config_def)
  then show ?thesis unfolding n validate_api_proxies_ok validate_mcp_servers_ok by blast
qed

end
