(* ===== verification/Stepwise.thy ===== *)
theory Stepwise
  imports Executor_Wire Start_Control
begin

section \<open>Stepwise logins\<close>

text \<open>
  \<open>crates/tegatad/src/stepwise.rs\<close>: a login that an agent drives step by step on a browser it never
  sees the secrets of. This theory has the actions and their validation, the replies of the executor,
  the ledger of pending logins and how a login ends. A slot (\<open>Arc<Mutex<Option<PendingExecutor>>>\<close>) is an
  address; two slots are the same when their addresses are. Its contents are in a store.
\<close>

definition DEFAULT_IDLE_SECS :: nat where "DEFAULT_IDLE_SECS = 120"
definition DEFAULT_MAX_SECS :: nat where "DEFAULT_MAX_SECS = 600"
definition MAX_STEPS :: nat where "MAX_STEPS = 40"
definition MAX_FILLS :: nat where "MAX_FILLS = 3"
definition MAX_REF_LEN :: nat where "MAX_REF_LEN = 32"
definition USERNAME_PLACEHOLDER :: string where "USERNAME_PLACEHOLDER = ''{{username}}''"
definition PASSWORD_PLACEHOLDER :: string where "PASSWORD_PLACEHOLDER = ''{{password}}''"
definition TOTP_PLACEHOLDER :: string where "TOTP_PLACEHOLDER = ''{{totp}}''"

record BeginParams =
  bp_cred_id :: string
  bp_target_url :: string
  bp_success_selector :: string
  bp_failure_selector :: "string option"
  bp_exclusive :: bool

subsection \<open>Actions\<close>

record ElementRef =
  el_element_ref :: "string option"
  el_selector :: "string option"

definition ElementRef_selector :: "string \<Rightarrow> ElementRef" where
  "ElementRef_selector s = \<lparr>el_element_ref = None, el_selector = Some s\<rparr>"

definition all_digits :: "string \<Rightarrow> bool" where
  "all_digits text \<longleftrightarrow> text \<noteq> [] \<and> list_all is_ascii_digit text"

definition is_valid_ref :: "string \<Rightarrow> bool" where
  "is_valid_ref value =
     (if length value > MAX_REF_LEN then False
      else case strip_prefix value ''f'' of
        Some framed \<Rightarrow>
          (case split_once framed ''e'' of
             Some (frame, element) \<Rightarrow> all_digits frame \<and> all_digits element
           | None \<Rightarrow> False)
      | None \<Rightarrow> (case strip_prefix value ''e'' of Some d \<Rightarrow> all_digits d | None \<Rightarrow> False))"

definition ElementRef_is_valid :: "ElementRef \<Rightarrow> bool" where
  "ElementRef_is_valid e =
     (case (el_element_ref e, el_selector e) of
        (Some r, None) \<Rightarrow> is_valid_ref r
      | (None, Some _) \<Rightarrow> True
      | _ \<Rightarrow> False)"

record FillField =
  ff_target :: ElementRef
  ff_value :: string

datatype Submit = SubmitClick ElementRef | SubmitPressEnter ElementRef

fun Submit_target :: "Submit \<Rightarrow> ElementRef" where
  "Submit_target (SubmitClick t) = t"
| "Submit_target (SubmitPressEnter t) = t"

datatype StepAction =
    Click ElementRef
  | WaitFor ElementRef
  | Fill ElementRef string
  | FillSubmit "FillField list" Submit
  | Snapshot
  | Abort

fun has_valid_targets :: "StepAction \<Rightarrow> bool" where
  "has_valid_targets (Click t) = ElementRef_is_valid t"
| "has_valid_targets (WaitFor t) = ElementRef_is_valid t"
| "has_valid_targets (Fill t _) = ElementRef_is_valid t"
| "has_valid_targets (FillSubmit fills sub) =
     (list_all (\<lambda>f. ElementRef_is_valid (ff_target f)) fills \<and> ElementRef_is_valid (Submit_target sub))"
| "has_valid_targets Snapshot = True"
| "has_valid_targets Abort = True"

definition StepAction_is_valid :: "StepAction \<Rightarrow> bool" where
  "StepAction_is_valid a =
     (if \<not> has_valid_targets a then False
      else case a of
        Fill _ v \<Rightarrow> v = USERNAME_PLACEHOLDER
      | FillSubmit fills _ \<Rightarrow>
          1 \<le> length fills \<and> length fills \<le> MAX_FILLS
          \<and> list_all (\<lambda>f. ff_value f \<in> {USERNAME_PLACEHOLDER, PASSWORD_PLACEHOLDER, TOTP_PLACEHOLDER}) fills
      | _ \<Rightarrow> True)"

definition needs_totp :: "StepAction \<Rightarrow> bool" where
  "needs_totp a = (case a of FillSubmit fills _ \<Rightarrow> list_ex (\<lambda>f. ff_value f = TOTP_PLACEHOLDER) fills | _ \<Rightarrow> False)"

record StepParams =
  sp_login_id :: string
  sp_action :: StepAction

definition parse_step_params :: "(json \<Rightarrow> StepParams option) \<Rightarrow> json \<Rightarrow> ErrorCode + StepParams" where
  "parse_step_params decode params =
     (case parse_params decode params of
        Inl e \<Rightarrow> Inl e
      | Inr p \<Rightarrow> if \<not> StepAction_is_valid (sp_action p) then Inl Internal else Inr p)"

record BeginSecret =
  bs_username :: string
  bs_password :: string

record 'cookie ExecutorBeginRequest =
  eb_op :: string
  eb_id :: nat
  eb_target_url :: string
  eb_success_selector :: string
  eb_failure_selector :: "string option"
  eb_secret :: BeginSecret
  eb_cookies :: "'cookie list option"

definition begin_request :: "BeginParams \<Rightarrow> ResolvedCredential \<Rightarrow> 'cookie list option \<Rightarrow> 'cookie ExecutorBeginRequest" where
  "begin_request p cred restored =
     \<lparr>eb_op = ''login_begin'', eb_id = 1, eb_target_url = bp_target_url p, eb_success_selector = bp_success_selector p,
      eb_failure_selector = bp_failure_selector p,
      eb_secret = \<lparr>bs_username = rc_username cred, bs_password = rc_password cred\<rparr>, eb_cookies = restored\<rparr>"

record ExecutorStepRequest =
  st_op :: string
  st_id :: nat
  st_action :: StepAction
  st_totp :: "string option"

subsection \<open>Replies\<close>

record DoneState =
  ds_endpoint :: string
  ds_target_id :: string
  ds_cookies :: "json option"
  ds_steps_skipped :: bool

datatype ExecutorState = Pending json | Done DoneState | Aborted

definition done_text :: "json \<Rightarrow> string \<Rightarrow> ExecutorFailure + string" where
  "done_text v k = (case Option.bind (jget v k) jas_str of Some s \<Rightarrow> Inr s | None \<Rightarrow> Inl (failure_of Internal))"

definition parse_done :: "json \<Rightarrow> ExecutorFailure + DoneState" where
  "parse_done v =
     (case done_text v ''endpoint'' of
        Inl e \<Rightarrow> Inl e
      | Inr endp \<Rightarrow>
          (case done_text v ''target_id'' of
             Inl e \<Rightarrow> Inl e
           | Inr t \<Rightarrow>
               Inr \<lparr>ds_endpoint = endp, ds_target_id = t,
                    ds_cookies = (case jget v ''cookies'' of Some JNull \<Rightarrow> None | c \<Rightarrow> c),
                    ds_steps_skipped = (case Option.bind (jget v ''steps_skipped'') jas_bool of Some b \<Rightarrow> b | None \<Rightarrow> False)\<rparr>))"

definition parse_state_response ::
  "(json \<Rightarrow> ExecutorResponse option) \<Rightarrow> (string \<Rightarrow> json option) \<Rightarrow> string \<Rightarrow> nat \<Rightarrow> ExecutorFailure + ExecutorState" where
  "parse_state_response decode parse line i =
     (case parse line of
        None \<Rightarrow> Inl (failure_of Internal)
      | Some v \<Rightarrow>
          if Option.bind (jget v ''id'') jas_u64 \<noteq> Some i then Inl (failure_of Internal)
          else if Option.bind (jget v ''ok'') jas_bool \<noteq> Some True
          then (case decode v of
                  None \<Rightarrow> Inl (failure_of Internal)
                | Some r \<Rightarrow>
                    (let c = reply_code parse_error_code (er_error r) in Inl \<lparr>ef_code = c, ef_step = selector_step r c\<rparr>))
          else (case Option.bind (jget v ''state'') jas_str of
                  None \<Rightarrow> Inl (failure_of Internal)
                | Some s \<Rightarrow>
                    if s = ''pending''
                    then (case jget v ''snapshot'' of
                            Some (JObj es) \<Rightarrow> Inr (Pending (JObj es))
                          | _ \<Rightarrow> Inl (failure_of Internal))
                    else if s = ''done'' then map_sum id Done (parse_done v)
                    else if s = ''aborted'' then Inr Aborted
                    else Inl (failure_of Internal)))"

subsection \<open>The ledger\<close>

record PendingExecutor =
  pe_handle :: nat
  pe_next_id :: nat

definition take_id :: "PendingExecutor \<Rightarrow> nat \<times> PendingExecutor" where
  "take_id p = (pe_next_id p, p\<lparr>pe_next_id := pe_next_id p + 1\<rparr>)"

type_synonym slot = nat

record LedgerEntry =
  en_key :: BrowserKey
  en_exclusive :: bool
  en_persist_cookies :: bool
  en_browser_started_at :: instant
  en_last_active :: instant
  en_in_flight :: nat
  en_steps :: nat
  en_totp_entered :: nat
  en_slot :: slot

definition LedgerEntry_new :: "BrowserKey \<Rightarrow> bool \<Rightarrow> bool \<Rightarrow> instant \<Rightarrow> instant \<Rightarrow> slot \<Rightarrow> LedgerEntry" where
  "LedgerEntry_new k excl persist started now sl =
     \<lparr>en_key = k, en_exclusive = excl, en_persist_cookies = persist, en_browser_started_at = started,
      en_last_active = now, en_in_flight = 0, en_steps = 0, en_totp_entered = 0, en_slot = sl\<rparr>"

record Ticket =
  tk_key :: BrowserKey
  tk_exclusive :: bool
  tk_persist_cookies :: bool
  tk_browser_started_at :: instant
  tk_slot :: slot

datatype Claim = ClaimNotFound | ClaimExpired LedgerEntry | ClaimExhausted LedgerEntry | ClaimReady Ticket

record Ledger =
  lg_entries :: "(string, LedgerEntry) table"
  lg_idle :: duration
  lg_max :: duration

definition Ledger_new :: "duration \<Rightarrow> duration \<Rightarrow> Ledger" where
  "Ledger_new idle mx = \<lparr>lg_entries = [], lg_idle = idle, lg_max = mx\<rparr>"

definition ledger_insert :: "string \<Rightarrow> LedgerEntry \<Rightarrow> Ledger \<Rightarrow> Ledger" where
  "ledger_insert i e l = l\<lparr>lg_entries := hinsert i e (lg_entries l)\<rparr>"

definition entry_expired :: "Ledger \<Rightarrow> LedgerEntry \<Rightarrow> instant \<Rightarrow> bool" where
  "entry_expired l e now \<longleftrightarrow>
     en_browser_started_at e + lg_max l \<le> now \<or> (en_in_flight e = 0 \<and> en_last_active e + lg_idle l \<le> now)"

definition ledger_remove :: "string \<Rightarrow> Ledger \<Rightarrow> Ledger" where
  "ledger_remove i l = l\<lparr>lg_entries := hremove i (lg_entries l)\<rparr>"

definition claim :: "string \<Rightarrow> string \<Rightarrow> instant \<Rightarrow> Ledger \<Rightarrow> Claim \<times> Ledger" where
  "claim i prin now l =
     (case hget (lg_entries l) i of
        None \<Rightarrow> (ClaimNotFound, l)
      | Some e \<Rightarrow>
          if principal (en_key e) \<noteq> prin then (ClaimNotFound, l)
          else if entry_expired l e now then (ClaimExpired e, ledger_remove i l)
          else (let e = e\<lparr>en_steps := en_steps e + 1\<rparr> in
                if en_steps e > MAX_STEPS then (ClaimExhausted e, ledger_remove i l)
                else (let e = e\<lparr>en_in_flight := en_in_flight e + 1\<rparr> in
                      (ClaimReady \<lparr>tk_key = en_key e, tk_exclusive = en_exclusive e, tk_persist_cookies = en_persist_cookies e,
                         tk_browser_started_at = en_browser_started_at e, tk_slot = en_slot e\<rparr>,
                       ledger_insert i e l))))"

definition is_current :: "string \<Rightarrow> slot \<Rightarrow> Ledger \<Rightarrow> bool" where
  "is_current i sl l = (case hget (lg_entries l) i of None \<Rightarrow> False | Some e \<Rightarrow> en_slot e = sl)"

definition ledger_update_current :: "string \<Rightarrow> slot \<Rightarrow> (LedgerEntry \<Rightarrow> LedgerEntry) \<Rightarrow> Ledger \<Rightarrow> Ledger" where
  "ledger_update_current i sl f l =
     (case hget (lg_entries l) i of
        None \<Rightarrow> l
      | Some e \<Rightarrow> if en_slot e = sl then ledger_insert i (f e) l else l)"

definition ledger_release :: "string \<Rightarrow> slot \<Rightarrow> instant \<Rightarrow> Ledger \<Rightarrow> Ledger" where
  "ledger_release i sl now l =
     ledger_update_current i sl (\<lambda>e. e\<lparr>en_in_flight := en_in_flight e - 1, en_last_active := now\<rparr>) l"

definition note_totp :: "string \<Rightarrow> slot \<Rightarrow> Ledger \<Rightarrow> Ledger" where
  "note_totp i sl l = ledger_update_current i sl (\<lambda>e. e\<lparr>en_totp_entered := en_totp_entered e + 1\<rparr>) l"

definition remove_current :: "string \<Rightarrow> slot \<Rightarrow> Ledger \<Rightarrow> LedgerEntry option \<times> Ledger" where
  "remove_current i sl l =
     (if \<not> is_current i sl l then (None, l) else (hget (lg_entries l) i, ledger_remove i l))"

fun take_ids :: "string list \<Rightarrow> Ledger \<Rightarrow> (string \<times> LedgerEntry) list \<times> Ledger" where
  "take_ids [] l = ([], l)"
| "take_ids (i # is) l =
     (case hget (lg_entries l) i of
        None \<Rightarrow> take_ids is l
      | Some e \<Rightarrow> (let (rest, l') = take_ids is (ledger_remove i l) in ((i, e) # rest, l')))"

definition select_ids :: "(LedgerEntry \<Rightarrow> bool) \<Rightarrow> Ledger \<Rightarrow> string list" where
  "select_ids P l = map fst (filter (\<lambda>(_, e). P e) (lg_entries l))"

definition take_expired :: "instant \<Rightarrow> Ledger \<Rightarrow> (string \<times> LedgerEntry) list \<times> Ledger" where
  "take_expired now l = take_ids (select_ids (\<lambda>e. entry_expired l e now) l) l"

definition take_principal :: "string \<Rightarrow> Ledger \<Rightarrow> (string \<times> LedgerEntry) list \<times> Ledger" where
  "take_principal prin l = take_ids (select_ids (\<lambda>e. principal (en_key e) = prin) l) l"

definition take_namespace :: "string option \<Rightarrow> Ledger \<Rightarrow> (string \<times> LedgerEntry) list \<times> Ledger" where
  "take_namespace ns l =
     take_ids (select_ids (\<lambda>e. case ns of None \<Rightarrow> True | Some n \<Rightarrow> n = namespace (en_key e)) l) l"

definition take_owned :: "string \<Rightarrow> string \<Rightarrow> Ledger \<Rightarrow> LedgerEntry option \<times> Ledger" where
  "take_owned i prin l =
     (case hget (lg_entries l) i of
        None \<Rightarrow> (None, l)
      | Some e \<Rightarrow> if principal (en_key e) \<noteq> prin then (None, l) else (Some e, ledger_remove i l))"

subsection \<open>How a stepwise login ends\<close>

datatype EndReason = Rejected | Expired | AbortedByCaller | Failed ErrorCode | LockVault | Shutdown | PeerRevoked

definition from_failure :: "ErrorCode \<Rightarrow> EndReason" where
  "from_failure c = (if c = SnapshotRejected then Rejected else Failed c)"

fun audit_method :: "EndReason \<Rightarrow> string" where
  "audit_method Rejected = ''stepwise_rejected''"
| "audit_method Expired = ''stepwise_expired''"
| "audit_method AbortedByCaller = ''stepwise_aborted''"
| "audit_method (Failed _) = ''stepwise_terminated''"
| "audit_method LockVault = ''stepwise_terminated''"
| "audit_method Shutdown = ''stepwise_terminated''"
| "audit_method PeerRevoked = ''stepwise_terminated''"

fun end_outcome :: "EndReason \<Rightarrow> string" where
  "end_outcome Rejected = ErrorCode_as_str SnapshotRejected"
| "end_outcome Expired = ''ok''"
| "end_outcome AbortedByCaller = ''ok''"
| "end_outcome (Failed c) = ErrorCode_as_str c"
| "end_outcome LockVault = ''lock_vault''"
| "end_outcome Shutdown = ''shutdown''"
| "end_outcome PeerRevoked = ''peer_revoked''"

definition counts_as_failure :: "EndReason \<Rightarrow> bool" where
  "counts_as_failure r \<longleftrightarrow>
     r \<in> {Rejected, Expired, Failed FillMismatch, Failed FillTargetRefused, Failed InvalidCredential}"

definition immediate_error :: "EndReason \<Rightarrow> ErrorCode" where
  "immediate_error r = (case r of LockVault \<Rightarrow> VaultLocked | PeerRevoked \<Rightarrow> Unauthorized | _ \<Rightarrow> Internal)"

definition immediate_end_reason :: "bool \<Rightarrow> bool \<Rightarrow> bool \<Rightarrow> EndReason option" where
  "immediate_end_reason locked peer_inactive shutting_down =
     (if locked then Some LockVault else if peer_inactive then Some PeerRevoked
      else if shutting_down then Some Shutdown else None)"

datatype Next = Continue "ExecutorFailure + json" | Handoff DoneState | EndWith EndReason ExecutorFailure

definition next_after :: "ExecutorFailure + ExecutorState \<Rightarrow> Next" where
  "next_after out =
     (case out of
        Inr (Pending snapshot) \<Rightarrow> Continue (Inr snapshot)
      | Inr (Done d) \<Rightarrow> Handoff d
      | Inr Aborted \<Rightarrow> EndWith (Failed Internal) (failure_of Internal)
      | Inl f \<Rightarrow> if ef_code f = SelectorNotFound then Continue (Inl f) else EndWith (from_failure (ef_code f)) f)"

definition pending_result :: "string \<Rightarrow> json \<Rightarrow> json" where
  "pending_result i snapshot = JObj [(''state'', JStr ''pending''), (''login_id'', JStr i), (''snapshot'', snapshot)]"

definition done_result :: "json \<Rightarrow> json" where
  "done_result r = (case r of JObj es \<Rightarrow> JObj ((''state'', JStr ''done'') # filter (\<lambda>e. fst e \<noteq> ''state'') es) | _ \<Rightarrow> r)"

definition pending_login_id :: "string \<Rightarrow> json option \<Rightarrow> string option" where
  "pending_login_id meth r =
     (if meth \<noteq> ''login_begin'' \<and> meth \<noteq> ''login_step'' then None
      else case r of
        None \<Rightarrow> None
      | Some v \<Rightarrow>
          if Option.bind (jget v ''state'') jas_str = Some ''pending'' then Option.bind (jget v ''login_id'') jas_str else None)"

definition end_fields :: "string \<Rightarrow> BrowserKey \<Rightarrow> string option \<Rightarrow> AuditFields" where
  "end_fields i k sess =
     AuditFields_default\<lparr>af_cred_id := Some (cred_id k), af_session_id := sess, af_namespace := Some (namespace k),
       af_login_id := Some i, af_stepwise := Some True\<rparr>"

text \<open>
  One exchange with the executor: the request with the next id, and \<open>answer\<close>, what became of writing
  it and waiting for one line (\<open>None\<close> for a failed write, a timeout or a read error).
\<close>

definition exchange_step ::
  "(json \<Rightarrow> ExecutorResponse option) \<Rightarrow> (string \<Rightarrow> json option) \<Rightarrow> (ExecutorStepRequest \<Rightarrow> string option) \<Rightarrow> StepAction
     \<Rightarrow> string option \<Rightarrow> PendingExecutor \<Rightarrow> (ExecutorFailure + ExecutorState) \<times> PendingExecutor" where
  "exchange_step decode parse answer a totp_code p =
     (let (i, p') = take_id p in
      (case answer \<lparr>st_op = ''login_step'', st_id = i, st_action = a, st_totp = totp_code\<rparr> of
         None \<Rightarrow> Inl (failure_of Internal)
       | Some line \<Rightarrow> if line = [] then Inl (failure_of Internal) else parse_state_response decode parse line i,
       p'))"

text \<open>What \<open>finish\<close> does: stop the executor (asking it to abort first), count a failure, write a line.\<close>

record finish_effect =
  fe_stop :: "(PendingExecutor \<times> bool) option"
  fe_failure :: "StartKey option"
  fe_audit :: "AuditPeer \<times> string \<times> AuditFields \<times> string"

definition finish :: "string \<Rightarrow> BrowserKey \<Rightarrow> PendingExecutor option \<Rightarrow> EndReason \<Rightarrow> AuditPeer \<Rightarrow> finish_effect" where
  "finish i k p reason peer =
     \<lparr>fe_stop = map_option (\<lambda>p. (p, reason = AbortedByCaller)) p,
      fe_failure = (if counts_as_failure reason then Some (SkBrowser k) else None),
      fe_audit = (peer, audit_method reason, end_fields i k None, end_outcome reason)\<rparr>"


lemma digit_not_e: "list_all is_ascii_digit ds \<Longrightarrow> CHR ''e'' \<notin> set ds"
  by (auto simp: list_all_iff is_ascii_digit_def)

text \<open>
  The element references accepted from an agent are those that a snapshot hands out: \<open>e\<close> and digits, or \<open>f\<close>,
  digits, \<open>e\<close> and digits, of at most \<open>MAX_REF_LEN\<close> bytes. Nothing else of a reference reaches the executor.
\<close>

theorem valid_ref_language:
  "is_valid_ref r \<longleftrightarrow> length r \<le> MAX_REF_LEN
     \<and> ((\<exists>d. r = CHR ''e'' # d \<and> all_digits d) \<or> (\<exists>f d. r = CHR ''f'' # f @ CHR ''e'' # d \<and> all_digits f \<and> all_digits d))"
proof (cases r)
  case (Cons c cs)
  have pre: "strip_prefix (c # cs) ''f'' = (if c = CHR ''f'' then Some cs else None)"
    "strip_prefix (c # cs) ''e'' = (if c = CHR ''e'' then Some cs else None)"
    by (auto simp: strip_prefix_def starts_with_def)
  have "(case split_once cs ''e'' of None \<Rightarrow> False | Some (f, e) \<Rightarrow> all_digits f \<and> all_digits e)
      \<longleftrightarrow> (\<exists>f d. cs = f @ CHR ''e'' # d \<and> all_digits f \<and> all_digits d)"
  proof
    assume "case split_once cs ''e'' of None \<Rightarrow> False | Some (f, e) \<Rightarrow> all_digits f \<and> all_digits e"
    then obtain f d where "split_once cs ''e'' = Some (f, d)" "all_digits f" "all_digits d" by (auto split: option.splits)
    then show "\<exists>f d. cs = f @ CHR ''e'' # d \<and> all_digits f \<and> all_digits d" using split_once_Some[of cs "''e''" f d] by auto
  next
    assume "\<exists>f d. cs = f @ CHR ''e'' # d \<and> all_digits f \<and> all_digits d"
    then show "case split_once cs ''e'' of None \<Rightarrow> False | Some (f, e) \<Rightarrow> all_digits f \<and> all_digits e"
      using digit_not_e split_once_char by (fastforce simp: all_digits_def)
  qed
  then show ?thesis using Cons by (auto simp: is_valid_ref_def pre)
qed (auto simp: is_valid_ref_def strip_prefix_def starts_with_def)

end
