(* ===== verification/Stepwise_Runs.thy ===== *)
theory Stepwise_Runs
  imports Stepwise "HOL-Library.Multiset"
begin

section \<open>Stepwise logins under concurrency\<close>

text \<open>
  The handlers of \<open>crates/tegatad/src/stepwise.rs\<close> between their critical sections. The ledger is
  guarded by the lock of the daemon state and each slot by its own, which a step keeps from the
  moment it has checked that its login is current (\<open>run_step\<close>) until it has decided what to do with
  the reply. Vault locks, expiry, revocations and rejected snapshots remove entries from the ledger at
  any moment and take the executor out of the slot later, when they get its lock (\<open>end_entry\<close>).
  An executor out of its slot is stopped by \<open>stop_pending\<close>, which for a caller's abort first sends one
  more step request, the abort itself. The last five fields of the state record history: the step
  requests sent (the latest first) with the slot their executor is or was in, the executors that left
  their slot to be stopped or handed over, those that were sent the shutdown request, and the slots
  and executors that were ever made.
\<close>

text \<open>
  What \<open>stop_pending\<close> writes to an executor: the abort, whose reply is ignored, when the login was
  aborted, and then the shutdown request, of which the id is returned.
\<close>

definition step_request :: "nat \<Rightarrow> StepAction \<Rightarrow> string option \<Rightarrow> ExecutorStepRequest" where
  "step_request i a tc = \<lparr>st_op = ''login_step'', st_id = i, st_action = a, st_totp = tc\<rparr>"

definition stop_pending :: "PendingExecutor \<Rightarrow> bool \<Rightarrow> ExecutorStepRequest list \<times> nat" where
  "stop_pending p abort =
     (let (reqs, p) = (if abort then (let (i, p') = take_id p in ([step_request i Abort None], p')) else ([], p));
          (i, p) = take_id p
      in (reqs, i))"

datatype sw_thread =
    Registered string BrowserKey
  | Claimed string Ticket StepAction
  | Stepping string Ticket StepAction
  | Exchanging string Ticket StepAction "string option"
  | Answered string Ticket Next
  | Aborting string Ticket PendingExecutor
  | Ending string LedgerEntry EndReason
  | Stopping slot PendingExecutor bool

fun held_by :: "sw_thread \<Rightarrow> slot list" where
  "held_by (Stepping _ t _) = [tk_slot t]"
| "held_by (Exchanging _ t _ _) = [tk_slot t]"
| "held_by (Answered _ t _) = [tk_slot t]"
| "held_by _ = []"

fun ended_by :: "sw_thread \<Rightarrow> slot list" where
  "ended_by (Ending _ e _) = [en_slot e]"
| "ended_by _ = []"

fun waits_on :: "sw_thread \<Rightarrow> slot list" where
  "waits_on (Claimed _ t _) = [tk_slot t]"
| "waits_on (Stepping _ t _) = [tk_slot t]"
| "waits_on (Exchanging _ t _ _) = [tk_slot t]"
| "waits_on (Aborting _ t _) = [tk_slot t]"
| "waits_on (Stopping sl _ abort) = (if abort then [sl] else [])"
| "waits_on _ = []"

fun aborted_by :: "sw_thread \<Rightarrow> slot list" where
  "aborted_by (Aborting _ t _) = [tk_slot t]"
| "aborted_by _ = []"

fun taken_by :: "sw_thread \<Rightarrow> (slot \<times> PendingExecutor) list" where
  "taken_by (Aborting _ t p) = [(tk_slot t, p)]"
| "taken_by (Stopping sl p _) = [(sl, p)]"
| "taken_by _ = []"

fun links_of :: "sw_thread \<Rightarrow> (string \<times> slot) list" where
  "links_of (Claimed i t _) = [(i, tk_slot t)]"
| "links_of (Stepping i t _) = [(i, tk_slot t)]"
| "links_of (Exchanging i t _ _) = [(i, tk_slot t)]"
| "links_of (Answered i t _) = [(i, tk_slot t)]"
| "links_of (Aborting i t _) = [(i, tk_slot t)]"
| "links_of _ = []"

record sw_state =
  sw_ledger :: Ledger
  sw_store :: "(slot, PendingExecutor) table"
  sw_threads :: "sw_thread list"
  sw_now :: instant
  sw_sent :: "(slot \<times> ExecutorStepRequest) list"
  sw_out :: "nat list"
  sw_stopped :: "nat list"
  sw_slots :: "slot list"
  sw_launched :: "nat list"

definition held :: "sw_thread list \<Rightarrow> slot list" where "held ts = concat (map held_by ts)"
definition ending :: "sw_thread list \<Rightarrow> slot list" where "ending ts = concat (map ended_by ts)"
definition waiting :: "sw_thread list \<Rightarrow> slot list" where "waiting ts = concat (map waits_on ts)"
definition aborting :: "sw_thread list \<Rightarrow> slot list" where "aborting ts = concat (map aborted_by ts)"
definition taken_execs :: "sw_thread list \<Rightarrow> (slot \<times> PendingExecutor) list" where "taken_execs ts = concat (map taken_by ts)"
definition links :: "sw_thread list \<Rightarrow> (string \<times> slot) list" where "links ts = concat (map links_of ts)"

definition sw_new :: "duration \<Rightarrow> duration \<Rightarrow> sw_state" where
  "sw_new idle mx = \<lparr>sw_ledger = Ledger_new idle mx, sw_store = [], sw_threads = [], sw_now = 0, sw_sent = [],
     sw_out = [], sw_stopped = [], sw_slots = [], sw_launched = []\<rparr>"

text \<open>A thread of the list gives way to what follows it.\<close>

definition sw_replaces :: "sw_state \<Rightarrow> sw_thread \<Rightarrow> sw_thread list \<Rightarrow> sw_state \<Rightarrow> bool" where
  "sw_replaces s t next s' \<longleftrightarrow> (\<exists>us vs. sw_threads s = us @ t # vs \<and> s' = s\<lparr>sw_threads := us @ next @ vs\<rparr>)"

definition ending_threads :: "(string \<times> LedgerEntry) list \<Rightarrow> EndReason \<Rightarrow> sw_thread list" where
  "ending_threads es reason = map (\<lambda>(i, e). Ending i e reason) es"

definition claim_thread :: "string \<Rightarrow> StepAction \<Rightarrow> Claim \<Rightarrow> sw_thread list" where
  "claim_thread i a c =
     (case c of
        ClaimNotFound \<Rightarrow> []
      | ClaimExpired e \<Rightarrow> [Ending i e Expired]
      | ClaimExhausted e \<Rightarrow> [Ending i e (Failed RateLimited)]
      | ClaimReady t \<Rightarrow> [Claimed i t a])"

text \<open>An executor out of its slot: stopped when the step ended the login, handed over when it is done.\<close>

definition leaving_thread :: "slot \<Rightarrow> PendingExecutor \<Rightarrow> Next \<Rightarrow> sw_thread list" where
  "leaving_thread sl p nx = (case nx of EndWith reason _ \<Rightarrow> [Stopping sl p (reason = AbortedByCaller)] | _ \<Rightarrow> [])"

definition stopping_thread :: "slot \<Rightarrow> PendingExecutor option \<Rightarrow> EndReason \<Rightarrow> sw_thread list" where
  "stopping_thread sl slot_value reason =
     (case slot_value of None \<Rightarrow> [] | Some p \<Rightarrow> [Stopping sl p (reason = AbortedByCaller)])"

text \<open>What a step sends: a code only when the action asks for one.\<close>

definition code_fits :: "StepAction \<Rightarrow> string option \<Rightarrow> bool" where
  "code_fits a tc \<longleftrightarrow> (tc \<noteq> None \<longrightarrow> needs_totp a)"

inductive sw_step :: "sw_state \<Rightarrow> sw_state \<Rightarrow> bool" where
  clock: "sw_now s \<le> t \<Longrightarrow> sw_step s (s\<lparr>sw_now := t\<rparr>)"
| registers: "hget (lg_entries (sw_ledger s)) i = None \<Longrightarrow> sl \<notin> set (sw_slots s) \<Longrightarrow> pe_handle p \<notin> set (sw_launched s) \<Longrightarrow>
    sw_step s (s\<lparr>sw_ledger := ledger_insert i (LedgerEntry_new k excl persist started (sw_now s) sl) (sw_ledger s),
      sw_store := hinsert sl p (sw_store s), sw_threads := Registered i k # sw_threads s,
      sw_slots := sl # sw_slots s, sw_launched := pe_handle p # sw_launched s\<rparr>)"
| stays: "sw_replaces s (Registered i k) [] s' \<Longrightarrow> sw_step s s'"
| ends_at_once: "immediate_end_reason lck gone down = Some reason \<Longrightarrow> take_owned i (principal k) (sw_ledger s) = (Some e, l) \<Longrightarrow>
    sw_replaces (s\<lparr>sw_ledger := l\<rparr>) (Registered i k) [Ending i e reason] s' \<Longrightarrow> sw_step s s'"
| claims: "StepAction_is_valid a \<Longrightarrow> claim i prin (sw_now s) (sw_ledger s) = (c, l) \<Longrightarrow>
    sw_step s (s\<lparr>sw_ledger := l, sw_threads := claim_thread i a c @ sw_threads s\<rparr>)"
| refused: "\<not> (is_current i (tk_slot t) (sw_ledger s) \<and> hcontains (sw_store s) (tk_slot t)) \<Longrightarrow>
    tk_slot t \<notin> set (held (sw_threads s)) \<Longrightarrow> sw_replaces s (Claimed i t a) [] s' \<Longrightarrow> sw_step s s'"
| aborts: "is_current i (tk_slot t) (sw_ledger s) \<Longrightarrow> hget (sw_store s) (tk_slot t) = Some p \<Longrightarrow>
    tk_slot t \<notin> set (held (sw_threads s)) \<Longrightarrow>
    sw_replaces (s\<lparr>sw_store := hremove (tk_slot t) (sw_store s), sw_out := pe_handle p # sw_out s\<rparr>)
      (Claimed i t Abort) [Aborting i t p] s' \<Longrightarrow> sw_step s s'"
| abort_ends: "remove_current i (tk_slot t) (sw_ledger s) = (ended, l) \<Longrightarrow>
    sw_replaces (s\<lparr>sw_ledger := l\<rparr>) (Aborting i t p) [Stopping (tk_slot t) p True] s' \<Longrightarrow> sw_step s s'"
| steps: "a \<noteq> Abort \<Longrightarrow> is_current i (tk_slot t) (sw_ledger s) \<Longrightarrow> hcontains (sw_store s) (tk_slot t) \<Longrightarrow>
    tk_slot t \<notin> set (held (sw_threads s)) \<Longrightarrow> sw_replaces s (Claimed i t a) [Stepping i t a] s' \<Longrightarrow> sw_step s s'"
| no_code: "needs_totp a \<Longrightarrow>
    sw_replaces (s\<lparr>sw_ledger := ledger_release i (tk_slot t) (sw_now s) (sw_ledger s)\<rparr>) (Stepping i t a) [] s' \<Longrightarrow> sw_step s s'"
| with_code: "code_fits a tc \<Longrightarrow>
    sw_replaces (s\<lparr>sw_ledger := (if tc = None then sw_ledger s else note_totp i (tk_slot t) (sw_ledger s))\<rparr>)
      (Stepping i t a) [Exchanging i t a tc] s' \<Longrightarrow> sw_step s s'"
| exchanges: "hget (sw_store s) (tk_slot t) = Some p \<Longrightarrow> exchange_step decode parse answer a tc p = (r, p') \<Longrightarrow>
    sw_replaces (s\<lparr>sw_store := hinsert (tk_slot t) p' (sw_store s),
        sw_sent := (tk_slot t, step_request (pe_next_id p) a tc) # sw_sent s\<rparr>)
      (Exchanging i t a tc) [Answered i t (next_after r)] s' \<Longrightarrow> sw_step s s'"
| too_late: "\<not> is_current i (tk_slot t) (sw_ledger s) \<Longrightarrow> sw_replaces s (Answered i t nx) [] s' \<Longrightarrow> sw_step s s'"
| continues: "is_current i (tk_slot t) (sw_ledger s) \<Longrightarrow>
    sw_replaces (s\<lparr>sw_ledger := ledger_release i (tk_slot t) (sw_now s) (sw_ledger s)\<rparr>)
      (Answered i t (Continue r)) [] s' \<Longrightarrow> sw_step s s'"
| leaves: "is_current i (tk_slot t) (sw_ledger s) \<Longrightarrow> (\<forall>r. nx \<noteq> Continue r) \<Longrightarrow>
    remove_current i (tk_slot t) (sw_ledger s) = (ended, l) \<Longrightarrow> hget (sw_store s) (tk_slot t) = Some p \<Longrightarrow>
    sw_replaces (s\<lparr>sw_ledger := l, sw_store := hremove (tk_slot t) (sw_store s), sw_out := pe_handle p # sw_out s\<rparr>)
      (Answered i t nx) (leaving_thread (tk_slot t) p nx) s' \<Longrightarrow> sw_step s s'"
| expires: "take_expired (sw_now s) (sw_ledger s) = (es, l) \<Longrightarrow>
    sw_step s (s\<lparr>sw_ledger := l, sw_threads := ending_threads es Expired @ sw_threads s\<rparr>)"
| terminates: "reason \<in> {LockVault, Shutdown} \<Longrightarrow> take_namespace ns (sw_ledger s) = (es, l) \<Longrightarrow>
    sw_step s (s\<lparr>sw_ledger := l, sw_threads := ending_threads es reason @ sw_threads s\<rparr>)"
| revokes: "take_principal prin (sw_ledger s) = (es, l) \<Longrightarrow>
    sw_step s (s\<lparr>sw_ledger := l, sw_threads := ending_threads es PeerRevoked @ sw_threads s\<rparr>)"
| leaks: "take_owned i prin (sw_ledger s) = (Some e, l) \<Longrightarrow>
    sw_step s (s\<lparr>sw_ledger := l, sw_threads := Ending i e Rejected # sw_threads s\<rparr>)"
| ends: "en_slot e \<notin> set (held (sw_threads s)) \<Longrightarrow>
    sw_replaces (s\<lparr>sw_store := hremove (en_slot e) (sw_store s),
        sw_out := (case hget (sw_store s) (en_slot e) of None \<Rightarrow> sw_out s | Some p \<Rightarrow> pe_handle p # sw_out s)\<rparr>)
      (Ending i e reason) (stopping_thread (en_slot e) (hget (sw_store s) (en_slot e)) reason) s' \<Longrightarrow> sw_step s s'"
| stops: "stop_pending p abort = (reqs, i) \<Longrightarrow>
    sw_replaces (s\<lparr>sw_sent := map (Pair sl) (rev reqs) @ sw_sent s, sw_stopped := pe_handle p # sw_stopped s\<rparr>)
      (Stopping sl p abort) [] s' \<Longrightarrow> sw_step s s'"

inductive sw_run :: "sw_state \<Rightarrow> bool" where
  sw_starts: "sw_run (sw_new idle mx)"
| sw_steps: "sw_run s \<Longrightarrow> sw_step s s' \<Longrightarrow> sw_run s'"

subsection \<open>Slots and their owners\<close>

text \<open>
  A slot is owned by the ledger entry that refers to it, and once that is removed by the thread that
  ends the login. \<open>owners\<close> counts both.
\<close>

definition ledger_slots :: "Ledger \<Rightarrow> slot multiset" where
  "ledger_slots l = image_mset en_slot (mset (hvalues (lg_entries l)))"

definition owners :: "sw_state \<Rightarrow> slot multiset" where
  "owners s = ledger_slots (sw_ledger s) + mset (ending (sw_threads s))"

lemma thread_lists [simp]:
  "held (ts @ us) = held ts @ held us" "held (t # ts) = held_by t @ held ts" "held [] = []"
  "ending (ts @ us) = ending ts @ ending us" "ending (t # ts) = ended_by t @ ending ts" "ending [] = []"
  "waiting (ts @ us) = waiting ts @ waiting us" "waiting (t # ts) = waits_on t @ waiting ts" "waiting [] = []"
  "aborting (ts @ us) = aborting ts @ aborting us" "aborting (t # ts) = aborted_by t @ aborting ts" "aborting [] = []"
  "taken_execs (ts @ us) = taken_execs ts @ taken_execs us" "taken_execs (t # ts) = taken_by t @ taken_execs ts" "taken_execs [] = []"
  "links (ts @ us) = links ts @ links us" "links (t # ts) = links_of t @ links ts" "links [] = []"
  by (simp_all add: held_def ending_def waiting_def aborting_def taken_execs_def links_def)

lemma ending_threads_lists [simp]:
  "held (ending_threads es r) = []" "ending (ending_threads es r) = map (en_slot \<circ> snd) es"
  "waiting (ending_threads es r) = []" "aborting (ending_threads es r) = []" "taken_execs (ending_threads es r) = []" "links (ending_threads es r) = []"
  by (induction es) (auto simp: ending_threads_def)

text \<open>An executor that is being stopped holds, ends and awaits nothing.\<close>

lemma stop_thread_lists [simp]:
  "held (leaving_thread sl p nx) = []" "ending (leaving_thread sl p nx) = []" "aborting (leaving_thread sl p nx) = []"
  "links (leaving_thread sl p nx) = []"
  "held (stopping_thread sl v r) = []" "ending (stopping_thread sl v r) = []" "aborting (stopping_thread sl v r) = []"
  "links (stopping_thread sl v r) = []"
  by (simp_all add: leaving_thread_def stopping_thread_def split: Next.split option.split)

lemma hremove_absent: "hget m k = None \<Longrightarrow> hremove k m = m"
  by (force simp: hremove_def hget_def map_of_eq_None_iff filter_id_conv)

lemma hvalues_remove:
  assumes "hvalid m" "hget m k = Some v"
  shows "mset (hvalues m) = add_mset v (mset (hvalues (hremove k m)))"
  using assms
proof (induction m)
  case (Cons e m)
  show ?case
  proof (cases "fst e = k")
    case True
    then have "hget m k = None" using Cons.prems(1) by (simp add: hvalid_def hget_def map_of_eq_None_iff)
    then have "hremove k m = m" by (rule hremove_absent)
    then show ?thesis using True Cons.prems(2) by (cases e) (simp add: hvalues_def hremove_def hget_def)
  next
    case False
    then show ?thesis using Cons by (cases e) (simp add: hvalues_def hremove_def hget_def hvalid_def)
  qed
qed (simp add: hget_def)

lemma hvalues_insert: "mset (hvalues (hinsert k v m)) = add_mset v (mset (hvalues (hremove k m)))"
  by (simp add: hvalues_def hinsert_def hremove_def)

subsection \<open>The ledger's operations on slots\<close>

abbreviation entry_of :: "Ledger \<Rightarrow> string \<Rightarrow> LedgerEntry option" where
  "entry_of l i \<equiv> hget (lg_entries l) i"

text \<open>A ledger whose entries are among those of another, with the same slots and steps.\<close>

definition ledger_le :: "Ledger \<Rightarrow> Ledger \<Rightarrow> bool" where
  "ledger_le l' l \<longleftrightarrow> (\<forall>i e'. entry_of l' i = Some e' \<longrightarrow>
     (\<exists>e. entry_of l i = Some e \<and> en_slot e' = en_slot e \<and> en_steps e' = en_steps e))"

definition ledger_ok :: "Ledger \<Rightarrow> bool" where
  "ledger_ok l = hvalid (lg_entries l)"

lemma ledger_le_refl [simp, intro]: "ledger_le l l"
  by (simp add: ledger_le_def)

lemma ledger_entries [simp]:
  "entry_of (ledger_insert i e l) j = (if j = i then Some e else entry_of l j)"
  "entry_of (ledger_remove i l) j = (if j = i then None else entry_of l j)"
  by (simp_all add: ledger_insert_def ledger_remove_def)

lemma ledger_ok_ops [simp]:
  "ledger_ok l \<Longrightarrow> ledger_ok (ledger_insert i e l)" "ledger_ok l \<Longrightarrow> ledger_ok (ledger_remove i l)"
  by (simp_all add: ledger_ok_def ledger_insert_def ledger_remove_def ht.valid_insert ht.valid_remove)

lemma slots_remove:
  "ledger_ok l \<Longrightarrow> entry_of l i = Some e \<Longrightarrow> ledger_slots l = add_mset (en_slot e) (ledger_slots (ledger_remove i l))"
  using hvalues_remove[of "lg_entries l" i e] by (simp add: ledger_slots_def ledger_ok_def ledger_remove_def)

lemma slots_insert_new:
  "entry_of l i = None \<Longrightarrow> ledger_slots (ledger_insert i e l) = add_mset (en_slot e) (ledger_slots l)"
  by (simp add: ledger_slots_def ledger_insert_def hvalues_insert hremove_absent)

lemma slots_insert_same:
  assumes "ledger_ok l" "entry_of l i = Some e" "en_slot e' = en_slot e"
  shows "ledger_slots (ledger_insert i e' l) = ledger_slots l"
  using slots_remove[OF assms(1,2)] assms(3) by (simp add: ledger_slots_def ledger_insert_def ledger_remove_def hvalues_insert)

lemma ledger_le_remove [simp]: "ledger_le (ledger_remove i l) l"
  by (auto simp: ledger_le_def split: if_splits)

lemma ledger_le_trans: "ledger_le a b \<Longrightarrow> ledger_le b c \<Longrightarrow> ledger_le a c"
  unfolding ledger_le_def by metis

lemma update_current_slots:
  assumes "ledger_ok l" "\<And>e. en_slot (f e) = en_slot e" "\<And>e. en_steps (f e) = en_steps e"
  shows "ledger_ok (ledger_update_current i sl f l)" "ledger_slots (ledger_update_current i sl f l) = ledger_slots l"
    "ledger_le (ledger_update_current i sl f l) l"
  using assms by (auto simp: ledger_update_current_def slots_insert_same ledger_le_def split: option.splits if_splits)

lemma release_slots:
  assumes "ledger_ok l"
  shows "ledger_ok (ledger_release i sl now l)" "ledger_slots (ledger_release i sl now l) = ledger_slots l"
    "ledger_le (ledger_release i sl now l) l"
  unfolding ledger_release_def by (rule update_current_slots[OF assms]; simp)+

lemma note_totp_slots:
  assumes "ledger_ok l"
  shows "ledger_ok (note_totp i sl l)" "ledger_slots (note_totp i sl l) = ledger_slots l" "ledger_le (note_totp i sl l) l"
  unfolding note_totp_def by (rule update_current_slots[OF assms]; simp)+

lemma take_owned_slots:
  assumes "ledger_ok l" "take_owned i prin l = (Some e, l')"
  shows "ledger_ok l'" "ledger_slots l = add_mset (en_slot e) (ledger_slots l')" "ledger_le l' l"
  using assms slots_remove[OF assms(1), of i e] by (auto simp: take_owned_def split: option.splits if_splits)

lemma remove_current_slots:
  assumes "ledger_ok l" "is_current i sl l" "remove_current i sl l = (ended, l')"
  shows "ledger_ok l'" "ledger_slots l = add_mset sl (ledger_slots l')" "ledger_le l' l" "l' = ledger_remove i l"
proof -
  obtain e where e: "entry_of l i = Some e" "en_slot e = sl" using assms(2) by (auto simp: is_current_def split: option.splits)
  have l': "l' = ledger_remove i l" using assms(2,3) by (simp add: remove_current_def)
  then show "l' = ledger_remove i l" "ledger_ok l'" "ledger_le l' l" using assms(1) by simp_all
  show "ledger_slots l = add_mset sl (ledger_slots l')" using slots_remove[OF assms(1) e(1)] e(2) l' by simp
qed

lemma take_ids_slots:
  assumes "ledger_ok l" "take_ids is l = (es, l')"
  shows "ledger_ok l' \<and> ledger_slots l = mset (map (en_slot \<circ> snd) es) + ledger_slots l' \<and> ledger_le l' l"
  using assms
proof (induction "is" l arbitrary: es l' rule: take_ids.induct)
  case (2 i "is" l)
  show ?case
  proof (cases "entry_of l i")
    case None
    then show ?thesis using 2 by simp
  next
    case (Some e)
    obtain rest where r: "take_ids is (ledger_remove i l) = (rest, l')" "es = (i, e) # rest"
      using "2.prems"(2) Some by (auto split: prod.splits)
    then show ?thesis
      using "2.IH"(2)[OF Some _ r(1)] "2.prems"(1) slots_remove[OF "2.prems"(1) Some] ledger_le_trans[of l' "ledger_remove i l" l]
      by simp
  qed
qed simp

lemma is_current_slot: "is_current i sl l \<Longrightarrow> sl \<in># ledger_slots l"
proof -
  assume "is_current i sl l"
  then obtain e where e: "entry_of l i = Some e" "en_slot e = sl" by (auto simp: is_current_def split: option.splits)
  then have "e \<in> set (hvalues (lg_entries l))" using hget_mem by (force simp: hvalues_def)
  then show ?thesis using e by (auto simp: ledger_slots_def)
qed

lemma slots_iff: "ledger_ok l \<Longrightarrow> sl \<in># ledger_slots l \<longleftrightarrow> (\<exists>i e. entry_of l i = Some e \<and> en_slot e = sl)"
  using hvalues_iff[of "lg_entries l"] unfolding ledger_slots_def ledger_ok_def by auto (metis image_eqI)

lemma ledger_le_slots: "ledger_ok l' \<Longrightarrow> ledger_ok l \<Longrightarrow> ledger_le l' l \<Longrightarrow> set_mset (ledger_slots l') \<subseteq> set_mset (ledger_slots l)"
  unfolding ledger_le_def by (auto simp: slots_iff) metis

lemma claim_cases:
  assumes "ledger_ok l" "claim i prin now l = (c, l')"
  shows "(c = ClaimNotFound \<and> l' = l)
    \<or> (\<exists>e. (c = ClaimExpired e \<or> c = ClaimExhausted e) \<and> ledger_ok l' \<and> ledger_slots l = add_mset (en_slot e) (ledger_slots l') \<and> ledger_le l' l)
    \<or> (\<exists>e t. c = ClaimReady t \<and> entry_of l i = Some e \<and> tk_slot t = en_slot e \<and> principal (en_key e) = prin \<and> en_steps e < MAX_STEPS
        \<and> l' = ledger_insert i (e\<lparr>en_steps := en_steps e + 1, en_in_flight := en_in_flight e + 1\<rparr>) l)"
proof (cases "entry_of l i")
  case (Some e)
  then show ?thesis using assms slots_remove[OF assms(1) Some]
    by (auto simp: claim_def Let_def split: if_splits)
qed (use assms in \<open>simp add: claim_def\<close>)

subsection \<open>The invariant of the slots\<close>

definition links_ok :: "sw_state \<Rightarrow> bool" where
  "links_ok s \<longleftrightarrow> (\<forall>i sl j e. (i, sl) \<in> set (links (sw_threads s)) \<longrightarrow> entry_of (sw_ledger s) j = Some e \<longrightarrow> en_slot e = sl \<longrightarrow> j = i)"

definition sw_inv :: "sw_state \<Rightarrow> bool" where
  "sw_inv s \<longleftrightarrow> ledger_ok (sw_ledger s) \<and> hvalid (sw_store s)
     \<and> (\<forall>sl. count (owners s) sl \<le> 1) \<and> set (hkeys (sw_store s)) \<subseteq> set_mset (owners s)
     \<and> distinct (held (sw_threads s)) \<and> set (held (sw_threads s)) \<subseteq> set (hkeys (sw_store s))
     \<and> set_mset (ledger_slots (sw_ledger s)) \<subseteq> set (hkeys (sw_store s)) \<union> set (aborting (sw_threads s))
     \<and> links_ok s \<and> set (aborting (sw_threads s)) \<inter> set (hkeys (sw_store s)) = {}
     \<and> set_mset (owners s) \<union> snd ` set (links (sw_threads s)) \<subseteq> set (sw_slots s)
     \<and> mset (map pe_handle (hvalues (sw_store s))) + mset (sw_out s) = mset (sw_launched s) \<and> distinct (sw_launched s)"

lemma sw_invD:
  assumes "sw_inv s"
  shows "ledger_ok (sw_ledger s)" "hvalid (sw_store s)" "count (owners s) sl \<le> 1"
    "set (hkeys (sw_store s)) \<subseteq> set_mset (owners s)" "distinct (held (sw_threads s))"
    "set (held (sw_threads s)) \<subseteq> set (hkeys (sw_store s))"
    "set_mset (ledger_slots (sw_ledger s)) \<subseteq> set (hkeys (sw_store s)) \<union> set (aborting (sw_threads s))"
    "links_ok s" "set_mset (owners s) \<union> snd ` set (links (sw_threads s)) \<subseteq> set (sw_slots s)"
    "mset (map pe_handle (hvalues (sw_store s))) + mset (sw_out s) = mset (sw_launched s)" "distinct (sw_launched s)"
    "set (aborting (sw_threads s)) \<inter> set (hkeys (sw_store s)) = {}"
  using assms unfolding sw_inv_def by blast+

lemma aborting_links: "set (aborting ts) \<subseteq> snd ` set (links ts)"
proof (induction ts)
  case (Cons t ts)
  then show ?case by (cases t) auto
qed simp

lemma slot_unique:
  assumes "ledger_ok l" "count (ledger_slots l) (en_slot e) \<le> 1" "entry_of l i = Some e" "entry_of l j = Some e'" "en_slot e' = en_slot e"
  shows "j = i"
proof (rule ccontr)
  assume "j \<noteq> i"
  then have "entry_of (ledger_remove i l) j = Some e'" using assms(4) by simp
  then have "\<exists>k f. entry_of (ledger_remove i l) k = Some f \<and> en_slot f = en_slot e" using assms(5) by blast
  then have "en_slot e \<in># ledger_slots (ledger_remove i l)" by (simp only: slots_iff ledger_ok_ops assms(1))
  then show False using slots_remove[OF assms(1,3)] assms(2) by (simp add: count_eq_zero_iff)
qed

definition slot_le :: "Ledger \<Rightarrow> Ledger \<Rightarrow> bool" where
  "slot_le l' l \<longleftrightarrow> (\<forall>i e'. entry_of l' i = Some e' \<longrightarrow> (\<exists>e. entry_of l i = Some e \<and> en_slot e' = en_slot e))"

lemma slot_le_of_le [intro]: "ledger_le l' l \<Longrightarrow> slot_le l' l"
  unfolding ledger_le_def slot_le_def by metis

lemma slot_le_refl [simp]: "slot_le l l"
  by (simp add: slot_le_def)

text \<open>The links stay good when the ledger shrinks and a new link is to a current login.\<close>

lemma links_ok_step:
  assumes "links_ok s" "ledger_ok l" "slot_le l (sw_ledger s)" "\<And>sl. count (ledger_slots l) sl \<le> 1"
    and "\<And>i sl. (i, sl) \<in> set (links ts) \<Longrightarrow> (i, sl) \<in> set (links (sw_threads s)) \<or> is_current i sl l"
    and "sw_ledger s' = l" "sw_threads s' = ts"
  shows "links_ok s'"
  unfolding links_ok_def assms(6,7)
proof (intro allI impI)
  fix i sl j e
  assume a: "(i, sl) \<in> set (links ts)" "entry_of l j = Some e" "en_slot e = sl"
  from assms(5)[OF a(1)] show "j = i"
  proof
    assume "(i, sl) \<in> set (links (sw_threads s))"
    moreover obtain e0 where "entry_of (sw_ledger s) j = Some e0" "en_slot e0 = sl" using assms(3) a(2,3) unfolding slot_le_def by metis
    ultimately show ?thesis using assms(1) unfolding links_ok_def by blast
  next
    assume "is_current i sl l"
    then obtain e1 where "entry_of l i = Some e1" "en_slot e1 = sl" by (auto simp: is_current_def split: option.splits)
    then show ?thesis using slot_unique[OF assms(2) assms(4)] a(2,3) by blast
  qed
qed

lemma count_ledger_le: "ledger_slots l + M \<subseteq># N \<Longrightarrow> count N sl \<le> 1 \<Longrightarrow> count (ledger_slots l) sl \<le> 1"
  using mset_subset_eq_count[of "ledger_slots l + M" N sl] by simp

lemma sw_inv_move:
  assumes inv: "sw_inv s" and l: "ledger_ok l" "slot_le l (sw_ledger s)" "ledger_slots l + mset (ending ts) = owners s"
    and h: "distinct (held ts)" "set (held ts) \<subseteq> set (hkeys (sw_store s))"
    and a: "set_mset (ledger_slots l) \<subseteq> set (hkeys (sw_store s)) \<union> set (aborting ts)"
      "set (aborting ts) \<subseteq> set (aborting (sw_threads s))"
    and k: "\<And>i sl. (i, sl) \<in> set (links ts) \<Longrightarrow> (i, sl) \<in> set (links (sw_threads s)) \<or> is_current i sl l"
  shows "sw_inv (s\<lparr>sw_ledger := l, sw_threads := ts\<rparr>)"
proof -
  note D = sw_invD[OF inv]
  let ?s = "s\<lparr>sw_ledger := l, sw_threads := ts\<rparr>"
  have o: "owners ?s = owners s" using l(3) by (simp add: owners_def)
  have lo: "links_ok ?s"
    by (rule links_ok_step[OF D(8) l(1,2) _ k]) (use l(3) D(3) count_ledger_le[of l "mset (ending ts)" "owners s"] in auto)
  have sl: "snd ` set (links ts) \<subseteq> set (sw_slots s)"
  proof safe
    fix i sl assume "(i, sl) \<in> set (links ts)"
    then show "snd (i, sl) \<in> set (sw_slots s)" using k D(9) is_current_slot[of i sl l] l(3) by (metis (no_types, lifting)
          UnCI UnI1 image_eqI snd_conv subsetD union_iff)
  qed
  show ?thesis
    unfolding sw_inv_def o using D lo sl l(1) h a by auto
qed

lemma sw_inv_leave:
  assumes inv: "sw_inv s" and l: "ledger_ok l" "slot_le l (sw_ledger s)"
    and o: "ledger_slots l + mset (ending ts) = owners s \<or> add_mset sl (ledger_slots l + mset (ending ts)) = owners s"
    and h: "distinct (held ts)" "set (held ts) \<subseteq> set (hkeys (sw_store s)) - {sl}"
    and a: "set_mset (ledger_slots l) \<subseteq> (set (hkeys (sw_store s)) - {sl}) \<union> set (aborting ts)"
      "set (aborting ts) \<subseteq> insert sl (set (aborting (sw_threads s)))"
    and k: "set (links ts) \<subseteq> set (links (sw_threads s))"
  shows "sw_inv (s\<lparr>sw_ledger := l, sw_store := hremove sl (sw_store s),
      sw_out := (case hget (sw_store s) sl of None \<Rightarrow> sw_out s | Some p \<Rightarrow> pe_handle p # sw_out s), sw_threads := ts\<rparr>)" (is "sw_inv ?s")
proof -
  note D = sw_invD[OF inv]
  have keys: "set (hkeys (hremove sl (sw_store s))) = set (hkeys (sw_store s)) - {sl}"
    by (auto simp: hkeys_iff split: if_splits)
  have on: "owners ?s = ledger_slots l + mset (ending ts)" by (simp add: owners_def)
  have sub: "owners ?s \<subseteq># owners s" using o on by (auto simp: subset_mset.add_increasing2) (metis add_mset_add_single mset_subset_eq_add_left)
  have c: "count (owners ?s) x \<le> 1" for x using mset_subset_eq_count[OF sub, of x] D(3)[of x] by simp
  have "set_mset (owners s) \<subseteq> insert sl (set_mset (ledger_slots l + mset (ending ts)))"
    using o by (elim disjE) (simp_all only: set_mset_add_mset_insert[symmetric] subset_refl, auto)
  then have ks: "set (hkeys (sw_store s)) - {sl} \<subseteq> set_mset (owners ?s)" using D(4) unfolding on by blast
  have lo: "links_ok ?s"
    by (rule links_ok_step[OF D(8) l(1,2)]) (use k c on count_ledger_le[of l "mset (ending ts)" "owners ?s"] in auto)
  have hd: "mset (map pe_handle (hvalues (sw_store ?s))) + mset (sw_out ?s) = mset (sw_launched s)"
  proof (cases "hget (sw_store s) sl")
    case None
    then show ?thesis using D(10) by (simp add: hremove_absent)
  next
    case (Some p)
    then show ?thesis using D(10) hvalues_remove[OF D(2) Some] by simp
  qed
  have ab: "set (aborting ts) \<inter> (set (hkeys (sw_store s)) - {sl}) = {}" using a(2) D(12) by blast
  show ?thesis
    unfolding sw_inv_def using D(2,9,11) ab l(1) c ks lo hd h a(1) image_mono[OF k, of snd] set_mset_mono[OF sub] keys
    by (simp add: subset_trans)
qed

text \<open>A new executor in a new slot, and one that answered and went back to its slot.\<close>

lemma sw_inv_register:
  assumes inv: "sw_inv s" and n: "entry_of (sw_ledger s) i = None" "sl \<notin> set (sw_slots s)" "pe_handle p \<notin> set (sw_launched s)"
    and e: "en_slot e = sl"
  shows "sw_inv (s\<lparr>sw_ledger := ledger_insert i e (sw_ledger s), sw_store := hinsert sl p (sw_store s),
      sw_threads := Registered i k # sw_threads s, sw_slots := sl # sw_slots s, sw_launched := pe_handle p # sw_launched s\<rparr>)"
    (is "sw_inv ?s")
proof -
  note D = sw_invD[OF inv]
  have no: "sl \<notin># owners s" "sl \<notin> set (hkeys (sw_store s))" "sl \<notin> set (aborting (sw_threads s))"
    using D(4,9) n(2) aborting_links[of "sw_threads s"] by blast+
  have keys: "set (hkeys (hinsert sl p (sw_store s))) = insert sl (set (hkeys (sw_store s)))"
    by (auto simp: hkeys_iff split: if_splits)
  have st: "hremove sl (sw_store s) = sw_store s" using no(2) by (intro hremove_absent) (simp add: hkeys_iff)
  have on: "owners ?s = add_mset sl (owners s)" using slots_insert_new[OF n(1), of e] e by (simp add: owners_def)
  have sl: "ledger_slots (sw_ledger ?s) = add_mset sl (ledger_slots (sw_ledger s))" using slots_insert_new[OF n(1), of e] e by simp
  have c: "count (owners ?s) x \<le> 1" for x using D(3)[of x] no(1) by (auto simp: on count_eq_zero_iff)
  have lo: "links_ok ?s"
    using D(8,9) n(2) e unfolding links_ok_def by (force split: if_splits)
  show ?thesis
    unfolding sw_inv_def using D c lo keys e n st on sl no(3)
    by (auto simp: ht.valid_insert hvalues_insert)
qed

lemma sw_inv_exchange:
  assumes inv: "sw_inv s" and p: "hget (sw_store s) sl = Some p" "pe_handle p' = pe_handle p"
    and t: "held ts = held (sw_threads s)" "ending ts = ending (sw_threads s)" "aborting ts = aborting (sw_threads s)"
      "links ts = links (sw_threads s)"
  shows "sw_inv (s\<lparr>sw_store := hinsert sl p' (sw_store s), sw_sent := (sl, r) # sw_sent s, sw_threads := ts\<rparr>)" (is "sw_inv ?s")
proof -
  note D = sw_invD[OF inv]
  have keys: "set (hkeys (hinsert sl p' (sw_store s))) = set (hkeys (sw_store s))"
    using p(1) by (auto simp: hkeys_iff split: if_splits)
  have on: "owners ?s = owners s" using t by (simp add: owners_def)
  have sl: "sl \<in> set (sw_slots s)" using p(1) D(4,9) hkeys_iff[of sl "sw_store s"] by auto
  have lo: "links_ok ?s" using D(8) t by (simp add: links_ok_def)
  show ?thesis
    unfolding sw_inv_def using D lo keys on sl t p(2) hvalues_remove[OF D(2) p(1)]
    by (auto simp: ht.valid_insert hvalues_insert)
qed

subsection \<open>Every step keeps the invariant\<close>

text \<open>What a step leaves of the thread list, whose order does not matter.\<close>

lemma sw_replacesE:
  assumes "sw_replaces s t next s'"
  obtains us vs where "sw_threads s = us @ t # vs" "s' = s\<lparr>sw_threads := us @ next @ vs\<rparr>"
  using assms unfolding sw_replaces_def by blast

lemma sw_inv_registered:
  assumes "sw_inv s" "sw_threads s = us @ Registered i k # vs"
  shows "sw_inv (s\<lparr>sw_threads := us @ vs\<rparr>)"
  using sw_inv_move[OF assms(1), of "sw_ledger s" "us @ vs"] sw_invD[OF assms(1)] assms(2) by (simp add: owners_def)

lemma current_ledger_count:
  assumes "sw_inv s" "is_current i sl (sw_ledger s)" "ledger_slots (sw_ledger s) = add_mset sl M"
  shows "sl \<notin># M" "sl \<notin> set (ending (sw_threads s))"
  using sw_invD(3)[OF assms(1), of sl] assms(3)
  by (auto simp: owners_def count_eq_zero_iff count_list_0_iff count_mset)

lemma sw_inv_abort_ends:
  assumes inv: "sw_inv s" and r: "remove_current i (tk_slot t) (sw_ledger s) = (ended, l)" and t: "sw_threads s = us @ Aborting i t p # vs"
  shows "sw_inv (s\<lparr>sw_ledger := l, sw_threads := us @ [Stopping (tk_slot t) p True] @ vs\<rparr>)"
proof -
  note D = sw_invD[OF inv]
  let ?sl = "tk_slot t"
  show ?thesis
  proof (cases "is_current i ?sl (sw_ledger s)")
    case False
    then have l: "l = sw_ledger s" using r by (simp add: remove_current_def)
    have "?sl \<notin># ledger_slots (sw_ledger s)"
    proof
      assume "?sl \<in># ledger_slots (sw_ledger s)"
      then obtain j e where "entry_of (sw_ledger s) j = Some e" "en_slot e = ?sl" using slots_iff[OF D(1)] by blast
      moreover from this have "j = i" using D(8) t unfolding links_ok_def by auto
      ultimately show False using False by (simp add: is_current_def)
    qed
    then have "set_mset (ledger_slots (sw_ledger s)) \<subseteq> set (hkeys (sw_store s)) \<union> set (aborting (us @ [Stopping (tk_slot t) p True] @ vs))" using D(7) t by auto
    then show ?thesis using sw_inv_move[OF inv, of l "us @ [Stopping (tk_slot t) p True] @ vs"] D t l by (simp add: owners_def subset_iff)
  next
    case True
    note R = remove_current_slots[OF D(1) True r]
    have e: "hget (sw_store s) ?sl = None" using D(12) t hkeys_iff[of ?sl "sw_store s"] by auto
    note c = current_ledger_count[OF inv True R(2)]
    have a: "set_mset (ledger_slots l) \<subseteq> (set (hkeys (sw_store s)) - {?sl}) \<union> set (aborting (us @ [Stopping (tk_slot t) p True] @ vs))"
      using D(7) t R(2) c(1) by auto
    have h: "set (held (us @ [Stopping (tk_slot t) p True] @ vs)) \<subseteq> set (hkeys (sw_store s)) - {?sl}" using D(6) e t hkeys_iff[of ?sl "sw_store s"] by auto
    show ?thesis
      using sw_inv_leave[OF inv R(1) slot_le_of_le[OF R(3)] _ _ h a] D(5) R(2) t e
      by (simp add: owners_def hremove_absent subset_iff)
  qed
qed


text \<open>A thread goes on or returns, with the slots of the ledger as they are.\<close>

lemma sw_inv_goes:
  assumes inv: "sw_inv s" and t: "sw_threads s = us @ t # vs"
    and l: "ledger_ok l" "ledger_slots l = ledger_slots (sw_ledger s)" "ledger_le l (sw_ledger s)"
    and n: "ending nts = ended_by t" "aborting nts = aborted_by t" "set (links nts) \<subseteq> set (links_of t)"
    and h: "held nts = held_by t \<or> held nts = []
      \<or> (\<exists>sl. held nts = [sl] \<and> held_by t = [] \<and> sl \<notin> set (held (sw_threads s)) \<and> hcontains (sw_store s) sl)"
  shows "sw_inv (s\<lparr>sw_ledger := l, sw_threads := us @ nts @ vs\<rparr>)"
proof -
  note D = sw_invD[OF inv]
  have hd: "distinct (held (us @ nts @ vs))" "set (held (us @ nts @ vs)) \<subseteq> set (hkeys (sw_store s))"
    using h D(5,6) t by (elim disjE exE; force simp: hcontains_def hkeys_iff)+
  show ?thesis
    using sw_inv_move[OF inv l(1) slot_le_of_le[OF l(3)] _ hd] D(7) t l(2) n by (auto simp: owners_def)
qed

lemma sw_inv_aborts:
  assumes inv: "sw_inv s" and t: "sw_threads s = us @ Claimed i t Abort # vs"
    and p: "hget (sw_store s) (tk_slot t) = Some p" "tk_slot t \<notin> set (held (sw_threads s))"
  shows "sw_inv (s\<lparr>sw_store := hremove (tk_slot t) (sw_store s), sw_out := pe_handle p # sw_out s, sw_threads := us @ [Aborting i t p] @ vs\<rparr>)"
proof -
  note D = sw_invD[OF inv]
  let ?ts = "us @ [Aborting i t p] @ vs"
  have a: "set_mset (ledger_slots (sw_ledger s)) \<subseteq> (set (hkeys (sw_store s)) - {tk_slot t}) \<union> set (aborting ?ts)" using D(7) t by auto
  have h: "set (held ?ts) \<subseteq> set (hkeys (sw_store s)) - {tk_slot t}" using D(6) p(2) t by auto
  show ?thesis
    using sw_inv_leave[OF inv D(1) slot_le_refl _ _ h a] D(5) t p by (auto simp: owners_def)
qed

lemma sw_inv_leaves:
  assumes inv: "sw_inv s" and t: "sw_threads s = us @ Answered i t nx # vs"
    and p: "hget (sw_store s) (tk_slot t) = Some p" "is_current i (tk_slot t) (sw_ledger s)"
    and r: "remove_current i (tk_slot t) (sw_ledger s) = (ended, l)"
  shows "sw_inv (s\<lparr>sw_ledger := l, sw_store := hremove (tk_slot t) (sw_store s), sw_out := pe_handle p # sw_out s, sw_threads := us @ leaving_thread (tk_slot t) p nx @ vs\<rparr>)"
proof -
  note D = sw_invD[OF inv]
  note R = remove_current_slots[OF D(1) p(2) r]
  note c = current_ledger_count[OF inv p(2) R(2)]
  have a: "set_mset (ledger_slots l) \<subseteq> (set (hkeys (sw_store s)) - {tk_slot t}) \<union> set (aborting (us @ leaving_thread (tk_slot t) p nx @ vs))"
    using D(7) t R(2) c(1) by auto
  have h: "distinct (held (us @ leaving_thread (tk_slot t) p nx @ vs))" "set (held (us @ leaving_thread (tk_slot t) p nx @ vs)) \<subseteq> set (hkeys (sw_store s)) - {tk_slot t}" using D(5,6) t by auto
  show ?thesis
    using sw_inv_leave[OF inv R(1) slot_le_of_le[OF R(3)] _ h a] t p R(2) by (auto simp: owners_def)
qed

lemma sw_inv_ends:
  assumes inv: "sw_inv s" and t: "sw_threads s = us @ Ending i e reason # vs" and p: "en_slot e \<notin> set (held (sw_threads s))"
  shows "sw_inv (s\<lparr>sw_store := hremove (en_slot e) (sw_store s),
      sw_out := (case hget (sw_store s) (en_slot e) of None \<Rightarrow> sw_out s | Some p \<Rightarrow> pe_handle p # sw_out s), sw_threads := us @ stopping_thread (en_slot e) (hget (sw_store s) (en_slot e)) reason @ vs\<rparr>)"
proof -
  note D = sw_invD[OF inv]
  have "en_slot e \<notin># ledger_slots (sw_ledger s)" using D(3)[of "en_slot e"] t by (auto simp: owners_def count_eq_zero_iff)
  then have a: "set_mset (ledger_slots (sw_ledger s)) \<subseteq> (set (hkeys (sw_store s)) - {en_slot e}) \<union> set (aborting (us @ stopping_thread (en_slot e) (hget (sw_store s) (en_slot e)) reason @ vs))"
    using D(7) t by auto
  have h: "distinct (held (us @ stopping_thread (en_slot e) (hget (sw_store s) (en_slot e)) reason @ vs))" "set (held (us @ stopping_thread (en_slot e) (hget (sw_store s) (en_slot e)) reason @ vs)) \<subseteq> set (hkeys (sw_store s)) - {en_slot e}" using D(5,6) t p by auto
  show ?thesis
    using sw_inv_leave[OF inv D(1) slot_le_refl _ h a] t by (auto simp: owners_def)
qed

text \<open>Entries taken out of the ledger, each handed to a thread that ends it.\<close>

lemma sw_inv_takes:
  assumes inv: "sw_inv s" and t: "sw_threads s = us @ ws @ vs" "ending ws = []" "held ws = []" "aborting ws = []"
    and l: "ledger_ok l" "ledger_slots (sw_ledger s) = mset (map (en_slot \<circ> snd) es) + ledger_slots l" "ledger_le l (sw_ledger s)"
  shows "sw_inv (s\<lparr>sw_ledger := l, sw_threads := us @ ending_threads es reason @ vs\<rparr>)"
proof -
  note D = sw_invD[OF inv]
  have o: "ledger_slots l + mset (ending (us @ ending_threads es reason @ vs)) = owners s" using t l(2) by (simp add: owners_def)
  have a: "set_mset (ledger_slots l) \<subseteq> set (hkeys (sw_store s)) \<union> set (aborting (us @ ending_threads es reason @ vs))"
    using D(7) ledger_le_slots[OF l(1) D(1) l(3)] t by auto
  show ?thesis
    using sw_inv_move[OF inv l(1) slot_le_of_le[OF l(3)] o _ _ a] D(5,6) t by auto
qed


lemma sw_inv_claims:
  assumes inv: "sw_inv s" and c: "claim i prin (sw_now s) (sw_ledger s) = (c, l)"
  shows "sw_inv (s\<lparr>sw_ledger := l, sw_threads := claim_thread i a c @ sw_threads s\<rparr>)"
proof -
  note D = sw_invD[OF inv]
  from claim_cases[OF D(1) c]
  consider (none) "c = ClaimNotFound" "l = sw_ledger s"
    | (gone) e where "c = ClaimExpired e \<or> c = ClaimExhausted e" "ledger_ok l" "ledger_slots (sw_ledger s) = add_mset (en_slot e) (ledger_slots l)"
        "ledger_le l (sw_ledger s)"
    | (ready) e t where "c = ClaimReady t" "entry_of (sw_ledger s) i = Some e" "tk_slot t = en_slot e"
        "l = ledger_insert i (e\<lparr>en_steps := en_steps e + 1, en_in_flight := en_in_flight e + 1\<rparr>) (sw_ledger s)"
    by blast
  then show ?thesis
  proof cases
    case none
    then show ?thesis using inv by (simp add: claim_thread_def)
  next
    case gone
    show ?thesis
      using gone(1) sw_inv_takes[OF inv, of "[]" "[]" "sw_threads s" l "[(i, e)]"] gone(2-4)
      by (auto simp: claim_thread_def ending_threads_def)
  next
    case ready
    have s: "ledger_slots l = ledger_slots (sw_ledger s)" "ledger_ok l" "slot_le l (sw_ledger s)"
      using ready slots_insert_same[OF D(1) ready(2)] D(1) by (auto simp: slot_le_def)
    have cur: "is_current i (tk_slot t) l" using ready by (simp add: is_current_def)
    show ?thesis
      using sw_inv_move[OF inv s(2,3), of "Claimed i t a # sw_threads s"] D s(1) cur ready(1)
      by (auto simp: owners_def claim_thread_def)
  qed
qed

lemma exchange_step_handle: "exchange_step decode parse answer a tc p = (r, p') \<Longrightarrow> pe_handle p' = pe_handle p"
  by (auto simp: exchange_step_def take_id_def Let_def)

theorem sw_step_inv:
  assumes "sw_step s s'" "sw_inv s"
  shows "sw_inv s'"
  using assms
proof cases
  case (clock t)
  then show ?thesis using assms(2) by (simp add: sw_inv_def owners_def links_ok_def)
next
  case (registers i sl p k excl persist started)
  then show ?thesis using sw_inv_register[OF assms(2)] by (simp add: LedgerEntry_new_def)
next
  case (stays i k)
  then show ?thesis using sw_inv_registered[OF assms(2)] by (auto elim!: sw_replacesE)
next
  case (ends_at_once lck gone down reason i k e l)
  note T = take_owned_slots[OF sw_invD(1)[OF assms(2)] ends_at_once(2)]
  from ends_at_once(3) obtain us vs where "sw_threads s = us @ [Registered i k] @ vs"
    "s' = s\<lparr>sw_ledger := l, sw_threads := us @ ending_threads [(i, e)] reason @ vs\<rparr>"
    by (auto elim!: sw_replacesE simp: ending_threads_def)
  then show ?thesis using sw_inv_takes[OF assms(2), of us "[Registered i k]" vs l "[(i, e)]" reason] T by simp
next
  case (claims a i prin c l)
  then show ?thesis using sw_inv_claims[OF assms(2)] by simp
next
  case (refused i t a)
  then show ?thesis using sw_inv_goes[OF assms(2) _ _ refl, where nts = "[]"] sw_invD(1)[OF assms(2)] by (auto elim!: sw_replacesE)
next
  case (aborts i t p)
  then show ?thesis using sw_inv_aborts[OF assms(2)] by (auto elim!: sw_replacesE)
next
  case (abort_ends i t ended l p)
  then show ?thesis using sw_inv_abort_ends[OF assms(2)] by (auto elim!: sw_replacesE)
next
  case (steps a i t)
  then show ?thesis using sw_inv_goes[OF assms(2) _ _ refl, where nts = "[Stepping i t a]"] sw_invD(1)[OF assms(2)]
    by (auto elim!: sw_replacesE)
next
  case (no_code a i t)
  then show ?thesis using sw_inv_goes[OF assms(2), where nts = "[]"] release_slots[OF sw_invD(1)[OF assms(2)]]
    by (auto elim!: sw_replacesE)
next
  case (with_code a tc i t)
  let ?l = "if tc = None then sw_ledger s else note_totp i (tk_slot t) (sw_ledger s)"
  have l: "ledger_ok ?l" "ledger_slots ?l = ledger_slots (sw_ledger s)" "ledger_le ?l (sw_ledger s)"
    using note_totp_slots[OF sw_invD(1)[OF assms(2)]] sw_invD(1)[OF assms(2)] by auto
  from with_code(2) obtain us vs where u: "sw_threads s = us @ Stepping i t a # vs"
    and s': "s' = s\<lparr>sw_ledger := ?l, sw_threads := us @ [Exchanging i t a tc] @ vs\<rparr>" by (auto elim!: sw_replacesE)
  show ?thesis unfolding s' by (rule sw_inv_goes[OF assms(2) u l]) simp_all
next
  case (exchanges t p decode parse answer a tc r p' i)
  then obtain us vs where u: "sw_threads s = us @ Exchanging i t a tc # vs" and s': "s' = s\<lparr>sw_store := hinsert (tk_slot t) p' (sw_store s),
      sw_sent := (tk_slot t, step_request (pe_next_id p) a tc) # sw_sent s,
      sw_threads := us @ [Answered i t (next_after r)] @ vs\<rparr>"
    by (auto elim!: sw_replacesE)
  show ?thesis unfolding s' by (rule sw_inv_exchange[OF assms(2) exchanges(1) exchange_step_handle[OF exchanges(2)]]) (simp_all add: u)
next
  case (too_late i t nx)
  then show ?thesis using sw_inv_goes[OF assms(2) _ _ refl, where nts = "[]"] sw_invD(1)[OF assms(2)] by (auto elim!: sw_replacesE)
next
  case (continues i t r)
  then show ?thesis using sw_inv_goes[OF assms(2), where nts = "[]"] release_slots[OF sw_invD(1)[OF assms(2)]]
    by (auto elim!: sw_replacesE)
next
  case (leaves i t nx ended l p)
  then show ?thesis using sw_inv_leaves[OF assms(2)] by (auto elim!: sw_replacesE)
next
  case (expires es l)
  then show ?thesis using sw_inv_takes[OF assms(2), of "[]" "[]" "sw_threads s" l es Expired] take_ids_slots[OF sw_invD(1)[OF assms(2)]]
    by (simp add: take_expired_def)
next
  case (terminates reason ns es l)
  then show ?thesis using sw_inv_takes[OF assms(2), of "[]" "[]" "sw_threads s" l es reason] take_ids_slots[OF sw_invD(1)[OF assms(2)]]
    by (simp add: take_namespace_def)
next
  case (revokes prin es l)
  then show ?thesis using sw_inv_takes[OF assms(2), of "[]" "[]" "sw_threads s" l es PeerRevoked] take_ids_slots[OF sw_invD(1)[OF assms(2)]]
    by (simp add: take_principal_def)
next
  case (leaks i prin e l)
  then show ?thesis using sw_inv_takes[OF assms(2), of "[]" "[]" "sw_threads s" l "[(i, e)]" Rejected]
      take_owned_slots[OF sw_invD(1)[OF assms(2)] leaks(2)] by (simp add: ending_threads_def)
next
  case (ends e i reason)
  then show ?thesis using sw_inv_ends[OF assms(2)] by (auto elim!: sw_replacesE)
next
  case (stops p abort reqs i sl)
  then obtain us vs where "sw_threads s = us @ Stopping sl p abort # vs"
    "s' = s\<lparr>sw_sent := map (Pair sl) (rev reqs) @ sw_sent s, sw_stopped := pe_handle p # sw_stopped s, sw_threads := us @ vs\<rparr>"
    by (auto elim!: sw_replacesE)
  then show ?thesis using assms(2) by (simp add: sw_inv_def owners_def links_ok_def)
qed


lemma sw_run_inv: "sw_run s \<Longrightarrow> sw_inv s"
proof (induction rule: sw_run.induct)
  case (sw_starts idle mx)
  show ?case
    by (simp add: sw_inv_def sw_new_def Ledger_new_def ledger_ok_def owners_def ledger_slots_def links_ok_def hvalues_def hkeys_def hvalid_def)
next
  case (sw_steps s s')
  then show ?case using sw_step_inv by blast
qed


subsection \<open>What is sent\<close>

text \<open>
  The executors still there: in their slots, or taken out by a thread that is about to stop them.
\<close>

definition execs :: "sw_state \<Rightarrow> (slot \<times> PendingExecutor) list" where
  "execs s = sw_store s @ taken_execs (sw_threads s)"

fun thread_ok :: "sw_thread \<Rightarrow> bool" where
  "thread_ok (Claimed _ _ a) = StepAction_is_valid a"
| "thread_ok (Stepping _ _ a) = (StepAction_is_valid a \<and> a \<noteq> Abort)"
| "thread_ok (Exchanging _ _ a tc) = (StepAction_is_valid a \<and> a \<noteq> Abort \<and> code_fits a tc)"
| "thread_ok (Answered _ _ nx) = (\<forall>f. nx \<noteq> EndWith AbortedByCaller f)"
| "thread_ok (Ending _ _ reason) = (reason \<noteq> AbortedByCaller)"
| "thread_ok _ = True"

definition request_ok :: "ExecutorStepRequest \<Rightarrow> bool" where
  "request_ok r \<longleftrightarrow> st_op r = ''login_step'' \<and> StepAction_is_valid (st_action r) \<and> code_fits (st_action r) (st_totp r)"

text \<open>Nothing is sent to an executor after its abort.\<close>

fun aborts_last :: "(slot \<times> ExecutorStepRequest) list \<Rightarrow> bool" where
  "aborts_last [] = True"
| "aborts_last ((sl, r) # sent) = ((\<forall>(sl', r') \<in> set sent. sl' = sl \<longrightarrow> st_action r' \<noteq> Abort) \<and> aborts_last sent)"

definition sent_ok :: "sw_state \<Rightarrow> bool" where
  "sent_ok s \<longleftrightarrow> list_all thread_ok (sw_threads s) \<and> list_all (\<lambda>(_, r). request_ok r) (sw_sent s)
     \<and> distinct (map fst (execs s)) \<and> fst ` set (execs s) \<union> fst ` set (sw_sent s) \<subseteq> set (sw_slots s)
     \<and> (\<forall>(sl, r) \<in> set (sw_sent s). \<forall>p. (sl, p) \<in> set (execs s) \<longrightarrow> st_id r < pe_next_id p \<and> st_action r \<noteq> Abort)
     \<and> distinct (map (\<lambda>(sl, r). (sl, st_id r)) (sw_sent s)) \<and> aborts_last (sw_sent s)"

lemma sent_okD:
  assumes "sent_ok s"
  shows "list_all thread_ok (sw_threads s)" "list_all (\<lambda>(_, r). request_ok r) (sw_sent s)" "distinct (map fst (execs s))"
    "fst ` set (execs s) \<union> fst ` set (sw_sent s) \<subseteq> set (sw_slots s)"
    "(sl, r) \<in> set (sw_sent s) \<Longrightarrow> (sl, p) \<in> set (execs s) \<Longrightarrow> st_id r < pe_next_id p \<and> st_action r \<noteq> Abort"
    "distinct (map (\<lambda>(sl, r). (sl, st_id r)) (sw_sent s))" "aborts_last (sw_sent s)"
  using assms unfolding sent_ok_def by blast+

lemma ending_threads_ok [simp]: "r \<noteq> AbortedByCaller \<Longrightarrow> list_all thread_ok (ending_threads es r)"
  by (auto simp: ending_threads_def list_all_iff)

lemma claim_thread_ok [simp]:
  "StepAction_is_valid a \<Longrightarrow> list_all thread_ok (claim_thread i a c)" "taken_execs (claim_thread i a c) = []"
  by (cases c; simp add: claim_thread_def)+

lemma stop_thread_ok [simp]:
  "list_all thread_ok (leaving_thread sl p nx)" "list_all thread_ok (stopping_thread sl v r)"
  by (simp_all add: leaving_thread_def stopping_thread_def split: Next.split option.split)

lemma immediate_end_reason_cases: "immediate_end_reason lck gone down = Some r \<Longrightarrow> r \<in> {LockVault, PeerRevoked, Shutdown}"
  by (auto simp: immediate_end_reason_def split: if_splits)

lemma next_after_ok: "next_after r \<noteq> EndWith AbortedByCaller f"
  by (auto simp: next_after_def from_failure_def split: sum.splits ExecutorState.splits if_splits)

lemma mset_hremove:
  assumes "hvalid m" "hget m k = Some v"
  shows "mset m = add_mset (k, v) (mset (hremove k m))"
  using assms
proof (induction m)
  case (Cons e m)
  show ?case
  proof (cases "fst e = k")
    case True
    then have "hget m k = None" using Cons.prems(1) by (simp add: hvalid_def hget_def map_of_eq_None_iff)
    then have "hremove k m = m" by (rule hremove_absent)
    then show ?thesis using True Cons.prems(2) by (cases e) (simp add: hremove_def hget_def)
  next
    case False
    then show ?thesis using Cons by (cases e) (simp add: hremove_def hget_def hvalid_def)
  qed
qed (simp add: hget_def)

lemma distinct_submset:
  assumes "distinct ys" "mset xs \<subseteq># mset ys"
  shows "distinct xs"
proof -
  obtain zs where "mset ys = mset (xs @ zs)" using assms(2) by (metis ex_mset mset_append subset_mset.le_iff_add)
  then have "distinct (xs @ zs)" using assms(1) mset_eq_imp_distinct_iff by blast
  then show ?thesis by simp
qed

text \<open>The executors only become fewer, or move from a slot to the thread that took them.\<close>

lemma sent_ok_goes:
  assumes s: "sent_ok s" and t: "list_all thread_ok (sw_threads s')" and h: "sw_sent s' = sw_sent s" "sw_slots s' = sw_slots s"
    and x: "mset (execs s') \<subseteq># mset (execs s)"
  shows "sent_ok s'"
proof -
  have sub: "set (execs s') \<subseteq> set (execs s)" using set_mset_mono[OF x] by simp
  have "image_mset fst (mset (execs s')) \<subseteq># image_mset fst (mset (execs s))" by (rule image_mset_subseteq_mono[OF x])
  then have d: "distinct (map fst (execs s'))"
    using distinct_submset[OF sent_okD(3)[OF s], of "map fst (execs s')"] by simp
  have sl: "fst ` set (execs s') \<union> fst ` set (sw_sent s) \<subseteq> set (sw_slots s)" using sent_okD(4)[OF s] sub by blast
  have i: "\<forall>(sl, r) \<in> set (sw_sent s). \<forall>p. (sl, p) \<in> set (execs s') \<longrightarrow> st_id r < pe_next_id p \<and> st_action r \<noteq> Abort"
    using sent_okD(5)[OF s] sub by blast
  show ?thesis unfolding sent_ok_def h using sent_okD(2,6,7)[OF s] t d sl i by simp
qed

lemma sent_ok_registers:
  assumes s: "sent_ok s" and n: "sl \<notin> set (sw_slots s)"
    and s': "sw_store s' = hinsert sl p (sw_store s)" "sw_threads s' = Registered i k # sw_threads s" "sw_sent s' = sw_sent s"
      "sw_slots s' = sl # sw_slots s"
  shows "sent_ok s'"
proof -
  note D = sent_okD[OF s]
  have f: "sl \<notin> fst ` set (execs s)" "sl \<notin> fst ` set (sw_sent s)" using D(4) n by auto
  then have "hremove sl (sw_store s) = sw_store s" by (auto simp: execs_def hremove_def filter_id_conv)
  then have x: "execs s' = (sl, p) # execs s" by (simp add: execs_def s' hinsert_def hremove_def)
  have "st_id r < pe_next_id q \<and> st_action r \<noteq> Abort" if "(sl', r) \<in> set (sw_sent s)" "(sl', q) \<in> set (execs s')" for sl' r q
    using that f D(5)[of sl' r q] unfolding x by force
  then show ?thesis using D f unfolding sent_ok_def s' x by auto
qed

text \<open>A request with the next id of an executor that goes on, or that is gone after its abort.\<close>

lemma sent_ok_sends:
  assumes s: "sent_ok s" and p: "(sl, p) \<in> set (execs s)" and r: "request_ok r" "st_id r = pe_next_id p"
    and t: "list_all thread_ok (sw_threads s')" and s': "sw_sent s' = (sl, r) # sw_sent s" "sw_slots s' = sw_slots s"
    and d: "distinct (map fst (execs s'))"
    and x: "\<And>sl' q. (sl', q) \<in> set (execs s') \<Longrightarrow> (sl' \<noteq> sl \<and> (sl', q) \<in> set (execs s)) \<or> (sl' = sl \<and> st_action r \<noteq> Abort \<and> pe_next_id p < pe_next_id q)"
  shows "sent_ok s'"
proof -
  note D = sent_okD[OF s]
  have new: "(sl, st_id r) \<notin> set (map (\<lambda>(sl, r). (sl, st_id r)) (sw_sent s))" using D(5)[OF _ p] r(2) by fastforce
  have sl: "sl \<in> set (sw_slots s)" using D(4) p by force
  have a: "\<forall>(sl', r') \<in> set (sw_sent s). sl' = sl \<longrightarrow> st_action r' \<noteq> Abort" using D(5)[OF _ p] by blast
  have e: "fst ` set (execs s') \<subseteq> set (sw_slots s)" using x D(4) sl by fastforce
  have i: "st_id r' < pe_next_id q \<and> st_action r' \<noteq> Abort" if "(sl', r') \<in> set (sw_sent s')" "(sl', q) \<in> set (execs s')" for sl' r' q
  proof (cases "(sl', r') = (sl, r)")
    case True
    then show ?thesis using x[OF that(2)] r(2) by simp
  next
    case False
    then have "(sl', r') \<in> set (sw_sent s)" using that(1) by (auto simp: s')
    then show ?thesis using x[OF that(2)] D(5)[of sl' r' q] D(5)[OF _ p, of r'] by fastforce
  qed
  have "\<forall>(sl', r') \<in> set (sw_sent s'). \<forall>q. (sl', q) \<in> set (execs s') \<longrightarrow> st_id r' < pe_next_id q \<and> st_action r' \<noteq> Abort"
    using i by blast
  then show ?thesis
    unfolding sent_ok_def s'(2) using D(2,4,6,7) r(1) t d new sl a e unfolding s'(1) by simp
qed

lemma stop_pending_eq: "stop_pending p abort =
    (if abort then ([step_request (pe_next_id p) Abort None], pe_next_id p + 1) else ([], pe_next_id p))"
  by (simp add: stop_pending_def take_id_def)

lemma execs_keys: "set (execs s) = set (sw_store s) \<union> set (taken_execs (sw_threads s))"
  by (simp add: execs_def)

lemma sent_ok_exchanges:
  assumes s: "sent_ok s" and v: "hvalid (sw_store s)" and t: "sw_threads s = us @ Exchanging i t a tc # vs"
    and p: "hget (sw_store s) (tk_slot t) = Some p" and e: "exchange_step decode parse answer a tc p = (r, p')"
  shows "sent_ok (s\<lparr>sw_store := hinsert (tk_slot t) p' (sw_store s), sw_sent := (tk_slot t, step_request (pe_next_id p) a tc) # sw_sent s,
      sw_threads := us @ [Answered i t (next_after r)] @ vs\<rparr>)" (is "sent_ok ?s")
proof (rule sent_ok_sends[OF s])
  note D = sent_okD[OF s]
  have p': "pe_next_id p' = pe_next_id p + 1" using e by (auto simp: exchange_step_def take_id_def Let_def)
  have m: "(tk_slot t, p) \<in> set (sw_store s)" using p by (simp add: hget_mem)
  then show "(tk_slot t, p) \<in> set (execs s)" by (simp add: execs_def)
  show "request_ok (step_request (pe_next_id p) a tc)" using D(1) t by (simp add: request_ok_def step_request_def)
  show "list_all thread_ok (sw_threads ?s)" using D(1) t next_after_ok by simp
  have "mset (map fst (execs ?s)) = mset (map fst (execs s))"
    using arg_cong[OF mset_hremove[OF v p], of "image_mset fst"] by (simp add: execs_def t hinsert_def hremove_def)
  then show "distinct (map fst (execs ?s))" using D(3) mset_eq_imp_distinct_iff by blast
  show "(sl' \<noteq> tk_slot t \<and> (sl', q) \<in> set (execs s)) \<or> (sl' = tk_slot t \<and> st_action (step_request (pe_next_id p) a tc) \<noteq> Abort \<and> pe_next_id p < pe_next_id q)"
    if "(sl', q) \<in> set (execs ?s)" for sl' q
  proof -
    have "(tk_slot t, q') \<notin> set (taken_execs (sw_threads s))" for q' using D(3) m by (force simp: execs_def)
    then show ?thesis using that D(1) t p' by (auto simp: execs_def hinsert_def hremove_def step_request_def)
  qed
qed (simp_all add: step_request_def)

lemma sent_ok_stops:
  assumes s: "sent_ok s" and t: "sw_threads s = us @ Stopping sl p abort # vs" and p: "stop_pending p abort = (reqs, i)"
  shows "sent_ok (s\<lparr>sw_sent := map (Pair sl) (rev reqs) @ sw_sent s, sw_stopped := st, sw_threads := us @ vs\<rparr>)" (is "sent_ok ?s")
proof -
  note D = sent_okD[OF s]
  have x: "mset (execs s) = add_mset (sl, p) (mset (execs ?s))" by (simp add: execs_def t)
  then have sub: "mset (execs ?s) \<subseteq># mset (execs s)" by simp
  have ts: "list_all thread_ok (us @ vs)" using D(1) t by simp
  show ?thesis
  proof (cases abort)
    case False
    then show ?thesis using sent_ok_goes[OF s _ _ _ sub] ts p by (simp add: stop_pending_eq)
  next
    case True
    have d: "distinct (map fst (execs ?s))" "sl \<notin> fst ` set (execs ?s)"
    proof -
      have "mset (map fst (execs s)) = mset (sl # map fst (execs ?s))" using arg_cong[OF x, of "image_mset fst"] by simp
      then have "distinct (sl # map fst (execs ?s))" using D(3) mset_eq_imp_distinct_iff by blast
      then show "distinct (map fst (execs ?s))" "sl \<notin> fst ` set (execs ?s)" by simp_all
    qed
    have m: "set (execs s) = insert (sl, p) (set (execs ?s))" using x by (metis set_mset_add_mset_insert set_mset_mset)
    have q: "reqs = [step_request (pe_next_id p) Abort None]" using p True by (simp add: stop_pending_eq)
    show ?thesis
    proof (rule sent_ok_sends[OF s])
      show "(sl, p) \<in> set (execs s)" using m by simp
      show "(sl' \<noteq> sl \<and> (sl', q) \<in> set (execs s)) \<or> (sl' = sl \<and> st_action (step_request (pe_next_id p) Abort None) \<noteq> Abort \<and> pe_next_id p < pe_next_id q)"
        if "(sl', q) \<in> set (execs ?s)" for sl' q using that d(2) m by force
    qed (use q ts d(1) in \<open>simp_all add: step_request_def request_ok_def StepAction_is_valid_def code_fits_def\<close>)
  qed
qed

text \<open>An executor that is taken out of its slot stays among those that are there until it is stopped.\<close>

lemma execs_taken:
  assumes "hvalid (sw_store s)" "hget (sw_store s) sl = Some p" "sw_store s' = hremove sl (sw_store s)"
    and "mset (taken_execs (sw_threads s')) \<subseteq># add_mset (sl, p) (mset (taken_execs (sw_threads s)))"
  shows "mset (execs s') \<subseteq># mset (execs s)"
proof -
  have "mset (execs s) = mset (sw_store s') + add_mset (sl, p) (mset (taken_execs (sw_threads s)))"
    using mset_hremove[OF assms(1,2)] by (simp add: execs_def assms(3))
  then show ?thesis using assms(4) by (simp add: execs_def)
qed

lemma sent_ok_leaves:
  assumes inv: "sw_inv s" and s: "sent_ok s" and t: "sw_threads s = us @ t # vs" "taken_by t = []"
    and n: "list_all thread_ok nts"
      "mset (taken_execs nts) \<subseteq># (case hget (sw_store s) sl of None \<Rightarrow> {#} | Some p \<Rightarrow> {#(sl, p)#})"
    and s': "sw_store s' = hremove sl (sw_store s)" "sw_threads s' = us @ nts @ vs" "sw_sent s' = sw_sent s" "sw_slots s' = sw_slots s"
  shows "sent_ok s'"
proof (rule sent_ok_goes[OF s _ s'(3,4)])
  show "list_all thread_ok (sw_threads s')" using sent_okD(1)[OF s] t(1) n(1) by (simp add: s')
  show "mset (execs s') \<subseteq># mset (execs s)"
  proof (cases "hget (sw_store s) sl")
    case None
    then show ?thesis using n(2) t by (simp add: execs_def s' hremove_absent)
  next
    case (Some p)
    then have "mset (taken_execs nts) + mset (taken_execs us @ taken_execs vs) \<subseteq># {#(sl, p)#} + mset (taken_execs us @ taken_execs vs)"
      using n(2) by (intro subset_mset.add_right_mono) simp
    then have "mset (taken_execs (sw_threads s')) \<subseteq># add_mset (sl, p) (mset (taken_execs (sw_threads s)))"
      using t by (simp add: s' ac_simps)
    then show ?thesis by (rule execs_taken[OF sw_invD(2)[OF inv] Some s'(1)])
  qed
qed

lemma sw_step_sent:
  assumes "sw_step s s'" "sw_inv s" "sent_ok s"
  shows "sent_ok s'"
  using assms(1)
proof cases
  case (registers i sl p k excl persist started)
  then show ?thesis using sent_ok_registers[OF assms(3)] by simp
next
  case (ends_at_once lck gone down reason i k e l)
  then show ?thesis using sent_okD(1)[OF assms(3)] immediate_end_reason_cases[OF ends_at_once(1)]
    by (auto elim!: sw_replacesE intro!: sent_ok_goes[OF assms(3)] simp: execs_def)
next
  case (aborts i t p)
  then obtain us vs where u: "sw_threads s = us @ Claimed i t Abort # vs" and "s' = s\<lparr>sw_store := hremove (tk_slot t) (sw_store s),
      sw_out := pe_handle p # sw_out s, sw_threads := us @ [Aborting i t p] @ vs\<rparr>" by (auto elim!: sw_replacesE)
  then show ?thesis by (intro sent_ok_leaves[OF assms(2,3) u, where sl = "tk_slot t" and nts = "[Aborting i t p]"]) (simp_all add: aborts(2))
next
  case (abort_ends i t ended l p)
  then show ?thesis using sent_okD(1)[OF assms(3)] by (auto elim!: sw_replacesE intro!: sent_ok_goes[OF assms(3)] simp: execs_def)
next
  case (exchanges t p decode parse answer a tc r p' i)
  then obtain us vs where u: "sw_threads s = us @ Exchanging i t a tc # vs" and s': "s' = s\<lparr>sw_store := hinsert (tk_slot t) p' (sw_store s),
      sw_sent := (tk_slot t, step_request (pe_next_id p) a tc) # sw_sent s, sw_threads := us @ [Answered i t (next_after r)] @ vs\<rparr>"
    by (auto elim!: sw_replacesE)
  show ?thesis unfolding s' by (rule sent_ok_exchanges[OF assms(3) sw_invD(2)[OF assms(2)] u exchanges(1,2)])
next
  case (leaves i t nx ended l p)
  then obtain us vs where u: "sw_threads s = us @ Answered i t nx # vs" and "s' = s\<lparr>sw_ledger := l, sw_store := hremove (tk_slot t) (sw_store s),
      sw_out := pe_handle p # sw_out s, sw_threads := us @ leaving_thread (tk_slot t) p nx @ vs\<rparr>" by (auto elim!: sw_replacesE)
  then show ?thesis
    by (intro sent_ok_leaves[OF assms(2,3) u, where sl = "tk_slot t" and nts = "leaving_thread (tk_slot t) p nx"])
      (simp_all add: leaves(4), simp add: leaving_thread_def split: Next.split)
next
  case (ends e i reason)
  let ?n = "stopping_thread (en_slot e) (hget (sw_store s) (en_slot e)) reason"
  obtain us vs where u: "sw_threads s = us @ Ending i e reason # vs" and "sw_store s' = hremove (en_slot e) (sw_store s)"
    "sw_threads s' = us @ ?n @ vs" "sw_sent s' = sw_sent s" "sw_slots s' = sw_slots s"
    using ends(2) by (auto elim!: sw_replacesE)
  then show ?thesis
    by (intro sent_ok_leaves[OF assms(2,3) u, where sl = "en_slot e" and nts = ?n])
      (simp_all, simp add: stopping_thread_def split: option.split)
next
  case (stops p abort reqs i sl)
  then obtain us vs where "sw_threads s = us @ Stopping sl p abort # vs"
    "s' = s\<lparr>sw_sent := map (Pair sl) (rev reqs) @ sw_sent s, sw_stopped := pe_handle p # sw_stopped s, sw_threads := us @ vs\<rparr>"
    by (auto elim!: sw_replacesE)
  then show ?thesis using sent_ok_stops[OF assms(3) _ stops(1)] by simp
qed (use sent_okD(1)[OF assms(3)] in \<open>auto elim!: sw_replacesE intro!: sent_ok_goes[OF assms(3)] simp: execs_def\<close>)

lemma sw_run_sent: "sw_run s \<Longrightarrow> sent_ok s"
proof (induction rule: sw_run.induct)
  case (sw_starts idle mx)
  show ?case by (simp add: sent_ok_def sw_new_def execs_def)
next
  case (sw_steps s s')
  then show ?case using sw_step_sent sw_run_inv by blast
qed

subsection \<open>The step budget\<close>

text \<open>
  \<open>used\<close> counts what was sent through a slot and what still may be: the requests written, and the
  claims that wait for the slot or hold it.
\<close>

definition used :: "sw_state \<Rightarrow> slot \<Rightarrow> nat" where
  "used s sl = count_list (map fst (sw_sent s)) sl + count_list (waiting (sw_threads s)) sl"

definition budget_ok :: "sw_state \<Rightarrow> bool" where
  "budget_ok s \<longleftrightarrow> (\<forall>sl. used s sl \<le> MAX_STEPS)
     \<and> (\<forall>i e. entry_of (sw_ledger s) i = Some e \<longrightarrow> used s (en_slot e) \<le> en_steps e \<and> en_steps e \<le> MAX_STEPS)"

lemma waiting_slots: "set (waiting ts) \<subseteq> snd ` set (links ts) \<union> fst ` set (taken_execs ts)"
proof (induction ts)
  case (Cons t ts)
  then show ?case by (cases t) auto
qed simp

lemma slot_unused:
  assumes "sw_inv s" "sent_ok s" "sl \<notin> set (sw_slots s)"
  shows "used s sl = 0"
proof -
  have k: "fst ` set (taken_execs (sw_threads s)) \<subseteq> set (sw_slots s)" "fst ` set (sw_sent s) \<subseteq> set (sw_slots s)"
    using sent_okD(4)[OF assms(2)] by (auto simp: execs_def)
  have "set (waiting (sw_threads s)) \<subseteq> set (sw_slots s)" using waiting_slots[of "sw_threads s"] sw_invD(9)[OF assms(1)] k(1) by blast
  then have "sl \<notin> set (waiting (sw_threads s))" "sl \<notin> set (map fst (sw_sent s))" using assms(3) k(2) by auto
  then show ?thesis by (simp add: used_def count_list_0_iff)
qed

lemma budget_mono:
  assumes "budget_ok s" "ledger_le (sw_ledger s') (sw_ledger s)" "\<And>sl. used s' sl \<le> used s sl"
  shows "budget_ok s'"
  using assms unfolding budget_ok_def ledger_le_def by (metis le_trans)

lemma count_list_append [simp]: "count_list (xs @ ys) x = count_list xs x + count_list ys x"
  by (induction xs) auto

text \<open>A thread goes on: its wait may end, or turn into a request that was sent.\<close>

lemma budget_goes:
  assumes "budget_ok s" "sw_threads s = us @ t # vs" "sw_threads s' = us @ nts @ vs"
    "ledger_le (sw_ledger s') (sw_ledger s)"
    "\<And>sl. count_list (map fst (sw_sent s')) sl + count_list (waiting nts) sl \<le> count_list (map fst (sw_sent s)) sl + count_list (waits_on t) sl"
  shows "budget_ok s'"
proof (rule budget_mono[OF assms(1,4)])
  show "used s' sl \<le> used s sl" for sl using assms(5)[of sl] by (simp add: used_def assms(2,3))
qed

lemma budget_register:
  assumes "sw_inv s" "sent_ok s" "budget_ok s" "sl \<notin> set (sw_slots s)" "en_slot e = sl" "en_steps e = 0"
    "sw_ledger s' = ledger_insert i e (sw_ledger s)" "sw_sent s' = sw_sent s" "sw_threads s' = Registered i k # sw_threads s"
  shows "budget_ok s'"
proof -
  have "used s' x = used s x" for x by (simp add: used_def assms(8,9))
  then show ?thesis using assms(3,5-7) slot_unused[OF assms(1,2,4)] by (auto simp: budget_ok_def)
qed

lemma budget_claims:
  assumes inv: "sw_inv s" and b: "budget_ok s" and c: "claim i prin (sw_now s) (sw_ledger s) = (c, l)"
  shows "budget_ok (s\<lparr>sw_ledger := l, sw_threads := claim_thread i a c @ sw_threads s\<rparr>)" (is "budget_ok ?s")
proof -
  note D = sw_invD[OF inv]
  from claim_cases[OF D(1) c]
  consider (none) "c = ClaimNotFound" "l = sw_ledger s"
    | (gone) e where "c = ClaimExpired e \<or> c = ClaimExhausted e" "ledger_le l (sw_ledger s)"
    | (ready) e t where "c = ClaimReady t" "entry_of (sw_ledger s) i = Some e" "tk_slot t = en_slot e" "en_steps e < MAX_STEPS"
        "l = ledger_insert i (e\<lparr>en_steps := en_steps e + 1, en_in_flight := en_in_flight e + 1\<rparr>) (sw_ledger s)"
    by blast
  then show ?thesis
  proof cases
    case ready
    have u: "used ?s x = used s x + (if x = en_slot e then 1 else 0)" for x
      using ready(1,3) by (simp add: used_def claim_thread_def)
    have e: "used s (en_slot e) \<le> en_steps e" using b ready(2) unfolding budget_ok_def by blast
    have one: "count (ledger_slots (sw_ledger s)) (en_slot e) \<le> 1" using D(3)[of "en_slot e"] by (simp add: owners_def)
    have o: "en_slot e' \<noteq> en_slot e" if "entry_of (sw_ledger s) j = Some e'" "j \<noteq> i" for j e'
      using slot_unique[OF D(1) one ready(2) that(1)] that(2) by blast
    show ?thesis
      unfolding budget_ok_def
    proof (intro conjI allI impI)
      fix x show "used ?s x \<le> MAX_STEPS" using b e ready(4) u[of x] by (auto simp: budget_ok_def)
    next
      fix j e' assume "entry_of (sw_ledger ?s) j = Some e'"
      then show "used ?s (en_slot e') \<le> en_steps e'" "en_steps e' \<le> MAX_STEPS"
        using b e o[of j e'] ready(4,5) u by (auto simp: budget_ok_def split: if_splits)
    qed
  qed (use b in \<open>auto intro!: budget_mono[OF b] simp: used_def claim_thread_def\<close>)
qed

lemma sw_step_budget:
  assumes "sw_step s s'" "sw_inv s" "budget_ok s" "sent_ok s"
  shows "budget_ok s'"
  using assms(1)
proof cases
  case (clock t)
  then show ?thesis using budget_mono[OF assms(3)] by (simp add: used_def)
next
  case (registers i sl p k excl persist started)
  then show ?thesis by (intro budget_register[OF assms(2,4,3)]) (auto simp: LedgerEntry_new_def)
next
  case (stays i k)
  then show ?thesis by (auto elim!: sw_replacesE intro!: budget_goes[OF assms(3), where nts = "[]"])
next
  case (ends_at_once lck gone down reason i k e l)
  then show ?thesis using take_owned_slots(3)[OF sw_invD(1)[OF assms(2)] ends_at_once(2)]
    by (auto elim!: sw_replacesE intro!: budget_goes[OF assms(3), where nts = "[Ending i e reason]"])
next
  case (claims a i prin c l)
  then show ?thesis using budget_claims[OF assms(2,3)] by simp
next
  case (refused i t a)
  then show ?thesis by (auto elim!: sw_replacesE intro!: budget_goes[OF assms(3), where nts = "[]"])
next
  case (aborts i t p)
  then show ?thesis by (auto elim!: sw_replacesE intro!: budget_goes[OF assms(3), where nts = "[Aborting i t p]"])
next
  case (abort_ends i t ended l p)
  then have "ledger_le l (sw_ledger s)" by (auto simp: remove_current_def split: if_splits)
  then show ?thesis using abort_ends(2) by (auto elim!: sw_replacesE intro!: budget_goes[OF assms(3), where nts = "[Stopping (tk_slot t) p True]"])
next
  case (steps a i t)
  then show ?thesis by (auto elim!: sw_replacesE intro!: budget_goes[OF assms(3), where nts = "[Stepping i t a]"])
next
  case (no_code a i t)
  then show ?thesis using release_slots(3)[OF sw_invD(1)[OF assms(2)]]
    by (auto elim!: sw_replacesE intro!: budget_goes[OF assms(3), where nts = "[]"])
next
  case (with_code a tc i t)
  then show ?thesis using note_totp_slots(3)[OF sw_invD(1)[OF assms(2)]]
    by (auto elim!: sw_replacesE intro!: budget_goes[OF assms(3), where nts = "[Exchanging i t a tc]"])
next
  case (exchanges t p decode parse answer a tc r p' i)
  then show ?thesis
    by (auto elim!: sw_replacesE intro!: budget_goes[OF assms(3), where nts = "[Answered i t (next_after r)]"])
next
  case (too_late i t nx)
  then show ?thesis by (auto elim!: sw_replacesE intro!: budget_goes[OF assms(3), where nts = "[]"])
next
  case (continues i t r)
  then show ?thesis using release_slots(3)[OF sw_invD(1)[OF assms(2)]]
    by (auto elim!: sw_replacesE intro!: budget_goes[OF assms(3), where nts = "[]"])
next
  case (leaves i t nx ended l p)
  then have l: "ledger_le l (sw_ledger s)" by (auto simp: remove_current_def)
  have "waiting (leaving_thread (tk_slot t) p nx) = []" using leaves(5) sent_okD(1)[OF assms(4)]
    by (auto elim!: sw_replacesE simp: leaving_thread_def split: Next.split)
  then show ?thesis using l leaves(5)
    by (auto elim!: sw_replacesE intro!: budget_goes[OF assms(3), where nts = "leaving_thread (tk_slot t) p nx"])
next
  case (expires es l)
  then show ?thesis using take_ids_slots[OF sw_invD(1)[OF assms(2)]] by (auto intro!: budget_mono[OF assms(3)] simp: used_def take_expired_def)
next
  case (terminates reason ns es l)
  then show ?thesis using take_ids_slots[OF sw_invD(1)[OF assms(2)]] by (auto intro!: budget_mono[OF assms(3)] simp: used_def take_namespace_def)
next
  case (revokes prin es l)
  then show ?thesis using take_ids_slots[OF sw_invD(1)[OF assms(2)]] by (auto intro!: budget_mono[OF assms(3)] simp: used_def take_principal_def)
next
  case (leaks i prin e l)
  then show ?thesis using take_owned_slots(3)[OF sw_invD(1)[OF assms(2)] leaks(2)] by (auto intro!: budget_mono[OF assms(3)] simp: used_def)
next
  case (ends e i reason)
  let ?n = "stopping_thread (en_slot e) (hget (sw_store s) (en_slot e)) reason"
  have "waiting ?n = []" using ends(2) sent_okD(1)[OF assms(4)] by (auto elim!: sw_replacesE simp: stopping_thread_def split: option.split)
  then show ?thesis using ends(2) by (auto elim!: sw_replacesE intro!: budget_goes[OF assms(3), where nts = ?n])
next
  case (stops p abort reqs i sl)
  then show ?thesis by (auto elim!: sw_replacesE intro!: budget_goes[OF assms(3), where nts = "[]"] simp: stop_pending_eq split: if_splits)
qed

lemma sw_run_budget: "sw_run s \<Longrightarrow> budget_ok s"
proof (induction rule: sw_run.induct)
  case (sw_starts idle mx)
  show ?case by (simp add: budget_ok_def used_def sw_new_def Ledger_new_def)
next
  case (sw_steps s s')
  then show ?case using sw_step_budget sw_run_inv sw_run_sent by blast
qed



subsection \<open>Properties\<close>

text \<open>
  C13: Every executor launched for a stepwise login is in exactly one place at any moment: in its slot, or out of it to be
  stopped or handed over as a session. A full slot has exactly one owner, a ledger entry or a thread that ends the
  login, so nothing else can leave it behind, and once no handler is under way the slots that are full are exactly
  those of the logins in the ledger.
\<close>

theorem no_stepwise_executor_is_lost:
  assumes "sw_run s"
  shows "mset (map pe_handle (hvalues (sw_store s))) + mset (sw_out s) = mset (sw_launched s) \<and> distinct (sw_launched s)
    \<and> (\<forall>sl \<in> set (hkeys (sw_store s)). count (owners s) sl = 1)
    \<and> (sw_threads s = [] \<longrightarrow> (\<forall>sl. sl \<in> set (hkeys (sw_store s)) \<longleftrightarrow> (\<exists>i e. hget (lg_entries (sw_ledger s)) i = Some e \<and> en_slot e = sl)))"
proof -
  note D = sw_invD[OF sw_run_inv[OF assms]]
  have one: "count (owners s) sl = 1" if "sl \<in> set (hkeys (sw_store s))" for sl
  proof -
    have "sl \<in># owners s" using D(4) that by blast
    then have "0 < count (owners s) sl" by (simp add: count_greater_zero_iff)
    then show ?thesis using D(3)[of sl] by linarith
  qed
  have "sl \<in> set (hkeys (sw_store s)) \<longleftrightarrow> sl \<in># ledger_slots (sw_ledger s)" if "sw_threads s = []" for sl
    using D(4,7) that by (auto simp: owners_def)
  then show ?thesis using D(1,10,11) one slots_iff[OF D(1)] by simp
qed

lemma sent_through: "length (filter (\<lambda>x. fst x = sl) sent) = count_list (map fst sent) sl"
  by (simp add: count_list_eq_length_filter filter_map o_def eq_commute)

text \<open>The requests sent after an abort went to other executors.\<close>

lemma aborts_last_split: "aborts_last sent \<Longrightarrow> sent = xs @ (sl, r) # ys \<Longrightarrow> st_action r = Abort \<Longrightarrow> (sl, r') \<notin> set xs"
proof (induction sent arbitrary: xs)
  case (Cons x sent)
  then show ?case by (cases xs; cases x) auto
qed simp

lemma aborting_taken: "set (aborting ts) \<subseteq> fst ` set (taken_execs ts)"
proof (induction ts)
  case (Cons t ts)
  then show ?case by (cases t) auto
qed simp

lemma ledger_slot_execs: "sw_inv s \<Longrightarrow> set_mset (ledger_slots (sw_ledger s)) \<subseteq> fst ` set (execs s)"
  using sw_invD(7)[of s] aborting_taken[of "sw_threads s"] by (fastforce simp: execs_def hkeys_def)

lemma aborted_slot_is_gone:
  assumes "sw_inv s" "sent_ok s" "(sl, r) \<in> set (sw_sent s)" "st_action r = Abort"
  shows "hget (sw_store s) sl = None" "\<not> is_current i sl (sw_ledger s)"
proof -
  have "sl \<notin> fst ` set (execs s)" using sent_okD(5)[OF assms(2,3)] assms(4) by force
  then show "hget (sw_store s) sl = None" "\<not> is_current i sl (sw_ledger s)"
    using ledger_slot_execs[OF assms(1)] is_current_slot[of i sl "sw_ledger s"] by (auto simp: execs_def hget_def map_of_eq_None_iff)
qed

text \<open>
  C14: At most \<open>MAX_STEPS\<close> step requests ever go to the executor of one login, however many steps are claimed at
  once, the abort that \<open>stop_pending\<close> sends when the caller gives up among them, and no two of them carry the same
  request id. Each names only valid targets and carries a one-time code only when its action fills one in. An abort is
  the last step request to its executor: nothing was sent to it afterwards, it is out of its slot, and the login is out
  of the ledger.
\<close>

theorem stepwise_requests_are_bounded:
  assumes "sw_run s"
  shows "(\<forall>sl. length (filter (\<lambda>x. fst x = sl) (sw_sent s)) \<le> MAX_STEPS)
    \<and> distinct (map (\<lambda>(sl, r). (sl, st_id r)) (sw_sent s))
    \<and> (\<forall>(sl, r) \<in> set (sw_sent s). StepAction_is_valid (st_action r) \<and> (st_totp r \<noteq> None \<longrightarrow> needs_totp (st_action r)))
    \<and> (\<forall>xs sl r ys. sw_sent s = xs @ (sl, r) # ys \<longrightarrow> st_action r = Abort \<longrightarrow>
         (\<forall>r'. (sl, r') \<notin> set xs) \<and> hget (sw_store s) sl = None \<and> (\<forall>i. \<not> is_current i sl (sw_ledger s)))"
proof -
  note D = sent_okD[OF sw_run_sent[OF assms]]
  have "length (filter (\<lambda>x. fst x = sl) (sw_sent s)) \<le> MAX_STEPS" for sl
    using sw_run_budget[OF assms] unfolding budget_ok_def used_def sent_through by (metis add_leD1)
  moreover have "\<forall>(sl, r) \<in> set (sw_sent s). StepAction_is_valid (st_action r) \<and> (st_totp r \<noteq> None \<longrightarrow> needs_totp (st_action r))"
    using D(2) by (auto simp: list_all_iff request_ok_def code_fits_def)
  moreover have "(sl, r') \<notin> set xs \<and> hget (sw_store s) sl = None \<and> \<not> is_current i sl (sw_ledger s)"
    if "sw_sent s = xs @ (sl, r) # ys" "st_action r = Abort" for xs sl r ys r' i
    using aborts_last_split[OF D(7) that] aborted_slot_is_gone[OF sw_run_inv[OF assms] sw_run_sent[OF assms], of sl r] that by simp
  ultimately show ?thesis using D(6) by auto
qed


text \<open>A run with one step taken: registered, claimed, sent to the executor and not answered.\<close>

definition demo_key :: BrowserKey where
  "demo_key = \<lparr>principal = ''p'', namespace = ''n'', cred_id = ''c''\<rparr>"

definition demo_run :: "nat \<Rightarrow> sw_thread list \<Rightarrow> nat \<Rightarrow> (slot \<times> ExecutorStepRequest) list \<Rightarrow> sw_state" where
  "demo_run n ts i sent = \<lparr>sw_ledger = \<lparr>lg_entries = [(''l'', (LedgerEntry_new demo_key False False 0 0 0)\<lparr>en_steps := n, en_in_flight := n\<rparr>)],
       lg_idle = 10, lg_max = 10\<rparr>, sw_store = [(0, \<lparr>pe_handle = 7, pe_next_id = i\<rparr>)], sw_threads = ts, sw_now = 0, sw_sent = sent, sw_out = [], sw_stopped = [],
     sw_slots = [0], sw_launched = [7]\<rparr>"

definition demo_ticket :: Ticket where
  "demo_ticket = \<lparr>tk_key = demo_key, tk_exclusive = False, tk_persist_cookies = False, tk_browser_started_at = 0, tk_slot = 0\<rparr>"

definition demo_sent :: "(slot \<times> ExecutorStepRequest) list" where
  "demo_sent = [(0, step_request 2 Snapshot None)]"

lemma sw_replaces_single: "sw_threads s = [t] \<Longrightarrow> s' = s\<lparr>sw_threads := n\<rparr> \<Longrightarrow> sw_replaces s t n s'"
  unfolding sw_replaces_def by (rule exI[of _ "[]"], rule exI[of _ "[]"]) simp

lemma demo_registered: "sw_run (demo_run 0 [] 2 [])"
proof -
  have "sw_run (demo_run 0 [Registered ''l'' demo_key] 2 [])"
    using sw_run.sw_steps[OF sw_run.sw_starts sw_step.registers[of "sw_new 10 10" "''l''" 0 "\<lparr>pe_handle = 7, pe_next_id = 2\<rparr>" demo_key False False 0]]
    by (simp add: demo_run_def sw_new_def Ledger_new_def ledger_insert_def LedgerEntry_new_def hinsert_def)
  then show ?thesis
    by (rule sw_run.sw_steps[OF _ sw_step.stays[OF sw_replaces_single]]) (simp_all add: demo_run_def)
qed

lemma demo_claimed: "sw_run (demo_run 1 [Claimed ''l'' demo_ticket Snapshot] 2 [])"
  using sw_run.sw_steps[OF demo_registered sw_step.claims[of Snapshot "''l''" "''p''" "demo_run 0 [] 2 []"]]
  by (simp add: demo_run_def claim_def entry_expired_def LedgerEntry_new_def demo_key_def demo_ticket_def MAX_STEPS_def claim_thread_def
      ledger_insert_def hinsert_def hget_def StepAction_is_valid_def Let_def)

lemma demo_stepped: "sw_run (demo_run 1 [Answered ''l'' demo_ticket (next_after (Inl (failure_of Internal)))] 3 demo_sent)"
proof -
  have "sw_run (demo_run 1 [Stepping ''l'' demo_ticket Snapshot] 2 [])"
    by (rule sw_run.sw_steps[OF demo_claimed sw_step.steps[OF _ _ _ _ sw_replaces_single]])
      (simp_all add: demo_run_def is_current_def LedgerEntry_new_def demo_ticket_def hcontains_def hget_def)
  then have "sw_run (demo_run 1 [Exchanging ''l'' demo_ticket Snapshot None] 2 [])"
    by (rule sw_run.sw_steps[OF _ sw_step.with_code[where tc = None, OF _ sw_replaces_single]]) (simp_all add: demo_run_def code_fits_def)
  moreover have "sw_step (demo_run 1 [Exchanging ''l'' demo_ticket Snapshot None] 2 [])
      (demo_run 1 [Answered ''l'' demo_ticket (next_after (Inl (failure_of Internal)))] 3 demo_sent)"
  proof (rule sw_step.exchanges)
    show "hget (sw_store (demo_run 1 [Exchanging ''l'' demo_ticket Snapshot None] 2 [])) (tk_slot demo_ticket) = Some \<lparr>pe_handle = 7, pe_next_id = 2\<rparr>"
      by (simp add: demo_run_def demo_ticket_def hget_def)
    show "exchange_step (\<lambda>_. None) (\<lambda>_. None) (\<lambda>_. None) Snapshot None \<lparr>pe_handle = 7, pe_next_id = 2\<rparr>
        = (Inl (failure_of Internal), \<lparr>pe_handle = 7, pe_next_id = 3\<rparr>)"
      by (simp add: exchange_step_def take_id_def)
  qed (rule sw_replaces_single, simp_all add: demo_run_def demo_ticket_def demo_sent_def hinsert_def)
  ultimately show ?thesis by (rule sw_run.sw_steps)
qed

theorem no_stepwise_executor_is_lost_witness:
  "sw_run (demo_run 0 [] 2 []) \<and> count (owners (demo_run 0 [] 2 [])) 0 = 1"
  using no_stepwise_executor_is_lost[OF demo_registered] demo_registered by (simp add: demo_run_def hkeys_def)

theorem stepwise_requests_are_bounded_witness:
  "sw_run (demo_run 1 [Answered ''l'' demo_ticket (next_after (Inl (failure_of Internal)))] 3 demo_sent)
    \<and> length (filter (\<lambda>x. fst x = 0) demo_sent) \<le> MAX_STEPS"
  using stepwise_requests_are_bounded[OF demo_stepped] demo_stepped by (simp add: demo_run_def)


subsection \<open>A lock ends its logins\<close>

text \<open>
  Once a login is out of the ledger, what can still be sent to its executor is the request of the step that is under
  way, or the abort of a caller that gave up before.
\<close>

fun sends_by :: "sw_thread \<Rightarrow> slot list" where
  "sends_by (Stepping _ t _) = [tk_slot t]"
| "sends_by (Exchanging _ t _ _) = [tk_slot t]"
| "sends_by (Aborting _ t _) = [tk_slot t]"
| "sends_by (Stopping sl _ abort) = (if abort then [sl] else [])"
| "sends_by _ = []"

definition sending :: "sw_thread list \<Rightarrow> slot list" where "sending ts = concat (map sends_by ts)"

lemma sending_lists [simp]:
  "sending (ts @ us) = sending ts @ sending us" "sending (t # ts) = sends_by t @ sending ts" "sending [] = []"
  "sending (ending_threads es r) = []" "sending (claim_thread i a c) = []"
  by (simp_all add: sending_def ending_threads_def claim_thread_def split_def comp_def split: Claim.split)

definition sendable :: "sw_state \<Rightarrow> slot \<Rightarrow> nat" where
  "sendable s sl = count_list (map fst (sw_sent s)) sl + count_list (sending (sw_threads s)) sl"

definition slot_gone :: "sw_state \<Rightarrow> slot \<Rightarrow> bool" where
  "slot_gone s sl \<longleftrightarrow> sl \<in> set (sw_slots s) \<and> sl \<notin># ledger_slots (sw_ledger s)"

lemma gone_not_current: "slot_gone s sl \<Longrightarrow> \<not> is_current i sl (sw_ledger s)"
  using is_current_slot unfolding slot_gone_def by blast

lemma slots_le: "ledger_ok l \<Longrightarrow> ledger_ok l' \<Longrightarrow> slot_le l' l \<Longrightarrow> sl \<notin># ledger_slots l \<Longrightarrow> sl \<notin># ledger_slots l'"
  unfolding slot_le_def by (auto simp: slots_iff) metis

lemma step_slots:
  assumes "sw_step s s'" "sw_inv s"
  shows "set (sw_slots s) \<subseteq> set (sw_slots s') \<and> (slot_le (sw_ledger s') (sw_ledger s)
    \<or> (\<exists>i e. sw_ledger s' = ledger_insert i e (sw_ledger s) \<and> en_slot e \<notin> set (sw_slots s)))"
proof -
  note ok = sw_invD(1)[OF assms(2)]
  have c: "slot_le l (sw_ledger s)" if "claim i prin now (sw_ledger s) = (c, l)" for i prin now c l
    using claim_cases[OF ok that] by (auto simp: slot_le_def ledger_le_def split: if_splits)
  have r: "slot_le l (sw_ledger s)" if "remove_current i sl (sw_ledger s) = (x, l)" for i sl x l
    using that by (auto simp: remove_current_def split: if_splits)
  show ?thesis
    using assms(1)
    by (cases; force elim!: sw_replacesE simp: LedgerEntry_new_def take_expired_def take_namespace_def take_principal_def
        dest: c r take_owned_slots(3)[OF ok] take_ids_slots[OF ok] intro: release_slots(3)[OF ok] note_totp_slots(3)[OF ok] split: if_splits)
qed

lemma step_gone:
  assumes "sw_step s s'" "sw_inv s" "slot_gone s sl"
  shows "slot_gone s' sl"
proof -
  note ok = sw_invD(1)[OF assms(2)] sw_invD(1)[OF sw_step_inv[OF assms(1,2)]]
  have "sl \<notin># ledger_slots (sw_ledger s')"
    using step_slots[OF assms(1,2)]
  proof (elim conjE disjE exE)
    assume "slot_le (sw_ledger s') (sw_ledger s)"
    then show ?thesis using slots_le[OF ok] assms(3) by (simp add: slot_gone_def)
  next
    fix i e assume l: "sw_ledger s' = ledger_insert i e (sw_ledger s)" "en_slot e \<notin> set (sw_slots s)"
    show ?thesis
    proof
      assume "sl \<in># ledger_slots (sw_ledger s')"
      then obtain j f where "entry_of (sw_ledger s') j = Some f" "en_slot f = sl" using slots_iff[OF ok(2)] by blast
      then show False using l assms(3) slots_iff[OF ok(1), of sl] by (auto simp: slot_gone_def split: if_splits)
    qed
  qed
  then show ?thesis using step_slots[OF assms(1,2)] assms(3) by (auto simp: slot_gone_def)
qed

lemma step_sendable:
  assumes "sw_step s s'" "sent_ok s" "slot_gone s sl"
  shows "sendable s' sl \<le> sendable s sl"
  using assms(1)
proof cases
  case (leaves i t nx ended l p)
  have "sending (leaving_thread (tk_slot t) p nx) = []" using leaves(5) sent_okD(1)[OF assms(2)]
    by (auto elim!: sw_replacesE simp: leaving_thread_def split: Next.split)
  then show ?thesis using leaves(5) by (auto elim!: sw_replacesE simp: sendable_def)
next
  case (ends e i reason)
  have "sending (stopping_thread (en_slot e) (hget (sw_store s) (en_slot e)) reason) = []"
    using ends(2) sent_okD(1)[OF assms(2)] by (auto elim!: sw_replacesE simp: stopping_thread_def split: option.split)
  then show ?thesis using ends(2) by (auto elim!: sw_replacesE simp: sendable_def)
next
  case (stops p abort reqs i x)
  then show ?thesis by (auto elim!: sw_replacesE simp: sendable_def stop_pending_eq split: if_splits)
qed (use gone_not_current[OF assms(3)] in \<open>auto elim!: sw_replacesE simp: sendable_def\<close>)

lemma distinct_count_le: "distinct xs \<Longrightarrow> count_list xs x \<le> 1"
  by (induction xs) (auto simp: count_list_0_iff)

lemma sending_once:
  assumes "sw_inv s" "sent_ok s"
  shows "count_list (sending (sw_threads s)) sl \<le> 1"
proof -
  have "count_list (sending ts) sl \<le> count_list (held ts) sl + count_list (map fst (taken_execs ts)) sl" for ts
  proof (induction ts)
    case (Cons t ts)
    then show ?case by (cases t) auto
  qed simp
  moreover have "count_list (held (sw_threads s)) sl \<le> count_list (map fst (sw_store s)) sl"
  proof (cases "sl \<in> set (held (sw_threads s))")
    case True
    then have "sl \<in> set (map fst (sw_store s))" using sw_invD(6)[OF assms(1)] by (auto simp: hkeys_def)
    then have "count_list (map fst (sw_store s)) sl \<noteq> 0" by (simp only: count_list_0_iff not_not)
    then show ?thesis using distinct_count_le[OF sw_invD(5)[OF assms(1)], of sl] by linarith
  qed (simp add: count_list_0_iff)
  moreover have "count_list (map fst (sw_store s) @ map fst (taken_execs (sw_threads s))) sl \<le> 1"
    using distinct_count_le[OF sent_okD(3)[OF assms(2)], of sl] by (simp add: execs_def)
  ultimately show ?thesis using le_trans[of "count_list (sending (sw_threads s)) sl"] by (fastforce simp: add_le_mono)
qed

text \<open>
  Where the executor of an ended login is: in its slot, which the thread that ends the login will empty, taken out by
  a thread that is about to stop it, or stopped.
\<close>

definition on_its_way :: "sw_state \<Rightarrow> string \<Rightarrow> LedgerEntry \<Rightarrow> EndReason \<Rightarrow> nat \<Rightarrow> bool" where
  "on_its_way s i e reason h \<longleftrightarrow>
     (Ending i e reason \<in> set (sw_threads s) \<and> (\<exists>p. hget (sw_store s) (en_slot e) = Some p \<and> pe_handle p = h))
     \<or> (\<exists>p. (en_slot e, p) \<in> set (taken_execs (sw_threads s)) \<and> pe_handle p = h) \<or> h \<in> set (sw_stopped s)"

lemma ending_unique:
  assumes "sw_inv s" "sw_threads s = us @ Ending j f r # vs" "Ending i e reason \<in> set (us @ vs)"
  shows "en_slot f \<noteq> en_slot e"
proof
  assume f: "en_slot f = en_slot e"
  have "en_slot e \<in> set (ending us) \<union> set (ending vs)" using assms(3) by (force simp: ending_def)
  then show False using sw_invD(3)[OF assms(1), of "en_slot e"] assms(2) f by (auto simp: owners_def not_less_eq_eq simp flip: count_greater_zero_iff)
qed

lemma step_on_its_way:
  assumes "sw_step s s'" "sw_inv s" "slot_gone s (en_slot e)" "on_its_way s i e reason h"
  shows "on_its_way s' i e reason h"
  using assms(1)
proof cases
  case (registers j sl p k excl persist started)
  then have "sl \<noteq> en_slot e" using assms(3) by (auto simp: slot_gone_def)
  then show ?thesis using assms(4) registers(1) by (auto simp: on_its_way_def)
next
  case (exchanges t p decode parse answer a tc r p' j)
  then show ?thesis using assms(4) exchange_step_handle[OF exchanges(2)]
    by (auto elim!: sw_replacesE simp: on_its_way_def split: if_splits)
next
  case (leaves j t nx ended l p)
  then have "tk_slot t \<noteq> en_slot e" using gone_not_current[OF assms(3), of j] by auto
  then show ?thesis using assms(4) leaves(5) by (auto elim!: sw_replacesE simp: on_its_way_def)
next
  case (aborts j t p)
  then have "tk_slot t \<noteq> en_slot e" using gone_not_current[OF assms(3), of j] by auto
  then show ?thesis using assms(4) aborts(4) by (auto elim!: sw_replacesE simp: on_its_way_def)
next
  case (ends f j r)
  then obtain us vs where t: "sw_threads s = us @ Ending j f r # vs"
    and s': "sw_threads s' = us @ stopping_thread (en_slot f) (hget (sw_store s) (en_slot f)) r @ vs"
      "sw_store s' = hremove (en_slot f) (sw_store s)" "sw_stopped s' = sw_stopped s" by (auto elim!: sw_replacesE)
  show ?thesis
  proof (cases "Ending i e reason \<in> set (us @ vs)")
    case True
    then show ?thesis using assms(4) ending_unique[OF assms(2) t True] t by (auto simp: on_its_way_def s')
  next
    case False
    then show ?thesis using assms(4) t by (auto simp: on_its_way_def s' stopping_thread_def)
  qed
next
  case (stops p abort reqs j sl)
  then show ?thesis using assms(4) by (auto elim!: sw_replacesE simp: on_its_way_def)
qed (use assms(4) in \<open>auto elim!: sw_replacesE simp: on_its_way_def split: if_splits\<close>)

lemma steps_keep:
  assumes "sw_step\<^sup>*\<^sup>* s s'" "sw_inv s" "sent_ok s" "slot_gone s (en_slot e)" "on_its_way s i e reason h"
  shows "sw_inv s' \<and> sent_ok s' \<and> slot_gone s' (en_slot e) \<and> on_its_way s' i e reason h \<and> sendable s' (en_slot e) \<le> sendable s (en_slot e)"
  using assms
proof (induction rule: rtranclp_induct)
  case (step t u)
  then show ?case using sw_step_inv[of t u] sw_step_sent[of t u] step_gone[of t u] step_on_its_way[of t u] step_sendable[of t u "en_slot e"]
    by (meson le_trans)
qed simp

subsection \<open>Every executor can be stopped\<close>

definition stoppable :: "sw_state \<Rightarrow> nat \<Rightarrow> bool" where
  "stoppable s h \<longleftrightarrow> (\<exists>s'. sw_step\<^sup>*\<^sup>* s s' \<and> h \<in> set (sw_stopped s'))"

lemma stoppable_step: "sw_step s s' \<Longrightarrow> stoppable s' h \<Longrightarrow> stoppable s h"
  unfolding stoppable_def by (meson converse_rtranclp_into_rtranclp)

lemma stopped_stoppable: "h \<in> set (sw_stopped s) \<Longrightarrow> stoppable s h"
  unfolding stoppable_def by blast

lemma sw_replaces_at: "sw_threads s = us @ t # vs \<Longrightarrow> sw_replaces s t n (s\<lparr>sw_threads := us @ n @ vs\<rparr>)"
  unfolding sw_replaces_def by blast

lemma stopping_stoppable:
  assumes "Stopping sl p abort \<in> set (sw_threads s)"
  shows "stoppable s (pe_handle p)"
proof -
  obtain reqs i where r: "stop_pending p abort = (reqs, i)" by fastforce
  obtain us vs where t: "sw_threads s = us @ Stopping sl p abort # vs" using split_list[OF assms] by blast
  let ?u = "s\<lparr>sw_sent := map (Pair sl) (rev reqs) @ sw_sent s, sw_stopped := pe_handle p # sw_stopped s\<rparr>"
  have "sw_step s (?u\<lparr>sw_threads := us @ [] @ vs\<rparr>)" by (rule sw_step.stops[OF r]) (rule sw_replaces_at, use t in simp)
  then show ?thesis by (rule stoppable_step) (rule stopped_stoppable, simp)
qed

lemma taken_stoppable:
  assumes "(sl, p) \<in> set (taken_execs (sw_threads s))"
  shows "stoppable s (pe_handle p)"
proof -
  obtain t where t: "t \<in> set (sw_threads s)" "(sl, p) \<in> set (taken_by t)" using assms by (auto simp: taken_execs_def)
  show ?thesis
  proof (cases t)
    case (Stopping x q b)
    then show ?thesis using stopping_stoppable[of sl p b s] t by auto
  next
    case (Aborting i k q)
    obtain us vs where u: "sw_threads s = us @ Aborting i k q # vs" using split_list[OF t(1)] Aborting by blast
    obtain ended l where r: "remove_current i (tk_slot k) (sw_ledger s) = (ended, l)" by fastforce
    let ?u = "s\<lparr>sw_ledger := l, sw_threads := us @ [Stopping (tk_slot k) q True] @ vs\<rparr>"
    have "sw_step s ?u"
      by (rule sw_step.abort_ends[OF r, where p = q])
        (use sw_replaces_at[of "s\<lparr>sw_ledger := l\<rparr>" us "Aborting i k q" vs "[Stopping (tk_slot k) q True]"] u in simp)
    then show ?thesis using stopping_stoppable[of "tk_slot k" q True ?u] stoppable_step Aborting t(2) by auto
  qed (use t(2) in auto)
qed

lemma ending_stoppable:
  assumes "Ending i e reason \<in> set (sw_threads s)" "hget (sw_store s) (en_slot e) = Some p" "en_slot e \<notin> set (held (sw_threads s))"
  shows "stoppable s (pe_handle p)"
proof -
  obtain us vs where t: "sw_threads s = us @ Ending i e reason # vs" using split_list[OF assms(1)] by blast
  let ?u = "s\<lparr>sw_store := hremove (en_slot e) (sw_store s), sw_out := pe_handle p # sw_out s\<rparr>"
  let ?v = "?u\<lparr>sw_threads := us @ [Stopping (en_slot e) p (reason = AbortedByCaller)] @ vs\<rparr>"
  have "sw_step s ?v"
    using sw_step.ends[OF assms(3), of i reason ?v] sw_replaces_at[of ?u us "Ending i e reason" vs
        "[Stopping (en_slot e) p (reason = AbortedByCaller)]"] t assms(2) by (simp add: stopping_thread_def)
  then show ?thesis using stopping_stoppable[of "en_slot e" p _ ?v] stoppable_step by fastforce
qed

text \<open>The step under way can finish: its executor answers or does not, and the login is gone when it looks again.\<close>

lemma answered_stoppable:
  assumes "sw_inv s" "slot_gone s (en_slot e)" "sw_threads s = us @ Answered j t nx # vs" "tk_slot t = en_slot e"
    and "Ending i e reason \<in> set (sw_threads s)" "hget (sw_store s) (en_slot e) = Some p"
  shows "stoppable s (pe_handle p)"
proof -
  let ?u = "s\<lparr>sw_threads := us @ [] @ vs\<rparr>"
  have "sw_step s ?u"
    by (rule sw_step.too_late[of j t]) (use gone_not_current[OF assms(2)] assms(3,4) sw_replaces_at[OF assms(3), of "[]"] in simp_all)
  moreover have "en_slot e \<notin> set (held (us @ vs))" using sw_invD(5)[OF assms(1)] assms(3,4) by auto
  moreover have "Ending i e reason \<in> set (us @ vs)" using assms(3,5) by auto
  ultimately show ?thesis using ending_stoppable[of i e reason ?u p] assms(6) stoppable_step by auto
qed

lemma exchanging_stoppable:
  assumes "sw_inv s" "slot_gone s (en_slot e)" "sw_threads s = us @ Exchanging j t a tc # vs" "tk_slot t = en_slot e"
    and "Ending i e reason \<in> set (sw_threads s)" "hget (sw_store s) (en_slot e) = Some p"
  shows "stoppable s (pe_handle p)"
proof -
  obtain r p' where x: "exchange_step (\<lambda>_. None) (\<lambda>_. None) (\<lambda>_. None) a tc p = (r, p')" by fastforce
  have p: "hget (sw_store s) (tk_slot t) = Some p" using assms(4,6) by simp
  let ?u = "s\<lparr>sw_store := hinsert (tk_slot t) p' (sw_store s), sw_sent := (tk_slot t, step_request (pe_next_id p) a tc) # sw_sent s\<rparr>"
  let ?v = "?u\<lparr>sw_threads := us @ [Answered j t (next_after r)] @ vs\<rparr>"
  have st: "sw_step s ?v" by (rule sw_step.exchanges[OF p x]) (rule sw_replaces_at, use assms(3) in simp)
  have "stoppable ?v (pe_handle p')"
    by (rule answered_stoppable[OF sw_step_inv[OF st assms(1)] step_gone[OF st assms(1,2)] _ assms(4), where i = i and reason = reason])
      (use assms(3,4,5) in auto)
  then show ?thesis using stoppable_step[OF st] exchange_step_handle[OF x] by simp
qed

lemma stepping_stoppable:
  assumes "sw_inv s" "slot_gone s (en_slot e)" "sw_threads s = us @ Stepping j t a # vs" "tk_slot t = en_slot e"
    and "Ending i e reason \<in> set (sw_threads s)" "hget (sw_store s) (en_slot e) = Some p"
  shows "stoppable s (pe_handle p)"
proof -
  let ?v = "s\<lparr>sw_threads := us @ [Exchanging j t a None] @ vs\<rparr>"
  have st: "sw_step s ?v"
    using sw_step.with_code[of a None s j t ?v] sw_replaces_at[OF assms(3), of "[Exchanging j t a None]"] by (simp add: code_fits_def)
  have "stoppable ?v (pe_handle p)"
    by (rule exchanging_stoppable[OF sw_step_inv[OF st assms(1)] step_gone[OF st assms(1,2)] _ assms(4), where i = i and reason = reason])
      (use assms(3,5,6) in auto)
  then show ?thesis by (rule stoppable_step[OF st])
qed

lemma on_its_way_stoppable:
  assumes "sw_inv s" "slot_gone s (en_slot e)" "on_its_way s i e reason h"
  shows "stoppable s h"
  using assms(3) unfolding on_its_way_def
proof (elim disjE exE conjE)
  fix p assume a: "Ending i e reason \<in> set (sw_threads s)" "hget (sw_store s) (en_slot e) = Some p" "pe_handle p = h"
  show ?thesis
  proof (cases "en_slot e \<in> set (held (sw_threads s))")
    case False
    then show ?thesis using ending_stoppable[OF a(1,2)] a(3) by blast
  next
    case True
    then obtain t where t: "t \<in> set (sw_threads s)" "en_slot e \<in> set (held_by t)" by (auto simp: held_def)
    then obtain us vs where "sw_threads s = us @ t # vs" using split_list[OF t(1)] by blast
    then show ?thesis
      using t(2) a answered_stoppable[OF assms(1,2) _ _ a(1,2)] exchanging_stoppable[OF assms(1,2) _ _ a(1,2)]
        stepping_stoppable[OF assms(1,2) _ _ a(1,2)] by (cases t) auto
  qed
qed (use taken_stoppable stopped_stoppable in auto)

lemma take_ids_removes:
  assumes "take_ids is l = (es, l')"
  shows "entry_of l' i = (if i \<in> set is then None else entry_of l i) \<and> (i \<in> set is \<longrightarrow> entry_of l i = Some e \<longrightarrow> (i, e) \<in> set es)"
  using assms
proof (induction "is" l arbitrary: es rule: take_ids.induct)
  case (2 j "is" l)
  then show ?case by (fastforce split: option.splits prod.splits if_splits)
qed simp

lemma lock_takes:
  assumes inv: "sw_inv s" and t: "take_namespace ns (sw_ledger s) = (es, l)" and e: "entry_of (sw_ledger s) i = Some e"
    and n: "case ns of None \<Rightarrow> True | Some n \<Rightarrow> n = namespace (en_key e)"
  shows "(i, e) \<in> set es" "ledger_ok l" "en_slot e \<notin># ledger_slots l"
proof -
  note ok = sw_invD(1)[OF inv]
  let ?P = "\<lambda>e. case ns of None \<Rightarrow> True | Some n \<Rightarrow> n = namespace (en_key e)"
  have tk: "take_ids (select_ids ?P (sw_ledger s)) (sw_ledger s) = (es, l)" using t by (simp add: take_namespace_def)
  have i: "i \<in> set (select_ids ?P (sw_ledger s))" using n hget_mem[OF e] by (force simp: select_ids_def)
  show es: "(i, e) \<in> set es" using take_ids_removes[OF tk] i e by blast
  show l: "ledger_ok l" using take_ids_slots[OF ok tk] by blast
  show "en_slot e \<notin># ledger_slots l"
  proof
    assume "en_slot e \<in># ledger_slots l"
    then obtain j f where f: "entry_of l j = Some f" "en_slot f = en_slot e" using slots_iff[OF l] by blast
    then have j: "entry_of (sw_ledger s) j = Some f" "j \<noteq> i" using take_ids_removes[OF tk, of j] take_ids_removes[OF tk, of i] i
      by (auto split: if_splits)
    have "count (ledger_slots (sw_ledger s)) (en_slot e) \<le> 1" using sw_invD(3)[OF inv, of "en_slot e"] by (simp add: owners_def)
    then show False using slot_unique[OF ok _ e j(1) f(2)] j(2) by blast
  qed
qed

text \<open>
  C15: A lock of a namespace, or of all of them at shutdown (\<open>take_namespace\<close>), ends its stepwise logins for good. In
  whatever way the handlers go on from there, the login is never current again, so that no later step is accepted; at
  most one more request goes to its executor, the one already under way; and that executor is stopped, or the thread
  that ends the login or has taken the executor over is still to run, and can always run to the point where the
  executor has been sent its shutdown request, whatever step holds the slot at that moment.
\<close>

theorem lock_stops_every_login:
  assumes "sw_run s" and "reason \<in> {LockVault, Shutdown}" and "take_namespace ns (sw_ledger s) = (es, l)"
    and "entry_of (sw_ledger s) i = Some e" and "case ns of None \<Rightarrow> True | Some n \<Rightarrow> n = namespace (en_key e)"
    and "sw_step\<^sup>*\<^sup>* (s\<lparr>sw_ledger := l, sw_threads := ending_threads es reason @ sw_threads s\<rparr>) s'"
  shows "(\<forall>j. \<not> is_current j (en_slot e) (sw_ledger s'))
    \<and> length (filter (\<lambda>x. fst x = en_slot e) (sw_sent s')) \<le> length (filter (\<lambda>x. fst x = en_slot e) (sw_sent s)) + 1
    \<and> (\<exists>p. (en_slot e, p) \<in> set (execs s)
         \<and> (pe_handle p \<in> set (sw_stopped s') \<or> Ending i e reason \<in> set (sw_threads s') \<or> en_slot e \<in> fst ` set (taken_execs (sw_threads s')))
         \<and> (\<exists>s''. sw_step\<^sup>*\<^sup>* s' s'' \<and> pe_handle p \<in> set (sw_stopped s'')))"
proof -
  let ?s = "s\<lparr>sw_ledger := l, sw_threads := ending_threads es reason @ sw_threads s\<rparr>"
  note inv = sw_run_inv[OF assms(1)] and snt = sw_run_sent[OF assms(1)]
  note T = lock_takes[OF inv assms(3-5)]
  have st: "sw_step s ?s" by (rule sw_step.terminates[OF assms(2,3)])
  have sl: "en_slot e \<in># ledger_slots (sw_ledger s)" using slots_iff[OF sw_invD(1)[OF inv]] assms(4) by blast
  then obtain p where p: "(en_slot e, p) \<in> set (execs s)" using ledger_slot_execs[OF inv] by fastforce
  have g: "slot_gone ?s (en_slot e)" using T(3) sl sw_invD(9)[OF inv] by (auto simp: slot_gone_def owners_def)
  have "Ending i e reason \<in> set (sw_threads ?s)" using T(1) by (force simp: ending_threads_def)
  then have w: "on_its_way ?s i e reason (pe_handle p)"
    using p sw_invD(2)[OF inv] by (auto simp: on_its_way_def execs_def hget_def hvalid_def)
  note K = steps_keep[OF assms(6) sw_step_inv[OF st inv] sw_step_sent[OF st inv snt] g w]
  have "sendable s' (en_slot e) \<le> count_list (map fst (sw_sent s)) (en_slot e) + 1"
    using K sending_once[OF inv snt, of "en_slot e"] by (simp add: sendable_def)
  then have "length (filter (\<lambda>x. fst x = en_slot e) (sw_sent s')) \<le> length (filter (\<lambda>x. fst x = en_slot e) (sw_sent s)) + 1"
    by (simp add: sendable_def sent_through)
  moreover have "\<exists>s''. sw_step\<^sup>*\<^sup>* s' s'' \<and> pe_handle p \<in> set (sw_stopped s'')"
    using on_its_way_stoppable K unfolding stoppable_def by blast
  moreover have "pe_handle p \<in> set (sw_stopped s') \<or> Ending i e reason \<in> set (sw_threads s') \<or> en_slot e \<in> fst ` set (taken_execs (sw_threads s'))"
    using K unfolding on_its_way_def by force
  ultimately show ?thesis using K p gone_not_current[of s' "en_slot e"] by blast
qed

theorem lock_stops_every_login_witness:
  "let s = demo_run 1 [Claimed ''l'' demo_ticket Snapshot] 2 []; (es, l) = take_namespace (Some ''n'') (sw_ledger s);
       s' = s\<lparr>sw_ledger := l, sw_threads := ending_threads es LockVault @ sw_threads s\<rparr>
   in sw_run s \<and> map fst es = [''l''] \<and> \<not> is_current ''l'' 0 (sw_ledger s') \<and> (\<exists>s''. sw_step\<^sup>*\<^sup>* s' s'' \<and> 7 \<in> set (sw_stopped s''))"
proof -
  let ?s = "demo_run 1 [Claimed ''l'' demo_ticket Snapshot] 2 []"
  let ?e = "(LedgerEntry_new demo_key False False 0 0 0)\<lparr>en_steps := 1, en_in_flight := 1\<rparr>"
  obtain es l where t: "take_namespace (Some ''n'') (sw_ledger ?s) = (es, l)" by fastforce
  have e: "entry_of (sw_ledger ?s) ''l'' = Some ?e" by (simp add: demo_run_def hget_def)
  have es: "map fst es = [''l'']" using t
    by (auto simp: demo_run_def take_namespace_def select_ids_def LedgerEntry_new_def demo_key_def hget_def ledger_remove_def hremove_def)
  show ?thesis
    using lock_stops_every_login[OF demo_claimed _ t e, of LockVault, OF _ _ rtranclp.rtrancl_refl] demo_claimed t es
    by (auto simp: demo_run_def LedgerEntry_new_def demo_key_def execs_def)
qed


end
