(* ===== verification/Std_Text.thy ===== *)
theory Std_Text
  imports Executor_Wire
begin

section \<open>Texts and bytes\<close>

text \<open>
  What the sources use of the standard library's texts beyond the prelude: lines, replacement, and
  the decoding of bytes. \<open>utf8_first\<close> reads the first character of a byte string: whether it is well
  formed (shortest form, no surrogates, at most U+10FFFF) and the number of bytes it takes, or that
  an ill-formed prefix takes, which \<open>from_utf8_lossy\<close> turns into one replacement character.
\<close>

definition strip_cr :: "string \<Rightarrow> string" where
  "strip_cr l = (case strip_suffix l [CHR 0x0D] of None \<Rightarrow> l | Some t \<Rightarrow> t)"

function str_lines :: "string \<Rightarrow> string list" where
  "str_lines [] = []"
| "str_lines (c # cs) =
     (let l = takeWhile (\<lambda>x. x \<noteq> CHR 0x0A) (c # cs) in
      case dropWhile (\<lambda>x. x \<noteq> CHR 0x0A) (c # cs) of
        [] \<Rightarrow> [l]
      | _ # rest \<Rightarrow> strip_cr l # str_lines rest)"
  by pat_completeness auto
termination
proof (relation "measure length", goal_cases)
  case (2 c cs l x rest)
  then show ?case using length_dropWhile_le[of "\<lambda>x. x \<noteq> CHR 0x0A" "c # cs"] by (simp split: if_splits)
qed simp

fun find_map :: "('a \<Rightarrow> 'b option) \<Rightarrow> 'a list \<Rightarrow> 'b option" where
  "find_map f [] = None"
| "find_map f (x # xs) = (case f x of None \<Rightarrow> find_map f xs | Some y \<Rightarrow> Some y)"

subsection \<open>Decoding\<close>

definition second_ok :: "nat \<Rightarrow> nat \<Rightarrow> bool" where
  "second_ok b d \<longleftrightarrow>
     (if b = 0xE0 then 0xA0 else if b = 0xF0 then 0x90 else 0x80) \<le> d
     \<and> d \<le> (if b = 0xED then 0x9F else if b = 0xF4 then 0x8F else 0xBF)"

definition utf8_tail :: "nat \<Rightarrow> string \<Rightarrow> nat" where
  "utf8_tail b ds =
     (case ds of
        [] \<Rightarrow> 0
      | d # ds \<Rightarrow> if second_ok b (of_char d) then 1 + length (takeWhile is_continuation ds) else 0)"

definition utf8_first :: "char \<Rightarrow> string \<Rightarrow> bool \<times> nat" where
  "utf8_first c s =
     (let b = (of_char c :: nat); n = utf8_len c - 1; k = utf8_tail b (take n s) in
      if b < 0x80 then (True, 1)
      else if b < 0xC2 \<or> b > 0xF4 then (False, 1)
      else (k = n, k + 1))"

definition REPLACEMENT :: string where
  "REPLACEMENT = [CHR 0xEF, CHR 0xBF, CHR 0xBD]"

fun from_utf8_lossy :: "string \<Rightarrow> string" where
  "from_utf8_lossy [] = []"
| "from_utf8_lossy (c # s) =
     (case utf8_first c s of
        (ok, n) \<Rightarrow> (if ok then take n (c # s) else REPLACEMENT) @ from_utf8_lossy (drop (n - 1) s))"

fun is_utf8 :: "string \<Rightarrow> bool" where
  "is_utf8 [] = True"
| "is_utf8 (c # s) = (case utf8_first c s of (ok, n) \<Rightarrow> ok \<and> is_utf8 (drop (n - 1) s))"

definition from_utf8 :: "string \<Rightarrow> string option" where
  "from_utf8 s = (if is_utf8 s then Some s else None)"

lemma utf8_first_pos [simp]: "utf8_first c s = (ok, n) \<Longrightarrow> 0 < n"
  by (auto simp: utf8_first_def Let_def split: if_splits)

lemma utf8_tail_le: "utf8_tail b ds \<le> length ds"
  by (cases ds) (auto simp: utf8_tail_def le_trans[OF length_takeWhile_le])

lemma utf8_first_le: "utf8_first c s = (ok, n) \<Longrightarrow> n \<le> Suc (length s)"
  using utf8_tail_le[of "of_char c" "take (utf8_len c - 1) s"] by (auto simp: utf8_first_def Let_def split: if_splits)

lemma from_utf8_lossy_id: "is_utf8 s \<Longrightarrow> from_utf8_lossy s = s"
proof (induction s rule: is_utf8.induct)
  case (2 c s)
  obtain ok n where u: "utf8_first c s = (ok, n)" by fastforce
  then obtain m where "n = Suc m" using utf8_first_pos not0_implies_Suc by blast
  then show ?case using 2 u by simp
qed simp

text \<open>A well-formed character does not depend on what follows it.\<close>

lemma utf8_first_append:
  assumes "utf8_first c s = (True, n)"
  shows "utf8_first c (take (n - 1) s @ t) = (True, n)"
proof -
  let ?n = "utf8_len c - 1"
  consider "(of_char c :: nat) < 0x80" | "\<not> (of_char c :: nat) < 0x80" "utf8_tail (of_char c) (take ?n s) = ?n" "n = ?n + 1"
    using assms by (auto simp: utf8_first_def Let_def split: if_splits)
  then show ?thesis
  proof cases
    case 2
    then have "?n \<le> length s" using utf8_tail_le[of "of_char c" "take ?n s"] by simp
    then have e: "take ?n (take (n - 1) s @ t) = take ?n s" using 2(3) by simp
    have "utf8_first c (take (n - 1) s @ t) = utf8_first c s" unfolding utf8_first_def Let_def e ..
    then show ?thesis using assms by simp
  qed (use assms in \<open>simp add: utf8_first_def Let_def\<close>)
qed

lemma is_utf8_append_char:
  assumes "utf8_first c s = (True, n)" "is_utf8 t"
  shows "is_utf8 ((c # take (n - 1) s) @ t)"
  using utf8_first_append[OF assms(1), of t] utf8_first_le[OF assms(1)] assms(2) utf8_first_pos[OF assms(1)]
  by (simp add: min_absorb2)

lemma is_utf8_replacement: "is_utf8 t \<Longrightarrow> is_utf8 (REPLACEMENT @ t)"
  by (simp add: REPLACEMENT_def utf8_first_def utf8_len_def utf8_tail_def second_ok_def is_continuation_def)

lemma is_utf8_lossy: "is_utf8 (from_utf8_lossy s)"
proof (induction s rule: from_utf8_lossy.induct)
  case (2 c s)
  obtain ok n where u: "utf8_first c s = (ok, n)" by fastforce
  then obtain m where m: "n = Suc m" using utf8_first_pos not0_implies_Suc by blast
  show ?case
  proof (cases ok)
    case True
    then show ?thesis using is_utf8_append_char[of c s n] u m 2 by simp
  next
    case False
    then show ?thesis using is_utf8_replacement u 2 by simp
  qed
qed simp

end
