(* ===== verification/Providers.thy ===== *)
theory Providers
  imports Std_Text "HOL-Library.List_Lexorder" "HOL-Library.Char_ord"
begin

section \<open>Credential providers\<close>

text \<open>
  \<open>crates/tegatad/src/provider/\<close>: the trait every vault backend implements, and the backends of the
  mock entries (\<open>static_provider.rs\<close>), the age file (\<open>file.rs\<close>) and the pass store (\<open>pass.rs\<close>); the
  Bitwarden command line has a theory of its own. An operation takes the provider and the world,
  and returns its result with both as they are afterwards: what the operation asks the world
  (files, programs, the clock) are functions of a record of the environment. Keeping secrets in
  zeroized memory is not modelled.
\<close>

definition credential_secrets :: "ResolvedCredential \<Rightarrow> string set" where
  "credential_secrets c = {rc_username c, rc_password c} \<union> set_option (rc_totp_seed c)"

subsection \<open>The contract\<close>

text \<open>
  What the daemon relies on. \<open>prereg\<close> are the secrets that were put in the registry when the
  provider was built. A credential says whether its provider is locked, and is marked as registered
  only when its secrets are; a successful lock locks, time never unlocks, and the list of a locked
  provider shows no addresses.
\<close>

locale credential_provider =
  fixes inv :: "'p \<Rightarrow> bool"
    and list_refs :: "'p \<Rightarrow> 'w \<Rightarrow> (ErrorCode + CredentialRef list) \<times> 'p \<times> 'w"
    and resolve :: "string \<Rightarrow> 'p \<Rightarrow> 'w \<Rightarrow> (ErrorCode + ResolvedCredential option) \<times> 'p \<times> 'w"
    and lock :: "'p \<Rightarrow> 'w \<Rightarrow> (ErrorCode + unit) \<times> 'p \<times> 'w"
    and expire :: "'p \<Rightarrow> 'w \<Rightarrow> (ErrorCode + unit) \<times> 'p \<times> 'w"
    and take_autolock_event :: "'p \<Rightarrow> bool \<times> 'p"
    and locked :: "'p \<Rightarrow> bool"
    and prereg :: "'p \<Rightarrow> string set"
  assumes list_keeps: "inv p \<Longrightarrow> list_refs p w = (r, p', w') \<Longrightarrow> inv p' \<and> prereg p' = prereg p"
    and resolve_keeps: "inv p \<Longrightarrow> resolve i p w = (c, p', w') \<Longrightarrow> inv p' \<and> prereg p' = prereg p"
    and lock_keeps: "inv p \<Longrightarrow> lock p w = (u, p', w') \<Longrightarrow> inv p' \<and> prereg p' = prereg p"
    and expire_keeps: "inv p \<Longrightarrow> expire p w = (u, p', w') \<Longrightarrow> inv p' \<and> prereg p' = prereg p"
    and take_keeps: "inv p \<Longrightarrow> take_autolock_event p = (b, p') \<Longrightarrow> inv p' \<and> prereg p' = prereg p \<and> locked p' = locked p"
    and take_takes: "take_autolock_event p = (b, p') \<Longrightarrow> \<not> fst (take_autolock_event p')"
    and list_hides: "inv p \<Longrightarrow> list_refs p w = (Inr refs, p', w') \<Longrightarrow> locked p' \<Longrightarrow> x \<in> set refs \<Longrightarrow> cr_uri x \<in> {None, Some []}"
    and resolve_locked: "inv p \<Longrightarrow> resolve i p w = (Inr (Some c'), p', w') \<Longrightarrow> rc_locked c' = locked p'"
    and resolve_prereg: "inv p \<Longrightarrow> resolve i p w = (Inr (Some c'), p', w') \<Longrightarrow> rc_secrets_preregistered c' \<Longrightarrow> credential_secrets c' \<subseteq> prereg p"
    and lock_locks: "inv p \<Longrightarrow> lock p w = (Inr (), p', w') \<Longrightarrow> locked p'"
    and expire_returns: "inv p \<Longrightarrow> expire p w = (u, p', w') \<Longrightarrow> u = Inr ()"
    and expire_stays: "inv p \<Longrightarrow> expire p w = (u, p', w') \<Longrightarrow> locked p \<Longrightarrow> locked p'"
    and expire_event: "inv p \<Longrightarrow> expire p w = (u, p', w') \<Longrightarrow> fst (take_autolock_event p') \<Longrightarrow> \<not> fst (take_autolock_event p) \<Longrightarrow> locked p'"

subsection \<open>Static entries\<close>

record EntryConfig =
  ec_id :: string
  ec_name :: string
  ec_uri :: string
  ec_kind :: string
  ec_username :: string
  ec_password :: string
  ec_totp_seed :: "string option"
  ec_totp_exposable :: "bool option"

record StaticEntry =
  se_id :: string
  se_name :: string
  se_uri :: string
  se_kind :: string
  se_username :: string
  se_password :: string
  se_totp_seed :: "string option"
  se_totp_exposable :: bool

record StaticProvider =
  stp_entries :: "StaticEntry list"
  stp_locked :: bool

definition static_entry :: "EntryConfig \<Rightarrow> StaticEntry" where
  "static_entry e =
     \<lparr>se_id = ec_id e, se_name = ec_name e, se_uri = ec_uri e, se_kind = ec_kind e, se_username = ec_username e,
      se_password = ec_password e, se_totp_seed = ec_totp_seed e,
      se_totp_exposable = (case ec_totp_exposable e of None \<Rightarrow> False | Some b \<Rightarrow> b)\<rparr>"

fun static_from_config :: "EntryConfig list \<Rightarrow> string list \<Rightarrow> StaticProvider \<times> string list" where
  "static_from_config [] registry = (\<lparr>stp_entries = [], stp_locked = False\<rparr>, registry)"
| "static_from_config (e # es) registry =
     (let registry = registry @ [ec_username e, ec_password e] @ (case ec_totp_seed e of None \<Rightarrow> [] | Some seed \<Rightarrow> [seed]);
          (p, registry) = static_from_config es registry in
      (p\<lparr>stp_entries := static_entry e # stp_entries p\<rparr>, registry))"

definition static_list_refs :: "StaticProvider \<Rightarrow> 'w \<Rightarrow> (ErrorCode + CredentialRef list) \<times> StaticProvider \<times> 'w" where
  "static_list_refs p w =
     (Inr (map (\<lambda>e. \<lparr>cr_id = se_id e, cr_name = se_name e,
                     cr_uri = (if \<not> stp_locked p then Some (se_uri e) else None),
                     cr_kind = (if \<not> stp_locked p then Some (se_kind e) else None)\<rparr>) (stp_entries p)), p, w)"

definition static_resolve ::
  "string \<Rightarrow> StaticProvider \<Rightarrow> 'w \<Rightarrow> (ErrorCode + ResolvedCredential option) \<times> StaticProvider \<times> 'w" where
  "static_resolve i p w =
     (case List.find (\<lambda>e. se_id e = i) (stp_entries p) of
        None \<Rightarrow> (Inr None, p, w)
      | Some e \<Rightarrow>
          (Inr (Some \<lparr>rc_locked = stp_locked p, rc_secrets_preregistered = True, rc_uri = Some (se_uri e), rc_username = se_username e,
              rc_password = se_password e, rc_totp_seed = se_totp_seed e, rc_totp_exposable = se_totp_exposable e\<rparr>), p, w))"

definition static_lock :: "StaticProvider \<Rightarrow> 'w \<Rightarrow> (ErrorCode + unit) \<times> StaticProvider \<times> 'w" where
  "static_lock p w = (Inr (), p\<lparr>stp_locked := True\<rparr>, w)"

definition static_expire :: "StaticProvider \<Rightarrow> 'w \<Rightarrow> (ErrorCode + unit) \<times> StaticProvider \<times> 'w" where
  "static_expire p w = (Inr (), p, w)"

definition static_take_autolock_event :: "StaticProvider \<Rightarrow> bool \<times> StaticProvider" where
  "static_take_autolock_event p = (False, p)"

definition static_secrets :: "StaticProvider \<Rightarrow> string set" where
  "static_secrets p = (\<Union>e\<in>set (stp_entries p). {se_username e, se_password e} \<union> set_option (se_totp_seed e))"

interpretation st: credential_provider "\<lambda>_. True" static_list_refs static_resolve static_lock static_expire
  static_take_autolock_event stp_locked static_secrets
  by unfold_locales
    (force simp: static_list_refs_def static_resolve_def static_lock_def static_expire_def static_take_autolock_event_def
       static_secrets_def credential_secrets_def find_Some_iff split: option.splits)+

lemma static_from_config_registers:
  "static_from_config es registry = (p, registry') \<Longrightarrow> static_secrets p \<subseteq> set registry' \<and> set registry \<subseteq> set registry'"
proof (induction es registry arbitrary: p registry' rule: static_from_config.induct)
  case (2 e es registry)
  let ?r = "registry @ [ec_username e, ec_password e] @ (case ec_totp_seed e of None \<Rightarrow> [] | Some seed \<Rightarrow> [seed])"
  obtain q where q: "static_from_config es ?r = (q, registry')" "p = q\<lparr>stp_entries := static_entry e # stp_entries q\<rparr>"
    using "2.prems" by (auto simp: Let_def split: prod.splits)
  have "static_secrets q \<subseteq> set registry'" "set ?r \<subseteq> set registry'" using "2.IH"[OF refl q(1)] by auto
  then show ?case unfolding q(2) by (auto simp: static_secrets_def static_entry_def split: option.splits)
qed (simp add: static_secrets_def)

subsection \<open>The age file\<close>

text \<open>
  The environment of the file provider: the clock, the two files, and the age and TOML libraries
  (reading an identity, decrypting with it, reading the entries).
\<close>

record ('w, 'i) FileEnv =
  fx_now :: "'w \<Rightarrow> instant \<times> 'w"
  fx_read :: "string \<Rightarrow> 'w \<Rightarrow> string option \<times> 'w"
  fx_read_to_string :: "string \<Rightarrow> 'w \<Rightarrow> string option \<times> 'w"
  fx_identity :: "string \<Rightarrow> 'i option"
  fx_decrypt :: "'i \<Rightarrow> string \<Rightarrow> string option"
  fx_entries :: "string \<Rightarrow> EntryConfig list option"

record FileProviderConfig =
  fc_entries_path :: string
  fc_identity_path :: string
  fc_session_ttl :: duration

record FileProvider =
  fp_entries_path :: string
  fp_identity_path :: string
  fp_session_ttl :: duration
  fp_session :: "StaticProvider option"
  fp_catalog :: "CredentialRef list"
  fp_unlocked_at :: "instant option"
  fp_locked :: bool
  fp_autolock_event_pending :: bool

text \<open>\<open>FileProvider::new\<close>, given the mode bits of the identity file or \<open>None\<close> when they cannot be read.\<close>

definition FileProvider_new :: "nat option \<Rightarrow> FileProviderConfig \<Rightarrow> FileProvider option" where
  "FileProvider_new mode_bits c =
     (case mode_bits of
        None \<Rightarrow> None
      | Some mode \<Rightarrow>
          if mode mod 4096 \<noteq> 384 then None
          else Some \<lparr>fp_entries_path = fc_entries_path c, fp_identity_path = fc_identity_path c, fp_session_ttl = fc_session_ttl c,
            fp_session = None, fp_catalog = [], fp_unlocked_at = None, fp_locked = True, fp_autolock_event_pending = False\<rparr>)"

definition identity_of :: "(string \<Rightarrow> 'i option) \<Rightarrow> string \<Rightarrow> 'i option" where
  "identity_of from_str text =
     find_map from_str (filter (\<lambda>l. l \<noteq> [] \<and> \<not> starts_with l ''#'') (map trim_str (str_lines text)))"

definition file_decrypt :: "('w, 'i) FileEnv \<Rightarrow> FileProvider \<Rightarrow> 'w \<Rightarrow> EntryConfig list option \<times> 'w" where
  "file_decrypt env p w =
     (case fx_read env (fp_entries_path p) w of
        (None, w) \<Rightarrow> (None, w)
      | (Some encrypted, w) \<Rightarrow>
          (case fx_read_to_string env (fp_identity_path p) w of
             (None, w) \<Rightarrow> (None, w)
           | (Some text, w) \<Rightarrow>
               (case identity_of (fx_identity env) text of
                  None \<Rightarrow> (None, w)
                | Some ident \<Rightarrow>
                    (case fx_decrypt env ident encrypted of
                       None \<Rightarrow> (None, w)
                     | Some plaintext \<Rightarrow> (fx_entries env plaintext, w)))))"

definition file_clear :: "FileProvider \<Rightarrow> FileProvider" where
  "file_clear p = p\<lparr>fp_session := None, fp_unlocked_at := None, fp_locked := True\<rparr>"

definition file_unlock :: "('w, 'i) FileEnv \<Rightarrow> FileProvider \<Rightarrow> 'w \<Rightarrow> (ErrorCode + unit) \<times> FileProvider \<times> 'w" where
  "file_unlock env p w =
     (let (fresh, p, w) =
        (case fp_unlocked_at p of
           None \<Rightarrow> (False, p, w)
         | Some at \<Rightarrow>
             (let (now, w) = fx_now env w in
              if now - at < fp_session_ttl p then (True, p, w)
              else (False, (file_clear p)\<lparr>fp_autolock_event_pending := True\<rparr>, w))) in
      if fresh then (Inr (), p, w)
      else (case file_decrypt env p w of
              (None, w) \<Rightarrow> (Inl Internal, p, w)
            | (Some entries, w) \<Rightarrow>
                (let (now, w) = fx_now env w in
                 (Inr (), p\<lparr>fp_session := Some (fst (static_from_config entries [])), fp_unlocked_at := Some now, fp_locked := False\<rparr>, w))))"

definition locked_refs :: "FileProvider \<Rightarrow> CredentialRef list" where
  "locked_refs p = map (\<lambda>c. \<lparr>cr_id = cr_id c, cr_name = cr_name c, cr_uri = None, cr_kind = None\<rparr>) (fp_catalog p)"

text \<open>
  The session is there after a successful \<open>unlock\<close> (\<open>file_inv\<close> below); its \<open>expect\<close> is the last case.
\<close>

definition file_list_refs ::
  "('w, 'i) FileEnv \<Rightarrow> FileProvider \<Rightarrow> 'w \<Rightarrow> (ErrorCode + CredentialRef list) \<times> FileProvider \<times> 'w" where
  "file_list_refs env p w =
     (if fp_locked p \<and> fp_catalog p \<noteq> [] then (Inr (locked_refs p), p, w)
      else (case file_unlock env p w of
              (Inl e, p, w) \<Rightarrow> (Inl e, p, w)
            | (Inr _, p, w) \<Rightarrow>
                (case fp_session p of
                   Some s \<Rightarrow>
                     (case static_list_refs s w of
                        (Inl e, s, w) \<Rightarrow> (Inl e, p\<lparr>fp_session := Some s\<rparr>, w)
                      | (Inr refs, s, w) \<Rightarrow> (Inr refs, p\<lparr>fp_session := Some s, fp_catalog := refs\<rparr>, w))
                 | None \<Rightarrow> (Inl Internal, p, w))))"

definition file_resolve ::
  "('w, 'i) FileEnv \<Rightarrow> string \<Rightarrow> FileProvider \<Rightarrow> 'w \<Rightarrow> (ErrorCode + ResolvedCredential option) \<times> FileProvider \<times> 'w" where
  "file_resolve env i p w =
     (case file_unlock env p w of
        (Inl e, p, w) \<Rightarrow> (Inl e, p, w)
      | (Inr _, p, w) \<Rightarrow>
          (case fp_session p of
             Some s \<Rightarrow>
               (case static_resolve i s w of
                  (Inl e, s, w) \<Rightarrow> (Inl e, p\<lparr>fp_session := Some s\<rparr>, w)
                | (Inr c, s, w) \<Rightarrow> (Inr (map_option (\<lambda>c. c\<lparr>rc_secrets_preregistered := False\<rparr>) c), p\<lparr>fp_session := Some s\<rparr>, w))
           | None \<Rightarrow> (Inl Internal, p, w)))"

definition file_lock :: "FileProvider \<Rightarrow> 'w \<Rightarrow> (ErrorCode + unit) \<times> FileProvider \<times> 'w" where
  "file_lock p w = (Inr (), file_clear p, w)"

definition file_expire :: "('w, 'i) FileEnv \<Rightarrow> FileProvider \<Rightarrow> 'w \<Rightarrow> (ErrorCode + unit) \<times> FileProvider \<times> 'w" where
  "file_expire env p w =
     (case fp_unlocked_at p of
        None \<Rightarrow> (Inr (), p, w)
      | Some at \<Rightarrow>
          (let (now, w) = fx_now env w in
           (Inr (), if now - at \<ge> fp_session_ttl p then (file_clear p)\<lparr>fp_autolock_event_pending := True\<rparr> else p, w)))"

definition file_take_autolock_event :: "FileProvider \<Rightarrow> bool \<times> FileProvider" where
  "file_take_autolock_event p = (fp_autolock_event_pending p, p\<lparr>fp_autolock_event_pending := False\<rparr>)"

text \<open>Decrypted entries are in memory exactly while the provider is unlocked, with the time of the unlock.\<close>

definition file_inv :: "FileProvider \<Rightarrow> bool" where
  "file_inv p \<longleftrightarrow> fp_locked p = (fp_session p = None) \<and> fp_locked p = (fp_unlocked_at p = None)
     \<and> (\<forall>s. fp_session p = Some s \<longrightarrow> \<not> stp_locked s)"

lemma static_from_config_unlocked: "\<not> stp_locked (fst (static_from_config es r))"
  by (induction es r rule: static_from_config.induct) (auto simp: Let_def split: prod.splits)

lemma file_new_inv: "FileProvider_new m c = Some p \<Longrightarrow> file_inv p"
  by (auto simp: FileProvider_new_def file_inv_def split: option.splits if_splits)

lemma file_unlock_ok:
  assumes "file_inv p" "file_unlock env p w = (r, p', w')"
  shows "file_inv p'" "r = Inr () \<Longrightarrow> \<exists>s. fp_session p' = Some s \<and> \<not> stp_locked s \<and> \<not> fp_locked p'"
  using assms static_from_config_unlocked
  by (auto simp: file_unlock_def file_inv_def file_clear_def Let_def split: option.splits prod.splits if_splits)

lemma file_session_kept: "file_inv p \<Longrightarrow> fp_session p = Some s \<Longrightarrow> file_inv (p\<lparr>fp_session := Some s, fp_catalog := c\<rparr>)"
  "file_inv p \<Longrightarrow> fp_session p = Some s \<Longrightarrow> file_inv (p\<lparr>fp_session := Some s\<rparr>)"
  by (auto simp: file_inv_def)

lemma file_list_ok:
  assumes "file_inv p" "file_list_refs env p w = (r, p', w')"
  shows "file_inv p'" "r = Inr refs \<Longrightarrow> fp_locked p' \<Longrightarrow> x \<in> set refs \<Longrightarrow> cr_uri x = None"
proof -
  obtain u q v where u: "file_unlock env p w = (u, q, v)" by (cases "file_unlock env p w")
  note U = file_unlock_ok[OF assms(1) u]
  show "file_inv p'"
    using assms U u file_session_kept
    by (auto simp: file_list_refs_def static_list_refs_def split: if_splits sum.splits option.splits)
  show "r = Inr refs \<Longrightarrow> fp_locked p' \<Longrightarrow> x \<in> set refs \<Longrightarrow> cr_uri x = None"
    using assms(2) U u
    by (auto simp: file_list_refs_def static_list_refs_def locked_refs_def split: if_splits sum.splits option.splits)
qed

lemma file_resolve_ok:
  assumes "file_inv p" "file_resolve env i p w = (r, p', w')"
  shows "file_inv p'" "r = Inr (Some c) \<Longrightarrow> \<not> rc_locked c \<and> \<not> fp_locked p' \<and> \<not> rc_secrets_preregistered c"
proof -
  obtain u q v where u: "file_unlock env p w = (u, q, v)" by (cases "file_unlock env p w")
  note U = file_unlock_ok[OF assms(1) u]
  show "file_inv p'"
    using assms U u file_session_kept
    by (auto simp: file_resolve_def static_resolve_def split: if_splits sum.splits option.splits)
  show "r = Inr (Some c) \<Longrightarrow> \<not> rc_locked c \<and> \<not> fp_locked p' \<and> \<not> rc_secrets_preregistered c"
    using assms(2) U u
    by (auto simp: file_resolve_def static_resolve_def split: if_splits sum.splits option.splits)
qed

interpretation fi: credential_provider file_inv "file_list_refs env" "file_resolve env" file_lock "file_expire env"
  file_take_autolock_event fp_locked "\<lambda>_. {}" for env
proof (unfold_locales, goal_cases)
  case (1 p w r p' w')
  then show ?case using file_list_ok(1)[OF 1] by simp
next
  case (2 p i w c p' w')
  then show ?case using file_resolve_ok(1)[OF 2] by simp
next
  case (7 p w refs p' w' x)
  then show ?case using file_list_ok(2)[OF 7(1,2) refl 7(3,4)] by simp
next
  case (8 p i w c' p' w')
  then show ?case using file_resolve_ok(2)[OF 8 refl] by simp
next
  case (9 p i w c' p' w')
  then show ?case using file_resolve_ok(2)[OF 9(1,2) refl] by simp
qed (auto simp: file_inv_def file_lock_def file_clear_def file_expire_def file_take_autolock_event_def Let_def
    split: option.splits prod.splits if_splits)

subsection \<open>The pass store\<close>

text \<open>
  The tree of the store as reading its directories gives it: an entry is a directory, a file or one
  that cannot be read. A run of \<open>pass show\<close> ends in one of the ways of \<open>program_end\<close>.
\<close>

datatype fs_node = FsDir string "fs_node list" | FsFile string | FsBad

datatype program_end =
    SpawnFailed
  | NoPipe
  | WaitFailed
  | ReadFailed
  | TimedOut
  | Exited bool string

record program_call =
  pc_program :: string
  pc_args :: "string list"
  pc_env :: "(string \<times> string) list"

record 'w PassEnv =
  px_now :: "'w \<Rightarrow> instant \<times> 'w"
  px_read_dir :: "string \<Rightarrow> 'w \<Rightarrow> fs_node list option \<times> 'w"
  px_run :: "program_call \<Rightarrow> 'w \<Rightarrow> program_end \<times> 'w"

datatype PassRunError = PassProcess | PassNonZeroExit | PassInvalidOutput | PassTimeout

record PassProviderConfig =
  ppc_store_dir :: string
  ppc_gnupghome :: "string option"
  ppc_pass_bin :: "string option"
  ppc_totp_exposable :: "string list"
  ppc_session_ttl :: duration

record PassEntry =
  pse_username :: string
  pse_password :: string
  pse_totp_seed :: "string option"
  pse_totp_exposable :: bool

record PassProvider =
  pp_store_dir :: string
  pp_gnupghome :: "string option"
  pp_pass_bin :: string
  pp_totp_exposable :: "string list"
  pp_session_ttl :: duration
  pp_catalog :: "string list"
  pp_entries :: "(string, PassEntry) table"
  pp_unlocked_at :: "instant option"
  pp_locked :: bool
  pp_autolock_event_pending :: bool

definition PassProvider_new :: "PassProviderConfig \<Rightarrow> PassProvider" where
  "PassProvider_new c =
     \<lparr>pp_store_dir = ppc_store_dir c, pp_gnupghome = ppc_gnupghome c,
      pp_pass_bin = (case ppc_pass_bin c of None \<Rightarrow> ''pass'' | Some b \<Rightarrow> b), pp_totp_exposable = ppc_totp_exposable c,
      pp_session_ttl = ppc_session_ttl c, pp_catalog = [], pp_entries = [], pp_unlocked_at = None, pp_locked = True,
      pp_autolock_event_pending = False\<rparr>"

definition pass_clear_session :: "PassProvider \<Rightarrow> PassProvider" where
  "pass_clear_session p = p\<lparr>pp_entries := [], pp_unlocked_at := None, pp_locked := True\<rparr>"

text \<open>\<open>Path::extension\<close> and \<open>with_extension\<close> of a file name.\<close>

definition path_extension :: "string \<Rightarrow> string option" where
  "path_extension f =
     (case rsplit_once_char f (CHR ''.'') of
        None \<Rightarrow> None
      | Some (stem, ext) \<Rightarrow> if stem = [] then None else Some ext)"

definition path_stem :: "string \<Rightarrow> string" where
  "path_stem f =
     (case rsplit_once_char f (CHR ''.'') of
        None \<Rightarrow> f
      | Some (stem, ext) \<Rightarrow> if stem = [] then f else stem)"

fun scan_directory :: "string \<Rightarrow> fs_node list \<Rightarrow> string list \<Rightarrow> string list option" where
  "scan_directory pre [] names = Some names"
| "scan_directory pre (FsBad # ns) names = None"
| "scan_directory pre (FsDir d ch # ns) names =
     (case scan_directory (pre @ d @ ''/'') ch names of
        None \<Rightarrow> None
      | Some names \<Rightarrow> scan_directory pre ns names)"
| "scan_directory pre (FsFile f # ns) names =
     scan_directory pre ns (if path_extension f = Some ''gpg'' then names @ [from_utf8_lossy (pre @ path_stem f)] else names)"

definition scan_store :: "'w PassEnv \<Rightarrow> PassProvider \<Rightarrow> 'w \<Rightarrow> (ErrorCode + unit) \<times> PassProvider \<times> 'w" where
  "scan_store env p w =
     (case px_read_dir env (pp_store_dir p) w of
        (None, w) \<Rightarrow> (Inl Internal, p, w)
      | (Some nodes, w) \<Rightarrow>
          (case scan_directory [] nodes [] of
             None \<Rightarrow> (Inl Internal, p, w)
           | Some names \<Rightarrow> (Inr (), p\<lparr>pp_catalog := sort names\<rparr>, w)))"

definition pass_call :: "PassProvider \<Rightarrow> string \<Rightarrow> program_call" where
  "pass_call p name =
     \<lparr>pc_program = pp_pass_bin p, pc_args = [''show'', name],
      pc_env = (''PASSWORD_STORE_DIR'', pp_store_dir p)
        # (case pp_gnupghome p of None \<Rightarrow> [] | Some g \<Rightarrow> [(''GNUPGHOME'', g)])\<rparr>"

definition run_pass :: "'w PassEnv \<Rightarrow> PassProvider \<Rightarrow> string \<Rightarrow> 'w \<Rightarrow> (PassRunError + string) \<times> 'w" where
  "run_pass env p name w =
     (case px_run env (pass_call p name) w of
        (r, w) \<Rightarrow>
          (case r of
             SpawnFailed \<Rightarrow> Inl PassProcess
           | NoPipe \<Rightarrow> Inl PassInvalidOutput
           | WaitFailed \<Rightarrow> Inl PassProcess
           | ReadFailed \<Rightarrow> Inl PassProcess
           | TimedOut \<Rightarrow> Inl PassTimeout
           | Exited ok out \<Rightarrow>
               if ok then (case from_utf8 out of Some text \<Rightarrow> Inr text | None \<Rightarrow> Inl PassInvalidOutput) else Inl PassNonZeroExit, w))"

definition extract_totp_seed :: "string \<Rightarrow> string option" where
  "extract_totp_seed line =
     Option.bind (find_sub line ''otpauth://'') (\<lambda>start.
       Option.bind (split_once (drop start line) ''?'') (\<lambda>(_, query).
         find_map (\<lambda>part. Option.bind (split_once part ''='') (\<lambda>(k, v).
           if k = ''secret'' then Some (hd (split_char v (CHR ''#''))) else None)) (split_char query (CHR ''&''))))"

record pass_lines =
  pl_username :: "string option"
  pl_login :: "string option"
  pl_totp_seed :: "string option"

definition parse_line :: "string \<Rightarrow> pass_lines \<Rightarrow> pass_lines" where
  "parse_line line a =
     (let a = (case strip_prefix line ''username:'' of
                 Some v \<Rightarrow> a\<lparr>pl_username := Some (trim_str v)\<rparr>
               | None \<Rightarrow>
                   (case strip_prefix line ''login:'' of
                      Some v \<Rightarrow> a\<lparr>pl_login := Some (trim_str v)\<rparr>
                    | None \<Rightarrow> a)) in
      case extract_totp_seed line of None \<Rightarrow> a | Some seed \<Rightarrow> a\<lparr>pl_totp_seed := Some seed\<rparr>)"

definition parse_entry :: "string \<Rightarrow> string list \<Rightarrow> string \<Rightarrow> PassEntry option" where
  "parse_entry output exposable name =
     (case str_lines output of
        [] \<Rightarrow> None
      | first # rest \<Rightarrow>
          (let a = fold parse_line rest \<lparr>pl_username = None, pl_login = None, pl_totp_seed = None\<rparr> in
           Some \<lparr>pse_username = (case pl_username a of Some u \<Rightarrow> u | None \<Rightarrow> (case pl_login a of Some l \<Rightarrow> l | None \<Rightarrow> [])),
                 pse_password = trim_end_matches (\<lambda>c. c = CHR 0x0D) first, pse_totp_seed = pl_totp_seed a,
                 pse_totp_exposable = list_ex (\<lambda>e. e = name) exposable\<rparr>))"

definition pass_to_resolved :: "PassEntry \<Rightarrow> ResolvedCredential" where
  "pass_to_resolved e =
     \<lparr>rc_locked = False, rc_secrets_preregistered = False, rc_uri = None, rc_username = pse_username e,
      rc_password = pse_password e, rc_totp_seed = pse_totp_seed e, rc_totp_exposable = pse_totp_exposable e\<rparr>"

definition pass_expire :: "'w PassEnv \<Rightarrow> PassProvider \<Rightarrow> 'w \<Rightarrow> (ErrorCode + unit) \<times> PassProvider \<times> 'w" where
  "pass_expire env p w =
     (case pp_unlocked_at p of
        None \<Rightarrow> (Inr (), p, w)
      | Some at \<Rightarrow>
          (let (now, w) = px_now env w in
           (Inr (), if now - at \<ge> pp_session_ttl p then (pass_clear_session p)\<lparr>pp_autolock_event_pending := True\<rparr> else p, w)))"

definition pass_resolve ::
  "'w PassEnv \<Rightarrow> string \<Rightarrow> PassProvider \<Rightarrow> 'w \<Rightarrow> (ErrorCode + ResolvedCredential option) \<times> PassProvider \<times> 'w" where
  "pass_resolve env name p w =
     (case pass_expire env p w of
        (_, p, w) \<Rightarrow>
          (case hget (pp_entries p) name of
             Some e \<Rightarrow> (Inr (Some (pass_to_resolved e)), p, w)
           | None \<Rightarrow>
               (case run_pass env p name w of
                  (Inl _, w) \<Rightarrow> (Inl Internal, p, w)
                | (Inr out, w) \<Rightarrow>
                    (case parse_entry out (pp_totp_exposable p) name of
                       None \<Rightarrow> (Inl Internal, p, w)
                     | Some e \<Rightarrow>
                         (let (now, w) = px_now env w in
                          (Inr (Some (pass_to_resolved e)),
                           p\<lparr>pp_entries := hinsert name e (pp_entries p), pp_unlocked_at := Some now, pp_locked := False\<rparr>, w))))))"

definition pass_list_refs :: "'w PassEnv \<Rightarrow> PassProvider \<Rightarrow> 'w \<Rightarrow> (ErrorCode + CredentialRef list) \<times> PassProvider \<times> 'w" where
  "pass_list_refs env p w =
     (case scan_store env p w of
        (Inl e, p, w) \<Rightarrow> (Inl e, p, w)
      | (Inr _, p, w) \<Rightarrow>
          (Inr (map (\<lambda>n. \<lparr>cr_id = n, cr_name = n, cr_uri = Some [], cr_kind = Some ''login''\<rparr>) (pp_catalog p)), p, w))"

definition pass_lock :: "PassProvider \<Rightarrow> 'w \<Rightarrow> (ErrorCode + unit) \<times> PassProvider \<times> 'w" where
  "pass_lock p w = (Inr (), pass_clear_session p, w)"

definition pass_take_autolock_event :: "PassProvider \<Rightarrow> bool \<times> PassProvider" where
  "pass_take_autolock_event p = (pp_autolock_event_pending p, p\<lparr>pp_autolock_event_pending := False\<rparr>)"

definition pass_inv :: "PassProvider \<Rightarrow> bool" where
  "pass_inv p \<longleftrightarrow> pp_locked p = (pp_entries p = []) \<and> pp_locked p = (pp_unlocked_at p = None)"

lemma pass_new_inv: "pass_inv (PassProvider_new c)"
  by (simp add: pass_inv_def PassProvider_new_def)

lemma pass_expire_ok:
  assumes "pass_inv p" "pass_expire env p w = (r, p', w')"
  shows "pass_inv p'" "r = Inr ()" "p' = p \<or> (pp_entries p' = [] \<and> pp_locked p')"
  using assms by (auto simp: pass_expire_def pass_inv_def pass_clear_session_def Let_def split: option.splits prod.splits if_splits)

lemma pass_resolve_ok:
  assumes "pass_inv p" "pass_resolve env i p w = (r, p', w')"
  shows "pass_inv p'" "r = Inr (Some c) \<Longrightarrow> \<not> rc_locked c \<and> \<not> pp_locked p' \<and> \<not> rc_secrets_preregistered c"
proof -
  obtain u q v where u: "pass_expire env p w = (u, q, v)" by (cases "pass_expire env p w")
  have q: "pass_inv q" by (rule pass_expire_ok(1)[OF assms(1) u])
  then have h: "hget (pp_entries q) i = Some e \<Longrightarrow> \<not> pp_locked q" for e by (auto simp: pass_inv_def)
  show "pass_inv p'" using assms(2) q u
    by (auto simp: pass_resolve_def pass_inv_def split: option.splits sum.splits prod.splits)
  show "r = Inr (Some c) \<Longrightarrow> \<not> rc_locked c \<and> \<not> pp_locked p' \<and> \<not> rc_secrets_preregistered c"
    using assms(2) h u by (auto simp: pass_resolve_def pass_to_resolved_def split: option.splits sum.splits prod.splits)
qed

lemma pass_list_ok:
  assumes "pass_inv p" "pass_list_refs env p w = (r, p', w')"
  shows "pass_inv p'" "r = Inr refs \<Longrightarrow> x \<in> set refs \<Longrightarrow> cr_uri x = Some []"
  using assms by (auto simp: pass_list_refs_def scan_store_def pass_inv_def split: option.splits sum.splits prod.splits)

interpretation pa: credential_provider pass_inv "pass_list_refs env" "pass_resolve env" pass_lock "pass_expire env"
  pass_take_autolock_event pp_locked "\<lambda>_. {}" for env
proof (unfold_locales, goal_cases)
  case (1 p w r p' w')
  then show ?case using pass_list_ok(1)[OF 1] by simp
next
  case (2 p i w c p' w')
  then show ?case using pass_resolve_ok(1)[OF 2] by simp
next
  case (7 p w refs p' w' x)
  then show ?case using pass_list_ok(2)[OF 7(1,2) refl 7(4)] by simp
next
  case (8 p i w c' p' w')
  then show ?case using pass_resolve_ok(2)[OF 8 refl] by simp
next
  case (9 p i w c' p' w')
  then show ?case using pass_resolve_ok(2)[OF 9(1,2) refl] by simp
qed (auto simp: pass_inv_def pass_lock_def pass_clear_session_def pass_expire_def pass_take_autolock_event_def Let_def
    split: option.splits prod.splits if_splits)

end
