(* ===== verification/Bitwarden.thy ===== *)
theory Bitwarden
  imports Providers Json
begin

section \<open>The Bitwarden command line\<close>

text \<open>
  \<open>crates/tegatad/src/provider/bitwarden.rs\<close>: a provider that runs the \<open>bw\<close> program. The program, the
  askpass command, the clock and the readers of the program's JSON are functions of the
  environment; everything the provider does with their answers is here, down to the diagnostic
  line that each run writes to standard error (\<open>bwp_lines\<close> collects them, the latest first).
\<close>

type_synonym io_kind = string

datatype bw_end =
    BwSpawnFailed io_kind
  | BwNoPipe string
  | BwWaitFailed io_kind string
  | BwReadFailed io_kind string
  | BwTimedOut string
  | BwExited "int option" string string

record BitwardenUri =
  bu_uri :: "string option"

record BitwardenLogin =
  bl_uris :: "BitwardenUri list"
  bl_username :: "string option"
  bl_password :: "string option"
  bl_totp :: "string option"

record BitwardenItem =
  bi_id :: string
  bi_name :: string
  bi_login :: "BitwardenLogin option"

record BitwardenCatalogItem =
  bc_id :: string
  bc_name :: string

record BwAttemptContext =
  cx_cold_start :: bool
  cx_attempt :: nat

definition BwAttemptContext_new :: "bool \<Rightarrow> nat \<Rightarrow> BwAttemptContext" where
  "BwAttemptContext_new cold n = \<lparr>cx_cold_start = cold, cx_attempt = n\<rparr>"

definition with_attempt :: "nat \<Rightarrow> BwAttemptContext \<Rightarrow> BwAttemptContext" where
  "with_attempt n c = c\<lparr>cx_attempt := n\<rparr>"

record BwDiagnosticBase =
  dg_rpc_id :: json
  dg_namespace :: string
  dg_cold_start :: bool
  dg_op :: string
  dg_attempt :: nat
  dg_elapsed_ms :: nat
  dg_branch :: "string option"
  dg_session_present :: bool
  dg_exit_code :: "int option"
  dg_stderr :: string
  dg_io_error :: "io_kind option"

record diag_line =
  dl_base :: BwDiagnosticBase
  dl_failure :: "string option"
  dl_status :: "string option"

record 'w BwEnv =
  bx_now :: "'w \<Rightarrow> instant \<times> 'w"
  bx_sleep :: "duration \<Rightarrow> 'w \<Rightarrow> 'w"
  bx_create_dir :: "string \<Rightarrow> 'w \<Rightarrow> io_kind option \<times> 'w"
  bx_run :: "program_call \<Rightarrow> duration \<Rightarrow> 'w \<Rightarrow> bw_end \<times> 'w"
  bx_askpass :: "program_call \<Rightarrow> 'w \<Rightarrow> program_end \<times> 'w"
  bx_items :: "string \<Rightarrow> BitwardenItem list option"
  bx_item :: "string \<Rightarrow> BitwardenItem option"
  bx_status :: "string \<Rightarrow> string option"
  bx_var :: "string \<Rightarrow> string option"
  bx_rpc_id :: json
  bx_method :: "string option"

record BitwardenCliConfig =
  bcf_namespace :: string
  bcf_server_url :: string
  bcf_email :: string
  bcf_askpass_cmd :: string
  bcf_appdata_dir :: string
  bcf_bw_path :: "string option"
  bcf_totp_exposable :: "string list"
  bcf_session_ttl :: duration

record BitwardenCliProvider =
  bwp_namespace :: string
  bwp_server_url :: string
  bwp_email :: string
  bwp_askpass_cmd :: string
  bwp_appdata_dir :: string
  bwp_bw_path :: "string option"
  bwp_totp_exposable :: "string list"
  bwp_session_ttl :: duration
  bwp_session :: "string option"
  bwp_unlocked_at :: "instant option"
  bwp_last_sync_at :: "instant option"
  bwp_locked :: bool
  bwp_autolock_event_pending :: bool
  bwp_catalog :: "BitwardenCatalogItem list"
  bwp_lines :: "diag_line list"

definition BitwardenCliProvider_new :: "BitwardenCliConfig \<Rightarrow> BitwardenCliProvider" where
  "BitwardenCliProvider_new c =
     \<lparr>bwp_namespace = bcf_namespace c, bwp_server_url = bcf_server_url c, bwp_email = bcf_email c,
      bwp_askpass_cmd = bcf_askpass_cmd c, bwp_appdata_dir = bcf_appdata_dir c, bwp_bw_path = bcf_bw_path c,
      bwp_totp_exposable = bcf_totp_exposable c, bwp_session_ttl = bcf_session_ttl c, bwp_session = None,
      bwp_unlocked_at = None, bwp_last_sync_at = None, bwp_locked = False, bwp_autolock_event_pending = False,
      bwp_catalog = [], bwp_lines = []\<rparr>"

definition BW_COMMAND_TIMEOUT :: duration where "BW_COMMAND_TIMEOUT = from_secs 60"
definition BW_SYNC_TIMEOUT :: duration where "BW_SYNC_TIMEOUT = from_secs 30"
definition BW_RESYNC_INTERVAL :: duration where "BW_RESYNC_INTERVAL = from_secs 60"

text \<open>A duration in milliseconds, when the variable holds the decimal text of a \<open>u64\<close>.\<close>

definition parse_u64 :: "string \<Rightarrow> nat option" where
  "parse_u64 s =
     (let d = (case strip_prefix s ''+'' of Some t \<Rightarrow> t | None \<Rightarrow> s) in
      if d \<noteq> [] \<and> list_all is_ascii_digit d \<and> dec_val d < 2 ^ 64 then Some (dec_val d) else None)"

definition duration_from_env :: "'w BwEnv \<Rightarrow> string \<Rightarrow> duration \<Rightarrow> duration" where
  "duration_from_env env name dflt =
     (case Option.bind (bx_var env name) parse_u64 of None \<Rightarrow> dflt | Some ms \<Rightarrow> ms * 1000000)"

definition bw_sync_timeout :: "'w BwEnv \<Rightarrow> duration" where
  "bw_sync_timeout env = duration_from_env env ''TEGATA_BW_SYNC_TIMEOUT_MS'' BW_SYNC_TIMEOUT"

definition bw_resync_interval :: "'w BwEnv \<Rightarrow> duration" where
  "bw_resync_interval env = duration_from_env env ''TEGATA_BW_RESYNC_INTERVAL_MS'' BW_RESYNC_INTERVAL"

subsection \<open>Errors\<close>

datatype BwRunError =
    BwCreateDir io_kind
  | BwProcess io_kind string
  | BwNonZeroExit "int option" string
  | BwTimeout string

datatype BwEstablishError = EstablishRun BwRunError | EstablishOther ErrorCode

datatype BwOperationError = OpNormal ErrorCode | OpNoColdStartRetry ErrorCode

fun BwRunError_stderr :: "BwRunError \<Rightarrow> string" where
  "BwRunError_stderr (BwCreateDir _) = []"
| "BwRunError_stderr (BwProcess _ e) = e"
| "BwRunError_stderr (BwNonZeroExit _ e) = e"
| "BwRunError_stderr (BwTimeout e) = e"

fun BwRunError_failure :: "BwRunError \<Rightarrow> string" where
  "BwRunError_failure (BwCreateDir _) = ''create_dir''"
| "BwRunError_failure (BwProcess _ _) = ''spawn''"
| "BwRunError_failure (BwNonZeroExit _ _) = ''exit''"
| "BwRunError_failure (BwTimeout _) = ''timeout''"

fun BwRunError_exit_code :: "BwRunError \<Rightarrow> int option" where
  "BwRunError_exit_code (BwNonZeroExit s _) = s"
| "BwRunError_exit_code _ = None"

fun BwRunError_io_error_kind :: "BwRunError \<Rightarrow> io_kind option" where
  "BwRunError_io_error_kind (BwCreateDir k) = Some k"
| "BwRunError_io_error_kind (BwProcess k _) = Some k"
| "BwRunError_io_error_kind _ = None"

fun classify_bw_run_error :: "BwRunError \<Rightarrow> ErrorCode" where
  "classify_bw_run_error (BwCreateDir _) = Internal"
| "classify_bw_run_error _ = ProviderUnavailable"

fun establish_error_code :: "BwEstablishError \<Rightarrow> ErrorCode" where
  "establish_error_code (EstablishRun e) = classify_bw_run_error e"
| "establish_error_code (EstablishOther c) = c"

fun operation_error_code :: "BwOperationError \<Rightarrow> ErrorCode" where
  "operation_error_code (OpNormal c) = c"
| "operation_error_code (OpNoColdStartRetry c) = c"

definition op_can_retry_cold_start :: "BwOperationError \<Rightarrow> bool" where
  "op_can_retry_cold_start e \<longleftrightarrow> e = OpNormal ProviderUnavailable"

definition can_retry_cold_start :: "BwAttemptContext \<Rightarrow> string option \<Rightarrow> bool" where
  "can_retry_cold_start c meth \<longleftrightarrow> cx_cold_start c \<and> meth = Some ''list_credentials''"

definition should_resync :: "instant option \<Rightarrow> instant \<Rightarrow> duration \<Rightarrow> bool" where
  "should_resync last_sync now interval = (case last_sync of None \<Rightarrow> True | Some l \<Rightarrow> now - l \<ge> interval)"

definition should_retry_login_after_sync :: "BwRunError \<Rightarrow> bool" where
  "should_retry_login_after_sync e = (case e of BwNonZeroExit _ _ \<Rightarrow> True | _ \<Rightarrow> False)"

definition unlock_grant_was_rejected :: "BwRunError \<Rightarrow> bool" where
  "unlock_grant_was_rejected e =
     (case e of BwNonZeroExit _ err \<Rightarrow> contains_sub (from_utf8_lossy err) ''invalid_grant'' | _ \<Rightarrow> False)"

definition classify_second_sync_failure :: "BwRunError \<Rightarrow> BwOperationError" where
  "classify_second_sync_failure e =
     (if should_retry_login_after_sync e then OpNormal (classify_bw_run_error e)
      else OpNoColdStartRetry (classify_bw_run_error e))"

subsection \<open>Diagnostics\<close>

text \<open>\<open>str::replace\<close>.\<close>

function replace_all :: "string \<Rightarrow> string \<Rightarrow> string \<Rightarrow> string" where
  "replace_all s p r =
     (if p = [] then concat (map (\<lambda>ch. r @ ch) (utf8_chunks s)) @ r
      else case find_sub s p of
        None \<Rightarrow> s
      | Some i \<Rightarrow> take i s @ r @ replace_all (drop (i + length p) s) p r)"
  by pat_completeness auto
termination
proof (relation "measure (\<lambda>(s, p, r). length s)", goal_cases)
  case (2 s p r i)
  then have "s \<noteq> []" using find_sub_Some[of s p i] by (cases s) auto
  then show ?case using 2 by (cases p) auto
qed simp

declare replace_all.simps [simp del]

definition REDACTED :: string where
  "REDACTED = ''[REDACTED]''"

definition BW_STDERR_MAX :: nat where
  "BW_STDERR_MAX = 300"

definition sanitize_stderr :: "string \<Rightarrow> string \<Rightarrow> string \<Rightarrow> string option \<Rightarrow> string option \<Rightarrow> string list \<Rightarrow> string" where
  "sanitize_stderr stderr appdata email session password issued_secrets =
     (let sensitive = [from_utf8_lossy appdata] @ (if email \<noteq> [] then [email] else [])
            @ (case session of None \<Rightarrow> [] | Some x \<Rightarrow> [x]) @ (case password of None \<Rightarrow> [] | Some x \<Rightarrow> [x]) @ issued_secrets in
      truncate_utf8 BW_STDERR_MAX
        (fold (\<lambda>x v. replace_all v x REDACTED) (filter (\<lambda>x. x \<noteq> []) sensitive) (from_utf8_lossy stderr)))"

definition first_line :: "string \<Rightarrow> string option" where
  "first_line s = (case str_lines s of [] \<Rightarrow> None | l # _ \<Rightarrow> Some l)"

definition session_key_from_stdout :: "string \<Rightarrow> string option" where
  "session_key_from_stdout out =
     Option.bind (from_utf8 out) (\<lambda>v. Option.bind (first_line v) (\<lambda>l.
       let k = trim_end_matches (\<lambda>c. c = CHR 0x0D) l in if k \<noteq> [] then Some k else None))"

definition arg_at :: "string list \<Rightarrow> nat \<Rightarrow> string option" where
  "arg_at args i = (if i < length args then Some (args ! i) else None)"

definition issued_session_secrets :: "string list \<Rightarrow> string \<Rightarrow> string list" where
  "issued_session_secrets args out =
     (let issues = (case arg_at args 0 of
                      None \<Rightarrow> False
                    | Some a \<Rightarrow> if a = ''unlock'' then True else if a = ''login'' then arg_at args 1 \<noteq> Some ''--check'' else False) in
      if \<not> issues \<or> ''--raw'' \<notin> set args then []
      else (let secrets = (case session_key_from_stdout out of None \<Rightarrow> [] | Some k \<Rightarrow> [k]);
                whole = trim_str (from_utf8_lossy out) in
            if whole \<noteq> [] \<and> whole \<notin> set secrets then secrets @ [whole] else secrets))"

definition operation_name :: "string list \<Rightarrow> string" where
  "operation_name args =
     (case arg_at args 0 of
        None \<Rightarrow> ''unknown''
      | Some a \<Rightarrow>
          if a = ''--version'' then ''version''
          else if a = ''config'' \<and> arg_at args 1 = Some ''server'' then ''config_server''
          else if a = ''login'' \<and> arg_at args 1 = Some ''--check'' then ''login_check''
          else if a = ''list'' \<and> arg_at args 1 = Some ''items'' then ''list_items''
          else if a = ''get'' \<and> arg_at args 1 = Some ''item'' then ''get_item''
          else a)"

definition diag_branch :: "string list \<Rightarrow> string option" where
  "diag_branch args =
     (case arg_at args 0 of
        None \<Rightarrow> None
      | Some a \<Rightarrow>
          if a = ''unlock'' then Some ''unlock''
          else if a = ''login'' \<and> arg_at args 1 \<noteq> Some ''--check'' then Some ''login''
          else None)"

record BwDiagnosticInput =
  di_args :: "string list"
  di_session :: "string option"
  di_password :: "string option"
  di_context :: BwAttemptContext
  di_elapsed :: duration
  di_exit_code :: "int option"
  di_stderr :: string
  di_issued_secrets :: "string list"
  di_io_error :: "io_kind option"

definition diagnostic_base :: "'w BwEnv \<Rightarrow> BitwardenCliProvider \<Rightarrow> BwDiagnosticInput \<Rightarrow> BwDiagnosticBase" where
  "diagnostic_base env p i =
     \<lparr>dg_rpc_id = bx_rpc_id env, dg_namespace = bwp_namespace p, dg_cold_start = cx_cold_start (di_context i),
      dg_op = operation_name (di_args i), dg_attempt = cx_attempt (di_context i),
      dg_elapsed_ms = min (di_elapsed i div 1000000) (2 ^ 64 - 1), dg_branch = diag_branch (di_args i),
      dg_session_present = (di_session i \<noteq> None), dg_exit_code = di_exit_code i,
      dg_stderr = sanitize_stderr (di_stderr i) (bwp_appdata_dir p) (bwp_email p) (di_session i) (di_password i) (di_issued_secrets i),
      dg_io_error = di_io_error i\<rparr>"

definition emit_bw_diag :: "BwDiagnosticBase \<Rightarrow> string option \<Rightarrow> string option \<Rightarrow> BitwardenCliProvider \<Rightarrow> BitwardenCliProvider" where
  "emit_bw_diag b failure st p = p\<lparr>bwp_lines := \<lparr>dl_base = b, dl_failure = failure, dl_status = st\<rparr> # bwp_lines p\<rparr>"

subsection \<open>Running the program\<close>

definition bw_call :: "BitwardenCliProvider \<Rightarrow> string list \<Rightarrow> string option \<Rightarrow> string option \<Rightarrow> program_call" where
  "bw_call p args session password =
     \<lparr>pc_program = (case bwp_bw_path p of None \<Rightarrow> ''bw'' | Some b \<Rightarrow> b),
      pc_args = args @ (if password \<noteq> None then [''--passwordenv'', ''BW_PASSWORD''] else []),
      pc_env = [(''BW_APPDATA_DIR'', bwp_appdata_dir p), (''BITWARDENCLI_APPDATA_DIR'', bwp_appdata_dir p)]
        @ (case session of None \<Rightarrow> [] | Some s \<Rightarrow> [(''BW_SESSION'', s)])
        @ (case password of None \<Rightarrow> [] | Some s \<Rightarrow> [(''BW_PASSWORD'', s)])\<rparr>"

text \<open>How a run ended: the standard output, standard error and exit code of a successful one, or an error.\<close>

definition bw_result :: "bw_end \<Rightarrow> BwRunError + (string \<times> string \<times> int option)" where
  "bw_result r =
     (case r of
        BwSpawnFailed k \<Rightarrow> Inl (BwProcess k [])
      | BwNoPipe err \<Rightarrow> Inl (BwProcess ''BrokenPipe'' err)
      | BwWaitFailed k err \<Rightarrow> Inl (BwProcess k err)
      | BwReadFailed k err \<Rightarrow> Inl (BwProcess k err)
      | BwTimedOut err \<Rightarrow> Inl (BwTimeout err)
      | BwExited code out err \<Rightarrow> if code = Some 0 then Inr (out, err, code) else Inl (BwNonZeroExit code err))"

definition run_bw_unreported ::
  "'w BwEnv \<Rightarrow> string list \<Rightarrow> string option \<Rightarrow> string option \<Rightarrow> BwAttemptContext \<Rightarrow> duration \<Rightarrow> BitwardenCliProvider \<Rightarrow> 'w
     \<Rightarrow> ((BwRunError \<times> BwDiagnosticBase) + (string \<times> BwDiagnosticBase)) \<times> 'w" where
  "run_bw_unreported env args session password ctx tmo p w =
     (let (started, w) = bx_now env w;
          (made, w) = bx_create_dir env (bwp_appdata_dir p) w;
          (r, w) = (case made of
                      Some k \<Rightarrow> (Inl (BwCreateDir k), w)
                    | None \<Rightarrow> (case bx_run env (bw_call p args session password) tmo w of (e, w) \<Rightarrow> (bw_result e, w)));
          (ended, w) = bx_now env w;
          diag = (\<lambda>code err issued io. diagnostic_base env p
            \<lparr>di_args = args, di_session = session, di_password = password, di_context = ctx, di_elapsed = ended - started,
             di_exit_code = code, di_stderr = err, di_issued_secrets = issued, di_io_error = io\<rparr>) in
      (case r of
         Inl e \<Rightarrow> Inl (e, diag (BwRunError_exit_code e) (BwRunError_stderr e) [] (BwRunError_io_error_kind e))
       | Inr (out, err, code) \<Rightarrow> Inr (out, diag code err (issued_session_secrets args out) None), w))"

text \<open>
  A successful run returns its output with the material of the diagnostic line, which the caller
  writes with what it made of the output.
\<close>

definition run_bw_with_timeout ::
  "'w BwEnv \<Rightarrow> string list \<Rightarrow> string option \<Rightarrow> string option \<Rightarrow> BwAttemptContext \<Rightarrow> duration \<Rightarrow> BitwardenCliProvider \<Rightarrow> 'w
     \<Rightarrow> (BwRunError + (string \<times> BwDiagnosticBase)) \<times> BitwardenCliProvider \<times> 'w" where
  "run_bw_with_timeout env args session password ctx tmo p w =
     (case run_bw_unreported env args session password ctx tmo p w of
        (Inl (e, d), w) \<Rightarrow> (Inl e, emit_bw_diag d (Some (BwRunError_failure e)) None p, w)
      | (Inr out, w) \<Rightarrow> (Inr out, p, w))"

definition run_bw_with_context ::
  "'w BwEnv \<Rightarrow> string list \<Rightarrow> string option \<Rightarrow> string option \<Rightarrow> BwAttemptContext \<Rightarrow> BitwardenCliProvider \<Rightarrow> 'w
     \<Rightarrow> (BwRunError + (string \<times> BwDiagnosticBase)) \<times> BitwardenCliProvider \<times> 'w" where
  "run_bw_with_context env args session password ctx p w =
     run_bw_with_timeout env args session password ctx BW_COMMAND_TIMEOUT p w"

definition run_askpass :: "'w BwEnv \<Rightarrow> BitwardenCliProvider \<Rightarrow> 'w \<Rightarrow> (ErrorCode + string) \<times> 'w" where
  "run_askpass env p w =
     (case bx_create_dir env (bwp_appdata_dir p) w of
        (Some _, w) \<Rightarrow> (Inl Internal, w)
      | (None, w) \<Rightarrow>
          (case bx_askpass env \<lparr>pc_program = ''sh'', pc_args = [''-c'', bwp_askpass_cmd p],
                pc_env = [(''BW_APPDATA_DIR'', bwp_appdata_dir p), (''BITWARDENCLI_APPDATA_DIR'', bwp_appdata_dir p)]\<rparr> w of
             (Exited True out, w) \<Rightarrow>
               (case session_key_from_stdout out of None \<Rightarrow> (Inl Internal, w) | Some l \<Rightarrow> (Inr l, w))
           | (_, w) \<Rightarrow> (Inl Internal, w)))"

definition login_with_password ::
  "'w BwEnv \<Rightarrow> string list \<Rightarrow> string \<Rightarrow> BwAttemptContext \<Rightarrow> BitwardenCliProvider \<Rightarrow> 'w
     \<Rightarrow> (BwEstablishError + string) \<times> BitwardenCliProvider \<times> 'w" where
  "login_with_password env login_args password ctx p w =
     (case run_bw_with_context env login_args None (Some password) ctx p w of
        (Inl e, p, w) \<Rightarrow> (Inl (EstablishRun e), p, w)
      | (Inr (out, d), p, w) \<Rightarrow>
          (case session_key_from_stdout out of
             Some v \<Rightarrow> (Inr v, emit_bw_diag d None None p, w)
           | None \<Rightarrow> (Inl (EstablishOther Internal), emit_bw_diag d (Some ''parse'') None p, w)))"

definition session_is_unlocked ::
  "'w BwEnv \<Rightarrow> string \<Rightarrow> BwAttemptContext \<Rightarrow> BitwardenCliProvider \<Rightarrow> 'w \<Rightarrow> (ErrorCode + bool) \<times> BitwardenCliProvider \<times> 'w" where
  "session_is_unlocked env session ctx p w =
     (case run_bw_with_context env [''status''] (Some session) None ctx p w of
        (Inl e, p, w) \<Rightarrow> (Inl (classify_bw_run_error e), p, w)
      | (Inr (out, d), p, w) \<Rightarrow>
          (case bx_status env out of
             Some st \<Rightarrow> (Inr (st = ''unlocked''), emit_bw_diag d None (Some st) p, w)
           | None \<Rightarrow> (Inr False, emit_bw_diag d (Some ''parse'') None p, w)))"

definition drop_session :: "BitwardenCliProvider \<Rightarrow> BitwardenCliProvider" where
  "drop_session p = p\<lparr>bwp_session := None, bwp_unlocked_at := None\<rparr>"

definition establish_session ::
  "'w BwEnv \<Rightarrow> string list \<Rightarrow> string \<Rightarrow> BwAttemptContext \<Rightarrow> BitwardenCliProvider \<Rightarrow> 'w
     \<Rightarrow> (BwEstablishError + unit) \<times> BitwardenCliProvider \<times> 'w" where
  "establish_session env login_args password ctx p w =
     (case login_with_password env login_args password ctx p w of
        (Inl e, p, w) \<Rightarrow> (Inl e, p, w)
      | (Inr session, p, w) \<Rightarrow>
          (case session_is_unlocked env session ctx p w of
             (Inl e, p, w) \<Rightarrow> (Inl (EstablishOther e), p, w)
           | (Inr True, p, w) \<Rightarrow> (Inr (), p\<lparr>bwp_session := Some session\<rparr>, w)
           | (Inr False, p, w) \<Rightarrow> (Inl (EstablishOther Internal), drop_session p, w)))"

definition logout_best_effort :: "'w BwEnv \<Rightarrow> BwAttemptContext \<Rightarrow> BitwardenCliProvider \<Rightarrow> 'w \<Rightarrow> BitwardenCliProvider \<times> 'w" where
  "logout_best_effort env ctx p w =
     (case run_bw_with_context env [''logout''] None None ctx p w of
        (Inl _, p, w) \<Rightarrow> (p, w)
      | (Inr (_, d), p, w) \<Rightarrow> (emit_bw_diag d None None p, w))"

definition login_args :: "BitwardenCliProvider \<Rightarrow> string list" where
  "login_args p = [''login'', bwp_email p, ''--raw'']"

definition unlock_or_relogin ::
  "'w BwEnv \<Rightarrow> string \<Rightarrow> BwAttemptContext \<Rightarrow> BitwardenCliProvider \<Rightarrow> 'w \<Rightarrow> (BwEstablishError + unit) \<times> BitwardenCliProvider \<times> 'w" where
  "unlock_or_relogin env password ctx p w =
     (case establish_session env [''unlock'', ''--raw''] password ctx p w of
        (Inl (EstablishRun e), p, w) \<Rightarrow>
          if unlock_grant_was_rejected e
          then (case logout_best_effort env ctx p w of (p, w) \<Rightarrow> establish_session env (login_args p) password ctx p w)
          else (Inl (EstablishRun e), p, w)
      | (r, p, w) \<Rightarrow> (r, p, w))"

definition sync_session ::
  "'w BwEnv \<Rightarrow> BwAttemptContext \<Rightarrow> BitwardenCliProvider \<Rightarrow> 'w \<Rightarrow> (BwRunError + unit) \<times> BitwardenCliProvider \<times> 'w" where
  "sync_session env ctx p w =
     (let (now, w) = bx_now env w; p = p\<lparr>bwp_last_sync_at := Some now\<rparr> in
      case run_bw_with_timeout env [''sync''] (bwp_session p) None ctx (bw_sync_timeout env) p w of
        (Inl e, p, w) \<Rightarrow> (Inl e, p, w)
      | (Inr (_, d), p, w) \<Rightarrow> (Inr (), emit_bw_diag d None None p, w))"

definition login_check ::
  "'w BwEnv \<Rightarrow> BwAttemptContext \<Rightarrow> BitwardenCliProvider \<Rightarrow> 'w \<Rightarrow> (ErrorCode + bool) \<times> BitwardenCliProvider \<times> 'w" where
  "login_check env ctx p w =
     (case run_bw_unreported env [''login'', ''--check''] None None ctx BW_COMMAND_TIMEOUT p w of
        (Inr (_, d), w) \<Rightarrow> (Inr True, emit_bw_diag d None (Some ''logged_in'') p, w)
      | (Inl (e, d), w) \<Rightarrow>
          if should_retry_login_after_sync e
          then (Inr False, if BwRunError_exit_code e = Some 1 then emit_bw_diag d None (Some ''logged_out'') p
                           else emit_bw_diag d (Some (BwRunError_failure e)) None p, w)
          else (Inl (classify_bw_run_error e), emit_bw_diag d (Some (BwRunError_failure e)) None p, w))"

definition lock_session :: "'w BwEnv \<Rightarrow> BitwardenCliProvider \<Rightarrow> 'w \<Rightarrow> (ErrorCode + unit) \<times> BitwardenCliProvider \<times> 'w" where
  "lock_session env p w =
     (case bwp_session p of
        None \<Rightarrow> (Inr (), drop_session p, w)
      | Some s \<Rightarrow>
          (case run_bw_with_context env [''lock''] (Some s) None (BwAttemptContext_new False 1) p w of
             (Inl e, p, w) \<Rightarrow> (Inl (classify_bw_run_error e), drop_session p, w)
           | (Inr (_, d), p, w) \<Rightarrow> (Inr (), drop_session (emit_bw_diag d None None p), w)))"

definition expire_session :: "'w BwEnv \<Rightarrow> BitwardenCliProvider \<Rightarrow> 'w \<Rightarrow> BitwardenCliProvider \<times> 'w" where
  "expire_session env p w =
     (case bwp_unlocked_at p of
        None \<Rightarrow> (p, w)
      | Some at \<Rightarrow>
          (let (now, w) = bx_now env w in
           if now - at \<ge> bwp_session_ttl p
           then (case lock_session env p w of (_, p, w) \<Rightarrow> (p\<lparr>bwp_locked := True, bwp_autolock_event_pending := True\<rparr>, w))
           else (p, w)))"

subsection \<open>Sessions\<close>

text \<open>\<open>ensure_session\<close> in the order of the code: a live session is used, and otherwise a new one is made.\<close>

definition config_server ::
  "'w BwEnv \<Rightarrow> BwAttemptContext \<Rightarrow> BitwardenCliProvider \<Rightarrow> 'w \<Rightarrow> (ErrorCode + unit) \<times> BitwardenCliProvider \<times> 'w" where
  "config_server env ctx p w =
     (case run_bw_with_context env [''config'', ''server''] None None ctx p w of
        (Inl e, p, w) \<Rightarrow> (Inl (classify_bw_run_error e), p, w)
      | (Inr (out, d), p, w) \<Rightarrow>
          (let p = emit_bw_diag d None None p in
           if map_option trim_str (from_utf8 out) = Some (bwp_server_url p) then (Inr (), p, w)
           else (case login_check env ctx p w of
                   (Inl e, p, w) \<Rightarrow> (Inl e, p, w)
                 | (Inr logged_in, p, w) \<Rightarrow>
                     (let (p, w) = (if logged_in then logout_best_effort env ctx p w else (p, w)) in
                      case run_bw_with_context env [''config'', ''server'', bwp_server_url p] None None ctx p w of
                        (Inl e, p, w) \<Rightarrow> (Inl (classify_bw_run_error e), p, w)
                      | (Inr (_, d), p, w) \<Rightarrow> (Inr (), emit_bw_diag d None None p, w)))))"

definition bw_login ::
  "'w BwEnv \<Rightarrow> string \<Rightarrow> BwAttemptContext \<Rightarrow> BitwardenCliProvider \<Rightarrow> 'w \<Rightarrow> (ErrorCode + unit) \<times> BitwardenCliProvider \<times> 'w" where
  "bw_login env password ctx p w =
     (case login_check env ctx p w of
        (Inl e, p, w) \<Rightarrow> (Inl e, p, w)
      | (Inr logged_in, p, w) \<Rightarrow>
          (case (if logged_in then unlock_or_relogin env password ctx p w
                 else establish_session env (login_args p) password ctx p w) of
             (Inl e, p, w) \<Rightarrow> (Inl (establish_error_code e), p, w)
           | (Inr _, p, w) \<Rightarrow> (Inr (), p, w)))"

definition bw_first_sync ::
  "'w BwEnv \<Rightarrow> BwAttemptContext \<Rightarrow> BitwardenCliProvider \<Rightarrow> 'w \<Rightarrow> (BwOperationError + unit) \<times> BitwardenCliProvider \<times> 'w" where
  "bw_first_sync env ctx p w =
     (case sync_session env ctx p w of
        (Inr _, p, w) \<Rightarrow> (Inr (), p, w)
      | (Inl e, p, w) \<Rightarrow>
          (let p = drop_session p in
           if \<not> should_retry_login_after_sync e then (Inl (OpNoColdStartRetry (classify_bw_run_error e)), p, w)
           else (case logout_best_effort env ctx p w of
                   (p, w) \<Rightarrow>
                     (case run_askpass env p w of
                        (Inl c, w) \<Rightarrow> (Inl (OpNormal c), p, w)
                      | (Inr password, w) \<Rightarrow>
                          (case establish_session env (login_args p) password ctx p w of
                             (Inl c, p, w) \<Rightarrow> (Inl (OpNormal (establish_error_code c)), p, w)
                           | (Inr _, p, w) \<Rightarrow>
                               (case sync_session env ctx p w of
                                  (Inl e, p, w) \<Rightarrow> (Inl (classify_second_sync_failure e), drop_session p, w)
                                | (Inr _, p, w) \<Rightarrow> (Inr (), p, w)))))))"

definition new_session ::
  "'w BwEnv \<Rightarrow> BwAttemptContext \<Rightarrow> BitwardenCliProvider \<Rightarrow> 'w \<Rightarrow> (BwOperationError + unit) \<times> BitwardenCliProvider \<times> 'w" where
  "new_session env ctx p w =
     (case run_askpass env p w of
        (Inl c, w) \<Rightarrow> (Inl (OpNormal c), p, w)
      | (Inr password, w) \<Rightarrow>
          (case config_server env ctx p w of
             (Inl c, p, w) \<Rightarrow> (Inl (OpNormal c), p, w)
           | (Inr _, p, w) \<Rightarrow>
               (case bw_login env password ctx p w of
                  (Inl c, p, w) \<Rightarrow> (Inl (OpNormal c), p, w)
                | (Inr _, p, w) \<Rightarrow>
                    (case bw_first_sync env ctx p w of
                       (Inl e, p, w) \<Rightarrow> (Inl e, p, w)
                     | (Inr _, p, w) \<Rightarrow>
                         (let (now, w) = bx_now env w in
                          (Inr (), p\<lparr>bwp_unlocked_at := Some now, bwp_locked := False\<rparr>, w))))))"

definition ensure_session ::
  "'w BwEnv \<Rightarrow> BwAttemptContext \<Rightarrow> BitwardenCliProvider \<Rightarrow> 'w \<Rightarrow> (BwOperationError + unit) \<times> BitwardenCliProvider \<times> 'w" where
  "ensure_session env ctx p w =
     (case (bwp_session p, bwp_unlocked_at p) of
        (Some _, Some at) \<Rightarrow>
          (let (now, w) = bx_now env w in
           if now - at < bwp_session_ttl p
           then (let (now, w) = bx_now env w in
                 if should_resync (bwp_last_sync_at p) now (bw_resync_interval env)
                 then (case sync_session env ctx p w of (_, p, w) \<Rightarrow> (Inr (), p, w))
                 else (Inr (), p, w))
           else (case expire_session env p w of (p, w) \<Rightarrow> new_session env ctx p w))
      | _ \<Rightarrow> new_session env ctx p w)"

subsection \<open>The provider's operations\<close>

definition bw_list_items ::
  "'w BwEnv \<Rightarrow> BwAttemptContext \<Rightarrow> BitwardenCliProvider \<Rightarrow> 'w \<Rightarrow> (BwOperationError + BitwardenItem list) \<times> BitwardenCliProvider \<times> 'w" where
  "bw_list_items env ctx p w =
     (case ensure_session env ctx p w of
        (Inl e, p, w) \<Rightarrow> (Inl e, p, w)
      | (Inr _, p, w) \<Rightarrow>
          (case run_bw_with_context env [''list'', ''items''] (bwp_session p) None ctx p w of
             (Inl e, p, w) \<Rightarrow> (Inl (OpNormal (classify_bw_run_error e)), p, w)
           | (Inr (out, d), p, w) \<Rightarrow>
               (case bx_items env out of
                  Some items \<Rightarrow> (Inr items, emit_bw_diag d None None p, w)
                | None \<Rightarrow> (Inl (OpNormal Internal), emit_bw_diag d (Some ''parse'') None p, w))))"

definition bw_get_item ::
  "'w BwEnv \<Rightarrow> string \<Rightarrow> BitwardenCliProvider \<Rightarrow> 'w \<Rightarrow> (ErrorCode + BitwardenItem) \<times> BitwardenCliProvider \<times> 'w" where
  "bw_get_item env item_id p w =
     (let ctx = BwAttemptContext_new False 1 in
      case ensure_session env ctx p w of
        (Inl e, p, w) \<Rightarrow> (Inl (operation_error_code e), p, w)
      | (Inr _, p, w) \<Rightarrow>
          (case run_bw_with_context env [''get'', ''item'', item_id] (bwp_session p) None ctx p w of
             (Inl _, p, w) \<Rightarrow> (Inl InvalidCredential, p, w)
           | (Inr (out, d), p, w) \<Rightarrow>
               (case bx_item env out of
                  Some item \<Rightarrow> (Inr item, emit_bw_diag d None None p, w)
                | None \<Rightarrow> (Inl InvalidCredential, emit_bw_diag d (Some ''parse'') None p, w))))"

definition bw_first_uri :: "BitwardenLogin \<Rightarrow> string option" where
  "bw_first_uri l = (case bl_uris l of [] \<Rightarrow> None | u # _ \<Rightarrow> bu_uri u)"

definition bw_catalog_of :: "BitwardenItem list \<Rightarrow> BitwardenCatalogItem list" where
  "bw_catalog_of items =
     List.map_filter (\<lambda>i. map_option (\<lambda>_. \<lparr>bc_id = bi_id i, bc_name = bi_name i\<rparr>) (bi_login i)) items"

definition bw_refs_of :: "BitwardenItem list \<Rightarrow> CredentialRef list" where
  "bw_refs_of items =
     List.map_filter (\<lambda>i. map_option (\<lambda>l. \<lparr>cr_id = bi_id i, cr_name = bi_name i,
         cr_uri = Some (case bw_first_uri l of None \<Rightarrow> [] | Some u \<Rightarrow> u), cr_kind = Some ''login''\<rparr>) (bi_login i)) items"

definition bw_list_refs ::
  "'w BwEnv \<Rightarrow> BitwardenCliProvider \<Rightarrow> 'w \<Rightarrow> (ErrorCode + CredentialRef list) \<times> BitwardenCliProvider \<times> 'w" where
  "bw_list_refs env p w =
     (if bwp_locked p
      then (Inr (map (\<lambda>i. \<lparr>cr_id = bc_id i, cr_name = bc_name i, cr_uri = None, cr_kind = None\<rparr>) (bwp_catalog p)), p, w)
      else (let ctx = BwAttemptContext_new (bwp_catalog p = []) 1;
                retry = can_retry_cold_start ctx (bx_method env);
                (r, p, w) =
                  (case bw_list_items env ctx p w of
                     (Inl e, p, w) \<Rightarrow>
                       if retry \<and> op_can_retry_cold_start e
                       then bw_list_items env (with_attempt 2 ctx) p (bx_sleep env (from_secs 2) w)
                       else (Inl e, p, w)
                   | (Inr items, p, w) \<Rightarrow> (Inr items, p, w)) in
            case r of
              Inl e \<Rightarrow> (Inl (operation_error_code e), p, w)
            | Inr items \<Rightarrow> (Inr (bw_refs_of items), p\<lparr>bwp_catalog := bw_catalog_of items\<rparr>, w)))"

definition bw_resolve ::
  "'w BwEnv \<Rightarrow> string \<Rightarrow> BitwardenCliProvider \<Rightarrow> 'w \<Rightarrow> (ErrorCode + ResolvedCredential option) \<times> BitwardenCliProvider \<times> 'w" where
  "bw_resolve env item_id p w =
     (case bw_get_item env item_id p w of
        (Inl e, p, w) \<Rightarrow> (Inl e, p, w)
      | (Inr item, p, w) \<Rightarrow>
          (case bi_login item of
             None \<Rightarrow> (Inl InvalidCredential, p, w)
           | Some l \<Rightarrow>
               (let p = (if list_ex (\<lambda>c. bc_id c = bi_id item) (bwp_catalog p) then p
                         else p\<lparr>bwp_catalog := bwp_catalog p @ [\<lparr>bc_id = bi_id item, bc_name = bi_name item\<rparr>]\<rparr>) in
                (Inr (Some \<lparr>rc_locked = bwp_locked p, rc_secrets_preregistered = False, rc_uri = bw_first_uri l,
                    rc_username = (case bl_username l of None \<Rightarrow> [] | Some u \<Rightarrow> u),
                    rc_password = (case bl_password l of None \<Rightarrow> [] | Some u \<Rightarrow> u), rc_totp_seed = bl_totp l,
                    rc_totp_exposable = list_ex (\<lambda>n. n = bi_name item) (bwp_totp_exposable p)\<rparr>), p, w))))"

definition bw_lock :: "'w BwEnv \<Rightarrow> BitwardenCliProvider \<Rightarrow> 'w \<Rightarrow> (ErrorCode + unit) \<times> BitwardenCliProvider \<times> 'w" where
  "bw_lock env p w =
     (case lock_session env p w of
        (Inl e, p, w) \<Rightarrow> (Inl e, p, w)
      | (Inr _, p, w) \<Rightarrow> (Inr (), p\<lparr>bwp_locked := True\<rparr>, w))"

definition bw_expire :: "'w BwEnv \<Rightarrow> BitwardenCliProvider \<Rightarrow> 'w \<Rightarrow> (ErrorCode + unit) \<times> BitwardenCliProvider \<times> 'w" where
  "bw_expire env p w = (case expire_session env p w of (p, w) \<Rightarrow> (Inr (), p, w))"

definition bw_take_autolock_event :: "BitwardenCliProvider \<Rightarrow> bool \<times> BitwardenCliProvider" where
  "bw_take_autolock_event p = (bwp_autolock_event_pending p, p\<lparr>bwp_autolock_event_pending := False\<rparr>)"

subsection \<open>The contract holds\<close>

text \<open>
  A session is held together with the time of the unlock, and only while the provider is not
  locked. Runs of the program touch neither: \<open>quiet\<close> says that only diagnostics, the time of
  the last sync and the catalog changed.
\<close>

definition bw_inv :: "BitwardenCliProvider \<Rightarrow> bool" where
  "bw_inv p \<longleftrightarrow> (bwp_session p = None) = (bwp_unlocked_at p = None) \<and> (bwp_session p \<noteq> None \<longrightarrow> \<not> bwp_locked p)"

definition quiet :: "BitwardenCliProvider \<Rightarrow> BitwardenCliProvider \<Rightarrow> bool" where
  "quiet p p' \<longleftrightarrow> bwp_session p' = bwp_session p \<and> bwp_unlocked_at p' = bwp_unlocked_at p \<and> bwp_locked p' = bwp_locked p
     \<and> bwp_autolock_event_pending p' = bwp_autolock_event_pending p"

lemma quiet_refl [simp]: "quiet p p"
  by (simp add: quiet_def)

lemma quiet_trans: "quiet p q \<Longrightarrow> quiet q r \<Longrightarrow> quiet p r"
  by (simp add: quiet_def)

lemma quiet_emit [simp]: "quiet p (emit_bw_diag d f st q) = quiet p q" "quiet (emit_bw_diag d f st p) q = quiet p q"
  by (simp_all add: quiet_def emit_bw_diag_def)

lemma quiet_fields [simp]:
  "quiet (p\<lparr>bwp_last_sync_at := t\<rparr>) q = quiet p q" "quiet p (q\<lparr>bwp_catalog := c\<rparr>) = quiet p q"
  by (simp_all add: quiet_def)

lemma quiet_inv: "quiet p p' \<Longrightarrow> bw_inv p \<Longrightarrow> bw_inv p'"
  by (auto simp: quiet_def bw_inv_def)

lemma run_quiet [intro]: "run_bw_with_timeout env args s pw ctx tmo p w = (r, p', w') \<Longrightarrow> quiet p p'"
  by (auto simp: run_bw_with_timeout_def split: prod.splits sum.splits)

lemma run_context_quiet [intro]: "run_bw_with_context env args s pw ctx p w = (r, p', w') \<Longrightarrow> quiet p p'"
  by (auto simp: run_bw_with_context_def)

lemma login_with_password_quiet: "login_with_password env la pw ctx p w = (r, p', w') \<Longrightarrow> quiet p p'"
  by (auto simp: login_with_password_def split: prod.splits sum.splits option.splits dest!: run_context_quiet)

lemma session_is_unlocked_quiet: "session_is_unlocked env s ctx p w = (r, p', w') \<Longrightarrow> quiet p p'"
  by (auto simp: session_is_unlocked_def split: prod.splits sum.splits option.splits dest!: run_context_quiet)

lemma logout_quiet: "logout_best_effort env ctx p w = (p', w') \<Longrightarrow> quiet p p'"
  by (auto simp: logout_best_effort_def split: prod.splits sum.splits dest!: run_context_quiet)

lemma login_check_quiet: "login_check env ctx p w = (r, p', w') \<Longrightarrow> quiet p p'"
  by (auto simp: login_check_def split: prod.splits sum.splits if_splits)

lemma sync_quiet: "sync_session env ctx p w = (r, p', w') \<Longrightarrow> quiet p p'"
  by (auto simp: sync_session_def Let_def split: prod.splits sum.splits dest!: run_quiet)

lemma config_server_quiet: "config_server env ctx p w = (r, p', w') \<Longrightarrow> quiet p p'"
  by (auto simp: config_server_def Let_def split: prod.splits sum.splits if_splits
      dest!: run_context_quiet login_check_quiet logout_quiet) (auto simp: quiet_def)

lemma drop_session_inv [simp]: "bw_inv (drop_session p)"
  by (simp add: bw_inv_def drop_session_def)

text \<open>What an attempt to make a session leaves: a session, or on failure the invariant.\<close>

definition made :: "'e + unit \<Rightarrow> BitwardenCliProvider \<Rightarrow> bool" where
  "made r p = (case r of Inl _ \<Rightarrow> bw_inv p | Inr _ \<Rightarrow> bwp_session p \<noteq> None)"

lemma made_simps [simp]: "made (Inl e) p = bw_inv p" "made (Inr u) p = (bwp_session p \<noteq> None)"
  by (simp_all add: made_def)

lemma establish_made:
  assumes "bw_inv p" "establish_session env la pw ctx p w = (r, p', w')"
  shows "made r p'"
proof -
  obtain k q v where k: "login_with_password env la pw ctx p w = (k, q, v)" by (cases "login_with_password env la pw ctx p w")
  have q: "bw_inv q" using login_with_password_quiet[OF k] quiet_inv assms(1) by blast
  have u: "session_is_unlocked env x ctx q v = (y, q', v') \<Longrightarrow> bw_inv q'" for x y q' v'
    by (rule quiet_inv[OF session_is_unlocked_quiet q])
  show ?thesis using assms(2) k q u by (auto simp: establish_session_def split: prod.splits sum.splits bool.splits)
qed

lemma unlock_or_relogin_made:
  assumes "bw_inv p" "unlock_or_relogin env pw ctx p w = (r, p', w')"
  shows "made r p'"
proof -
  obtain u q v where u: "establish_session env [''unlock'', ''--raw''] pw ctx p w = (u, q, v)"
    by (cases "establish_session env [''unlock'', ''--raw''] pw ctx p w")
  note U = establish_made[OF assms(1) u]
  show ?thesis
  proof (cases "\<exists>e. u = Inl (EstablishRun e) \<and> unlock_grant_was_rejected e")
    case True
    obtain q1 v1 where l: "logout_best_effort env ctx q v = (q1, v1)" by fastforce
    have "bw_inv q1" using True U logout_quiet[OF l] quiet_inv by auto
    then show ?thesis using assms(2) u True l establish_made by (auto simp: unlock_or_relogin_def)
  next
    case False
    then show ?thesis using assms(2) u U by (auto simp: unlock_or_relogin_def split: sum.splits BwEstablishError.splits if_splits)
  qed
qed

lemma bw_login_made:
  assumes "bw_inv p" "bw_login env pw ctx p w = (r, p', w')"
  shows "made r p'"
proof -
  obtain l q v where l: "login_check env ctx p w = (l, q, v)" by (cases "login_check env ctx p w")
  have q: "bw_inv q" by (rule quiet_inv[OF login_check_quiet[OF l] assms(1)])
  show ?thesis
  proof (cases l)
    case (Inr b)
    obtain u q1 v1 where u: "(if b then unlock_or_relogin env pw ctx q v else establish_session env (login_args q) pw ctx q v) = (u, q1, v1)"
      by (metis prod_cases3)
    have "made u q1" using u unlock_or_relogin_made[OF q] establish_made[OF q] by (auto split: if_splits)
    then show ?thesis using assms(2) l Inr u by (auto simp: bw_login_def split: sum.splits)
  qed (use assms(2) l q in \<open>auto simp: bw_login_def\<close>)
qed

lemma sync_session_kept: "sync_session env ctx p w = (r, p', w') \<Longrightarrow> bwp_session p' = bwp_session p"
  using sync_quiet by (fastforce simp: quiet_def)

lemma bw_first_sync_made:
  assumes "bwp_session p \<noteq> None" "bw_first_sync env ctx p w = (r, p', w')"
  shows "made r p'"
proof -
  obtain u q v where u: "sync_session env ctx p w = (u, q, v)" by (cases "sync_session env ctx p w")
  obtain q1 v1 where l: "logout_best_effort env ctx (drop_session q) v = (q1, v1)" by fastforce
  have q1: "bw_inv q1" using logout_quiet[OF l] quiet_inv drop_session_inv by blast
  have e: "establish_session env la pw ctx q1 x = (Inr y, q', v') \<Longrightarrow> bwp_session q' \<noteq> None"
    "establish_session env la pw ctx q1 x = (Inl z, q', v') \<Longrightarrow> bw_inv q'" for la pw x y z q' v'
    using establish_made[OF q1] by fastforce+
  show ?thesis
  proof (cases u)
    case (Inl err)
    then show ?thesis using assms(2) u l e q1 sync_session_kept
      by (fastforce simp: bw_first_sync_def Let_def split: prod.splits sum.splits if_splits)
  qed (use assms u sync_session_kept in \<open>fastforce simp: bw_first_sync_def\<close>)
qed

lemma new_session_ok:
  assumes "bw_inv p" "new_session env ctx p w = (r, p', w')"
  shows "bw_inv p' \<and> (\<forall>u. r = Inr u \<longrightarrow> bwp_session p' \<noteq> None)"
proof -
  obtain a v where a: "run_askpass env p w = (a, v)" by fastforce
  obtain c q1 v1 where c: "config_server env ctx p v = (c, q1, v1)" by (cases "config_server env ctx p v")
  have q1: "bw_inv q1" by (rule quiet_inv[OF config_server_quiet[OF c] assms(1)])
  show ?thesis
  proof (cases "\<exists>pw u. a = Inr pw \<and> c = Inr u")
    case True
    then obtain pw u where pw: "a = Inr pw" "c = Inr u" by blast
    obtain l q2 v2 where l: "bw_login env pw ctx q1 v1 = (l, q2, v2)" by (cases "bw_login env pw ctx q1 v1")
    note L = bw_login_made[OF q1 l]
    obtain f q3 v3 where f: "bw_first_sync env ctx q2 v2 = (f, q3, v3)" by (cases "bw_first_sync env ctx q2 v2")
    have F: "l = Inr x \<Longrightarrow> made f q3" for x using bw_first_sync_made[OF _ f] L by simp
    show ?thesis using assms(2) a c pw l f L F by (auto simp: new_session_def Let_def bw_inv_def split: sum.splits prod.splits)
  next
    case False
    then show ?thesis using assms a c q1 by (auto simp: new_session_def split: sum.splits)
  qed
qed

lemma lock_session_ok:
  assumes "lock_session env p w = (r, p', w')"
  shows "bwp_session p' = None \<and> bwp_unlocked_at p' = None \<and> bwp_locked p' = bwp_locked p
    \<and> bwp_autolock_event_pending p' = bwp_autolock_event_pending p"
  using assms
  by (auto simp: lock_session_def drop_session_def emit_bw_diag_def quiet_def split: option.splits prod.splits sum.splits
      dest!: run_context_quiet)

lemma expire_session_ok:
  assumes "bw_inv p" "expire_session env p w = (p', w')"
  shows "bw_inv p'" "quiet p p' \<or> bwp_session p' = None \<and> bwp_locked p'"
  using assms
  by (auto simp: expire_session_def bw_inv_def Let_def split: option.splits prod.splits if_splits dest!: lock_session_ok)

lemma ensure_session_ok:
  assumes "bw_inv p" "ensure_session env ctx p w = (r, p', w')"
  shows "bw_inv p' \<and> (\<forall>u. r = Inr u \<longrightarrow> bwp_session p' \<noteq> None \<and> \<not> bwp_locked p')"
proof -
  have live: "bw_inv q \<and> bwp_session q \<noteq> None" if "bwp_session p \<noteq> None" "sync_session env ctx p v = (x, q, v')" for v x q v'
    using that quiet_inv[OF sync_quiet assms(1)] sync_session_kept by fastforce
  have new: "bw_inv q' \<and> (\<forall>u. x = Inr u \<longrightarrow> bwp_session q' \<noteq> None)" if "bw_inv q" "new_session env ctx q v = (x, q', v')" for q v x q' v'
    using new_session_ok[OF that] .
  have "bw_inv p' \<and> (\<forall>u. r = Inr u \<longrightarrow> bwp_session p' \<noteq> None)"
  proof (cases "\<exists>s at. bwp_session p = Some s \<and> bwp_unlocked_at p = Some at")
    case True
    then obtain s at where s: "bwp_session p = Some s" "bwp_unlocked_at p = Some at" by blast
    obtain now v where n: "bx_now env w = (now, v)" by fastforce
    show ?thesis
    proof (cases "now - at < bwp_session_ttl p")
      case True
      then show ?thesis using assms s n live
        by (auto simp: ensure_session_def split: prod.splits if_splits)
    next
      case False
      obtain q v1 where q: "expire_session env p v = (q, v1)" by fastforce
      then show ?thesis using assms(2) s n False new[OF expire_session_ok(1)[OF assms(1) q]] by (simp add: ensure_session_def)
    qed
  next
    case False
    then have "ensure_session env ctx p w = new_session env ctx p w" by (auto simp: ensure_session_def split: option.splits)
    then show ?thesis using new[OF assms(1), of w r p' w'] assms(2) by simp
  qed
  then show ?thesis by (auto simp: bw_inv_def)
qed


lemma bw_list_items_ok:
  assumes "bw_inv p" "bw_list_items env ctx p w = (r, p', w')"
  shows "bw_inv p' \<and> (\<forall>items. r = Inr items \<longrightarrow> \<not> bwp_locked p')"
proof -
  obtain u q v where u: "ensure_session env ctx p w = (u, q, v)" by (cases "ensure_session env ctx p w")
  note U = ensure_session_ok[OF assms(1) u]
  show ?thesis
  proof (cases u)
    case (Inr x)
    obtain y q' v' where y: "run_bw_with_context env [''list'', ''items''] (bwp_session q) None ctx q v = (y, q', v')"
      by (cases "run_bw_with_context env [''list'', ''items''] (bwp_session q) None ctx q v")
    have "quiet q p'" using assms(2) u Inr y run_context_quiet[OF y]
      by (auto simp: bw_list_items_def split: sum.splits option.splits prod.splits)
    then show ?thesis using U Inr quiet_inv[of q p'] by (simp add: quiet_def)
  qed (use assms(2) u U in \<open>auto simp: bw_list_items_def\<close>)
qed

lemma bw_get_item_ok:
  assumes "bw_inv p" "bw_get_item env i p w = (r, p', w')"
  shows "bw_inv p' \<and> (\<forall>x. r = Inr x \<longrightarrow> \<not> bwp_locked p')"
proof -
  let ?c = "BwAttemptContext_new False 1"
  obtain u q v where u: "ensure_session env ?c p w = (u, q, v)" by (cases "ensure_session env ?c p w")
  note U = ensure_session_ok[OF assms(1) u]
  show ?thesis
  proof (cases u)
    case (Inr x)
    obtain y q' v' where y: "run_bw_with_context env [''get'', ''item'', i] (bwp_session q) None ?c q v = (y, q', v')"
      by (cases "run_bw_with_context env [''get'', ''item'', i] (bwp_session q) None ?c q v")
    have "quiet q p'" using assms(2) u Inr y run_context_quiet[OF y]
      by (auto simp: bw_get_item_def split: sum.splits option.splits prod.splits)
    then show ?thesis using U Inr quiet_inv[of q p'] by (simp add: quiet_def)
  qed (use assms(2) u U in \<open>auto simp: bw_get_item_def\<close>)
qed

lemma catalog_inv [simp]: "bw_inv (p\<lparr>bwp_catalog := c\<rparr>) = bw_inv p"
  by (simp add: bw_inv_def)

lemma bw_list_refs_ok:
  assumes "bw_inv p" "bw_list_refs env p w = (r, p', w')"
  shows "bw_inv p' \<and> (\<forall>refs x. r = Inr refs \<longrightarrow> bwp_locked p' \<longrightarrow> x \<in> set refs \<longrightarrow> cr_uri x = None)"
proof (cases "bwp_locked p")
  case False
  let ?c = "BwAttemptContext_new (bwp_catalog p = []) 1"
  obtain u q v where u: "bw_list_items env ?c p w = (u, q, v)" by (cases "bw_list_items env ?c p w")
  note U = bw_list_items_ok[OF assms(1) u]
  obtain u2 q2 v2 where u2: "bw_list_items env (with_attempt 2 ?c) q (bx_sleep env (from_secs 2) v) = (u2, q2, v2)"
    by (cases "bw_list_items env (with_attempt 2 ?c) q (bx_sleep env (from_secs 2) v)")
  have U2: "bw_inv q2 \<and> (\<forall>items. u2 = Inr items \<longrightarrow> \<not> bwp_locked q2)" using bw_list_items_ok[OF _ u2] U by simp
  show ?thesis using assms(2) False u u2 U U2
    by (auto simp: bw_list_refs_def Let_def split: sum.splits if_splits)
qed (use assms in \<open>auto simp: bw_list_refs_def\<close>)

lemma bw_resolve_ok:
  assumes "bw_inv p" "bw_resolve env i p w = (r, p', w')"
  shows "bw_inv p' \<and> (\<forall>c. r = Inr (Some c) \<longrightarrow> \<not> rc_locked c \<and> \<not> bwp_locked p' \<and> \<not> rc_secrets_preregistered c)"
proof -
  obtain u q v where u: "bw_get_item env i p w = (u, q, v)" by (cases "bw_get_item env i p w")
  note U = bw_get_item_ok[OF assms(1) u]
  show ?thesis using assms(2) u U by (auto simp: bw_resolve_def Let_def split: sum.splits option.splits if_splits)
qed

interpretation bw: credential_provider bw_inv "bw_list_refs env" "bw_resolve env" "bw_lock env" "bw_expire env"
  bw_take_autolock_event bwp_locked "\<lambda>_. {}" for env
proof (unfold_locales, goal_cases)
  case (1 p w r p' w')
  then show ?case using bw_list_refs_ok[OF 1] by simp
next
  case (2 p i w c p' w')
  then show ?case using bw_resolve_ok[OF 2] by simp
next
  case (3 p w u p' w')
  then show ?case by (auto simp: bw_lock_def bw_inv_def split: prod.splits sum.splits dest!: lock_session_ok)
next
  case (4 p w u p' w')
  then show ?case using expire_session_ok(1)[OF 4(1)] by (auto simp: bw_expire_def split: prod.splits)
next
  case (7 p w refs p' w' x)
  then show ?case using bw_list_refs_ok[OF 7(1,2)] by simp
next
  case (8 p i w c' p' w')
  then show ?case using bw_resolve_ok[OF 8] by simp
next
  case (9 p i w c' p' w')
  then show ?case using bw_resolve_ok[OF 9(1,2)] by simp
next
  case (10 p w p' w')
  then show ?case by (auto simp: bw_lock_def split: prod.splits sum.splits)
next
  case (11 p w u p' w')
  then show ?case by (auto simp: bw_expire_def split: prod.splits)
next
  case (12 p w u p' w')
  then have e: "expire_session env p w = (p', w')" by (simp add: bw_expire_def split: prod.splits)
  then show ?case using expire_session_ok(2)[OF 12(1) e] 12(3) by (auto simp: quiet_def)
next
  case (13 p w u p' w')
  then have e: "expire_session env p w = (p', w')" by (simp add: bw_expire_def split: prod.splits)
  then show ?case using expire_session_ok(2)[OF 13(1) e] 13(3,4) by (auto simp: bw_take_autolock_event_def quiet_def)
qed (auto simp: bw_take_autolock_event_def bw_inv_def)

lemma bw_new_inv: "bw_inv (BitwardenCliProvider_new c)"
  by (simp add: bw_inv_def BitwardenCliProvider_new_def)

subsection \<open>What diagnostics show\<close>

text \<open>
  A text is \<open>maskable\<close> when the mask cannot bring it back: neither is part of the other, it does not end as the
  mask begins, and it does not begin as the mask ends.
\<close>

definition maskable :: "string \<Rightarrow> bool" where
  "maskable t \<longleftrightarrow> t \<noteq> [] \<and> \<not> contains_sub REDACTED t \<and> \<not> contains_sub t REDACTED
     \<and> list_all (\<lambda>n. \<not> starts_with t (drop n REDACTED) \<and> \<not> starts_with (rev t) (rev (take n REDACTED))) [1..<length REDACTED]"

lemma maskableD:
  assumes "maskable t" "0 < n" "n < length REDACTED"
  shows "t \<noteq> drop n REDACTED @ ys" "t \<noteq> ys @ take n REDACTED"
proof -
  have "\<not> starts_with t (drop n REDACTED) \<and> \<not> starts_with (rev t) (rev (take n REDACTED))"
    using assms unfolding maskable_def list_all_iff by auto
  then show "t \<noteq> drop n REDACTED @ ys" "t \<noteq> ys @ take n REDACTED" by (auto simp: starts_with_def)
qed

lemma contains_sub_mono: "contains_sub s t \<Longrightarrow> contains_sub (a @ s @ b) t"
  unfolding contains_sub_iff by (metis append.assoc)

lemma append_split: "xs @ ys = zs @ ws \<Longrightarrow> (\<exists>us. xs = zs @ us \<and> us @ ys = ws) \<or> (\<exists>us. zs = xs @ us \<and> ys = us @ ws)"
  unfolding append_eq_append_conv2 by blast

lemma contains_masked:
  assumes m: "maskable t" and c: "contains_sub (a @ REDACTED @ b) t"
  shows "contains_sub a t \<or> contains_sub b t"
proof -
  have no: "t \<noteq> []" "REDACTED \<noteq> xs @ t @ ys" "t \<noteq> xs @ REDACTED @ ys" for xs ys
    using m by (auto simp: maskable_def contains_sub_iff)
  obtain u v where "a @ REDACTED @ b = u @ t @ v" using c by (auto simp: contains_sub_iff)
  then consider (early) us where "a = u @ us" "us @ REDACTED @ b = t @ v" | (late) us where "u = a @ us" "REDACTED @ b = us @ t @ v"
    using append_split[of a "REDACTED @ b" u "t @ v"] by blast
  then show ?thesis
  proof cases
    case early
    from early(2) consider ws where "us = t @ ws" | ws where "t = us @ ws" "REDACTED @ b = ws @ v"
      using append_split[of us "REDACTED @ b" t v] by blast
    then show ?thesis
    proof cases
      case (1 ws)
      then show ?thesis using early(1) by (auto simp: contains_sub_iff)
    next
      case (2 ws)
      from 2(2) consider xs where "REDACTED = ws @ xs" | xs where "ws = REDACTED @ xs"
        using append_split[of "REDACTED" b ws v] by blast
      then show ?thesis
      proof cases
        case (1 xs)
        then have ws: "take (length ws) REDACTED = ws" by (metis append_eq_conv_conj)
        have "ws = []"
        proof (rule ccontr)
          assume "ws \<noteq> []"
          moreover have "xs \<noteq> []" using 1 2(1) no(3)[of us "[]"] by auto
          moreover have "length REDACTED = length ws + length xs" using 1 by (metis length_append)
          ultimately show False using maskableD(2)[OF m, of "length ws" us] 2(1) ws by simp
        qed
        then have "a = u @ t @ []" using early(1) 2(1) by simp
        then show ?thesis by (metis contains_sub_iff)
      next
        case (2 xs)
        then show ?thesis using \<open>t = us @ ws\<close> no(3)[of us xs] by simp
      qed
    qed
  next
    case late
    from late(2) consider xs where "REDACTED = us @ xs" "xs @ b = t @ v" | xs where "b = xs @ t @ v"
      using append_split[of "REDACTED" b us "t @ v"] by blast
    then show ?thesis
    proof cases
      case (1 xs)
      from 1(2) consider ys where "xs = t @ ys" | ys where "t = xs @ ys" "b = ys @ v"
        using append_split[of xs b t v] by blast
      then show ?thesis
      proof cases
        case (1 ys)
        then show ?thesis using \<open>REDACTED = us @ xs\<close> no(2)[of us ys] by simp
      next
        case (2 ys)
        have xs: "drop (length us) REDACTED = xs" using \<open>REDACTED = us @ xs\<close> by (metis append_eq_conv_conj)
        have "xs = []"
        proof (rule ccontr)
          assume "xs \<noteq> []"
          moreover have "us \<noteq> []" using \<open>REDACTED = us @ xs\<close> 2(1) no(3)[of "[]" ys] by auto
          moreover have "length REDACTED = length us + length xs" using \<open>REDACTED = us @ xs\<close> by (metis length_append)
          ultimately show False using maskableD(1)[OF m, of "length us" ys] 2(1) xs by simp
        qed
        then have "b = [] @ t @ v" using 2 by simp
        then show ?thesis by (metis contains_sub_iff)
      qed
    next
      case (2 xs)
      then show ?thesis by (auto simp: contains_sub_iff)
    qed
  qed
qed

lemma replace_all_new:
  assumes "maskable t" "x \<noteq> []" "contains_sub (replace_all v x REDACTED) t"
  shows "contains_sub v t"
  using assms(2,3)
proof (induction v x REDACTED rule: replace_all.induct)
  case (1 s p)
  show ?case
  proof (cases "find_sub s p")
    case None
    then show ?thesis using 1 by (simp add: replace_all.simps[of s])
  next
    case (Some i)
    then have "contains_sub (take i s @ REDACTED @ replace_all (drop (i + length p) s) p REDACTED) t"
      using 1 by (simp add: replace_all.simps[of s])
    then consider "contains_sub (take i s) t" | "contains_sub (replace_all (drop (i + length p) s) p REDACTED) t"
      using contains_masked[OF assms(1)] by blast
    then show ?thesis
    proof cases
      case 1
      then show ?thesis using contains_sub_mono[of "take i s" t "[]" "drop i s"] by simp
    next
      case 2
      then have "contains_sub (drop (i + length p) s) t" using "1.hyps"[OF "1.prems"(1) Some] "1.prems"(1) by blast
      then show ?thesis using contains_sub_mono[of "drop (i + length p) s" t "take (i + length p) s" "[]"] by simp
    qed
  qed
qed


lemma replace_all_gone: "maskable t \<Longrightarrow> \<not> contains_sub (replace_all v t REDACTED) t"
proof (induction v t REDACTED rule: replace_all.induct)
  case (1 s p)
  then have p: "p \<noteq> []" by (simp add: maskable_def)
  show ?case
  proof (cases "find_sub s p")
    case None
    then show ?thesis using p by (simp add: replace_all.simps[of s] contains_sub_def)
  next
    case (Some i)
    have "\<not> contains_sub (take i s) p"
    proof
      assume "contains_sub (take i s) p"
      then obtain u v where uv: "take i s = u @ p @ v" by (auto simp: contains_sub_iff)
      have "length u < i" using uv p by (metis append_eq_append_conv_if append_take_drop_id length_append length_greater_0_conv
            length_take less_add_same_cancel1 min.strict_boundedE nat_less_le trans_less_add1)
      moreover have "starts_with (drop (length u) s) p"
      proof -
        have "s = u @ p @ v @ drop i s" using uv by (metis append.assoc append_take_drop_id)
        then show ?thesis by (metis append_eq_conv_conj starts_with_append)
      qed
      ultimately show False using find_sub_Some[OF Some] by blast
    qed
    moreover have "\<not> contains_sub (replace_all (drop (i + length p) s) p REDACTED) p" using 1 p Some by blast
    ultimately show ?thesis using contains_masked[OF 1(2), of "take i s"] p Some by (subst replace_all.simps) auto
  qed
qed


lemma fold_mask_gone:
  assumes "maskable t" "\<And>x. x \<in> set xs \<Longrightarrow> x \<noteq> []" "t \<in> set xs \<or> \<not> contains_sub v t"
  shows "\<not> contains_sub (fold (\<lambda>x v. replace_all v x REDACTED) xs v) t"
  using assms(2,3)
proof (induction xs arbitrary: v)
  case (Cons x xs)
  have "t \<in> set xs \<or> \<not> contains_sub (replace_all v x REDACTED) t"
    using Cons.prems(2) replace_all_gone[OF assms(1)] replace_all_new[OF assms(1) Cons.prems(1)[of x]] by auto
  then show ?case using Cons.IH Cons.prems(1) by simp
qed simp

lemma truncate_contains: "contains_sub (truncate_utf8 n v) t \<Longrightarrow> contains_sub v t"
proof -
  obtain m where "truncate_utf8 n v = take m v" unfolding truncate_utf8_def by (metis take_all_iff order_refl)
  then show "contains_sub (truncate_utf8 n v) t \<Longrightarrow> contains_sub v t"
    using contains_sub_mono[of "take m v" t "[]" "drop m v"] by simp
qed

lemma truncate_length: "length (truncate_utf8 n v) \<le> n"
  using floor_boundary[of v n] by (simp add: truncate_utf8_def)

lemma sanitize_hides:
  assumes "maskable t" "session = Some t \<or> password = Some t \<or> t \<in> set issued_secrets"
  shows "\<not> contains_sub (sanitize_stderr stderr appdata email session password issued_secrets) t"
proof
  let ?xs = "filter (\<lambda>x. x \<noteq> []) ([from_utf8_lossy appdata] @ (if email \<noteq> [] then [email] else [])
      @ (case session of None \<Rightarrow> [] | Some x \<Rightarrow> [x]) @ (case password of None \<Rightarrow> [] | Some x \<Rightarrow> [x]) @ issued_secrets)"
  assume "contains_sub (sanitize_stderr stderr appdata email session password issued_secrets) t"
  then have "contains_sub (fold (\<lambda>x v. replace_all v x REDACTED) ?xs (from_utf8_lossy stderr)) t"
    unfolding sanitize_stderr_def Let_def by (rule truncate_contains)
  moreover have t: "t \<in> set ?xs" using assms by (auto simp: maskable_def)
  have "\<not> contains_sub (fold (\<lambda>x v. replace_all v x REDACTED) ?xs (from_utf8_lossy stderr)) t"
  proof (rule fold_mask_gone[OF assms(1)])
    show "x \<noteq> []" if "x \<in> set ?xs" for x using that unfolding set_filter by blast
  qed (use t in blast)
  ultimately show False by blast
qed

lemma run_bw_diagnostic:
  assumes "run_bw_unreported env args session password ctx tmo p w = (r, w')"
  shows "case r of
      Inl (e, d) \<Rightarrow> \<exists>err. dg_stderr d = sanitize_stderr err (bwp_appdata_dir p) (bwp_email p) session password []
    | Inr (out, d) \<Rightarrow> \<exists>err. dg_stderr d = sanitize_stderr err (bwp_appdata_dir p) (bwp_email p) session password (issued_session_secrets args out)"
  using assms by (auto simp: run_bw_unreported_def diagnostic_base_def Let_def split: prod.splits sum.splits option.splits)

lemma issued_by_login: "session_key_from_stdout out = Some k \<Longrightarrow> arg_at args 0 = Some ''unlock'' \<or> args = login_args p \<and> bwp_email p \<noteq> ''--check''
    \<Longrightarrow> ''--raw'' \<in> set args \<Longrightarrow> k \<in> set (issued_session_secrets args out)"
  by (auto simp: issued_session_secrets_def login_args_def arg_at_def Let_def split: if_splits)

text \<open>
  C22: Signing in or unlocking (with an address for the account other than \<open>--check\<close>) writes one diagnostic line, of
  whose error text the following holds, whatever the program wrote to its standard error. A master password that the
  mask \<open>[REDACTED]\<close> cannot bring back (\<open>maskable\<close>: neither is part of the other, and they do not overlap at their
  ends) is not in it; nor is, when the program succeeded, the session key it answered with, under the same condition.
  The text has at most 300 bytes.
\<close>

theorem diagnostics_hide_secrets:
  assumes "login_with_password env args password ctx p w = (r, p', w')"
    and "args = [''unlock'', ''--raw''] \<or> args = login_args p \<and> bwp_email p \<noteq> ''--check''"
    and "x = password \<or> r = Inr x" "maskable x"
  shows "\<exists>line. bwp_lines p' = line # bwp_lines p \<and> \<not> contains_sub (dg_stderr (dl_base line)) x
    \<and> length (dg_stderr (dl_base line)) \<le> BW_STDERR_MAX"
proof -
  have len: "length (sanitize_stderr a b c d e f) \<le> BW_STDERR_MAX" for a b c d e f
    unfolding sanitize_stderr_def Let_def by (rule truncate_length)
  have arg: "arg_at args 0 = Some ''unlock'' \<or> args = login_args p \<and> bwp_email p \<noteq> ''--check''" "''--raw'' \<in> set args"
    using assms(2) by (auto simp: arg_at_def login_args_def)
  obtain u v where u: "run_bw_unreported env args None (Some password) ctx BW_COMMAND_TIMEOUT p w = (u, v)" by fastforce
  note D = run_bw_diagnostic[OF u]
  show ?thesis
  proof (cases u)
    case (Inl ed)
    then show ?thesis using assms(1,3) u D len sanitize_hides[OF assms(4)]
      by (auto simp: login_with_password_def run_bw_with_context_def run_bw_with_timeout_def emit_bw_diag_def split: prod.splits)
  next
    case (Inr od)
    obtain out d where od: "od = (out, d)" by fastforce
    obtain err where d: "dg_stderr d = sanitize_stderr err (bwp_appdata_dir p) (bwp_email p) None (Some password) (issued_session_secrets args out)"
      using D Inr od by auto
    have "\<not> contains_sub (dg_stderr d) x"
    proof (cases "x = password")
      case True
      then show ?thesis unfolding d using sanitize_hides[OF assms(4)] by simp
    next
      case False
      then have "session_key_from_stdout out = Some x" using assms(1,3) u Inr od
        by (auto simp: login_with_password_def run_bw_with_context_def run_bw_with_timeout_def split: option.splits)
      then show ?thesis unfolding d using sanitize_hides[OF assms(4)] issued_by_login[OF _ arg] by blast
    qed
    moreover have "\<exists>f st. bwp_lines p' = \<lparr>dl_base = d, dl_failure = f, dl_status = st\<rparr> # bwp_lines p"
      using assms(1) u Inr od
      by (auto simp: login_with_password_def run_bw_with_context_def run_bw_with_timeout_def emit_bw_diag_def split: option.splits)
    ultimately show ?thesis using d len by auto
  qed
qed


text \<open>Without the condition it does not hold: what is left on both sides of a mask may form the secret with it.\<close>

lemma mask_brings_a_secret_back:
  "contains_sub (sanitize_stderr ''xx[['' ''/d'' ''a@b'' None (Some ''x['') []) ''x[''"
proof -
  have r: "replace_all ''xx[['' ''/d'' REDACTED = ''xx[[''" "replace_all ''xx[['' ''a@b'' REDACTED = ''xx[[''"
      "replace_all ''xx[['' ''x['' REDACTED = ''x[REDACTED][''"
    by code_simp+
  have l: "from_utf8_lossy ''/d'' = ''/d''" "from_utf8_lossy ''xx[['' = ''xx[[''" by code_simp+
  have "truncate_utf8 BW_STDERR_MAX ''x[REDACTED]['' = ''x[REDACTED][''" by (simp add: truncate_utf8_def BW_STDERR_MAX_def)
  then show ?thesis by (simp add: sanitize_stderr_def Let_def l r) code_simp
qed

definition demo_bw :: BitwardenCliProvider where
  "demo_bw = BitwardenCliProvider_new \<lparr>bcf_namespace = ''bw'', bcf_server_url = ''https://v'', bcf_email = ''a@b'', bcf_askpass_cmd = ''ask'',
     bcf_appdata_dir = ''/x'', bcf_bw_path = None, bcf_totp_exposable = [], bcf_session_ttl = 5\<rparr>"

definition demo_bw_env :: "unit BwEnv" where
  "demo_bw_env = \<lparr>bx_now = (\<lambda>w. (0, w)), bx_sleep = (\<lambda>_ w. w), bx_create_dir = (\<lambda>_ w. (None, w)),
     bx_run = (\<lambda>_ _ w. (BwExited (Some 0) ''k3y=='' ''export BW_SESSION=k3y==''  , w)), bx_askpass = (\<lambda>_ w. (Exited True ''pw'', w)),
     bx_items = (\<lambda>_. None), bx_item = (\<lambda>_. None), bx_status = (\<lambda>_. Some ''unlocked''), bx_var = (\<lambda>_. None), bx_rpc_id = JNull,
     bx_method = None\<rparr>"

lemma demo_key_read: "session_key_from_stdout ''k3y=='' = Some ''k3y==''"
  by code_simp

lemma demo_key_maskable: "maskable ''k3y==''"
  by code_simp

theorem diagnostics_hide_secrets_witness:
  "\<exists>p' line. login_with_password demo_bw_env [''unlock'', ''--raw''] ''pw'' (BwAttemptContext_new False 1) demo_bw () = (Inr ''k3y=='', p', ())
     \<and> bwp_lines p' = line # bwp_lines demo_bw \<and> \<not> contains_sub (dg_stderr (dl_base line)) ''k3y==''"
proof -
  obtain r p' w where r: "login_with_password demo_bw_env [''unlock'', ''--raw''] ''pw'' (BwAttemptContext_new False 1) demo_bw () = (r, p', w)"
    by (cases "login_with_password demo_bw_env [''unlock'', ''--raw''] ''pw'' (BwAttemptContext_new False 1) demo_bw ()")
  then have "r = Inr ''k3y==''"
    by (auto simp: login_with_password_def run_bw_with_context_def run_bw_with_timeout_def run_bw_unreported_def Let_def demo_bw_env_def
        bw_result_def demo_key_read)
  then show ?thesis using diagnostics_hide_secrets[OF r _ _ demo_key_maskable] r by auto
qed

end
