(* ===== verification/Vault.thy ===== *)
theory Vault
  imports Bitwarden
begin

section \<open>The vault\<close>

text \<open>
  The daemon's use of its credential providers (\<open>crates/tegatad/src/main.rs\<close>): looking a credential
  up by its namespace, registering the secrets it hands out for the scan of responses, listing,
  locking, and the expiry that runs every second. A provider of the daemon is one of the four
  backends; a provider is guarded by its own lock, and each operation here is what one handler does
  with it. \<open>va_audit\<close> collects the audit lines, the latest first.
\<close>

datatype provider =
    PrStatic StaticProvider
  | PrFile FileProvider
  | PrPass PassProvider
  | PrBitwarden BitwardenCliProvider

record ('w, 'i) VaultEnv =
  ve_file :: "('w, 'i) FileEnv"
  ve_pass :: "'w PassEnv"
  ve_bw :: "'w BwEnv"

definition as_provider :: "('p \<Rightarrow> provider) \<Rightarrow> 'r \<times> 'p \<times> 'w \<Rightarrow> 'r \<times> provider \<times> 'w" where
  "as_provider C x = (case x of (r, p, w) \<Rightarrow> (r, C p, w))"

fun list_refs :: "('w, 'i) VaultEnv \<Rightarrow> provider \<Rightarrow> 'w \<Rightarrow> (ErrorCode + CredentialRef list) \<times> provider \<times> 'w" where
  "list_refs env (PrStatic p) w = as_provider PrStatic (static_list_refs p w)"
| "list_refs env (PrFile p) w = as_provider PrFile (file_list_refs (ve_file env) p w)"
| "list_refs env (PrPass p) w = as_provider PrPass (pass_list_refs (ve_pass env) p w)"
| "list_refs env (PrBitwarden p) w = as_provider PrBitwarden (bw_list_refs (ve_bw env) p w)"

fun resolve :: "('w, 'i) VaultEnv \<Rightarrow> string \<Rightarrow> provider \<Rightarrow> 'w \<Rightarrow> (ErrorCode + ResolvedCredential option) \<times> provider \<times> 'w" where
  "resolve env i (PrStatic p) w = as_provider PrStatic (static_resolve i p w)"
| "resolve env i (PrFile p) w = as_provider PrFile (file_resolve (ve_file env) i p w)"
| "resolve env i (PrPass p) w = as_provider PrPass (pass_resolve (ve_pass env) i p w)"
| "resolve env i (PrBitwarden p) w = as_provider PrBitwarden (bw_resolve (ve_bw env) i p w)"

fun lock :: "('w, 'i) VaultEnv \<Rightarrow> provider \<Rightarrow> 'w \<Rightarrow> (ErrorCode + unit) \<times> provider \<times> 'w" where
  "lock env (PrStatic p) w = as_provider PrStatic (static_lock p w)"
| "lock env (PrFile p) w = as_provider PrFile (file_lock p w)"
| "lock env (PrPass p) w = as_provider PrPass (pass_lock p w)"
| "lock env (PrBitwarden p) w = as_provider PrBitwarden (bw_lock (ve_bw env) p w)"

fun expire :: "('w, 'i) VaultEnv \<Rightarrow> provider \<Rightarrow> 'w \<Rightarrow> (ErrorCode + unit) \<times> provider \<times> 'w" where
  "expire env (PrStatic p) w = as_provider PrStatic (static_expire p w)"
| "expire env (PrFile p) w = as_provider PrFile (file_expire (ve_file env) p w)"
| "expire env (PrPass p) w = as_provider PrPass (pass_expire (ve_pass env) p w)"
| "expire env (PrBitwarden p) w = as_provider PrBitwarden (bw_expire (ve_bw env) p w)"

fun take_autolock_event :: "provider \<Rightarrow> bool \<times> provider" where
  "take_autolock_event (PrStatic p) = (case static_take_autolock_event p of (b, p) \<Rightarrow> (b, PrStatic p))"
| "take_autolock_event (PrFile p) = (case file_take_autolock_event p of (b, p) \<Rightarrow> (b, PrFile p))"
| "take_autolock_event (PrPass p) = (case pass_take_autolock_event p of (b, p) \<Rightarrow> (b, PrPass p))"
| "take_autolock_event (PrBitwarden p) = (case bw_take_autolock_event p of (b, p) \<Rightarrow> (b, PrBitwarden p))"

fun locked :: "provider \<Rightarrow> bool" where
  "locked (PrStatic p) = stp_locked p"
| "locked (PrFile p) = fp_locked p"
| "locked (PrPass p) = pp_locked p"
| "locked (PrBitwarden p) = bwp_locked p"

fun provider_inv :: "provider \<Rightarrow> bool" where
  "provider_inv (PrStatic p) = True"
| "provider_inv (PrFile p) = file_inv p"
| "provider_inv (PrPass p) = pass_inv p"
| "provider_inv (PrBitwarden p) = bw_inv p"

fun prereg :: "provider \<Rightarrow> string set" where
  "prereg (PrStatic p) = static_secrets p"
| "prereg _ = {}"

lemma as_provider_eq [simp]: "as_provider C x = (r, q, w) \<longleftrightarrow> (\<exists>p. x = (r, p, w) \<and> q = C p)"
  by (cases x) (auto simp: as_provider_def)

interpretation vp: credential_provider provider_inv "list_refs env" "resolve env" "lock env" "expire env" take_autolock_event locked prereg
  for env :: "('w, 'i) VaultEnv"
proof (unfold_locales, goal_cases)
  case (1 p w r p' w')
  then show ?case by (cases p) (auto split: prod.splits dest: st.list_keeps[OF TrueI] fi.list_keeps pa.list_keeps bw.list_keeps)
next
  case (2 p i w c p' w')
  then show ?case by (cases p) (auto split: prod.splits dest: st.resolve_keeps[OF TrueI] fi.resolve_keeps pa.resolve_keeps bw.resolve_keeps)
next
  case (3 p w u p' w')
  then show ?case by (cases p) (auto split: prod.splits dest: st.lock_keeps[OF TrueI] fi.lock_keeps pa.lock_keeps bw.lock_keeps)
next
  case (4 p w u p' w')
  then show ?case by (cases p) (auto split: prod.splits dest: st.expire_keeps[OF TrueI] fi.expire_keeps pa.expire_keeps bw.expire_keeps)
next
  case (5 p b p')
  then show ?case by (cases p) (auto split: prod.splits dest: st.take_keeps[OF TrueI] fi.take_keeps pa.take_keeps bw.take_keeps)
next
  case (6 p b p')
  then show ?case by (cases p) (auto split: prod.splits dest: st.take_takes fi.take_takes pa.take_takes bw.take_takes)
next
  case (7 p w refs p' w' x)
  then show ?case by (cases p) (auto split: prod.splits dest: st.list_hides[OF TrueI] fi.list_hides pa.list_hides bw.list_hides)
next
  case (8 p i w c' p' w')
  then show ?case by (cases p) (auto split: prod.splits dest: st.resolve_locked[OF TrueI] fi.resolve_locked pa.resolve_locked bw.resolve_locked)
next
  case (9 p i w c' p' w')
  then show ?case by (cases p) (auto split: prod.splits dest: st.resolve_prereg[OF TrueI] fi.resolve_prereg pa.resolve_prereg bw.resolve_prereg)
next
  case (10 p w p' w')
  then show ?case by (cases p) (auto split: prod.splits dest: st.lock_locks[OF TrueI] fi.lock_locks pa.lock_locks bw.lock_locks)
next
  case (11 p w u p' w')
  then show ?case by (cases p) (auto split: prod.splits dest: st.expire_returns[OF TrueI] fi.expire_returns pa.expire_returns bw.expire_returns)
next
  case (12 p w u p' w')
  then show ?case by (cases p) (auto split: prod.splits dest: st.expire_stays[OF TrueI] fi.expire_stays pa.expire_stays bw.expire_stays)
next
  case (13 p w u p' w')
  then show ?case by (cases p) (auto split: prod.splits dest: st.expire_event[OF TrueI] fi.expire_event pa.expire_event bw.expire_event)
qed


subsection \<open>The daemon's operations\<close>

type_synonym audit_entry = "AuditPeer \<times> string \<times> AuditFields \<times> string"

record vault =
  va_providers :: "(string \<times> provider) list"
  va_registry :: "string list"
  va_audit :: "audit_entry list"

text \<open>A provider is known by its position; the provider of a namespace is the first with that name.\<close>

definition find_provider :: "string \<Rightarrow> vault \<Rightarrow> nat option" where
  "find_provider ns v = List.find (\<lambda>n. fst (va_providers v ! n) = ns) [0..<length (va_providers v)]"

definition select_providers :: "string option \<Rightarrow> vault \<Rightarrow> nat list" where
  "select_providers ns v =
     filter (\<lambda>n. case ns of None \<Rightarrow> True | Some requested \<Rightarrow> requested = fst (va_providers v ! n)) [0..<length (va_providers v)]"

definition audit_provider_autolock :: "string \<Rightarrow> vault \<Rightarrow> vault" where
  "audit_provider_autolock ns v =
     v\<lparr>va_audit := (AuditSystem, ''vault_autolocked'', AuditFields_default\<lparr>af_namespace := Some ns\<rparr>, ''ok'') # va_audit v\<rparr>"

text \<open>An operation on a provider, the event it may have left, and the audit line of that event.\<close>

definition run_provider :: "nat \<Rightarrow> (provider \<Rightarrow> 'w \<Rightarrow> 'r \<times> provider \<times> 'w) \<Rightarrow> vault \<Rightarrow> 'w \<Rightarrow> 'r \<times> bool \<times> vault \<times> 'w" where
  "run_provider n f v w =
     (case va_providers v ! n of
        (ns, p) \<Rightarrow>
          (case f p w of
             (r, p, w) \<Rightarrow>
               (case take_autolock_event p of
                  (autolocked, p) \<Rightarrow>
                    (let v = v\<lparr>va_providers := (va_providers v)[n := (ns, p)]\<rparr> in
                     (r, locked p, if autolocked then audit_provider_autolock ns v else v, w)))))"

definition register_secret :: "string \<Rightarrow> string list \<Rightarrow> string list" where
  "register_secret s registry = (if list_ex (\<lambda>r. r = s) registry then registry else registry @ [s])"

definition register_credential :: "ResolvedCredential \<Rightarrow> string list \<Rightarrow> string list" where
  "register_credential c registry =
     (let registry = register_secret (rc_password c) (register_secret (rc_username c) registry) in
      case rc_totp_seed c of None \<Rightarrow> registry | Some seed \<Rightarrow> register_secret seed registry)"

definition resolve_credential ::
  "('w, 'i) VaultEnv \<Rightarrow> string \<Rightarrow> vault \<Rightarrow> 'w \<Rightarrow> (ErrorCode + ResolvedCredential option) \<times> vault \<times> 'w" where
  "resolve_credential env cid v w =
     (case split_once cid '':'' of
        None \<Rightarrow> (Inr None, v, w)
      | Some (ns, entry_id) \<Rightarrow>
          (case find_provider ns v of
             None \<Rightarrow> (Inr None, v, w)
           | Some n \<Rightarrow>
               (case run_provider n (resolve env entry_id) v w of
                  (r, _, v, w) \<Rightarrow>
                    (case r of
                       Inr (Some c) \<Rightarrow>
                         (Inr (Some c),
                          if \<not> rc_secrets_preregistered c then v\<lparr>va_registry := register_credential c (va_registry v)\<rparr> else v, w)
                     | _ \<Rightarrow> (r, v, w)))))"

definition resolve_unlocked_credential ::
  "('w, 'i) VaultEnv \<Rightarrow> string \<Rightarrow> vault \<Rightarrow> 'w \<Rightarrow> (ErrorCode + ResolvedCredential) \<times> vault \<times> 'w" where
  "resolve_unlocked_credential env cid v w =
     (case resolve_credential env cid v w of
        (Inl e, v, w) \<Rightarrow> (Inl e, v, w)
      | (Inr None, v, w) \<Rightarrow> (Inl InvalidCredential, v, w)
      | (Inr (Some c), v, w) \<Rightarrow> (if rc_locked c then Inl VaultLocked else Inr c, v, w))"

definition namespace_locked :: "string \<Rightarrow> vault \<Rightarrow> bool" where
  "namespace_locked ns v = (case find_provider ns v of None \<Rightarrow> False | Some n \<Rightarrow> locked (snd (va_providers v ! n)))"

definition credential_refs ::
  "('w, 'i) VaultEnv \<Rightarrow> string \<Rightarrow> vault \<Rightarrow> 'w \<Rightarrow> (ErrorCode + (CredentialRef list \<times> bool) option) \<times> vault \<times> 'w" where
  "credential_refs env cid v w =
     (case split_once cid '':'' of
        None \<Rightarrow> (Inr None, v, w)
      | Some (ns, _) \<Rightarrow>
          (case find_provider ns v of
             None \<Rightarrow> (Inr None, v, w)
           | Some n \<Rightarrow>
               (case run_provider n (list_refs env) v w of
                  (r, is_locked, v, w) \<Rightarrow> (map_sum id (\<lambda>refs. Some (refs, is_locked)) r, v, w))))"

text \<open>Of \<open>CredentialMetadata\<close> only the address is there: \<open>Some\<close> of an entry that was listed.\<close>

definition credential_metadata ::
  "('w, 'i) VaultEnv \<Rightarrow> string \<Rightarrow> vault \<Rightarrow> 'w \<Rightarrow> (ErrorCode + string option option) \<times> vault \<times> 'w" where
  "credential_metadata env cid v w =
     (case split_once cid '':'' of
        None \<Rightarrow> (Inr None, v, w)
      | Some (_, entry_id) \<Rightarrow>
          (case credential_refs env cid v w of
             (Inl e, v, w) \<Rightarrow> (Inl e, v, w)
           | (Inr None, v, w) \<Rightarrow> (Inr None, v, w)
           | (Inr (Some (refs, _)), v, w) \<Rightarrow> (Inr (map_option cr_uri (List.find (\<lambda>c. cr_id c = entry_id) refs)), v, w)))"

record CredentialState =
  cs_locked :: bool
  cs_confirmed :: bool

definition credential_state ::
  "('w, 'i) VaultEnv \<Rightarrow> string \<Rightarrow> vault \<Rightarrow> 'w \<Rightarrow> (ErrorCode + CredentialState option) \<times> vault \<times> 'w" where
  "credential_state env cid v w =
     (case split_once cid '':'' of
        None \<Rightarrow> (Inr None, v, w)
      | Some (_, entry_id) \<Rightarrow>
          (case credential_refs env cid v w of
             (Inl e, v, w) \<Rightarrow> (Inl e, v, w)
           | (Inr None, v, w) \<Rightarrow> (Inr None, v, w)
           | (Inr (Some (refs, is_locked)), v, w) \<Rightarrow>
               (Inr (if list_ex (\<lambda>c. cr_id c = entry_id) refs then Some \<lparr>cs_locked = False, cs_confirmed = True\<rparr>
                     else if is_locked \<and> refs = [] then Some \<lparr>cs_locked = False, cs_confirmed = False\<rparr>
                     else None), v, w)))"


text \<open>A locked provider never shows in the state of a credential.\<close>

lemma credential_state_never_locked:
  "credential_state env cid v w = (Inr (Some s), v', w') \<Longrightarrow> \<not> cs_locked s"
  by (auto simp: credential_state_def split: prod.splits option.splits sum.splits if_splits)

definition credential_json :: "string \<Rightarrow> bool \<Rightarrow> CredentialRef \<Rightarrow> json" where
  "credential_json ns is_locked c =
     (let i = ns @ '':'' @ cr_id c in
      if is_locked
      then JObj [(''id'', JStr i), (''name'', JStr (cr_name c)), (''source'', JStr ns), (''status'', JStr ''locked'')]
      else JObj [(''id'', JStr i), (''name'', JStr (cr_name c)),
                 (''uri'', JStr (case cr_uri c of None \<Rightarrow> [] | Some u \<Rightarrow> u)),
                 (''kind'', JStr (case cr_kind c of None \<Rightarrow> [] | Some u \<Rightarrow> u)),
                 (''source'', JStr ns), (''status'', JStr ''unlocked'')])"

fun list_providers :: "('w, 'i) VaultEnv \<Rightarrow> nat list \<Rightarrow> json list \<Rightarrow> vault \<Rightarrow> 'w \<Rightarrow> (ErrorCode + json list) \<times> vault \<times> 'w" where
  "list_providers env [] result v w = (Inr result, v, w)"
| "list_providers env (n # ns) result v w =
     (case run_provider n (list_refs env) v w of
        (Inl e, _, v, w) \<Rightarrow> (Inl e, v, w)
      | (Inr refs, is_locked, v, w) \<Rightarrow>
          list_providers env ns (result @ map (credential_json (fst (va_providers v ! n)) is_locked) refs) v w)"

definition list_credentials :: "('w, 'i) VaultEnv \<Rightarrow> RpcRequest \<Rightarrow> vault \<Rightarrow> 'w \<Rightarrow> HandledRequest \<times> vault \<times> 'w" where
  "list_credentials env request v w =
     (case optional_namespace (rq_params request) of
        Inl e \<Rightarrow> (classified (rq_id request) e, v, w)
      | Inr ns \<Rightarrow>
          (case list_providers env (select_providers ns v) [] v w of
             (Inl e, v, w) \<Rightarrow> (classified (rq_id request) e, v, w)
           | (Inr result, v, w) \<Rightarrow> (success (rq_id request) (JArr result), v, w)))"

text \<open>One tick of \<open>spawn_provider_expiry_reaper\<close>.\<close>

fun expire_providers :: "('w, 'i) VaultEnv \<Rightarrow> nat list \<Rightarrow> vault \<Rightarrow> 'w \<Rightarrow> vault \<times> 'w" where
  "expire_providers env [] v w = (v, w)"
| "expire_providers env (n # ns) v w =
     (case run_provider n (expire env) v w of (_, _, v, w) \<Rightarrow> expire_providers env ns v w)"

definition provider_expiry_reaper :: "('w, 'i) VaultEnv \<Rightarrow> vault \<Rightarrow> 'w \<Rightarrow> vault \<times> 'w" where
  "provider_expiry_reaper env v w = expire_providers env [0..<length (va_providers v)] v w"

text \<open>The loop of \<open>lock_vault\<close>: the first provider that fails to lock ends it.\<close>

fun lock_providers :: "('w, 'i) VaultEnv \<Rightarrow> nat list \<Rightarrow> vault \<Rightarrow> 'w \<Rightarrow> (ErrorCode + unit) \<times> vault \<times> 'w" where
  "lock_providers env [] v w = (Inr (), v, w)"
| "lock_providers env (n # ns) v w =
     (case lock env (snd (va_providers v ! n)) w of
        (r, p, w) \<Rightarrow>
          (let v = v\<lparr>va_providers := (va_providers v)[n := (fst (va_providers v ! n), p)]\<rparr> in
           case r of
             Inl e \<Rightarrow> (Inl e, v, w)
           | Inr _ \<Rightarrow> lock_providers env ns v w))"

subsection \<open>One-time codes\<close>

text \<open>
  \<open>get_totp\<close>, with the times of the last codes. The clock is read twice, first for the rate limit (at
  \<open>now\<close>), then for the table (at \<open>later\<close>); \<open>code_of\<close> is \<open>totp\<close> at the time of day.
\<close>

definition TOTP_INTERVAL :: duration where
  "TOTP_INTERVAL = from_secs 30"

definition get_totp ::
  "('w, 'i) VaultEnv \<Rightarrow> (string \<Rightarrow> string \<times> nat) \<Rightarrow> instant \<Rightarrow> instant \<Rightarrow> RpcRequest \<Rightarrow> vault \<Rightarrow> (string, instant) table \<Rightarrow> 'w
     \<Rightarrow> HandledRequest \<times> vault \<times> (string, instant) table \<times> 'w" where
  "get_totp env code_of now later request v seen w =
     (case required_string_param (rq_params request) ''cred_id'' of
        Inl e \<Rightarrow> (classified (rq_id request) e, v, seen, w)
      | Inr cid \<Rightarrow>
          (case resolve_credential env cid v w of
             (Inl e, v, w) \<Rightarrow> (classified (rq_id request) e, v, seen, w)
           | (Inr None, v, w) \<Rightarrow> (classified (rq_id request) TotpNotExposable, v, seen, w)
           | (Inr (Some c), v, w) \<Rightarrow>
               if rc_locked c then (classified (rq_id request) VaultLocked, v, seen, w)
               else (case rc_totp_seed c of
                       None \<Rightarrow> (classified (rq_id request) TotpNotExposable, v, seen, w)
                     | Some seed \<Rightarrow>
                         if \<not> rc_totp_exposable c then (classified (rq_id request) TotpNotExposable, v, seen, w)
                         else if (case hget seen cid of None \<Rightarrow> False | Some t \<Rightarrow> now - t < TOTP_INTERVAL)
                         then (classified (rq_id request) RateLimited, v, seen, w)
                         else (case code_of seed of
                                 (code, expires_in) \<Rightarrow>
                                   (success (rq_id request) (JObj [(''code'', JStr code), (''expires_in'', JInt (int expires_in))]), v,
                                    hinsert cid later seen, w)))))"

subsection \<open>The vault's invariant\<close>

definition vault_inv :: "vault \<Rightarrow> bool" where
  "vault_inv v \<longleftrightarrow> (\<forall>x \<in> set (va_providers v). provider_inv (snd x) \<and> prereg (snd x) \<subseteq> set (va_registry v))"

lemma vault_invD: "vault_inv v \<Longrightarrow> n < length (va_providers v) \<Longrightarrow> provider_inv (snd (va_providers v ! n)) \<and> prereg (snd (va_providers v ! n)) \<subseteq> set (va_registry v)"
  unfolding vault_inv_def using nth_mem[of n "va_providers v"] by blast

lemma vault_inv_update:
  assumes "vault_inv v" "provider_inv p" "prereg p \<subseteq> set (va_registry v)"
  shows "vault_inv (v\<lparr>va_providers := (va_providers v)[n := (ns, p)]\<rparr>)"
  using assms set_update_subset_insert[of "va_providers v" n "(ns, p)"] unfolding vault_inv_def by fastforce

lemma vault_inv_registry: "vault_inv v \<Longrightarrow> set (va_registry v) \<subseteq> set r \<Longrightarrow> vault_inv (v\<lparr>va_registry := r\<rparr>)"
  unfolding vault_inv_def by fastforce

lemma autolock_fields [simp]:
  "vault_inv (audit_provider_autolock ns v) = vault_inv v" "va_registry (audit_provider_autolock ns v) = va_registry v"
  "va_providers (audit_provider_autolock ns v) = va_providers v"
  by (simp_all add: audit_provider_autolock_def vault_inv_def)

text \<open>One operation of a provider: what it answered, and the vault that it leaves.\<close>

lemma run_providerE:
  assumes "vault_inv v" "n < length (va_providers v)" "run_provider n f v w = (r, b, v', w')"
    and keeps: "\<And>p w r p' w'. provider_inv p \<Longrightarrow> f p w = (r, p', w') \<Longrightarrow> provider_inv p' \<and> prereg p' = prereg p"
  obtains p where "f (snd (va_providers v ! n)) w = (r, p, w')" "b = locked p" "va_providers v' = (va_providers v)[n := (fst (va_providers v ! n), snd (take_autolock_event p))]"
    "locked (snd (take_autolock_event p)) = locked p" "vault_inv v'" "va_registry v' = va_registry v"
proof -
  obtain ns q where q: "va_providers v ! n = (ns, q)" by fastforce
  obtain r1 p w1 where p: "f q w = (r1, p, w1)" by (cases "f q w")
  obtain e p1 where e: "take_autolock_event p = (e, p1)" by fastforce
  have i: "provider_inv q" "prereg q \<subseteq> set (va_registry v)" using vault_invD[OF assms(1,2)] q by auto
  note k = keeps[OF i(1) p]
  note t = vp.take_keeps[OF conjunct1[OF k] e]
  have u: "vault_inv (v\<lparr>va_providers := (va_providers v)[n := (ns, p1)]\<rparr>)" using vault_inv_update[OF assms(1)] t k i(2) by simp
  have "r = r1" "b = locked p1" "w' = w1" and v': "v' = (if e then audit_provider_autolock ns else id) (v\<lparr>va_providers := (va_providers v)[n := (ns, p1)]\<rparr>)"
    using assms(3) q p e by (auto simp: run_provider_def Let_def)
  then show ?thesis using that[of p] p q t u e by auto
qed

lemma find_provider_Some: "find_provider ns v = Some n \<Longrightarrow> n < length (va_providers v) \<and> fst (va_providers v ! n) = ns"
  by (auto simp: find_provider_def find_Some_iff)

lemma find_provider_cong: "map fst (va_providers v') = map fst (va_providers v) \<Longrightarrow> find_provider ns v' = find_provider ns v"
proof -
  assume a: "map fst (va_providers v') = map fst (va_providers v)"
  then have "length (va_providers v') = length (va_providers v)" by (metis length_map)
  moreover have "n < length (va_providers v) \<Longrightarrow> fst (va_providers v' ! n) = fst (va_providers v ! n)" for n
    using a by (metis length_map nth_map)
  ultimately show ?thesis unfolding find_provider_def by (intro find_cong) auto
qed

lemma register_secret_set [simp]: "set (register_secret s r) = insert s (set r)"
  by (auto simp: register_secret_def list_ex_iff)

lemma register_credential_set [simp]: "set (register_credential c r) = set r \<union> credential_secrets c"
  by (auto simp: register_credential_def credential_secrets_def Let_def split: option.splits)

lemma names_updated: "map fst (xs[n := (fst (xs ! n), p)]) = map fst xs"
  by (metis fst_conv list_update_id map_update nth_map list_update_beyond not_le_imp_less length_map)

text \<open>Resolving a credential: the invariant stays, and what is handed out is registered and says whether the provider is locked.\<close>

lemma resolve_credential_ok:
  assumes "vault_inv v" "resolve_credential env cid v w = (r, v', w')"
  shows "vault_inv v'" "map fst (va_providers v') = map fst (va_providers v)" "set (va_registry v) \<subseteq> set (va_registry v')"
    "r = Inr (Some c) \<Longrightarrow> credential_secrets c \<subseteq> set (va_registry v') \<and> (\<exists>ns e. split_once cid '':'' = Some (ns, e) \<and> namespace_locked ns v' = rc_locked c)"
proof -
  have "vault_inv v' \<and> map fst (va_providers v') = map fst (va_providers v) \<and> set (va_registry v) \<subseteq> set (va_registry v') \<and>
    (r = Inr (Some c) \<longrightarrow> credential_secrets c \<subseteq> set (va_registry v') \<and> (\<exists>ns e. split_once cid '':'' = Some (ns, e) \<and> namespace_locked ns v' = rc_locked c))"
  proof (cases "\<exists>ns e n. split_once cid '':'' = Some (ns, e) \<and> find_provider ns v = Some n")
    case False
    then show ?thesis using assms by (auto simp: resolve_credential_def split: option.splits)
  next
    case True
    then obtain ns e n where n: "split_once cid '':'' = Some (ns, e)" "find_provider ns v = Some n" by blast
    note N = find_provider_Some[OF n(2)]
    obtain r1 b v1 w1 where u: "run_provider n (resolve env e) v w = (r1, b, v1, w1)" by (metis prod_cases4)
    obtain p where P: "resolve env e (snd (va_providers v ! n)) w = (r1, p, w1)" "b = locked p"
      "va_providers v1 = (va_providers v)[n := (fst (va_providers v ! n), snd (take_autolock_event p))]"
      "locked (snd (take_autolock_event p)) = locked p" "vault_inv v1" "va_registry v1 = va_registry v"
      by (rule run_providerE[OF assms(1) conjunct1[OF N] u]) (erule (1) vp.resolve_keeps, blast)
    have f1: "map fst (va_providers v1) = map fst (va_providers v)" unfolding P(3) by (rule names_updated)
    have v': "v' = (case r1 of Inr (Some c) \<Rightarrow> if \<not> rc_secrets_preregistered c then v1\<lparr>va_registry := register_credential c (va_registry v1)\<rparr> else v1 | _ \<Rightarrow> v1)"
      and r: "r = r1" using assms(2) n u by (auto simp: resolve_credential_def split: sum.splits option.splits)
    have fp: "find_provider ns v' = Some n" using find_provider_cong[of v' v ns] f1 n(2) v' by (auto split: sum.splits option.splits)
    have pr: "va_providers v' = va_providers v1" using v' by (auto split: sum.splits option.splits)
    show ?thesis
    proof (cases "r1 = Inr (Some c)")
      case True
      note I = vault_invD[OF assms(1) conjunct1[OF N]]
      have "rc_locked c = locked p" by (rule vp.resolve_locked[OF conjunct1[OF I] P(1)[unfolded True]])
      moreover have "rc_secrets_preregistered c \<Longrightarrow> credential_secrets c \<subseteq> set (va_registry v)"
        using vp.resolve_prereg[OF conjunct1[OF I] P(1)[unfolded True]] I by blast
      ultimately show ?thesis using True v' r P f1 n fp pr N vault_inv_registry[OF P(5)]
        by (auto simp: namespace_locked_def)
    next
      case False
      then show ?thesis using v' r P f1 vault_inv_registry[OF P(5)] by (auto split: sum.splits option.splits)
    qed
  qed
  then show "vault_inv v'" "map fst (va_providers v') = map fst (va_providers v)" "set (va_registry v) \<subseteq> set (va_registry v')"
    "r = Inr (Some c) \<Longrightarrow> credential_secrets c \<subseteq> set (va_registry v') \<and> (\<exists>ns e. split_once cid '':'' = Some (ns, e) \<and> namespace_locked ns v' = rc_locked c)"
    by simp_all
qed


lemma lock_providers_ok:
  assumes "vault_inv v" "distinct ns" "\<forall>n \<in> set ns. n < length (va_providers v)" "lock_providers env ns v w = (r, v', w')"
  shows "vault_inv v' \<and> map fst (va_providers v') = map fst (va_providers v) \<and> va_registry v' = va_registry v
    \<and> (\<forall>m. m \<notin> set ns \<longrightarrow> va_providers v' ! m = va_providers v ! m)
    \<and> (\<forall>n \<in> set ns. r = Inr () \<longrightarrow> locked (snd (va_providers v' ! n)))"
  using assms
proof (induction ns arbitrary: v w)
  case (Cons n ns)
  obtain r1 p w1 where l: "lock env (snd (va_providers v ! n)) w = (r1, p, w1)" by (cases "lock env (snd (va_providers v ! n)) w")
  have n: "n < length (va_providers v)" using Cons.prems(3) by simp
  note I = vault_invD[OF Cons.prems(1) n]
  note K = vp.lock_keeps[OF conjunct1[OF I] l]
  let ?v = "v\<lparr>va_providers := (va_providers v)[n := (fst (va_providers v ! n), p)]\<rparr>"
  have v1: "vault_inv ?v" using vault_inv_update[OF Cons.prems(1)] K I by simp
  have names: "map fst (va_providers ?v) = map fst (va_providers v)" using names_updated[of "va_providers v" n p] by simp
  show ?case
  proof (cases r1)
    case (Inl e)
    then have "v' = ?v" "r = Inl e" using Cons.prems(4) l by (simp_all add: Let_def)
    then show ?thesis using v1 names by simp
  next
    case (Inr u)
    have lk: "locked p" using vp.lock_locks[OF conjunct1[OF I]] l Inr by simp
    have rest: "lock_providers env ns ?v w1 = (r, v', w')" using Cons.prems(4) l Inr by (simp add: Let_def)
    note IH = Cons.IH[OF v1 _ _ rest]
    have "n \<notin> set ns" using Cons.prems(2) by simp
    then show ?thesis using IH Cons.prems(2,3) names lk n by auto
  qed
qed simp

lemma select_providers_iff: "n \<in> set (select_providers ns v) \<longleftrightarrow> n < length (va_providers v) \<and> (\<forall>x. ns = Some x \<longrightarrow> fst (va_providers v ! n) = x)"
  by (auto simp: select_providers_def split: option.splits)

lemma distinct_select [simp]: "distinct (select_providers ns v)"
  by (simp add: select_providers_def)

text \<open>
  C16: A credential that the daemon uses comes from a provider that is not locked, and every secret in it is in the
  registry against which responses are scanned before anyone can use it. Resolving keeps that true of every
  secret the static entries hold.
\<close>

theorem resolved_secrets_are_registered:
  assumes "vault_inv v" "resolve_unlocked_credential env cid v w = (Inr c, v', w')"
  shows "credential_secrets c \<subseteq> set (va_registry v') \<and> vault_inv v'
    \<and> (\<exists>ns e. split_once cid '':'' = Some (ns, e) \<and> \<not> namespace_locked ns v')"
proof -
  have r: "resolve_credential env cid v w = (Inr (Some c), v', w')" "\<not> rc_locked c"
    using assms(2) by (auto simp: resolve_unlocked_credential_def split: prod.splits sum.splits option.splits if_splits)
  show ?thesis using resolve_credential_ok[OF assms(1) r(1)] r(2) by blast
qed

subsection \<open>One code at a time\<close>

inductive totp_run :: "('w, 'i) VaultEnv \<Rightarrow> (string, instant) table \<Rightarrow> (string \<times> instant \<times> instant) list \<Rightarrow> instant \<Rightarrow> bool" for env where
  totp_starts: "totp_run env [] [] t"
| totp_call: "totp_run env seen codes t \<Longrightarrow> t \<le> now \<Longrightarrow> now \<le> later \<Longrightarrow> required_string_param (rq_params request) ''cred_id'' = Inr cid \<Longrightarrow>
    get_totp env code_of now later request v seen w = (h, v', seen', w') \<Longrightarrow>
    totp_run env seen' (if hr_outcome h = ''ok'' then (cid, now, later) # codes else codes) later"

lemma classified_not_ok: "hr_outcome (classified i e) \<noteq> ''ok''"
  by (cases e) (simp_all add: classified_def classified_with_step_def handled_def)

lemma get_totp_seen:
  assumes "required_string_param (rq_params request) ''cred_id'' = Inr cid" "get_totp env code_of now later request v seen w = (h, v', seen', w')"
  shows "if hr_outcome h = ''ok'' then seen' = hinsert cid later seen \<and> (\<forall>t. hget seen cid = Some t \<longrightarrow> TOTP_INTERVAL \<le> now - t) else seen' = seen"
  using assms
  by (auto simp: get_totp_def classified_not_ok success_def handled_def split: sum.splits option.splits prod.splits if_splits)

definition codes_apart :: "(string \<times> instant \<times> instant) list \<Rightarrow> bool" where
  "codes_apart codes \<longleftrightarrow> (\<forall>i j. i < j \<and> j < length codes \<and> fst (codes ! i) = fst (codes ! j) \<longrightarrow>
     snd (snd (codes ! j)) + TOTP_INTERVAL \<le> fst (snd (codes ! i)))"

lemma codes_apart_Cons:
  assumes "codes_apart codes" "\<And>n l. (c, n, l) \<in> set codes \<Longrightarrow> l + TOTP_INTERVAL \<le> now"
  shows "codes_apart ((c, now, later) # codes)"
  unfolding codes_apart_def
proof (intro allI impI)
  fix i j assume a: "i < j \<and> j < length ((c, now, later) # codes) \<and> fst (((c, now, later) # codes) ! i) = fst (((c, now, later) # codes) ! j)"
  then obtain k where j: "j = Suc k" "k < length codes" by (cases j) auto
  show "snd (snd (((c, now, later) # codes) ! j)) + TOTP_INTERVAL \<le> fst (snd (((c, now, later) # codes) ! i))"
  proof (cases i)
    case 0
    then have "codes ! k = (c, snd (codes ! k))" using a j by (simp add: prod_eq_iff)
    then have "(c, fst (snd (codes ! k)), snd (snd (codes ! k))) \<in> set codes" using nth_mem[OF j(2)] by simp
    then show ?thesis using assms(2) 0 j by fastforce
  next
    case (Suc m)
    then show ?thesis using assms(1) a j unfolding codes_apart_def by auto
  qed
qed

lemma totp_run_inv:
  "totp_run env seen codes t \<Longrightarrow> codes_apart codes \<and> (\<forall>c n l. (c, n, l) \<in> set codes \<longrightarrow> (\<exists>u. hget seen c = Some u \<and> l \<le> u)) \<and> (\<forall>c u. hget seen c = Some u \<longrightarrow> u \<le> t)"
proof (induction rule: totp_run.induct)
  case (totp_starts t)
  show ?case by (simp add: codes_apart_def)
next
  case (totp_call seen codes t now later request cid code_of v w h v' seen' w')
  note G = get_totp_seen[OF totp_call.hyps(4,5)]
  show ?case
  proof (cases "hr_outcome h = ''ok''")
    case True
    have "l + TOTP_INTERVAL \<le> now" if m: "(cid, n, l) \<in> set codes" for n l
    proof -
      obtain u where "hget seen cid = Some u" "l \<le> u" "u \<le> t" using totp_call.IH m by blast
      then show ?thesis using G True totp_call.hyps(2) by (fastforce simp: TOTP_INTERVAL_def)
    qed
    then have "codes_apart ((cid, now, later) # codes)" using codes_apart_Cons totp_call.IH by blast
    moreover have "u \<le> later" if "hget seen c = Some u" for c u using totp_call.IH totp_call.hyps(2,3) that by fastforce
    moreover have "\<exists>u. hget seen c = Some u \<and> l \<le> u" if "(c, n, l) \<in> set codes" for c n l using totp_call.IH that by blast
    ultimately show ?thesis using G True by (auto, metis le_trans option.sel)
  next
    case False
    then show ?thesis using G totp_call.IH totp_call.hyps(2,3) by (auto, fastforce)
  qed
qed


text \<open>
  C27: At most one one-time code of a credential is handed out in 30 seconds: between a code and the request that got the
  next one for the same credential lie at least 30 seconds, whatever else is asked in between and whatever the
  providers answer.
\<close>

theorem one_code_per_interval:
  assumes "totp_run env seen codes t" "i < j" "j < length codes" "fst (codes ! i) = fst (codes ! j)"
  shows "snd (snd (codes ! j)) + TOTP_INTERVAL \<le> fst (snd (codes ! i))"
  using totp_run_inv[OF assms(1)] assms(2-4) unfolding codes_apart_def by blast

definition demo_static :: StaticProvider where
  "demo_static = \<lparr>stp_entries = [\<lparr>se_id = ''e'', se_name = ''n'', se_uri = ''u'', se_kind = ''login'', se_username = ''alice'',
     se_password = ''hunter2'', se_totp_seed = Some ''JBSW'', se_totp_exposable = True\<rparr>], stp_locked = False\<rparr>"

definition demo_vault :: vault where
  "demo_vault = \<lparr>va_providers = [(''op'', PrStatic demo_static)], va_registry = [''alice'', ''hunter2'', ''JBSW''], va_audit = []\<rparr>"

definition demo_totp_request :: RpcRequest where
  "demo_totp_request = \<lparr>rq_jsonrpc = ''2.0'', rq_id = JInt 1, rq_method = ''get_totp'', rq_params = JObj [(''cred_id'', JStr ''op:e'')]\<rparr>"

lemma demo_resolve:
  "resolve_credential env ''op:e'' demo_vault w = (Inr (Some \<lparr>rc_locked = False, rc_secrets_preregistered = True, rc_uri = Some ''u'',
     rc_username = ''alice'', rc_password = ''hunter2'', rc_totp_seed = Some ''JBSW'', rc_totp_exposable = True\<rparr>), demo_vault, w)"
  by (simp add: resolve_credential_def demo_vault_def demo_static_def split_once_def starts_with_def find_provider_def run_provider_def
      as_provider_def static_resolve_def static_take_autolock_event_def Let_def)

lemma demo_get_totp:
  "get_totp env (\<lambda>_. (''123456'', 7)) now later demo_totp_request demo_vault seen w =
     (if (case hget seen ''op:e'' of None \<Rightarrow> False | Some t \<Rightarrow> now - t < TOTP_INTERVAL) then (classified (JInt 1) RateLimited, demo_vault, seen, w)
      else (success (JInt 1) (JObj [(''code'', JStr ''123456''), (''expires_in'', JInt 7)]), demo_vault, hinsert ''op:e'' later seen, w))"
  by (simp add: get_totp_def demo_totp_request_def required_string_param_def demo_resolve)

lemma demo_cid: "required_string_param (rq_params demo_totp_request) ''cred_id'' = Inr ''op:e''"
  by (simp add: demo_totp_request_def required_string_param_def)

abbreviation demo_codes :: "(string \<times> instant \<times> instant) list" where
  "demo_codes \<equiv> [(''op:e'', 2 * TOTP_INTERVAL, 2 * TOTP_INTERVAL), (''op:e'', 0, 0)]"

lemma demo_totp_run: "totp_run (undefined :: (unit, unit) VaultEnv) [(''op:e'', 2 * TOTP_INTERVAL)] demo_codes (2 * TOTP_INTERVAL)"
proof -
  let ?h = "success (JInt 1) (JObj [(''code'', JStr ''123456''), (''expires_in'', JInt 7)])"
  have ok: "hr_outcome ?h = ''ok''" by (simp add: success_def handled_def)
  have g1: "get_totp (undefined :: (unit, unit) VaultEnv) (\<lambda>_. (''123456'', 7)) 0 0 demo_totp_request demo_vault [] () = (?h, demo_vault, [(''op:e'', 0)], ())"
    by (simp add: demo_get_totp hget_def hinsert_def)
  have g2: "get_totp (undefined :: (unit, unit) VaultEnv) (\<lambda>_. (''123456'', 7)) (2 * TOTP_INTERVAL) (2 * TOTP_INTERVAL) demo_totp_request demo_vault
      [(''op:e'', 0)] () = (?h, demo_vault, [(''op:e'', 2 * TOTP_INTERVAL)], ())"
    by (simp add: demo_get_totp hget_def hinsert_def)
  have "totp_run (undefined :: (unit, unit) VaultEnv) [(''op:e'', 0)] [(''op:e'', 0, 0)] 0"
    using totp_run.totp_call[OF totp_run.totp_starts le_refl le_refl demo_cid g1] ok by simp
  from totp_run.totp_call[OF this _ le_refl demo_cid g2] show ?thesis using ok by simp
qed

theorem one_code_per_interval_witness:
  "totp_run (undefined :: (unit, unit) VaultEnv) [(''op:e'', 2 * TOTP_INTERVAL)] demo_codes (2 * TOTP_INTERVAL)
    \<and> snd (snd (demo_codes ! 1)) + TOTP_INTERVAL \<le> fst (snd (demo_codes ! 0))"
  using one_code_per_interval[OF demo_totp_run, of 0 1] demo_totp_run by simp

lemma demo_vault_inv: "vault_inv demo_vault"
  by (simp add: vault_inv_def demo_vault_def demo_static_def static_secrets_def)

definition demo_credential :: ResolvedCredential where
  "demo_credential = \<lparr>rc_locked = False, rc_secrets_preregistered = True, rc_uri = Some ''u'', rc_username = ''alice'',
     rc_password = ''hunter2'', rc_totp_seed = Some ''JBSW'', rc_totp_exposable = True\<rparr>"

theorem resolved_secrets_are_registered_witness:
  "resolve_unlocked_credential (undefined :: (unit, unit) VaultEnv) ''op:e'' demo_vault () = (Inr demo_credential, demo_vault, ())
     \<and> credential_secrets demo_credential \<subseteq> set (va_registry demo_vault)"
proof -
  have r: "resolve_unlocked_credential (undefined :: (unit, unit) VaultEnv) ''op:e'' demo_vault () = (Inr demo_credential, demo_vault, ())"
    by (simp add: resolve_unlocked_credential_def demo_resolve demo_credential_def)
  show ?thesis using resolved_secrets_are_registered[OF demo_vault_inv r] r by simp
qed

end
