(* ===== verification/Secure_Fs.thy ===== *)
theory Secure_Fs
  imports Std_Text
begin

section \<open>Private files and directories\<close>

text \<open>
  \<open>secure_fs.rs\<close> on Unix. The system calls are asked for their answers: a record holds what each
  call of one operation returns, and the operations decide from them. A directory is the table of
  its entries in the order \<open>read_dir\<close> yields them; an entry says what its file type is (or the
  error of asking), what reading it gives and whether it can be removed; where removing answers
  that there is no such file, it has gone meanwhile. A file that the daemon
  has just written is a regular file it can read and remove.
\<close>

datatype fs_error = NotFound | AlreadyExists | InvalidInput string | OtherError string

record file_entry =
  fe_is_file :: "fs_error + bool"
  fe_bytes :: "fs_error + byte list"
  fe_unlink :: "fs_error option"

type_synonym dir_files = "(string, file_entry) table"

definition private_file :: "byte list \<Rightarrow> file_entry" where
  "private_file bs = \<lparr>fe_is_file = Inr True, fe_bytes = Inr bs, fe_unlink = None\<rparr>"

definition fs_read :: "string \<Rightarrow> dir_files \<Rightarrow> fs_error + byte list" where
  "fs_read name files = (case hget files name of None \<Rightarrow> Inl NotFound | Some e \<Rightarrow> fe_bytes e)"

definition remove_file :: "string \<Rightarrow> dir_files \<Rightarrow> (fs_error + unit) \<times> dir_files" where
  "remove_file name files =
     (case hget files name of
        None \<Rightarrow> (Inl NotFound, files)
      | Some e \<Rightarrow>
          (case fe_unlink e of
             None \<Rightarrow> (Inr (), hremove name files)
           | Some NotFound \<Rightarrow> (Inl NotFound, hremove name files)
           | Some err \<Rightarrow> (Inl err, files)))"

subsection \<open>Directories\<close>

record metadata =
  md_symlink :: bool
  md_dir :: bool
  md_mode :: nat
  md_uid :: nat

definition octal4 :: "nat \<Rightarrow> string" where
  "octal4 m = map (\<lambda>k. char_of (48 + (m div 8 ^ k) mod 8)) [3, 2, 1, 0]"

definition validate_state_dir :: "nat \<Rightarrow> string \<Rightarrow> metadata \<Rightarrow> fs_error + unit" where
  "validate_state_dir expected_uid dir md =
     (if md_symlink md then Inl (OtherError (''state_dir '' @ dir @ '' must not be a symlink''))
      else let mode = md_mode md mod 512; uid = md_uid md in
        if \<not> md_dir md \<or> mode \<noteq> 448 \<or> uid \<noteq> expected_uid then
          Inl (OtherError (''state_dir '' @ dir @ '' must be a directory with mode 0700 owned by uid ''
                           @ decimal expected_uid @ '' (found mode '' @ octal4 mode @ '', uid ''
                           @ decimal uid @ '')''))
        else Inr ())"

text \<open>
  The answers of one call of \<open>ensure_private_dir\<close>: the first \<open>symlink_metadata\<close>, creating the
  parents (\<open>None\<close>: nothing to create or success), \<open>mkdir\<close> with mode 0700, the change of the mode and
  the second \<open>symlink_metadata\<close>.
\<close>

record dir_answers =
  da_stat :: "fs_error + metadata"
  da_parents :: "fs_error option"
  da_create :: "fs_error option"
  da_chmod :: "fs_error option"
  da_stat_again :: "fs_error + metadata"
  da_euid :: nat

definition validate_again :: "string \<Rightarrow> dir_answers \<Rightarrow> fs_error + unit" where
  "validate_again dir a =
     (case da_stat_again a of Inl e \<Rightarrow> Inl e | Inr md \<Rightarrow> validate_state_dir (da_euid a) dir md)"

definition ensure_private_dir :: "string \<Rightarrow> dir_answers \<Rightarrow> fs_error + unit" where
  "ensure_private_dir dir a =
     (case da_stat a of
        Inr md \<Rightarrow> validate_state_dir (da_euid a) dir md
      | Inl NotFound \<Rightarrow>
          (case da_parents a of
             Some e \<Rightarrow> Inl e
           | None \<Rightarrow>
               (case da_create a of
                  None \<Rightarrow> (case da_chmod a of Some e \<Rightarrow> Inl e | None \<Rightarrow> validate_again dir a)
                | Some AlreadyExists \<Rightarrow> validate_again dir a
                | Some e \<Rightarrow> Inl e))
      | Inl e \<Rightarrow> Inl e)"

subsection \<open>Atomic writes\<close>

text \<open>
  The answers of one atomic write, and \<open>wa_left\<close>, what an interrupted write has put into the
  temporary file. \<open>wa_uuid\<close> is the random part of the temporary name.
\<close>

record write_answers =
  wa_uuid :: string
  wa_open :: "fs_error option"
  wa_write :: "fs_error option"
  wa_sync :: "fs_error option"
  wa_rename :: "fs_error option"
  wa_unlink :: "fs_error option"
  wa_left :: "byte list"

definition temporary_name :: "string \<Rightarrow> string \<Rightarrow> string" where
  "temporary_name name uuid = ''.'' @ from_utf8_lossy name @ ''.tmp-'' @ uuid"

definition remove_temporary :: "write_answers \<Rightarrow> string \<Rightarrow> dir_files \<Rightarrow> dir_files" where
  "remove_temporary a tmp files = (if wa_unlink a = None then hremove tmp files else files)"

definition write_private_file_atomic ::
  "write_answers \<Rightarrow> string \<Rightarrow> byte list \<Rightarrow> dir_files \<Rightarrow> (fs_error + unit) \<times> dir_files" where
  "write_private_file_atomic a name contents files =
     (let tmp = temporary_name name (wa_uuid a) in
      case wa_open a of
        Some e \<Rightarrow> (Inl e, remove_temporary a tmp files)
      | None \<Rightarrow>
          (case wa_write a of
             Some e \<Rightarrow> (Inl e, remove_temporary a tmp (hinsert tmp (private_file (wa_left a)) files))
           | None \<Rightarrow>
               (let files = hinsert tmp (private_file contents) files in
                case wa_sync a of
                  Some e \<Rightarrow> (Inl e, remove_temporary a tmp files)
                | None \<Rightarrow>
                    (case wa_rename a of
                       Some e \<Rightarrow> (Inl e, remove_temporary a tmp files)
                     | None \<Rightarrow> (Inr (), hinsert name (private_file contents) (hremove tmp files))))))"

definition write_works :: "string \<Rightarrow> write_answers" where
  "write_works uuid = \<lparr>wa_uuid = uuid, wa_open = None, wa_write = None, wa_sync = None,
     wa_rename = None, wa_unlink = None, wa_left = []\<rparr>"

subsection \<open>Facts\<close>

lemma validate_state_dir_ok_iff:
  "validate_state_dir euid dir md = Inr u \<longleftrightarrow>
     \<not> md_symlink md \<and> md_dir md \<and> md_mode md mod 512 = 448 \<and> md_uid md = euid"
  by (cases u) (auto simp: validate_state_dir_def Let_def)

text \<open>
  Whatever the calls answer, a directory is accepted only after it was seen with mode 0700, owned by
  the daemon, and no symbolic link.
\<close>

lemma ensured_directory_is_private:
  assumes "ensure_private_dir dir a = Inr u"
  shows "\<exists>md. (da_stat a = Inr md \<or> (da_stat a = Inl NotFound \<and> da_stat_again a = Inr md))
     \<and> \<not> md_symlink md \<and> md_dir md \<and> md_mode md mod 512 = 448 \<and> md_uid md = da_euid a"
  using assms unfolding ensure_private_dir_def validate_again_def
  by (auto simp: validate_state_dir_ok_iff split: sum.splits option.splits fs_error.splits)

lemma temporary_name_hidden: "starts_with (temporary_name name uuid) ''.''"
  by (simp add: temporary_name_def starts_with_def)

text \<open>
  A write either gives the file its new contents or leaves it as it was; no other entry changes
  but the temporary one, and after a success that is gone.
\<close>

lemma write_private_file_atomic_cases:
  assumes "write_private_file_atomic a name bs files = (r, files')"
    and tmp: "name \<noteq> temporary_name name (wa_uuid a)"
  shows "(case r of
       Inr _ \<Rightarrow> hget files' name = Some (private_file bs) \<and> hget files' (temporary_name name (wa_uuid a)) = None
     | Inl _ \<Rightarrow> hget files' name = hget files name)
     \<and> (\<forall>n. n \<noteq> name \<longrightarrow> n \<noteq> temporary_name name (wa_uuid a) \<longrightarrow> hget files' n = hget files n)"
  using assms unfolding write_private_file_atomic_def
  by (auto simp: Let_def remove_temporary_def split: option.splits if_splits)

lemma hvalid_write: "hvalid files \<Longrightarrow> hvalid (snd (write_private_file_atomic a name bs files))"
  by (auto simp: write_private_file_atomic_def Let_def remove_temporary_def split: option.splits)

lemma hvalid_remove_file: "hvalid files \<Longrightarrow> hvalid (snd (remove_file name files))"
  by (auto simp: remove_file_def split: option.splits fs_error.splits)

end
