(* ===== verification/Cookie_Store.thy ===== *)
theory Cookie_Store
  imports Secure_Fs Start_Control Peers Complex_Main
begin

section \<open>Stored cookies\<close>

text \<open>
  \<open>cookie_store.rs\<close> on Unix, and the functions of \<open>main.rs\<close> between it and the executor. A
  floating-point number is a rational or one of the values that are no number of the line. The
  library's work is a record of parameters: SHA-256, the reading of a cookie from a JSON value, and
  the text of a document and its reading. \<open>cs_log\<close> collects the lines written to standard error,
  the latest first.
\<close>

datatype f64 = Finite rat | Infinite | NegInfinite | NaN

definition f64_is_finite :: "f64 \<Rightarrow> bool" where
  "f64_is_finite x = (case x of Finite _ \<Rightarrow> True | _ \<Rightarrow> False)"

fun f64_gt :: "f64 \<Rightarrow> f64 \<Rightarrow> bool" where
  "f64_gt (Finite a) (Finite b) \<longleftrightarrow> a > b"
| "f64_gt NaN _ \<longleftrightarrow> False"
| "f64_gt _ NaN \<longleftrightarrow> False"
| "f64_gt Infinite x \<longleftrightarrow> x \<noteq> Infinite"
| "f64_gt x NegInfinite \<longleftrightarrow> x \<noteq> NegInfinite"
| "f64_gt _ _ \<longleftrightarrow> False"

definition f64_as_u64 :: "f64 \<Rightarrow> nat" where
  "f64_as_u64 x =
     (case x of Finite r \<Rightarrow> if r < 0 then 0 else min (2 ^ 64 - 1) (nat \<lfloor>r\<rfloor>)
              | Infinite \<Rightarrow> 2 ^ 64 - 1 | _ \<Rightarrow> 0)"

subsection \<open>Cookies and documents\<close>

datatype SameSite = Strict | Lax | SsNone

record Cookie =
  ck_name :: string
  ck_value :: string
  ck_domain :: string
  ck_path :: string
  ck_expires :: f64
  ck_http_only :: bool
  ck_secure :: bool
  ck_same_site :: SameSite

definition is_persistent_at :: "Cookie \<Rightarrow> f64 \<Rightarrow> bool" where
  "is_persistent_at c now \<longleftrightarrow>
     ck_name c \<noteq> [] \<and> ck_domain c \<noteq> [] \<and> starts_with (ck_path c) ''/''
     \<and> f64_is_finite (ck_expires c) \<and> f64_gt (ck_expires c) now"

definition STORE_VERSION :: nat where "STORE_VERSION = 1"
definition MAX_COOKIES :: nat where "MAX_COOKIES = 3000"
definition MAX_DOCUMENT_BYTES :: nat where "MAX_DOCUMENT_BYTES = 1024 * 1024"
definition ALL_CREDENTIALS :: string where "ALL_CREDENTIALS = ''*''"
definition STORE_EXTENSION :: string where "STORE_EXTENSION = ''json''"
definition STORE_DIR :: string where "STORE_DIR = ''cookies''"

record StoredCookies =
  sc_version :: nat
  sc_principal :: string
  sc_namespace :: string
  sc_cred_id :: string
  sc_saved_at :: nat
  sc_cookies :: "Cookie list"

definition StoredCookies_matches :: "StoredCookies \<Rightarrow> BrowserKey \<Rightarrow> bool" where
  "StoredCookies_matches d k \<longleftrightarrow>
     sc_version d = STORE_VERSION \<and> sc_principal d = principal k
     \<and> sc_namespace d = namespace k \<and> sc_cred_id d = cred_id k"

definition StoredCookies_key :: "StoredCookies \<Rightarrow> BrowserKey" where
  "StoredCookies_key d = BrowserKey_new (sc_principal d) (sc_namespace d) (sc_cred_id d)"

record cookie_lib =
  cl_sha256 :: "byte list \<Rightarrow> byte list"
  cl_cookie :: "json \<Rightarrow> Cookie option"
  cl_cookie_value :: "Cookie \<Rightarrow> json option"
  cl_text :: "StoredCookies \<Rightarrow> byte list option"
  cl_document :: "byte list \<Rightarrow> StoredCookies option"

definition persistent_cookies :: "cookie_lib \<Rightarrow> json \<Rightarrow> f64 \<Rightarrow> Cookie list option" where
  "persistent_cookies L raw now =
     map_option (\<lambda>es. filter (\<lambda>c. is_persistent_at c now) (List.map_filter (cl_cookie L) es)) (jas_array raw)"

subsection \<open>The policy\<close>

record CookiePolicy =
  by_namespace :: "(string, string list) table"

definition policy_insert :: "string \<Rightarrow> string list \<Rightarrow> CookiePolicy \<Rightarrow> CookiePolicy" where
  "policy_insert n backend_ids p =
     (if hcontains (by_namespace p) n then p
      else p\<lparr>by_namespace := hinsert n backend_ids (by_namespace p)\<rparr>)"

definition policy_is_empty :: "CookiePolicy \<Rightarrow> bool" where
  "policy_is_empty p \<longleftrightarrow> list_all (\<lambda>ids. ids = []) (hvalues (by_namespace p))"

definition policy_persists :: "CookiePolicy \<Rightarrow> string \<Rightarrow> bool" where
  "policy_persists p cid =
     (case split_once cid '':'' of
        None \<Rightarrow> False
      | Some (ns, backend_id) \<Rightarrow>
          (case hget (by_namespace p) ns of
             None \<Rightarrow> False
           | Some ids \<Rightarrow> list_ex (\<lambda>i. i = ALL_CREDENTIALS \<or> i = backend_id) ids))"

subsection \<open>The store\<close>

datatype SaveRejected = NotAnArray | TooManyCookies | TooLarge

datatype SaveError = Rejected SaveRejected | SaveIo fs_error

datatype ForgetTarget = ForgetCredential string | ForgetAll

fun SaveRejected_display :: "SaveRejected \<Rightarrow> string" where
  "SaveRejected_display NotAnArray = ''the executor returned no cookie array''"
| "SaveRejected_display TooManyCookies = ''more than '' @ decimal MAX_COOKIES @ '' cookies''"
| "SaveRejected_display TooLarge = ''the cookies exceed '' @ decimal MAX_DOCUMENT_BYTES @ '' bytes''"

datatype store_line =
    CouldNotRead string fs_error
  | RemovedUnreadable string
  | CouldNotRemove string fs_error
  | NotSaved SaveError

record cookie_dir =
  cs_present :: bool
  cs_files :: dir_files
  cs_listing :: "fs_error option"
  cs_log :: "store_line list"

record CookieStore =
  cs_dir :: string
  cs_policy :: CookiePolicy

definition CookieStore_new :: "string \<Rightarrow> CookiePolicy \<Rightarrow> CookieStore" where
  "CookieStore_new state_dir p = \<lparr>cs_dir = state_dir @ ''/'' @ STORE_DIR, cs_policy = p\<rparr>"

definition CookieStore_persists :: "CookieStore \<Rightarrow> string \<Rightarrow> bool" where
  "CookieStore_persists s cid = policy_persists (cs_policy s) cid"

definition store_file_name :: "cookie_lib \<Rightarrow> BrowserKey \<Rightarrow> string" where
  "store_file_name L k =
     digest_to_hex (cl_sha256 L (as_bytes (principal k) @ [0] @ as_bytes (namespace k) @ [0] @ as_bytes (cred_id k)))
     @ ''.'' @ STORE_EXTENSION"

definition is_store_file_name :: "string \<Rightarrow> bool" where
  "is_store_file_name name =
     (case Option.bind (strip_suffix name STORE_EXTENSION) (\<lambda>stem. strip_suffix stem ''.'') of
        None \<Rightarrow> False
      | Some stem \<Rightarrow> length stem = 64
          \<and> list_all (\<lambda>b. is_ascii_digit b \<or> ((of_char b :: nat) \<ge> 97 \<and> (of_char b :: nat) \<le> 102)) stem)"

definition seal_bytes :: "byte list \<Rightarrow> fs_error + byte list" where
  "seal_bytes plaintext = Inr plaintext"

definition unseal_bytes :: "byte list \<Rightarrow> fs_error + byte list" where
  "unseal_bytes sealed = Inr sealed"

definition decode_document :: "cookie_lib \<Rightarrow> byte list \<Rightarrow> StoredCookies option" where
  "decode_document L bs = (case unseal_bytes bs of Inl _ \<Rightarrow> None | Inr t \<Rightarrow> cl_document L t)"

definition read_document :: "cookie_lib \<Rightarrow> string \<Rightarrow> cookie_dir \<Rightarrow> StoredCookies option" where
  "read_document L name d = (case fs_read name (cs_files d) of Inl _ \<Rightarrow> None | Inr bs \<Rightarrow> decode_document L bs)"

definition remove_if_present :: "string \<Rightarrow> cookie_dir \<Rightarrow> (fs_error + bool) \<times> cookie_dir" where
  "remove_if_present name d =
     (case remove_file name (cs_files d) of
        (Inr _, files) \<Rightarrow> (Inr True, d\<lparr>cs_files := files\<rparr>)
      | (Inl NotFound, files) \<Rightarrow> (Inr False, d\<lparr>cs_files := files\<rparr>)
      | (Inl e, files) \<Rightarrow> (Inl e, d\<lparr>cs_files := files\<rparr>))"

definition store_log :: "store_line \<Rightarrow> cookie_dir \<Rightarrow> cookie_dir" where
  "store_log l d = d\<lparr>cs_log := l # cs_log d\<rparr>"

definition discard_unreadable :: "string \<Rightarrow> cookie_dir \<Rightarrow> cookie_dir" where
  "discard_unreadable name d =
     (case remove_if_present name d of
        (Inr _, d) \<Rightarrow> store_log (RemovedUnreadable name) d
      | (Inl e, d) \<Rightarrow> store_log (CouldNotRemove name e) d)"

definition load_cookies :: "cookie_lib \<Rightarrow> BrowserKey \<Rightarrow> f64 \<Rightarrow> cookie_dir \<Rightarrow> Cookie list option \<times> cookie_dir" where
  "load_cookies L k now d =
     (let name = store_file_name L k in
      case fs_read name (cs_files d) of
        Inl NotFound \<Rightarrow> (None, d)
      | Inl e \<Rightarrow> (None, store_log (CouldNotRead name e) d)
      | Inr bs \<Rightarrow>
          (case decode_document L bs of
             Some doc \<Rightarrow>
               if StoredCookies_matches doc k then
                 (let cookies = filter (\<lambda>c. is_persistent_at c now) (sc_cookies doc) in
                  (if cookies \<noteq> [] then Some cookies else None, d))
               else (None, discard_unreadable name d)
           | None \<Rightarrow> (None, discard_unreadable name d)))"

definition ensure_dir :: "CookieStore \<Rightarrow> dir_answers \<Rightarrow> cookie_dir \<Rightarrow> (fs_error + unit) \<times> cookie_dir" where
  "ensure_dir s a d =
     (case ensure_private_dir (cs_dir s) a of
        Inl e \<Rightarrow> (Inl e, d)
      | Inr _ \<Rightarrow> (Inr (), d\<lparr>cs_present := True\<rparr>))"

definition save_document :: "BrowserKey \<Rightarrow> Cookie list \<Rightarrow> f64 \<Rightarrow> StoredCookies" where
  "save_document k cookies now =
     \<lparr>sc_version = STORE_VERSION, sc_principal = principal k, sc_namespace = namespace k,
      sc_cred_id = cred_id k, sc_saved_at = f64_as_u64 now, sc_cookies = cookies\<rparr>"

definition write_document ::
  "CookieStore \<Rightarrow> dir_answers \<Rightarrow> write_answers \<Rightarrow> string \<Rightarrow> byte list \<Rightarrow> cookie_dir
     \<Rightarrow> (SaveError + unit) \<times> cookie_dir" where
  "write_document s da wa name sealed d =
     (case ensure_dir s da d of
        (Inl e, d) \<Rightarrow> (Inl (SaveIo e), d)
      | (Inr _, d) \<Rightarrow>
          (case write_private_file_atomic wa name sealed (cs_files d) of
             (Inl e, files) \<Rightarrow> (Inl (SaveIo e), d\<lparr>cs_files := files\<rparr>)
           | (Inr _, files) \<Rightarrow> (Inr (), d\<lparr>cs_files := files\<rparr>)))"

definition save_cookie_array ::
  "cookie_lib \<Rightarrow> CookieStore \<Rightarrow> dir_answers \<Rightarrow> write_answers \<Rightarrow> BrowserKey \<Rightarrow> json \<Rightarrow> f64 \<Rightarrow> cookie_dir
     \<Rightarrow> (SaveError + unit) \<times> cookie_dir" where
  "save_cookie_array L s da wa k raw now d =
     (case persistent_cookies L raw now of
        None \<Rightarrow> (Inl (Rejected NotAnArray), d)
      | Some cookies \<Rightarrow>
          if length cookies > MAX_COOKIES then (Inl (Rejected TooManyCookies), d)
          else
            (case cl_text L (save_document k cookies now) of
               None \<Rightarrow> (Inl (SaveIo (OtherError ''cookie serialization failed'')), d)
             | Some plaintext \<Rightarrow>
                 if length plaintext > MAX_DOCUMENT_BYTES then (Inl (Rejected TooLarge), d)
                 else
                   (case seal_bytes plaintext of
                      Inl e \<Rightarrow> (Inl (SaveIo e), d)
                    | Inr sealed \<Rightarrow> write_document s da wa (store_file_name L k) sealed d)))"

fun store_names :: "dir_files \<Rightarrow> fs_error + string list" where
  "store_names [] = Inr []"
| "store_names ((name, e) # es) =
     (case fe_is_file e of
        Inl err \<Rightarrow> Inl err
      | Inr is_file \<Rightarrow>
          (case store_names es of
             Inl err \<Rightarrow> Inl err
           | Inr ns \<Rightarrow>
               Inr (if is_file \<and> is_store_file_name (from_utf8_lossy name) then name # ns else ns)))"

definition read_dir :: "cookie_dir \<Rightarrow> fs_error + dir_files" where
  "read_dir d =
     (case cs_listing d of
        Some e \<Rightarrow> Inl e
      | None \<Rightarrow> if cs_present d then Inr (cs_files d) else Inl NotFound)"

definition store_files :: "cookie_dir \<Rightarrow> fs_error + string list" where
  "store_files d =
     (case read_dir d of
        Inl NotFound \<Rightarrow> Inr []
      | Inl e \<Rightarrow> Inl e
      | Inr files \<Rightarrow> store_names files)"

definition forget_matches :: "cookie_lib \<Rightarrow> ForgetTarget \<Rightarrow> string \<Rightarrow> cookie_dir \<Rightarrow> bool" where
  "forget_matches L tgt name d =
     (case tgt of
        ForgetAll \<Rightarrow> True
      | ForgetCredential cid \<Rightarrow>
          (case read_document L name d of None \<Rightarrow> False | Some doc \<Rightarrow> sc_cred_id doc = cid))"

fun forget_files ::
  "cookie_lib \<Rightarrow> ForgetTarget \<Rightarrow> string list \<Rightarrow> nat \<Rightarrow> cookie_dir \<Rightarrow> (fs_error + nat) \<times> cookie_dir" where
  "forget_files L tgt [] removed d = (Inr removed, d)"
| "forget_files L tgt (name # names) removed d =
     (if forget_matches L tgt name d then
        (case remove_if_present name d of
           (Inl e, d) \<Rightarrow> (Inl e, d)
         | (Inr True, d) \<Rightarrow> forget_files L tgt names (removed + 1) d
         | (Inr False, d) \<Rightarrow> forget_files L tgt names removed d)
      else forget_files L tgt names removed d)"

definition forget_cookies :: "cookie_lib \<Rightarrow> ForgetTarget \<Rightarrow> cookie_dir \<Rightarrow> (fs_error + nat) \<times> cookie_dir" where
  "forget_cookies L tgt d =
     (case store_files d of
        Inl e \<Rightarrow> (Inl e, d)
      | Inr names \<Rightarrow> forget_files L tgt names 0 d)"

fun sweep_files ::
  "cookie_lib \<Rightarrow> CookiePolicy \<Rightarrow> dir_files \<Rightarrow> cookie_dir \<Rightarrow> (fs_error + unit) \<times> cookie_dir" where
  "sweep_files L p [] d = (Inr (), d)"
| "sweep_files L p ((name, e) # es) d =
     (case fe_is_file e of
        Inl err \<Rightarrow> (Inl err, d)
      | Inr False \<Rightarrow> sweep_files L p es d
      | Inr True \<Rightarrow>
          (let lossy = from_utf8_lossy name in
           if starts_with lossy ''.'' then
             (case remove_if_present name d of
                (Inl err, d) \<Rightarrow> (Inl err, d)
              | (Inr _, d) \<Rightarrow> sweep_files L p es d)
           else if \<not> is_store_file_name lossy then sweep_files L p es d
           else
             (case read_document L name d of
                Some doc \<Rightarrow>
                  if policy_persists p (sc_cred_id doc) \<and> store_file_name L (StoredCookies_key doc) = name
                  then sweep_files L p es d
                  else (case remove_if_present name d of
                          (Inl err, d) \<Rightarrow> (Inl err, d)
                        | (Inr _, d) \<Rightarrow> sweep_files L p es d)
              | None \<Rightarrow> sweep_files L p es (discard_unreadable name d))))"

definition sweep_cookies :: "cookie_lib \<Rightarrow> CookieStore \<Rightarrow> cookie_dir \<Rightarrow> (fs_error + unit) \<times> cookie_dir" where
  "sweep_cookies L s d =
     (case read_dir d of
        Inl e \<Rightarrow> (Inl e, d)
      | Inr files \<Rightarrow> sweep_files L (cs_policy s) files d)"

definition prepare_store ::
  "cookie_lib \<Rightarrow> CookieStore \<Rightarrow> dir_answers \<Rightarrow> cookie_dir \<Rightarrow> (fs_error + unit) \<times> cookie_dir" where
  "prepare_store L s da d =
     (if policy_is_empty (cs_policy s) \<and> \<not> cs_present d then (Inr (), d)
      else case ensure_dir s da d of
             (Inl e, d) \<Rightarrow> (Inl e, d)
           | (Inr _, d) \<Rightarrow> sweep_cookies L s d)"

subsection \<open>Between the store and the executor\<close>

definition save_cookies ::
  "cookie_lib \<Rightarrow> CookieStore \<Rightarrow> dir_answers \<Rightarrow> write_answers \<Rightarrow> BrowserKey \<Rightarrow> json \<Rightarrow> f64 \<Rightarrow> cookie_dir
     \<Rightarrow> bool \<times> cookie_dir" where
  "save_cookies L s da wa k cookies now d =
     (case save_cookie_array L s da wa k cookies now d of
        (Inr _, d) \<Rightarrow> (True, d)
      | (Inl e, d) \<Rightarrow> (False, store_log (NotSaved e) d))"

record LoginCookies =
  lc_key :: BrowserKey
  lc_restored :: "Cookie list option"

definition LoginCookies_load ::
  "cookie_lib \<Rightarrow> CookieStore \<Rightarrow> BrowserKey \<Rightarrow> f64 \<Rightarrow> cookie_dir \<Rightarrow> LoginCookies option \<times> cookie_dir" where
  "LoginCookies_load L s k now d =
     (if \<not> CookieStore_persists s (cred_id k) then (None, d)
      else case load_cookies L k now d of
             (restored, d) \<Rightarrow> (Some \<lparr>lc_key = k, lc_restored = restored\<rparr>, d))"

definition wire_cookies :: "cookie_lib \<Rightarrow> LoginCookies \<Rightarrow> json list option" where
  "wire_cookies L lc = map_option (List.map_filter (cl_cookie_value L)) (lc_restored lc)"

definition LoginCookies_finish ::
  "cookie_lib \<Rightarrow> CookieStore \<Rightarrow> dir_answers \<Rightarrow> write_answers \<Rightarrow> f64 \<Rightarrow> LoginCookies \<Rightarrow> ReturnedCookies \<Rightarrow> cookie_dir
     \<Rightarrow> CookieAudit \<times> cookie_dir" where
  "LoginCookies_finish L s da wa now lc returned d =
     (CookieAudit_login (lc_restored lc \<noteq> None) (rk_steps_skipped returned),
      case rk_cookies returned of None \<Rightarrow> d | Some cookies \<Rightarrow> snd (save_cookies L s da wa (lc_key lc) cookies now d))"

text \<open>The reply of the executor is what \<open>executor_request\<close> returned, \<open>None\<close> for an error or the timeout.\<close>

definition executor_export_cookies :: "json option \<Rightarrow> json option" where
  "executor_export_cookies reply =
     (case reply of
        None \<Rightarrow> None
      | Some response \<Rightarrow>
          if jget_bool response ''ok'' \<noteq> Some True then None
          else (case jget response ''cookies'' of
                  Some v \<Rightarrow> if jas_array v \<noteq> None then Some v else None
                | None \<Rightarrow> None))"

definition export_browser_cookies ::
  "cookie_lib \<Rightarrow> CookieStore \<Rightarrow> dir_answers \<Rightarrow> write_answers \<Rightarrow> f64 \<Rightarrow> BrowserKey \<Rightarrow> json option \<Rightarrow> cookie_dir
     \<Rightarrow> bool \<times> cookie_dir" where
  "export_browser_cookies L s da wa now k reply d =
     (case executor_export_cookies reply of
        Some cookies \<Rightarrow> save_cookies L s da wa k cookies now d
      | None \<Rightarrow> (False, d))"

subsection \<open>Names\<close>

lemma hex_char_range: "c \<in> set (hex_byte b) \<Longrightarrow> is_ascii_digit c \<or> ((of_char c :: nat) \<ge> 97 \<and> (of_char c :: nat) \<le> 102)"
proof -
  have all: "\<forall>k<16. is_ascii_digit (''0123456789abcdef'' ! k) \<or> ((of_char (''0123456789abcdef'' ! k) :: nat) \<ge> 97
      \<and> (of_char (''0123456789abcdef'' ! k) :: nat) \<le> 102)"
    by (simp add: is_ascii_digit_def All_less_Suc numeral_eq_Suc)
  assume "c \<in> set (hex_byte b)"
  then consider "c = ''0123456789abcdef'' ! (unat b div 16)" | "c = ''0123456789abcdef'' ! (unat b mod 16)"
    by (auto simp: hex_byte_def)
  then show ?thesis
  proof cases
    case 1
    show ?thesis unfolding 1 using all nibble_less by blast
  next
    case 2
    show ?thesis unfolding 2 using all by (rule allE[of _ "unat b mod 16"]) simp
  qed
qed

lemma length_digest_to_hex: "length (digest_to_hex ds) = 2 * length ds"
  by (induction ds) (simp_all add: digest_to_hex_def hex_byte_def)

lemma is_utf8_ascii: "list_all (\<lambda>c. (of_char c :: nat) < 128) s \<Longrightarrow> is_utf8 s"
  by (induction s) (simp_all add: utf8_first_def)

lemma hex_text_range:
  "list_all (\<lambda>c. is_ascii_digit c \<or> ((of_char c :: nat) \<ge> 97 \<and> (of_char c :: nat) \<le> 102)) (digest_to_hex ds)"
  unfolding digest_to_hex_def list_all_iff using hex_char_range by auto

lemma strip_suffix_append: "strip_suffix (s @ t) t = Some s"
  by simp

lemma store_file_name_is_store:
  assumes "\<And>bs. length (cl_sha256 L bs) = 32"
  shows "is_store_file_name (store_file_name L k)"
  unfolding is_store_file_name_def store_file_name_def append_assoc[symmetric] strip_suffix_append
  by (simp only: Option.bind.bind_lunit strip_suffix_append option.case length_digest_to_hex assms hex_text_range) simp

lemma store_file_name_ascii: "from_utf8_lossy (store_file_name L k) = store_file_name L k"
proof (rule from_utf8_lossy_id, rule is_utf8_ascii)
  have "list_all (\<lambda>c. (of_char c :: nat) < 128) (digest_to_hex ds)" for ds
    using hex_text_range[of ds] by (auto simp: list_all_iff is_ascii_digit_def)
  then show "list_all (\<lambda>c. (of_char c :: nat) < 128) (store_file_name L k)"
    by (simp add: store_file_name_def STORE_EXTENSION_def)
qed

lemma store_file_name_visible:
  assumes "\<And>bs. length (cl_sha256 L bs) = 32"
  shows "\<not> starts_with (store_file_name L k) ''.''"
proof
  let ?h = "digest_to_hex (cl_sha256 L (as_bytes (principal k) @ [0] @ as_bytes (namespace k) @ [0] @ as_bytes (cred_id k)))"
  assume "starts_with (store_file_name L k) ''.''"
  moreover have "?h \<noteq> []" using length_digest_to_hex[of "cl_sha256 L _"] assms by (metis length_0_conv mult_is_0 zero_neq_numeral)
  ultimately have "CHR ''.'' \<in> set ?h" by (auto simp: starts_with_iff store_file_name_def neq_Nil_conv)
  moreover have "\<forall>c \<in> set ?h. is_ascii_digit c \<or> ((of_char c :: nat) \<ge> 97 \<and> (of_char c :: nat) \<le> 102)"
    using hex_text_range unfolding list_all_iff by blast
  ultimately show False by (auto simp: is_ascii_digit_def dest!: bspec)
qed

subsection \<open>What is stored\<close>

text \<open>
  \<open>stored L d\<close> is the store as its clients see it: for each unit the document that \<open>load\<close> would
  accept for it.
\<close>

definition doc_of :: "cookie_lib \<Rightarrow> file_entry option \<Rightarrow> StoredCookies option" where
  "doc_of L f = (case f of None \<Rightarrow> None | Some e \<Rightarrow> (case fe_bytes e of Inl _ \<Rightarrow> None | Inr bs \<Rightarrow> decode_document L bs))"

definition stored :: "cookie_lib \<Rightarrow> cookie_dir \<Rightarrow> BrowserKey \<Rightarrow> StoredCookies option" where
  "stored L d k =
     (case doc_of L (hget (cs_files d) (store_file_name L k)) of
        None \<Rightarrow> None | Some doc \<Rightarrow> if StoredCookies_matches doc k then Some doc else None)"

definition keeps_file :: "cookie_lib \<Rightarrow> CookiePolicy \<Rightarrow> string \<Rightarrow> file_entry option \<Rightarrow> bool" where
  "keeps_file L p name f \<longleftrightarrow>
     (\<exists>doc. doc_of L f = Some doc \<and> policy_persists p (sc_cred_id doc) \<and> store_file_name L (StoredCookies_key doc) = name)"

definition removed_only :: "(string \<Rightarrow> file_entry option \<Rightarrow> bool) \<Rightarrow> cookie_dir \<Rightarrow> cookie_dir \<Rightarrow> bool" where
  "removed_only Q d d' \<longleftrightarrow>
     (\<forall>n. hget (cs_files d') n = hget (cs_files d) n
          \<or> (hget (cs_files d') n = None \<and> Q n (hget (cs_files d) n)))
     \<and> cs_present d' = cs_present d \<and> (hvalid (cs_files d) \<longrightarrow> hvalid (cs_files d'))"

lemma read_document_doc_of: "read_document L n d = doc_of L (hget (cs_files d) n)"
  by (simp add: read_document_def doc_of_def fs_read_def split: option.splits)

lemma removed_only_refl [intro, simp]: "removed_only Q d d"
  by (simp add: removed_only_def)

lemma removed_only_trans [trans]: "removed_only Q d d1 \<Longrightarrow> removed_only Q d1 d2 \<Longrightarrow> removed_only Q d d2"
  unfolding removed_only_def by metis

lemma removed_only_get:
  "removed_only Q d d' \<Longrightarrow> hget (cs_files d') n = hget (cs_files d) n \<or> hget (cs_files d') n = None"
  by (auto simp: removed_only_def)

lemma remove_if_present_get:
  assumes "remove_if_present n d = (r, d')"
  shows "Q n (hget (cs_files d) n) \<Longrightarrow> removed_only Q d d'" "r = Inr b \<Longrightarrow> hget (cs_files d') n = None"
  using assms
  by (auto simp: remove_if_present_def remove_file_def removed_only_def
      split: option.splits fs_error.splits sum.splits prod.splits if_split_asm)

lemma discard_unreadable_get: "Q n (hget (cs_files d) n) \<Longrightarrow> removed_only Q d (discard_unreadable n d)"
  using remove_if_present_get(1)[of n d _ _ Q]
  by (cases "remove_if_present n d") (auto simp: discard_unreadable_def store_log_def removed_only_def split: sum.splits)

lemma stored_doc:
  "stored L d k = Some doc \<Longrightarrow> doc_of L (hget (cs_files d) (store_file_name L k)) = Some doc
     \<and> StoredCookies_matches doc k \<and> StoredCookies_key doc = k \<and> sc_cred_id doc = cred_id k"
  by (auto simp: stored_def StoredCookies_matches_def StoredCookies_key_def BrowserKey_new_def
      split: option.splits if_splits)

lemma stored_cong:
  "hget (cs_files d') (store_file_name L k) = hget (cs_files d) (store_file_name L k) \<Longrightarrow> stored L d' k = stored L d k"
  by (simp add: stored_def)

lemma stored_None: "hget (cs_files d) (store_file_name L k) = None \<Longrightarrow> stored L d k = None"
  by (simp add: stored_def doc_of_def)

lemma removed_only_stored: "removed_only Q d d' \<Longrightarrow> stored L d' \<subseteq>\<^sub>m stored L d"
  unfolding map_le_def by (metis domIff removed_only_get stored_None stored_cong)

subsection \<open>Forgetting and sweeping\<close>

definition forgets :: "cookie_lib \<Rightarrow> ForgetTarget \<Rightarrow> string \<Rightarrow> file_entry option \<Rightarrow> bool" where
  "forgets L tgt n f \<longleftrightarrow>
     (case tgt of ForgetAll \<Rightarrow> True | ForgetCredential c \<Rightarrow> (\<exists>doc. doc_of L f = Some doc \<and> sc_cred_id doc = c))"

lemma forget_matches_iff: "forget_matches L tgt n d = forgets L tgt n (hget (cs_files d) n)"
  by (auto simp: forget_matches_def forgets_def read_document_doc_of split: ForgetTarget.splits option.splits)

lemma forget_files_step:
  assumes "forget_files L tgt (m # names) r d = (res, d')"
  obtains e where "res = Inl e" "removed_only (forgets L tgt) d d'"
  | r1 d1 where "removed_only (forgets L tgt) d d1"
      "forgets L tgt m (hget (cs_files d) m) \<Longrightarrow> hget (cs_files d1) m = None"
      "forget_files L tgt names r1 d1 = (res, d')"
proof (cases "forget_matches L tgt m d")
  case True
  obtain res1 d1 where r: "remove_if_present m d = (res1, d1)" by fastforce
  have "removed_only (forgets L tgt) d d1"
    using remove_if_present_get(1)[OF r, of "forgets L tgt"] True by (simp add: forget_matches_iff)
  then show ?thesis
    using that assms True r remove_if_present_get(2)[OF r] by (auto split: sum.splits bool.splits)
next
  case False
  then show ?thesis using that(2)[of d r] assms by (simp add: forget_matches_iff)
qed

lemma forget_files_get:
  assumes "forget_files L tgt names r d = (res, d')"
  shows "removed_only (forgets L tgt) d d' \<and>
     (\<forall>u n. res = Inr u \<longrightarrow> n \<in> set names \<longrightarrow> forgets L tgt n (hget (cs_files d) n) \<longrightarrow> hget (cs_files d') n = None)"
  using assms
proof (induction names arbitrary: r d)
  case (Cons m names)
  from Cons.prems show ?case
  proof (cases rule: forget_files_step)
    case (2 r1 d1)
    note ih = Cons.IH[OF 2(3)]
    have "removed_only (forgets L tgt) d d'" using 2(1) ih removed_only_trans by blast
    moreover have "hget (cs_files d') n = None"
      if "res = Inr u" "n \<in> set (m # names)" "forgets L tgt n (hget (cs_files d) n)" for u n
      using that 2(1,2) ih removed_only_get[OF 2(1), of n] removed_only_get[of _ d1 d' n]
      by (cases "n = m") (metis set_ConsD)+
    ultimately show ?thesis by blast
  qed auto
qed simp

definition sweeps :: "cookie_lib \<Rightarrow> CookiePolicy \<Rightarrow> string \<Rightarrow> file_entry option \<Rightarrow> bool" where
  "sweeps L p n f \<longleftrightarrow> starts_with (from_utf8_lossy n) ''.'' \<or> \<not> keeps_file L p n f"

lemma sweep_files_step:
  assumes "sweep_files L p ((m, e) # es) d = (res, d')"
  obtains err where "res = Inl err" "removed_only (sweeps L p) d d'"
  | d1 where "removed_only (sweeps L p) d d1"
      "\<lbrakk>fe_is_file e = Inr True; is_store_file_name (from_utf8_lossy m); sweeps L p m (hget (cs_files d) m);
        doc_of L (hget (cs_files d) m) \<noteq> None\<rbrakk> \<Longrightarrow> hget (cs_files d1) m = None"
      "sweep_files L p es d1 = (res, d')"
proof (cases "fe_is_file e = Inr True \<and> (starts_with (from_utf8_lossy m) ''.'' \<or> is_store_file_name (from_utf8_lossy m))
    \<and> sweeps L p m (hget (cs_files d) m)")
  case True
  obtain res1 d1 where r: "remove_if_present m d = (res1, d1)" by fastforce
  have ro: "removed_only (sweeps L p) d d1" "removed_only (sweeps L p) d (discard_unreadable m d)"
    using remove_if_present_get(1)[OF r, of "sweeps L p"] discard_unreadable_get[of "sweeps L p"] True by simp_all
  show ?thesis
  proof (cases "starts_with (from_utf8_lossy m) ''.'' \<or> doc_of L (hget (cs_files d) m) \<noteq> None")
    case rm: True
    then have "(case res1 of Inl err \<Rightarrow> (Inl err, d1) | Inr _ \<Rightarrow> sweep_files L p es d1) = (res, d')"
      using assms True r
      by (auto simp: Let_def read_document_doc_of sweeps_def keeps_file_def split: sum.splits if_splits)
    then show ?thesis using that(1) that(2)[of d1] ro(1) remove_if_present_get(2)[OF r] by (cases res1) auto
  next
    case False
    then have "sweep_files L p es (discard_unreadable m d) = (res, d')"
      using assms True by (auto simp: Let_def read_document_doc_of)
    then show ?thesis using that(2)[of "discard_unreadable m d"] ro(2) False by blast
  qed
next
  case False
  then have "(\<exists>err. res = Inl err \<and> d' = d) \<or> sweep_files L p es d = (res, d')"
    using assms
    by (auto simp: Let_def read_document_doc_of sweeps_def keeps_file_def split: sum.splits bool.splits if_splits option.splits)
  then show ?thesis using that(1) that(2)[of d] False by blast
qed

lemma sweep_files_get:
  assumes "sweep_files L p es d = (res, d')"
  shows "removed_only (sweeps L p) d d' \<and>
     (\<forall>u n e. res = Inr u \<longrightarrow> (n, e) \<in> set es \<longrightarrow> fe_is_file e = Inr True \<longrightarrow> is_store_file_name (from_utf8_lossy n)
        \<longrightarrow> sweeps L p n (hget (cs_files d) n) \<longrightarrow> doc_of L (hget (cs_files d') n) = None)"
  using assms
proof (induction es arbitrary: d)
  case (Cons me es)
  obtain m e where me: "me = (m, e)" by fastforce
  from Cons.prems[unfolded me] show ?case
  proof (cases rule: sweep_files_step)
    case (2 d1)
    note ih = Cons.IH[OF 2(3)]
    have ro: "removed_only (sweeps L p) d d'" using 2(1) ih removed_only_trans by blast
    moreover have "doc_of L (hget (cs_files d') n) = None"
      if "res = Inr u" "(n, e') \<in> set (me # es)" "fe_is_file e' = Inr True" "is_store_file_name (from_utf8_lossy n)"
        "sweeps L p n (hget (cs_files d) n)" for u n e'
    proof (cases "doc_of L (hget (cs_files d) n) = None \<or> hget (cs_files d1) n = None")
      case True
      then show ?thesis
        using removed_only_get[OF ro, of n] removed_only_get[OF conjunct1[OF ih], of n] by (auto simp: doc_of_def)
    next
      case False
      then have "(n, e') \<in> set es" "hget (cs_files d1) n = hget (cs_files d) n"
        using that me 2(2) removed_only_get[OF 2(1), of n] by auto
      then show ?thesis using ih that by metis
    qed
    ultimately show ?thesis by blast
  qed auto
qed simp


subsection \<open>The store implements a map\<close>

text \<open>
  The client's view: a save replaces the document of its unit by the persistent cookies of the
  array, loading changes nothing, forgetting removes the units of a credential or all, preparing
  keeps the units the policy names. \<open>reread\<close> is a document as it reads back: the reading of a
  number from its decimal text may round, and \<open>cl_reread\<close> is a cookie after it.
\<close>

datatype cookie_op =
    OpSave dir_answers write_answers BrowserKey json f64
  | OpLoad BrowserKey f64
  | OpForget ForgetTarget
  | OpPrepare dir_answers

definition is_ok :: "('e + 'a) \<Rightarrow> bool" where
  "is_ok r = (case r of Inl _ \<Rightarrow> False | Inr _ \<Rightarrow> True)"

fun cookie_step :: "cookie_lib \<Rightarrow> CookieStore \<Rightarrow> cookie_op \<Rightarrow> cookie_dir \<Rightarrow> bool \<times> cookie_dir" where
  "cookie_step L s (OpSave da wa k raw now) d = map_prod is_ok id (save_cookie_array L s da wa k raw now d)"
| "cookie_step L s (OpLoad k now) d = (True, snd (load_cookies L k now d))"
| "cookie_step L s (OpForget tgt) d = map_prod is_ok id (forget_cookies L tgt d)"
| "cookie_step L s (OpPrepare da) d = map_prod is_ok id (prepare_store L s da d)"

definition reread :: "(Cookie \<Rightarrow> Cookie) \<Rightarrow> StoredCookies \<Rightarrow> StoredCookies" where
  "reread f doc = doc\<lparr>sc_cookies := map f (sc_cookies doc)\<rparr>"

fun cookie_spec ::
  "(Cookie \<Rightarrow> Cookie) \<Rightarrow> cookie_lib \<Rightarrow> CookieStore \<Rightarrow> cookie_op \<Rightarrow> (BrowserKey \<Rightarrow> StoredCookies option)
     \<Rightarrow> BrowserKey \<Rightarrow> StoredCookies option" where
  "cookie_spec f L s (OpSave da wa k raw now) m =
     (case persistent_cookies L raw now of
        None \<Rightarrow> m | Some cs \<Rightarrow> m(k \<mapsto> reread f (save_document k cs now)))"
| "cookie_spec f L s (OpLoad k now) m = m"
| "cookie_spec f L s (OpForget ForgetAll) m = Map.empty"
| "cookie_spec f L s (OpForget (ForgetCredential c)) m = m |` {k. cred_id k \<noteq> c}"
| "cookie_spec f L s (OpPrepare da) m = m |` {k. policy_persists (cs_policy s) (cred_id k)}"

fun op_units :: "cookie_op \<Rightarrow> BrowserKey set" where
  "op_units (OpSave da wa k raw now) = {k}"
| "op_units (OpLoad k now) = {k}"
| "op_units _ = {}"

text \<open>
  What is relied on: SHA-256 gives 32 bytes and does not collide on the units in use, and a
  document reads back as the one that was written, up to the rounding of numbers.
\<close>

definition lib_laws :: "(Cookie \<Rightarrow> Cookie) \<Rightarrow> cookie_lib \<Rightarrow> BrowserKey set \<Rightarrow> bool" where
  "lib_laws f L K \<longleftrightarrow>
     (\<forall>bs. length (cl_sha256 L bs) = 32) \<and> inj_on (store_file_name L) K
     \<and> (\<forall>doc t. cl_text L doc = Some t \<longrightarrow> cl_document L t = Some (reread f doc))"

text \<open>
  The directory: a table, empty where there is none; what has the name of a store file is a regular
  file; the units with a document are among those in use.
\<close>

definition cookie_dir_inv :: "cookie_lib \<Rightarrow> BrowserKey set \<Rightarrow> cookie_dir \<Rightarrow> bool" where
  "cookie_dir_inv L K d \<longleftrightarrow>
     hvalid (cs_files d) \<and> (\<not> cs_present d \<longrightarrow> cs_files d = []) \<and> cs_listing d \<noteq> Some NotFound
     \<and> (\<forall>n e. hget (cs_files d) n = Some e \<longrightarrow> is_store_file_name (from_utf8_lossy n) \<longrightarrow> fe_is_file e = Inr True)
     \<and> dom (stored L d) \<subseteq> K"

lemma removed_only_inv:
  assumes "removed_only Q d d'" "cookie_dir_inv L K d" "cs_listing d' = cs_listing d"
  shows "cookie_dir_inv L K d'"
proof -
  have "dom (stored L d') \<subseteq> K"
    using removed_only_stored[OF assms(1), of L] assms(2) unfolding cookie_dir_inv_def by (meson map_le_implies_dom_le subset_trans)
  moreover have "cs_files d' = []" if "\<not> cs_present d'"
    using that assms(1,2) removed_only_get[OF assms(1)] unfolding cookie_dir_inv_def removed_only_def table_eq_Nil_iff
    by (metis)
  ultimately show ?thesis
    using assms unfolding cookie_dir_inv_def removed_only_def by (metis option.distinct(1))
qed

lemma listing_kept:
  "cs_listing (snd (remove_if_present n d)) = cs_listing d" "cs_listing (discard_unreadable n d) = cs_listing d"
  by (auto simp: remove_if_present_def discard_unreadable_def store_log_def split: prod.splits sum.splits fs_error.splits)

lemma listing_kept_pair: "remove_if_present n d = (r, d') \<Longrightarrow> cs_listing d' = cs_listing d"
  using listing_kept(1)[of n d] by simp

lemma forget_files_listing: "forget_files L tgt names r d = (res, d') \<Longrightarrow> cs_listing d' = cs_listing d"
  by (induction L tgt names r d rule: forget_files.induct)
    (auto split: if_splits prod.splits sum.splits bool.splits dest!: listing_kept_pair)

lemma sweep_files_listing: "sweep_files L p es d = (res, d') \<Longrightarrow> cs_listing d' = cs_listing d"
proof (induction es arbitrary: d)
  case (Cons me es)
  obtain m e where me: "me = (m, e)" by fastforce
  show ?case
    using Cons.prems Cons.IH listing_kept_pair[of m d] listing_kept(2)[of m d]
    by (auto simp: me Let_def split: if_splits prod.splits sum.splits bool.splits option.splits)
qed simp

lemma store_names_set:
  "store_names es = Inr ns \<Longrightarrow>
     set ns = {n. \<exists>e. (n, e) \<in> set es \<and> fe_is_file e = Inr True \<and> is_store_file_name (from_utf8_lossy n)}"
proof (induction es arbitrary: ns)
  case (Cons ne es)
  obtain n e where ne: "ne = (n, e)" by fastforce
  from Cons.prems obtain b ms where "fe_is_file e = Inr b" "store_names es = Inr ms"
      "ns = (if b \<and> is_store_file_name (from_utf8_lossy n) then n # ms else ms)"
    by (auto simp: ne split: sum.splits)
  then show ?case using Cons.IH ne by auto
qed simp


lemma unit_file:
  assumes "cookie_dir_inv L K d" "\<And>bs. length (cl_sha256 L bs) = 32" "stored L d k \<noteq> None"
  obtains e where "(store_file_name L k, e) \<in> set (cs_files d)" "fe_is_file e = Inr True"
    "is_store_file_name (from_utf8_lossy (store_file_name L k))"
proof -
  from assms(3) obtain e where e: "hget (cs_files d) (store_file_name L k) = Some e"
    using stored_None[of d L k] by fastforce
  moreover have st: "is_store_file_name (from_utf8_lossy (store_file_name L k))"
    using store_file_name_is_store[OF assms(2)] by (simp add: store_file_name_ascii)
  ultimately show ?thesis using that assms(1) hget_mem[OF e] unfolding cookie_dir_inv_def by blast
qed

lemma forget_run:
  assumes "forget_cookies L tgt d = (res, d')"
  shows "removed_only (forgets L tgt) d d'" "cs_listing d' = cs_listing d"
  using assms forget_files_get forget_files_listing
  by (auto simp: forget_cookies_def split: sum.splits)

lemma forget_done:
  assumes inv: "cookie_dir_inv L K d" and len: "\<And>bs. length (cl_sha256 L bs) = 32"
    and run: "forget_cookies L tgt d = (Inr c, d')"
  shows "stored L d' = cookie_spec f L s (OpForget tgt) (stored L d)"
proof
  fix k
  let ?n = "store_file_name L k"
  from run obtain names where st: "store_files d = Inr names" and fg: "forget_files L tgt names 0 d = (Inr c, d')"
    by (auto simp: forget_cookies_def split: sum.splits)
  note get = forget_files_get[OF fg]
  have gone: "stored L d' k = None" if some: "stored L d k \<noteq> None" and m: "forgets L tgt ?n (hget (cs_files d) ?n)"
  proof -
    obtain e where e: "(?n, e) \<in> set (cs_files d)" "fe_is_file e = Inr True" "is_store_file_name (from_utf8_lossy ?n)"
      using unit_file[OF inv len some] by blast
    then have "store_names (cs_files d) = Inr names"
      using st inv by (auto simp: store_files_def read_dir_def cookie_dir_inv_def split: option.splits if_splits fs_error.splits)
    then have "?n \<in> set names" using store_names_set e by blast
    then show ?thesis using get m stored_None by blast
  qed
  have kept: "stored L d' k = stored L d k" if "\<not> forgets L tgt ?n (hget (cs_files d) ?n)"
    using conjunct1[OF get] that stored_cong unfolding removed_only_def by blast
  have none: "stored L d' k = None" if "stored L d k = None"
    using removed_only_get[OF conjunct1[OF get], of ?n] that stored_None stored_cong by metis
  show "stored L d' k = cookie_spec f L s (OpForget tgt) (stored L d) k"
  proof (cases "stored L d k")
    case None
    then show ?thesis using none by (cases tgt) (auto simp: restrict_map_def)
  next
    case (Some doc)
    then show ?thesis
      using gone kept stored_doc[OF Some] by (cases tgt) (auto simp: restrict_map_def forgets_def)
  qed
qed

lemma ensure_dir_same:
  assumes "ensure_dir s da d = (r, d1)"
  shows "cs_files d1 = cs_files d" "cs_listing d1 = cs_listing d" "stored L d1 = stored L d" "cookie_dir_inv L K d \<Longrightarrow> cookie_dir_inv L K d1"
    "r = Inr u \<Longrightarrow> cs_present d1"
proof -
  show f: "cs_files d1 = cs_files d" and "cs_listing d1 = cs_listing d"  "r = Inr u \<Longrightarrow> cs_present d1"
    using assms by (auto simp: ensure_dir_def split: sum.splits)
  moreover show s: "stored L d1 = stored L d" by (intro ext stored_cong) (simp add: f)
  moreover have "cs_present d \<Longrightarrow> cs_present d1"
    using assms by (auto simp: ensure_dir_def split: sum.splits)
  ultimately show "cookie_dir_inv L K d \<Longrightarrow> cookie_dir_inv L K d1"
    unfolding cookie_dir_inv_def by auto
qed

lemma sweep_run:
  assumes "sweep_cookies L s d = (res, d')"
  shows "removed_only (sweeps L (cs_policy s)) d d'" "cs_listing d' = cs_listing d"
  using assms sweep_files_get sweep_files_listing by (auto simp: sweep_cookies_def split: sum.splits)

lemma sweep_done:
  assumes inv: "cookie_dir_inv L K d" and len: "\<And>bs. length (cl_sha256 L bs) = 32"
    and run: "sweep_cookies L s d = (Inr u, d')"
  shows "stored L d' = stored L d |` {k. policy_persists (cs_policy s) (cred_id k)}"
proof
  fix k
  let ?n = "store_file_name L k" and ?p = "cs_policy s"
  note ro = sweep_run(1)[OF run]
  show "stored L d' k = (stored L d |` {k. policy_persists ?p (cred_id k)}) k"
  proof (cases "stored L d k")
    case None
    then have "stored L d' k = None" using removed_only_get[OF ro, of ?n] stored_None stored_cong by metis
    then show ?thesis using None by (simp add: restrict_map_def)
  next
    case (Some doc)
    then obtain e where e: "(?n, e) \<in> set (cs_files d)" "fe_is_file e = Inr True" "is_store_file_name (from_utf8_lossy ?n)"
      using unit_file[OF inv len, of k] by auto
    have sw: "sweeps L ?p ?n (hget (cs_files d) ?n) \<longleftrightarrow> \<not> policy_persists ?p (cred_id k)"
      using stored_doc[OF Some] store_file_name_visible[OF len]
      by (auto simp: sweeps_def keeps_file_def store_file_name_ascii)
    have "cs_files d \<noteq> []" using e(1) by auto
    then have "cs_present d" using inv by (auto simp: cookie_dir_inv_def)
    then have "sweep_files L ?p (cs_files d) d = (Inr u, d')"
      using run by (auto simp: sweep_cookies_def read_dir_def split: option.splits)
    note get = conjunct2[OF sweep_files_get[OF this]]
    have gone: "sweeps L ?p ?n (hget (cs_files d) ?n) \<Longrightarrow> doc_of L (hget (cs_files d') ?n) = None"
      by (rule get[rule_format, OF refl e(1,2,3)])
    show ?thesis
    proof (cases "policy_persists ?p (cred_id k)")
      case True
      then have "hget (cs_files d') ?n = hget (cs_files d) ?n" using ro sw unfolding removed_only_def by blast
      then have "stored L d' k = stored L d k" by (rule stored_cong)
      then show ?thesis using True by simp
    next
      case False
      then show ?thesis using gone sw by (simp add: stored_def restrict_map_def)
    qed
  qed
qed

lemma prepare_run:
  assumes "prepare_store L s da d = (res, d')" "cookie_dir_inv L K d"
  shows "stored L d' \<subseteq>\<^sub>m stored L d" "cookie_dir_inv L K d'"
proof -
  have "stored L d' \<subseteq>\<^sub>m stored L d \<and> cookie_dir_inv L K d'"
  proof (cases "policy_is_empty (cs_policy s) \<and> \<not> cs_present d")
    case False
    obtain r d1 where en: "ensure_dir s da d = (r, d1)" by fastforce
    note same = ensure_dir_same[OF en]
    show ?thesis
    proof (cases r)
      case (Inl e)
      then show ?thesis using assms False en same by (auto simp: prepare_store_def split: if_splits)
    next
      case (Inr u)
      then have sw: "sweep_cookies L s d1 = (res, d')" using assms False en by (auto simp: prepare_store_def split: if_splits)
      show ?thesis
        using removed_only_stored[OF sweep_run(1)[OF sw], of L] removed_only_inv[OF sweep_run(1)[OF sw] _ sweep_run(2)[OF sw]]
          same assms(2) by simp
    qed
  qed (use assms in \<open>auto simp: prepare_store_def\<close>)
  then show "stored L d' \<subseteq>\<^sub>m stored L d" "cookie_dir_inv L K d'" by simp_all
qed

lemma prepare_done:
  assumes "prepare_store L s da d = (Inr u, d')" "cookie_dir_inv L K d" "\<And>bs. length (cl_sha256 L bs) = 32"
  shows "stored L d' = stored L d |` {k. policy_persists (cs_policy s) (cred_id k)}"
proof (cases "policy_is_empty (cs_policy s) \<and> \<not> cs_present d")
  case True
  then have "d' = d" "cs_files d = []" using assms by (auto simp: prepare_store_def cookie_dir_inv_def)
  then show ?thesis by (auto simp: restrict_map_def stored_None)
next
  case False
  obtain r d1 where en: "ensure_dir s da d = (r, d1)" by fastforce
  note same = ensure_dir_same[OF en]
  have sw: "sweep_cookies L s d1 = (Inr u, d')"
    using assms(1) False en by (auto simp: prepare_store_def split: if_splits sum.splits)
  show ?thesis using sweep_done[OF same(4)[OF assms(2)] assms(3) sw] same(3) by simp
qed


lemma lib_laws_length: "lib_laws f L K \<Longrightarrow> length (cl_sha256 L bs) = 32"
  by (simp add: lib_laws_def)

lemma lib_laws_inj:
  "lib_laws f L K \<Longrightarrow> k' \<in> K \<Longrightarrow> k \<in> K \<Longrightarrow> store_file_name L k' = store_file_name L k \<Longrightarrow> k' = k"
  unfolding lib_laws_def by (meson inj_onD)

lemma temporary_name_not_stored:
  assumes "lib_laws f L K"
  shows "temporary_name (store_file_name L k) uuid \<noteq> store_file_name L k'"
  using store_file_name_visible[of L k'] lib_laws_length[OF assms] temporary_name_hidden by metis

lemma temporary_name_no_store_file: "\<not> is_store_file_name (from_utf8_lossy (temporary_name name uuid))"
proof
  have hd: "\<exists>r. from_utf8_lossy (temporary_name name uuid) = CHR ''.'' # r"
    by (simp add: temporary_name_def utf8_first_def)
  assume "is_store_file_name (from_utf8_lossy (temporary_name name uuid))"
  then obtain stem where "from_utf8_lossy (temporary_name name uuid) = (stem @ ''.'') @ STORE_EXTENSION" "length stem = 64"
      "list_all (\<lambda>b. is_ascii_digit b \<or> ((of_char b :: nat) \<ge> 97 \<and> (of_char b :: nat) \<le> 102)) stem"
    by (auto simp: is_store_file_name_def split: option.splits bind_splits)
  then show False using hd by (cases stem) (auto simp: is_ascii_digit_def)
qed

lemma save_cases:
  assumes "save_cookie_array L s da wa k raw now d = (r, d')"
  obtains (rejected) e where "r = Inl e" "d' = d"
  | (not_written) e d1 files where "r = Inl e" "ensure_dir s da d = (Inr (), d1)" "d' = d1\<lparr>cs_files := files\<rparr>"
      "\<exists>t e'. write_private_file_atomic wa (store_file_name L k) t (cs_files d1) = (Inl e', files)"
  | (written) cs t d1 files where "r = Inr ()" "persistent_cookies L raw now = Some cs" "length cs \<le> MAX_COOKIES"
      "cl_text L (save_document k cs now) = Some t" "length t \<le> MAX_DOCUMENT_BYTES"
      "ensure_dir s da d = (Inr (), d1)" "d' = d1\<lparr>cs_files := files\<rparr>"
      "write_private_file_atomic wa (store_file_name L k) t (cs_files d1) = (Inr (), files)"
proof -
  have "(\<exists>e. r = Inl e \<and> d' = d) \<or> (\<exists>cs t. persistent_cookies L raw now = Some cs \<and> length cs \<le> MAX_COOKIES
     \<and> cl_text L (save_document k cs now) = Some t \<and> length t \<le> MAX_DOCUMENT_BYTES
     \<and> write_document s da wa (store_file_name L k) t d = (r, d'))"
    using assms by (auto simp: save_cookie_array_def seal_bytes_def split: option.splits if_splits)
  then consider e where "r = Inl e" "d' = d" | cs t where "persistent_cookies L raw now = Some cs" "length cs \<le> MAX_COOKIES"
     "cl_text L (save_document k cs now) = Some t" "length t \<le> MAX_DOCUMENT_BYTES"
     "write_document s da wa (store_file_name L k) t d = (r, d')" by blast
  then show ?thesis
  proof cases
    case 1
    then show ?thesis using rejected by blast
  next
    case (2 cs t)
    obtain en d1 where en: "ensure_dir s da d = (en, d1)" by fastforce
    show ?thesis
    proof (cases en)
      case (Inl e)
      then have "r = Inl (SaveIo e)" "d' = d" using 2(5) en by (auto simp: write_document_def ensure_dir_def split: sum.splits)
      then show ?thesis using rejected by blast
    next
      case (Inr u)
      obtain w files where w: "write_private_file_atomic wa (store_file_name L k) t (cs_files d1) = (w, files)" by fastforce
      show ?thesis
      proof (cases w)
        case (Inl e)
        have "r = Inl (SaveIo e)" "d' = d1\<lparr>cs_files := files\<rparr>"
          using 2(5) en w \<open>en = Inr u\<close> Inl by (auto simp: write_document_def)
        then show ?thesis using not_written[of "SaveIo e" d1 files] en \<open>en = Inr u\<close> w Inl by auto
      next
        case Inr
        then show ?thesis
          using written[of cs t d1 files] 2 en w \<open>en = Inr u\<close> by (auto simp: write_document_def)
      qed
    qed
  qed
qed

lemma written_stored:
  assumes laws: "lib_laws f L K" and k: "k \<in> K" and inv: "cookie_dir_inv L K d1"
    and t: "cl_text L (save_document k cs now) = Some t"
    and w: "write_private_file_atomic wa (store_file_name L k) t (cs_files d1) = (Inr (), files)"
  shows "stored L (d1\<lparr>cs_files := files\<rparr>) = (stored L d1)(k \<mapsto> reread f (save_document k cs now))"
proof
  fix k'
  let ?d = "d1\<lparr>cs_files := files\<rparr>" and ?n = "store_file_name L k"
  note wc = write_private_file_atomic_cases[OF w temporary_name_not_stored[OF laws, symmetric], simplified]
  show "stored L ?d k' = ((stored L d1)(k \<mapsto> reread f (save_document k cs now))) k'"
  proof (cases "store_file_name L k' = ?n")
    case same: True
    have doc: "doc_of L (hget (cs_files ?d) (store_file_name L k')) = Some (reread f (save_document k cs now))"
      using wc laws t same by (simp add: doc_of_def private_file_def decode_document_def unseal_bytes_def lib_laws_def)
    have m: "StoredCookies_matches (reread f (save_document k cs now)) k' \<longleftrightarrow> k' = k"
      by (cases k; cases k') (auto simp: StoredCookies_matches_def reread_def save_document_def)
    have "stored L d1 k' = None" if "k' \<noteq> k"
    proof (rule ccontr)
      assume "stored L d1 k' \<noteq> None"
      then have "k' \<in> K" using inv unfolding cookie_dir_inv_def by blast
      then show False using lib_laws_inj[OF laws _ k same] that by blast
    qed
    then show ?thesis using doc m by (simp add: stored_def)
  next
    case False
    then have "hget (cs_files ?d) (store_file_name L k') = hget (cs_files d1) (store_file_name L k')"
      using wc temporary_name_not_stored[OF laws, symmetric] by simp
    then show ?thesis using False stored_cong[of ?d L k' d1] by auto
  qed
qed

lemma unwritten_stored:
  assumes laws: "lib_laws f L K"
    and w: "write_private_file_atomic wa (store_file_name L k) t (cs_files d1) = (Inl e, files)"
  shows "stored L (d1\<lparr>cs_files := files\<rparr>) = stored L d1"
proof
  fix k'
  note wc = write_private_file_atomic_cases[OF w temporary_name_not_stored[OF laws, symmetric], simplified]
  have "hget files (store_file_name L k') = hget (cs_files d1) (store_file_name L k')"
    using wc temporary_name_not_stored[OF laws, symmetric] by (cases "store_file_name L k' = store_file_name L k") auto
  then show "stored L (d1\<lparr>cs_files := files\<rparr>) k' = stored L d1 k'" by (intro stored_cong) simp
qed

lemma write_inv:
  assumes laws: "lib_laws f L K" and inv: "cookie_dir_inv L K d1" "cs_present d1"
    and w: "write_private_file_atomic wa (store_file_name L k) t (cs_files d1) = (r, files)"
    and dom: "dom (stored L (d1\<lparr>cs_files := files\<rparr>)) \<subseteq> K"
  shows "cookie_dir_inv L K (d1\<lparr>cs_files := files\<rparr>)"
proof -
  let ?n = "store_file_name L k" and ?t = "temporary_name (store_file_name L k) (wa_uuid wa)"
  note wc = write_private_file_atomic_cases[OF w temporary_name_not_stored[OF laws, symmetric]]
  have "fe_is_file e = Inr True" if "hget files n = Some e" "is_store_file_name (from_utf8_lossy n)" for n e
  proof -
    have "n \<noteq> ?t" using that(2) temporary_name_no_store_file by blast
    then have "hget files n = Some (private_file t) \<or> hget files n = hget (cs_files d1) n"
      using wc by (cases "n = ?n") (auto split: sum.splits)
    then show ?thesis using that inv(1) unfolding cookie_dir_inv_def by (auto simp: private_file_def)
  qed
  moreover have "hvalid files" using hvalid_write[of "cs_files d1" wa ?n t] inv(1) w by (simp add: cookie_dir_inv_def)
  ultimately show ?thesis using inv dom unfolding cookie_dir_inv_def by simp
qed

lemma save_run:
  assumes laws: "lib_laws f L K" and k: "k \<in> K" and inv: "cookie_dir_inv L K d"
    and run: "save_cookie_array L s da wa k raw now d = (r, d')"
  shows "cookie_dir_inv L K d'"
    "stored L d' = (if is_ok r then cookie_spec f L s (OpSave da wa k raw now) (stored L d) else stored L d)"
proof -
  from run have "cookie_dir_inv L K d' \<and>
    stored L d' = (if is_ok r then cookie_spec f L s (OpSave da wa k raw now) (stored L d) else stored L d)"
  proof (cases rule: save_cases)
    case (not_written e d1 files)
    note same = ensure_dir_same[OF not_written(2)]
    from not_written(4) obtain t e' where w: "write_private_file_atomic wa (store_file_name L k) t (cs_files d1) = (Inl e', files)"
      by blast
    have st: "stored L d' = stored L d" using unwritten_stored[OF laws w] same(3) not_written(3) by simp
    have "dom (stored L (d1\<lparr>cs_files := files\<rparr>)) \<subseteq> K" using st inv not_written(3) unfolding cookie_dir_inv_def by simp
    from write_inv[OF laws same(4)[OF inv] same(5)[OF refl] w this] st show ?thesis
      using not_written by (simp add: is_ok_def)
  next
    case (written cs t d1 files)
    note same = ensure_dir_same[OF written(6)]
    have st: "stored L d' = (stored L d)(k \<mapsto> reread f (save_document k cs now))"
      using written_stored[OF laws k same(4)[OF inv] written(4,8)] same(3) written(7) by simp
    have "dom (stored L (d1\<lparr>cs_files := files\<rparr>)) \<subseteq> K" using st inv k written(7) unfolding cookie_dir_inv_def by auto
    from write_inv[OF laws same(4)[OF inv] same(5)[OF refl] written(8) this] st show ?thesis
      using written by (simp add: is_ok_def)
  qed (use inv in \<open>simp add: is_ok_def\<close>)
  then show "cookie_dir_inv L K d'"
    "stored L d' = (if is_ok r then cookie_spec f L s (OpSave da wa k raw now) (stored L d) else stored L d)" by blast+
qed

lemma load_dir_cases:
  "snd (load_cookies L k now d) = d \<or> (\<exists>l. snd (load_cookies L k now d) = store_log l d)
   \<or> (snd (load_cookies L k now d) = discard_unreadable (store_file_name L k) d \<and> stored L d k = None)"
proof (cases "hget (cs_files d) (store_file_name L k)")
  case (Some e)
  show ?thesis
  proof (cases "fe_bytes e")
    case (Inl err)
    then show ?thesis using Some by (cases err) (auto simp: load_cookies_def fs_read_def)
  next
    case (Inr bs)
    then show ?thesis using Some
      by (cases "decode_document L bs") (auto simp: load_cookies_def fs_read_def stored_def doc_of_def Let_def)
  qed
qed (simp add: load_cookies_def fs_read_def)

lemma load_run:
  assumes laws: "lib_laws f L K" and k: "k \<in> K" and inv: "cookie_dir_inv L K d"
  shows "cookie_dir_inv L K (snd (load_cookies L k now d))" "stored L (snd (load_cookies L k now d)) = stored L d"
proof -
  let ?d = "snd (load_cookies L k now d)" and ?n = "store_file_name L k"
  let ?Q = "\<lambda>n f. n = ?n \<and> stored L d k = None"
  have ro: "removed_only ?Q d ?d" "cs_listing ?d = cs_listing d"
  proof -
    consider "?d = d" | l where "?d = store_log l d" | "?d = discard_unreadable ?n d" "stored L d k = None"
      using load_dir_cases[of L k now d] by (elim disjE exE conjE)
    then have "removed_only ?Q d ?d \<and> cs_listing ?d = cs_listing d"
    proof cases
      case 2
      then show ?thesis by (simp add: store_log_def removed_only_def)
    next
      case 3
      then show ?thesis using discard_unreadable_get[of ?Q ?n d] listing_kept(2)[of ?n d] by simp
    qed simp
    then show "removed_only ?Q d ?d" "cs_listing ?d = cs_listing d" by simp_all
  qed
  show "cookie_dir_inv L K ?d" by (rule removed_only_inv[OF ro(1) inv ro(2)])
  show "stored L ?d = stored L d"
  proof
    fix k'
    show "stored L ?d k' = stored L d k'"
    proof (cases "hget (cs_files ?d) (store_file_name L k') = hget (cs_files d) (store_file_name L k')")
      case False
      then have n: "store_file_name L k' = ?n" "stored L d k = None" "hget (cs_files ?d) (store_file_name L k') = None"
        using ro(1) unfolding removed_only_def by blast+
      have "stored L d k' = None"
      proof (rule ccontr)
        assume "stored L d k' \<noteq> None"
        moreover from this have "k' \<in> K" using inv unfolding cookie_dir_inv_def by blast
        ultimately show False using lib_laws_inj[OF laws _ k n(1)] n(2) by simp
      qed
      then show ?thesis using stored_None n(3) by metis
    qed (rule stored_cong)
  qed
qed

lemma forget_cookies_inv:
  "forget_cookies L tgt d = (res, d') \<Longrightarrow> cookie_dir_inv L K d \<Longrightarrow> cookie_dir_inv L K d'"
  using forget_run removed_only_inv by metis

lemma cookie_step_ok:
  assumes laws: "lib_laws f L K" and inv: "cookie_dir_inv L K d" and K: "op_units p \<subseteq> K"
    and st: "cookie_step L s p d = (ok, d')"
  shows "cookie_dir_inv L K d' \<and> (ok \<longrightarrow> stored L d' = cookie_spec f L s p (stored L d))
     \<and> (\<not> ok \<longrightarrow> stored L d' \<subseteq>\<^sub>m stored L d)"
proof (cases p)
  case (OpSave da wa k raw now)
  then obtain r where "save_cookie_array L s da wa k raw now d = (r, d')" "ok = is_ok r"
    using st by (cases "save_cookie_array L s da wa k raw now d") auto
  then show ?thesis using save_run[OF laws _ inv] K OpSave by (auto simp: map_le_def)
next
  case (OpLoad k now)
  then show ?thesis using st load_run[OF laws _ inv, of k now] K by auto
next
  case (OpForget tgt)
  then obtain r where r: "forget_cookies L tgt d = (r, d')" "ok = is_ok r"
    using st by (cases "forget_cookies L tgt d") auto
  show ?thesis
  proof (cases r)
    case (Inl e)
    then show ?thesis using r forget_cookies_inv[OF r(1) inv] removed_only_stored[OF forget_run(1)[OF r(1)]]
      by (simp add: is_ok_def)
  next
    case (Inr c)
    have "stored L d' = cookie_spec f L s (OpForget tgt) (stored L d)"
      using r(1) unfolding Inr by (rule forget_done[OF inv lib_laws_length[OF laws]])
    then show ?thesis using Inr OpForget r forget_cookies_inv[OF r(1) inv] by (simp add: is_ok_def)
  qed
next
  case (OpPrepare da)
  then obtain r where r: "prepare_store L s da d = (r, d')" "ok = is_ok r"
    using st by (cases "prepare_store L s da d") auto
  show ?thesis
  proof (cases r)
    case (Inl e)
    then show ?thesis using r prepare_run[OF r(1) inv] by (simp add: is_ok_def)
  next
    case (Inr u)
    have "stored L d' = stored L d |` {k. policy_persists (cs_policy s) (cred_id k)}"
      using r(1) unfolding Inr by (rule prepare_done[OF _ inv lib_laws_length[OF laws]])
    then show ?thesis using Inr OpPrepare r prepare_run[OF r(1) inv] by (simp add: is_ok_def)
  qed
qed

text \<open>The store meets the contract of a map for every library that keeps the laws on the units in use.\<close>

interpretation cookies: map_store
  "\<lambda>d. lib_laws f L K \<and> cookie_dir_inv L K d" "stored L" "cookie_step L s" "cookie_spec f L s" "\<lambda>p. op_units p \<subseteq> K"
  for f L s K
  using cookie_step_ok by unfold_locales blast+

subsection \<open>Properties\<close>

text \<open>
  C8: the cookie store implements a map from units to documents. For any sequence of saves, loads,
  forgets and preparations that all succeed, the documents that \<open>load\<close> accepts afterwards are those
  of the sequence of map operations: a save replaces its unit's document by the unexpired cookies
  it was given, forgetting removes exactly the units of the credential, preparing exactly those the
  policy does not name, and loading, although it deletes unreadable files, removes no unit.
\<close>

theorem cookie_store_refines_a_map:
  assumes "lib_laws f L K" "cookie_dir_inv L K d" "list_all (\<lambda>p. op_units p \<subseteq> K) ps"
    "run_ops (cookie_step L s) ps d = (True, d')"
  shows "stored L d' = fold (cookie_spec f L s) ps (stored L d)"
  using cookies.run_done assms by blast


definition ex_cookie :: Cookie where
  "ex_cookie = \<lparr>ck_name = ''sid'', ck_value = ''v'', ck_domain = ''example.org'', ck_path = ''/'',
     ck_expires = Finite 200, ck_http_only = True, ck_secure = True, ck_same_site = Lax\<rparr>"

definition ex_key :: BrowserKey where
  "ex_key = \<lparr>principal = ''uid:1000'', namespace = ''ns'', cred_id = ''ns:a''\<rparr>"

definition ex_doc :: StoredCookies where
  "ex_doc = save_document ex_key [ex_cookie] (Finite 100)"

definition ex_lib :: cookie_lib where
  "ex_lib = \<lparr>cl_sha256 = (\<lambda>bs. take 32 (bs @ replicate 32 0)),
     cl_cookie = (\<lambda>v. if v = JStr ''c'' then Some ex_cookie else None), cl_cookie_value = (\<lambda>_. None),
     cl_text = (\<lambda>doc. if doc = ex_doc then Some [1] else None),
     cl_document = (\<lambda>t. if t = [1] then Some ex_doc else None)\<rparr>"

definition ex_store :: CookieStore where
  "ex_store = CookieStore_new ''/state'' \<lparr>by_namespace = [(''ns'', [''a''])]\<rparr>"

definition ex_answers :: dir_answers where
  "ex_answers = \<lparr>da_stat = Inl NotFound, da_parents = None, da_create = None, da_chmod = None,
     da_stat_again = Inr \<lparr>md_symlink = False, md_dir = True, md_mode = 448, md_uid = 7\<rparr>, da_euid = 7\<rparr>"

definition ex_dir :: cookie_dir where
  "ex_dir = \<lparr>cs_present = False, cs_files = [], cs_listing = None, cs_log = []\<rparr>"

definition ex_ops :: "cookie_op list" where
  "ex_ops = [OpPrepare ex_answers,
             OpSave ex_answers (write_works ''u'') ex_key (JArr [JStr ''c'', JNull]) (Finite 100),
             OpForget (ForgetCredential ''ns:b''), OpLoad ex_key (Finite 150)]"

lemma ex_laws: "lib_laws id ex_lib {ex_key}"
  by (auto simp: lib_laws_def ex_lib_def reread_def split: if_splits)

lemma ex_dir_inv: "cookie_dir_inv ex_lib {ex_key} ex_dir"
  by (auto simp: cookie_dir_inv_def ex_dir_def stored_def doc_of_def)

lemma ex_persistent: "now < 200 \<Longrightarrow> is_persistent_at ex_cookie (Finite now)"
  by (simp add: is_persistent_at_def ex_cookie_def starts_with_def f64_is_finite_def)

lemma ex_cookies:
  "cl_cookie ex_lib (JStr ''c'') = Some ex_cookie" "cl_cookie ex_lib JNull = None"
  "cl_text ex_lib (save_document ex_key [ex_cookie] (Finite 100)) = Some [1]"
  by (simp_all add: ex_lib_def ex_doc_def)

lemma ex_saved: "persistent_cookies ex_lib (JArr [JStr ''c'', JNull]) (Finite 100) = Some [ex_cookie]"
  by (simp add: persistent_cookies_def ex_cookies(1,2) ex_persistent)

lemma ex_ensure: "ensure_dir ex_store ex_answers d = (Inr (), d\<lparr>cs_present := True\<rparr>)"
  by (simp add: ensure_dir_def ensure_private_dir_def ex_answers_def validate_again_def validate_state_dir_def)

lemma ex_prepare: "prepare_store ex_lib ex_store ex_answers ex_dir = (Inr (), ex_dir\<lparr>cs_present := True\<rparr>)"
  by (simp add: prepare_store_def ex_ensure policy_is_empty_def hvalues_def sweep_cookies_def read_dir_def ex_dir_def)
    (simp add: ex_store_def CookieStore_new_def)

lemma ex_save:
  "save_cookie_array ex_lib ex_store ex_answers (write_works ''u'') ex_key (JArr [JStr ''c'', JNull]) (Finite 100) d
   = (Inr (), d\<lparr>cs_present := True, cs_files := hinsert (store_file_name ex_lib ex_key) (private_file [1])
       (hremove (temporary_name (store_file_name ex_lib ex_key) ''u'')
         (hinsert (temporary_name (store_file_name ex_lib ex_key) ''u'') (private_file [1]) (cs_files d)))\<rparr>)"
  by (simp add: save_cookie_array_def ex_saved MAX_COOKIES_def seal_bytes_def write_document_def ex_ensure
      write_private_file_atomic_def write_works_def Let_def MAX_DOCUMENT_BYTES_def ex_cookies(3))

lemma ex_files: "hinsert n (private_file [1]) (hremove t (hinsert t (private_file [1]) [])) = [(n, private_file [1])]"
  by (simp add: hinsert_def hremove_def)

definition ex_dir_saved :: cookie_dir where
  "ex_dir_saved = \<lparr>cs_present = True, cs_files = [(store_file_name ex_lib ex_key, private_file [1])],
     cs_listing = None, cs_log = []\<rparr>"

lemma ex_save_prepared:
  "save_cookie_array ex_lib ex_store ex_answers (write_works ''u'') ex_key (JArr [JStr ''c'', JNull]) (Finite 100)
     (ex_dir\<lparr>cs_present := True\<rparr>) = (Inr (), ex_dir_saved)"
  unfolding ex_save by (simp add: ex_dir_def ex_dir_saved_def ex_files)

lemma ex_forget: "forget_cookies ex_lib (ForgetCredential ''ns:b'') ex_dir_saved = (Inr 0, ex_dir_saved)"
proof -
  have st: "is_store_file_name (store_file_name ex_lib ex_key)"
    by (rule store_file_name_is_store[OF lib_laws_length[OF ex_laws]])
  have doc: "read_document ex_lib (store_file_name ex_lib ex_key) ex_dir_saved = Some ex_doc"
    by (simp add: read_document_def fs_read_def private_file_def decode_document_def unseal_bytes_def ex_dir_saved_def)
      (simp add: ex_lib_def)
  have names: "store_files ex_dir_saved = Inr [store_file_name ex_lib ex_key]"
    by (simp add: store_files_def read_dir_def ex_dir_saved_def private_file_def store_file_name_ascii st)
  show ?thesis
    by (simp add: forget_cookies_def names forget_matches_def doc) (simp add: ex_doc_def save_document_def ex_key_def)
qed

lemma ex_run: "fst (run_ops (cookie_step ex_lib ex_store) ex_ops ex_dir)"
  by (simp add: ex_ops_def ex_prepare ex_save_prepared ex_forget is_ok_def)

theorem cookie_store_refines_a_map_witness:
  "stored ex_lib (snd (run_ops (cookie_step ex_lib ex_store) ex_ops ex_dir)) ex_key = Some ex_doc"
proof -
  have run: "run_ops (cookie_step ex_lib ex_store) ex_ops ex_dir
      = (True, snd (run_ops (cookie_step ex_lib ex_store) ex_ops ex_dir))"
    using ex_run by (metis prod.collapse)
  have units: "list_all (\<lambda>p. op_units p \<subseteq> {ex_key}) ex_ops" by (simp add: ex_ops_def)
  show ?thesis
    unfolding cookie_store_refines_a_map[OF ex_laws ex_dir_inv units run]
    by (simp add: ex_ops_def ex_saved reread_def ex_doc_def restrict_map_def) (simp add: ex_key_def)
qed

text \<open>
  C28: cookies that were saved are the cookies that a later login gets. After a successful save of
  an array, loading the same unit at any time returns the cookies of the array that were
  persistent when saved and have not expired since, in their order, or nothing where none is left;
  and the directory is as the save left it.
\<close>

theorem saved_cookies_come_back:
  assumes laws: "lib_laws f L K" and k: "k \<in> K" and inv: "cookie_dir_inv L K d"
    and save: "save_cookie_array L s da wa k raw now d = (Inr (), d')"
    and live: "live = filter (\<lambda>c. is_persistent_at c later)
       (map f (filter (\<lambda>c. is_persistent_at c now) (List.map_filter (cl_cookie L) (the (jas_array raw)))))"
  shows "load_cookies L k later d' = (if live = [] then None else Some live, d')"
proof -
  obtain cs where cs: "persistent_cookies L raw now = Some cs"
    using save by (cases rule: save_cases) auto
  then have live': "live = filter (\<lambda>c. is_persistent_at c later) (map f cs)"
    using live by (auto simp: persistent_cookies_def)
  have "stored L d' k = Some (reread f (save_document k cs now))"
    using save_run(2)[OF laws k inv save] cs by (simp add: is_ok_def)
  from stored_doc[OF this] live' show ?thesis
    by (auto simp: load_cookies_def fs_read_def doc_of_def Let_def reread_def save_document_def
        split: option.splits sum.splits)
qed

theorem saved_cookies_come_back_witness:
  "load_cookies ex_lib ex_key (Finite 150)
     (snd (save_cookie_array ex_lib ex_store ex_answers (write_works ''u'') ex_key (JArr [JStr ''c'', JNull]) (Finite 100) ex_dir))
   = (Some [ex_cookie],
      snd (save_cookie_array ex_lib ex_store ex_answers (write_works ''u'') ex_key (JArr [JStr ''c'', JNull]) (Finite 100) ex_dir))"
proof -
  let ?r = "save_cookie_array ex_lib ex_store ex_answers (write_works ''u'') ex_key (JArr [JStr ''c'', JNull]) (Finite 100) ex_dir"
  have run: "?r = (Inr (), snd ?r)" by (simp add: ex_save)
  have live: "[ex_cookie] = filter (\<lambda>c. is_persistent_at c (Finite 150)) (map id (filter (\<lambda>c. is_persistent_at c (Finite 100))
      (List.map_filter (cl_cookie ex_lib) (the (jas_array (JArr [JStr ''c'', JNull]))))))"
    by (simp add: ex_cookies(1,2) ex_persistent)
  show ?thesis using saved_cookies_come_back[OF ex_laws _ ex_dir_inv run live] by simp
qed

text \<open>
  Whatever files lie in the directory, a login gets only cookies that are unexpired and come
  from a document of its own unit and of the current version, found under the unit's name; a
  document of another unit is never used, not even when the names collide, and is deleted.
\<close>

lemma restored_cookies_are_the_units_own:
  assumes "load_cookies L k now d = (Some cs, d')"
  obtains bs doc where "fs_read (store_file_name L k) (cs_files d) = Inr bs" "decode_document L bs = Some doc"
    "StoredCookies_key doc = k" "sc_version doc = STORE_VERSION" "cs \<noteq> []"
    "cs = filter (\<lambda>c. is_persistent_at c now) (sc_cookies doc)" "d' = d"
  using assms that
  by (fastforce simp: load_cookies_def Let_def StoredCookies_matches_def StoredCookies_key_def BrowserKey_new_def
      split: sum.splits option.splits fs_error.splits if_splits)

end
