(* ===== verification/Executor_Conn.thy ===== *)
theory Executor_Conn
  imports Std_Text Start_Control
begin

section \<open>Connections to executors\<close>

text \<open>
  How \<open>main.rs\<close> talks to an executor process: the first exchange on a new connection, the requests on
  a connection that is kept, and stopping. What the process and the timers do is a record of
  answers for each operation: whether a lock is obtained and a write done in time, the line that
  arrives (\<open>None\<close>: none in time, the end of the stream, or an error), whether the process exits in
  time. \<open>parse\<close> reads a line as JSON.
\<close>

datatype ExecutorKind = Spawned | Socket

record ExecutorConnection =
  xc_kind :: ExecutorKind
  xc_next_id :: u64
  xc_sent :: "json list"
  xc_killed :: bool

record exec_answers =
  xa_operation_lock :: bool
  xa_executor_lock :: bool
  xa_serialized :: bool
  xa_written :: bool
  xa_responses_lock :: bool
  xa_line :: "string option"
  xa_exits :: bool
  xa_kill_lock :: bool

subsection \<open>Lines\<close>

text \<open>
  One line off the stream: bytes up to and including the first line feed, or up to the end; an error
  of the read (\<open>None\<close>) discards what was read. The rest of the stream follows.
\<close>

fun read_executor_bytes :: "char option list \<Rightarrow> string \<Rightarrow> string option \<times> char option list" where
  "read_executor_bytes [] line = (Some line, [])"
| "read_executor_bytes (None # rest) line = (None, rest)"
| "read_executor_bytes (Some c # rest) line =
     (if c = CHR 0x0A then (Some (line @ [c]), rest) else read_executor_bytes rest (line @ [c]))"

definition read_executor_line :: "char option list \<Rightarrow> string option \<times> char option list" where
  "read_executor_line stream =
     (case read_executor_bytes stream [] of
        (None, rest) \<Rightarrow> (None, rest)
      | (Some line, rest) \<Rightarrow> (from_utf8 line, rest))"

definition EXECUTOR_STDERR_LINE_MAX_BYTES :: nat where "EXECUTOR_STDERR_LINE_MAX_BYTES = 1000"

definition truncate_executor_stderr_line :: "string \<Rightarrow> string" where
  "truncate_executor_stderr_line line =
     (let line = (case strip_suffix line [CHR 0x0A] of None \<Rightarrow> line | Some l \<Rightarrow> l);
          line = (case strip_suffix line [CHR 0x0D] of None \<Rightarrow> line | Some l \<Rightarrow> l)
      in truncate_utf8 EXECUTOR_STDERR_LINE_MAX_BYTES (from_utf8_lossy line))"

subsection \<open>Requests on a kept connection\<close>

definition kill_executor :: "exec_answers \<Rightarrow> ExecutorConnection \<Rightarrow> ExecutorConnection" where
  "kill_executor a c = (if xa_kill_lock a then c\<lparr>xc_killed := True\<rparr> else c)"

definition executor_request ::
  "(string \<Rightarrow> json option) \<Rightarrow> exec_answers \<Rightarrow> (u64 \<Rightarrow> json) \<Rightarrow> ExecutorConnection
     \<Rightarrow> (ErrorCode + json) \<times> ExecutorConnection" where
  "executor_request parse a build c =
     (if \<not> xa_operation_lock a then (Inl Internal, c)
      else
        let i = xc_next_id c; c = c\<lparr>xc_next_id := i + 1\<rparr> in
        if \<not> xa_serialized a \<or> \<not> xa_executor_lock a then (Inl Internal, c)
        else if \<not> xa_written a then (Inl Internal, c)
        else
          let c = c\<lparr>xc_sent := xc_sent c @ [build i]\<rparr> in
          if \<not> xa_responses_lock a then (Inl Internal, c)
          else (case xa_line a of
                  None \<Rightarrow> (Inl Internal, c)
                | Some line \<Rightarrow>
                    (case parse line of
                       None \<Rightarrow> (Inl Internal, c)
                     | Some response \<Rightarrow>
                         if jget_u64 response ''id'' \<noteq> Some (unat i)
                         then (Inl Internal, kill_executor a c)
                         else (Inr response, c))))"

definition request_json :: "string \<Rightarrow> (string \<times> json) list \<Rightarrow> u64 \<Rightarrow> json" where
  "request_json op entries i = JObj ([(''op'', JStr op), (''id'', JInt (uint i))] @ entries)"

definition executor_lease ::
  "(string \<Rightarrow> json option) \<Rightarrow> (json \<Rightarrow> ExecutorLeaseResponse option) \<Rightarrow> exec_answers \<Rightarrow> ExecutorConnection
     \<Rightarrow> (ErrorCode + string) \<times> ExecutorConnection" where
  "executor_lease parse decode a c =
     (case executor_request parse a (request_json ''lease'' []) c of
        (Inl e, c) \<Rightarrow> (Inl e, c)
      | (Inr v, c) \<Rightarrow> (executor_lease_reply decode v, c))"

definition executor_release ::
  "(string \<Rightarrow> json option) \<Rightarrow> (json \<Rightarrow> ExecutorLeaseResponse option) \<Rightarrow> exec_answers \<Rightarrow> string \<Rightarrow> ExecutorConnection
     \<Rightarrow> (ErrorCode + unit) \<times> ExecutorConnection" where
  "executor_release parse decode a target_id c =
     (case executor_request parse a (request_json ''release'' [(''target_id'', JStr target_id)]) c of
        (Inl e, c) \<Rightarrow> (Inl e, c)
      | (Inr v, c) \<Rightarrow> (executor_release_reply decode v, c))"

definition executor_service_stop ::
  "(string \<Rightarrow> json option) \<Rightarrow> exec_answers \<Rightarrow> string \<Rightarrow> ExecutorConnection \<Rightarrow> (ErrorCode + unit) \<times> ExecutorConnection" where
  "executor_service_stop parse a op c =
     (case executor_request parse a (request_json op []) c of
        (Inl e, c) \<Rightarrow> (Inl e, c)
      | (Inr v, c) \<Rightarrow> (executor_service_stop_reply v, c))"

datatype ServiceKind = ApiProxy | McpServer

fun lease_target :: "ServiceKind \<Rightarrow> LeaseTarget" where
  "lease_target ApiProxy = LtApiProxy"
| "lease_target McpServer = LtMcpServer"

fun open_method :: "ServiceKind \<Rightarrow> string" where
  "open_method ApiProxy = ''open_api_proxy''"
| "open_method McpServer = ''open_mcp_server''"

fun service_start_key :: "ServiceKind \<Rightarrow> string \<Rightarrow> string \<Rightarrow> StartKey" where
  "service_start_key ApiProxy prin name = SkApiProxy prin name"
| "service_start_key McpServer prin name = SkMcpServer prin name"

definition named_audit_fields :: "ServiceKind \<Rightarrow> string \<Rightarrow> AuditFields" where
  "named_audit_fields kind name =
     (case kind of
        ApiProxy \<Rightarrow> AuditFields_default\<lparr>af_proxy := Some name\<rparr>
      | McpServer \<Rightarrow> AuditFields_default\<lparr>af_mcp_server := Some name\<rparr>)"

fun stop_request :: "ServiceKind \<Rightarrow> string" where
  "stop_request ApiProxy = ''api_proxy_stop''"
| "stop_request McpServer = ''mcp_server_stop''"

definition release_lease ::
  "(string \<Rightarrow> json option) \<Rightarrow> (json \<Rightarrow> ExecutorLeaseResponse option) \<Rightarrow> exec_answers \<Rightarrow> LeaseTarget \<Rightarrow> ExecutorConnection
     \<Rightarrow> (ErrorCode + unit) \<times> ExecutorConnection" where
  "release_lease parse decode a tgt c =
     (case tgt of
        Tab target_id \<Rightarrow> executor_release parse decode a target_id c
      | LtApiProxy \<Rightarrow> executor_service_stop parse a (stop_request ApiProxy) c
      | LtMcpServer \<Rightarrow> executor_service_stop parse a (stop_request McpServer) c)"

definition export_cookies ::
  "(string \<Rightarrow> json option) \<Rightarrow> exec_answers \<Rightarrow> ExecutorConnection \<Rightarrow> json option \<times> ExecutorConnection" where
  "export_cookies parse a c =
     (case executor_request parse a (request_json ''export_cookies'' []) c of
        (Inl _, c) \<Rightarrow> (None, c)
      | (Inr v, c) \<Rightarrow> (export_cookies_reply v, c))"

subsection \<open>Stopping\<close>

definition shutdown_response_matches :: "(string \<Rightarrow> json option) \<Rightarrow> exec_answers \<Rightarrow> u64 \<Rightarrow> bool" where
  "shutdown_response_matches parse a i =
     (if \<not> xa_responses_lock a then False
      else case xa_line a of
             None \<Rightarrow> False
           | Some line \<Rightarrow> Option.bind (parse line) (\<lambda>v. jget_u64 v ''id'') = Some (unat i))"

text \<open>A spawned process that does not exit in time is killed; a socket has no process to wait for.\<close>

definition wait_or_kill_executor :: "exec_answers \<Rightarrow> ExecutorConnection \<Rightarrow> bool \<times> ExecutorConnection" where
  "wait_or_kill_executor a c =
     (case xc_kind c of
        Spawned \<Rightarrow> (True, if xa_exits a then c else c\<lparr>xc_killed := True\<rparr>)
      | Socket \<Rightarrow> (False, c))"

definition kill_executor_handle :: "ExecutorConnection \<Rightarrow> ExecutorConnection" where
  "kill_executor_handle c = c\<lparr>xc_killed := True\<rparr>"

definition shutdown_executor ::
  "(string \<Rightarrow> json option) \<Rightarrow> exec_answers \<Rightarrow> ExecutorConnection \<Rightarrow> ExecutorConnection" where
  "shutdown_executor parse a c =
     (if \<not> xa_operation_lock a \<or> \<not> xa_executor_lock a then kill_executor a c
      else
        let i = xc_next_id c; c = c\<lparr>xc_next_id := i + 1\<rparr> in
        if \<not> xa_serialized a then kill_executor_handle c
        else if \<not> xa_written a then kill_executor_handle c
        else
          let c = snd (wait_or_kill_executor a (c\<lparr>xc_sent := xc_sent c @ [request_json ''shutdown'' [] i]\<rparr>)) in
          if \<not> shutdown_response_matches parse a i then kill_executor a c else c)"

definition stop_child :: "ExecutorConnection \<Rightarrow> ExecutorConnection" where
  "stop_child c = c\<lparr>xc_killed := True\<rparr>"

definition shutdown_executor_handle :: "exec_answers \<Rightarrow> u64 \<Rightarrow> ExecutorConnection \<Rightarrow> ExecutorConnection" where
  "shutdown_executor_handle a i c =
     (if \<not> xa_serialized a then c
      else
        let c = (if xa_written a then c\<lparr>xc_sent := xc_sent c @ [request_json ''shutdown'' [] i]\<rparr> else c) in
        (case wait_or_kill_executor a c of
           (True, c) \<Rightarrow> c
         | (False, c) \<Rightarrow> kill_executor_handle c))"

subsection \<open>The first exchange\<close>

definition exchange_first_request ::
  "exec_answers \<Rightarrow> json \<Rightarrow> ExecutorConnection \<Rightarrow> (ErrorCode + string) \<times> ExecutorConnection" where
  "exchange_first_request a request c =
     (if \<not> xa_serialized a then (Inl Internal, c)
      else if \<not> xa_written a then (Inl Internal, c)
      else
        let c = c\<lparr>xc_sent := xc_sent c @ [request]\<rparr> in
        (case xa_line a of
           None \<Rightarrow> (Inl Internal, c)
         | Some line \<Rightarrow> if line = [] then (Inl Internal, c) else (Inr line, c)))"

text \<open>Connecting gives a new connection or an error; on a failure of the exchange the executor is stopped.\<close>

definition open_executor_with ::
  "ExecutorConnection option \<Rightarrow> exec_answers \<Rightarrow> json \<Rightarrow> (ErrorCode \<Rightarrow> 'e) \<Rightarrow> (string \<Rightarrow> 'e + 'r)
     \<Rightarrow> ('e + ('r \<times> ExecutorConnection)) \<times> ExecutorConnection option" where
  "open_executor_with connected a request from_code parse_response =
     (case connected of
        None \<Rightarrow> (Inl (from_code Internal), None)
      | Some c \<Rightarrow>
          (case exchange_first_request a request c of
             (Inl e, c) \<Rightarrow> (Inl (from_code e), Some (stop_child c))
           | (Inr line, c) \<Rightarrow>
               (case parse_response line of
                  Inl e \<Rightarrow> (Inl e, Some (stop_child c))
                | Inr r \<Rightarrow> (Inr (r, c), None))))"

text \<open>\<open>authorize_device\<close> uses a connection for one exchange and always stops it.\<close>

definition authorize_device_with_executor ::
  "(string \<Rightarrow> ExecutorResponse option) \<Rightarrow> (string \<Rightarrow> json option) \<Rightarrow> ExecutorConnection option \<Rightarrow> exec_answers \<Rightarrow> exec_answers
     \<Rightarrow> json \<Rightarrow> (ExecutorFailure + ReturnedCookies) \<times> ExecutorConnection option" where
  "authorize_device_with_executor decode parse connected a stop request =
     (case connected of
        None \<Rightarrow> (Inl (failure_of Internal), None)
      | Some c \<Rightarrow>
          (case exchange_first_request a request c of
             (Inl e, c) \<Rightarrow> (Inl (failure_of e), Some (shutdown_executor_handle stop 2 c))
           | (Inr line, c) \<Rightarrow>
               (parse_authorize_response decode parse line, Some (shutdown_executor_handle stop 2 c))))"

subsection \<open>Replies answer their own requests\<close>

text \<open>
  A connection and the requests made on it, one after the other; \<open>rt_id\<close> is the id a request took,
  \<open>None\<close> where it gave up before taking one.
\<close>

record request_trace =
  rt_id :: "u64 option"
  rt_result :: "ErrorCode + json"

fun run_requests ::
  "(string \<Rightarrow> json option) \<Rightarrow> (exec_answers \<times> (u64 \<Rightarrow> json)) list \<Rightarrow> ExecutorConnection
     \<Rightarrow> request_trace list \<times> ExecutorConnection" where
  "run_requests parse [] c = ([], c)"
| "run_requests parse ((a, build) # rest) c =
     (case executor_request parse a build c of
        (r, c') \<Rightarrow>
          (case run_requests parse rest c' of
             (ts, c'') \<Rightarrow>
               (\<lparr>rt_id = (if xa_operation_lock a then Some (xc_next_id c) else None), rt_result = r\<rparr> # ts, c'')))"

lemma executor_request_id:
  "executor_request parse a build c = (r, c') \<Longrightarrow>
     xc_next_id c' = (if xa_operation_lock a then xc_next_id c + 1 else xc_next_id c)
     \<and> (r = Inr v \<longrightarrow> xa_operation_lock a \<and> jget_u64 v ''id'' = Some (unat (xc_next_id c))
          \<and> xc_sent c' = xc_sent c @ [build (xc_next_id c)] \<and> xc_killed c' = xc_killed c)"
  by (auto simp: executor_request_def Let_def kill_executor_def split: if_splits option.splits)

lemma run_requests_ids:
  assumes "run_requests parse as c = (ts, c')" "unat (xc_next_id c) + length as < 2 ^ 64"
  shows "(\<forall>t \<in> set ts. \<forall>v. rt_result t = Inr v \<longrightarrow> (\<exists>i. rt_id t = Some i \<and> jget_u64 v ''id'' = Some (unat i)))
     \<and> distinct (List.map_filter rt_id ts)
     \<and> (\<forall>i \<in> set (List.map_filter rt_id ts). unat (xc_next_id c) \<le> unat i)"
  using assms
proof (induction "as" arbitrary: c ts)
  case (Cons ab "as")
  obtain a b where ab: "ab = (a, b)" by (cases ab)
  obtain r c1 where r: "executor_request parse a b c = (r, c1)" by fastforce
  obtain ts1 where ts1: "run_requests parse as c1 = (ts1, c')"
      "ts = \<lparr>rt_id = (if xa_operation_lock a then Some (xc_next_id c) else None), rt_result = r\<rparr> # ts1"
    using Cons.prems(1) ab r by (auto split: prod.splits)
  note id = executor_request_id[OF r]
  have small: "unat (xc_next_id c) + 1 < 2 ^ 64" using Cons.prems(2) by simp
  have u1: "unat (xc_next_id c + 1) = unat (xc_next_id c) + 1"
    using small by (simp add: unat_word_ariths unat_add_lem[of "xc_next_id c" 1])
  then have le: "unat (xc_next_id c1) + length as < 2 ^ 64" "unat (xc_next_id c) \<le> unat (xc_next_id c1)"
      "xa_operation_lock a \<Longrightarrow> unat (xc_next_id c) < unat (xc_next_id c1)"
    using id Cons.prems(2) by auto
  note ih = Cons.IH[OF ts1(1) le(1)]
  show ?case
    using ih id le(2,3) ts1(2) by (cases "xa_operation_lock a") (auto split: sum.splits)
qed (simp add: List.map_filter_simps)

text \<open>
  C30: on a connection that is kept, a reply is taken as the answer to a request only when it carries
  the id of that request, and no two requests of the connection share an id; so a reply that
  arrives late, after its request has timed out, is never taken for the answer to a later one. The
  bound says that the 64-bit counter does not wrap.
\<close>

theorem replies_answer_their_own_request:
  assumes "run_requests parse as c = (ts, c')" "unat (xc_next_id c) + length as < 2 ^ 64"
  shows "distinct (List.map_filter rt_id ts)
     \<and> (\<forall>t \<in> set ts. \<forall>v. rt_result t = Inr v \<longrightarrow> (\<exists>i. rt_id t = Some i \<and> jget_u64 v ''id'' = Some (unat i)))"
  using run_requests_ids[OF assms] by blast

definition answers_with :: "string option \<Rightarrow> exec_answers" where
  "answers_with line = \<lparr>xa_operation_lock = True, xa_executor_lock = True, xa_serialized = True, xa_written = True,
     xa_responses_lock = True, xa_line = line, xa_exits = True, xa_kill_lock = True\<rparr>"

text \<open>The first request times out, its reply arrives for the second, which is refused.\<close>

theorem replies_answer_their_own_request_witness:
  "let parse = (\<lambda>l. Some (JObj [(''id'', JInt 2)]));
       as = [(answers_with None, request_json ''lease'' []), (answers_with (Some ''x''), request_json ''lease'' [])];
       ts = fst (run_requests parse as \<lparr>xc_kind = Spawned, xc_next_id = 2, xc_sent = [], xc_killed = False\<rparr>)
   in distinct (List.map_filter rt_id ts) \<and> map rt_result ts = [Inl Internal, Inl Internal]"
proof -
  let ?parse = "\<lambda>l. Some (JObj [(''id'', JInt 2)])"
  let ?as = "[(answers_with None, request_json ''lease'' []), (answers_with (Some ''x''), request_json ''lease'' [])]"
  let ?c = "\<lparr>xc_kind = Spawned, xc_next_id = 2, xc_sent = [], xc_killed = False\<rparr>"
  obtain ts c' where run: "run_requests ?parse ?as ?c = (ts, c')" by fastforce
  have "map rt_result ts = [Inl Internal, Inl Internal]"
    using run by (auto simp: executor_request_def answers_with_def jget_u64_def kill_executor_def)
  moreover have "distinct (List.map_filter rt_id ts)"
    using replies_answer_their_own_request[OF run] by simp
  ultimately show ?thesis using run by simp
qed

end
