(* ===== verification/Audit_Log.thy ===== *)
theory Audit_Log
  imports Rpc_Wire Secure_Fs
begin

section \<open>The audit log\<close>

text \<open>
  \<open>append_audit\<close> of \<open>main.rs\<close>: the log file, the rotated file beside it and the flag of the process
  that it has rotated. The answers of the system calls are a record, as in \<open>Secure_Fs\<close>; an
  interrupted write says what it has written. \<open>to_vec\<close> is the text of a record. The lock around
  the function makes one append one step.
\<close>

record audit_log =
  al_log :: "byte list option"
  al_old :: "byte list option"
  al_max :: "nat option"
  al_rotated :: bool

datatype AppendAuditError = AuditOpen fs_error | AuditSerialize | AuditWrite fs_error

record audit_answers =
  aa_secs :: nat
  aa_stat :: "fs_error option"
  aa_remove_old :: "fs_error option"
  aa_rename :: "fs_error option"
  aa_create :: "fs_error option"
  aa_open :: "fs_error option"
  aa_write :: "(fs_error \<times> byte list) option"
  aa_flush :: "fs_error option"

type_synonym audit_item = "AuditPeer \<times> string \<times> AuditFields \<times> string"

definition log_bytes :: "audit_log \<Rightarrow> byte list" where
  "log_bytes l = (case al_log l of None \<Rightarrow> [] | Some bs \<Rightarrow> bs)"

definition audit_record :: "nat \<Rightarrow> audit_item \<Rightarrow> AuditRecord" where
  "audit_record secs e =
     (case e of (p, m, f, out) \<Rightarrow>
        \<lparr>ar_ts = ''unix:'' @ decimal secs, ar_peer = p, ar_method = m, ar_fields = f, ar_outcome = out\<rparr>)"

definition audit_line :: "(AuditRecord \<Rightarrow> byte list option) \<Rightarrow> nat \<Rightarrow> audit_item \<Rightarrow> byte list option" where
  "audit_line to_vec secs e = map_option (\<lambda>bs. bs @ [10]) (to_vec (audit_record secs e))"

definition exceeds :: "nat \<Rightarrow> nat \<Rightarrow> nat \<Rightarrow> bool" where
  "exceeds max_bytes sz n \<longleftrightarrow>
     (sz > max_bytes \<or> min (2 ^ 64 - 1) (sz + n) > max_bytes) \<and> sz > 0"

definition rotate_audit :: "audit_answers \<Rightarrow> audit_log \<Rightarrow> (AppendAuditError + unit) \<times> audit_log" where
  "rotate_audit a l =
     (case aa_remove_old a of
        Some NotFound \<Rightarrow>
          (case aa_rename a of
             Some e \<Rightarrow> (Inl (AuditOpen e), l)
           | None \<Rightarrow> (Inr (), l\<lparr>al_old := al_log l, al_log := None, al_rotated := True\<rparr>))
      | Some e \<Rightarrow> (Inl (AuditOpen e), l)
      | None \<Rightarrow>
          (case aa_rename a of
             Some e \<Rightarrow> (Inl (AuditOpen e), l\<lparr>al_old := None\<rparr>)
           | None \<Rightarrow> (Inr (), l\<lparr>al_old := al_log l, al_log := None, al_rotated := True\<rparr>)))"

definition open_audit :: "audit_answers \<Rightarrow> audit_log \<Rightarrow> (AppendAuditError + unit) \<times> audit_log" where
  "open_audit a l =
     (case (if al_log l = None then aa_create a else Some AlreadyExists) of
        None \<Rightarrow>
          (case aa_open a of Some e \<Rightarrow> (Inl (AuditOpen e), l\<lparr>al_log := Some []\<rparr>) | None \<Rightarrow> (Inr (), l\<lparr>al_log := Some []\<rparr>))
      | Some AlreadyExists \<Rightarrow>
          (case aa_open a of
             Some e \<Rightarrow> (Inl (AuditOpen e), l)
           | None \<Rightarrow> if al_log l = None then (Inl (AuditOpen NotFound), l) else (Inr (), l))
      | Some e \<Rightarrow> (Inl (AuditOpen e), l))"

definition write_audit :: "audit_answers \<Rightarrow> byte list \<Rightarrow> audit_log \<Rightarrow> (AppendAuditError + unit) \<times> audit_log" where
  "write_audit a bytes l =
     (case open_audit a l of
        (Inl err, l) \<Rightarrow> (Inl err, l)
      | (Inr _, l) \<Rightarrow>
          (case aa_write a of
             Some (err, part) \<Rightarrow> (Inl (AuditWrite err), l\<lparr>al_log := Some (log_bytes l @ part)\<rparr>)
           | None \<Rightarrow>
               (case aa_flush a of
                  Some err \<Rightarrow> (Inl (AuditWrite err), l\<lparr>al_log := Some (log_bytes l @ bytes)\<rparr>)
                | None \<Rightarrow> (Inr (), l\<lparr>al_log := Some (log_bytes l @ bytes)\<rparr>))))"

definition rotates :: "byte list \<Rightarrow> audit_log \<Rightarrow> bool" where
  "rotates bytes l =
     (case al_max l of
        None \<Rightarrow> False
      | Some m \<Rightarrow> \<not> al_rotated l \<and> exceeds m (length (log_bytes l)) (length bytes))"

definition append_audit ::
  "(AuditRecord \<Rightarrow> byte list option) \<Rightarrow> audit_answers \<Rightarrow> audit_item \<Rightarrow> audit_log
     \<Rightarrow> (AppendAuditError + unit) \<times> audit_log" where
  "append_audit to_vec a e l =
     (case audit_line to_vec (aa_secs a) e of
        None \<Rightarrow> (Inl AuditSerialize, l)
      | Some bytes \<Rightarrow>
          (case aa_stat a of
             Some err \<Rightarrow> (Inl (AuditOpen err), l)
           | None \<Rightarrow>
               (case (if rotates bytes l then rotate_audit a l else (Inr (), l)) of
                  (Inl err, l) \<Rightarrow> (Inl err, l)
                | (Inr _, l) \<Rightarrow> write_audit a bytes l)))"

fun append_all ::
  "(AuditRecord \<Rightarrow> byte list option) \<Rightarrow> (audit_answers \<times> audit_item) list \<Rightarrow> audit_log
     \<Rightarrow> (AppendAuditError + unit) list \<times> audit_log" where
  "append_all to_vec [] l = ([], l)"
| "append_all to_vec ((a, e) # aes) l =
     (case append_audit to_vec a e l of
        (r, l) \<Rightarrow> (case append_all to_vec aes l of (rs, l) \<Rightarrow> (r # rs, l)))"

subsection \<open>No line is lost\<close>

text \<open>What the process has written since it started, wherever it is now.\<close>

definition kept :: "audit_log \<Rightarrow> byte list" where
  "kept l = (if al_rotated l then (case al_old l of None \<Rightarrow> [] | Some bs \<Rightarrow> bs) @ log_bytes l else log_bytes l)"

lemma log_bytes_update [simp]: "log_bytes (l\<lparr>al_log := Some bs\<rparr>) = bs" "log_bytes (l\<lparr>al_log := None\<rparr>) = []"
  by (simp_all add: log_bytes_def)

lemma rotate_kept:
  "rotate_audit a l = (r, l') \<Longrightarrow> \<not> al_rotated l \<Longrightarrow>
     kept l' = kept l \<and> al_max l' = al_max l \<and> (r = Inr u \<longrightarrow> al_log l' = None \<and> al_rotated l')
     \<and> (r = Inl e \<longrightarrow> \<not> al_rotated l')"
  by (auto simp: rotate_audit_def kept_def log_bytes_def split: option.splits fs_error.splits)

lemma open_kept:
  "open_audit a l = (r, l') \<Longrightarrow>
     kept l' = kept l \<and> al_max l' = al_max l \<and> al_rotated l' = al_rotated l \<and> al_old l' = al_old l \<and> log_bytes l' = log_bytes l"
  by (auto simp: open_audit_def kept_def log_bytes_def split: option.splits fs_error.splits if_splits)

lemma write_kept:
  assumes "write_audit a bytes l = (r, l')"
  shows "al_rotated l' = al_rotated l \<and> (\<exists>part. kept l' = kept l @ part \<and> (r = Inr () \<longrightarrow> part = bytes))"
proof -
  obtain o1 l2 where o: "open_audit a l = (o1, l2)" by fastforce
  have "kept (l2\<lparr>al_log := Some (log_bytes l2 @ part)\<rparr>) = kept l @ part" for part
    using open_kept[OF o] by (simp add: kept_def)
  then show ?thesis
    using assms o open_kept[OF o] by (auto simp: write_audit_def split: sum.splits option.splits)
qed

lemma append_kept:
  assumes "append_audit to_vec a e l = (r, l')"
  shows "\<exists>part. kept l' = kept l @ part \<and> (r = Inr () \<longrightarrow> audit_line to_vec (aa_secs a) e = Some part)"
proof (cases "audit_line to_vec (aa_secs a) e")
  case (Some bytes)
  obtain q l1 where q: "(if rotates bytes l then rotate_audit a l else (Inr (), l)) = (q, l1)" by fastforce
  have same: "kept l1 = kept l"
    using q rotate_kept[of a l q l1] by (auto simp: rotates_def split: if_splits option.splits)
  have "(\<exists>err. r = Inl err \<and> kept l' = kept l) \<or> write_audit a bytes l1 = (r, l')"
    using assms Some q same unfolding append_audit_def by (simp split: option.splits sum.splits) auto
  then show ?thesis using write_kept[of a bytes l1 r l'] same Some by auto
qed (use assms in \<open>auto simp: append_audit_def\<close>)

text \<open>
  C29: no line of the audit log is lost. From the start of the process on, whatever the calls on the
  files answer and however many appends fail, the rotated file and the log together hold what was
  in the log at the start followed by what each append wrote, in their order; an append that reports
  success has written exactly its line.
\<close>

theorem audit_lines_are_kept:
  assumes "append_all to_vec aes l = (rs, l')" "\<not> al_rotated l"
  shows "\<exists>parts. kept l' = log_bytes l @ concat parts \<and> length parts = length aes \<and> length rs = length aes
     \<and> (\<forall>i < length aes. rs ! i = Inr () \<longrightarrow>
          audit_line to_vec (aa_secs (fst (aes ! i))) (snd (aes ! i)) = Some (parts ! i))"
proof -
  have "\<exists>parts. kept l' = kept l @ concat parts \<and> length parts = length aes \<and> length rs = length aes
     \<and> (\<forall>i < length aes. rs ! i = Inr () \<longrightarrow>
          audit_line to_vec (aa_secs (fst (aes ! i))) (snd (aes ! i)) = Some (parts ! i))"
    using assms(1)
  proof (induction aes arbitrary: l rs)
    case (Cons ae aes)
    obtain a e where ae: "ae = (a, e)" by (cases ae)
    obtain r l1 where r: "append_audit to_vec a e l = (r, l1)" by fastforce
    obtain rs1 where rs: "append_all to_vec aes l1 = (rs1, l')" "rs = r # rs1"
      using Cons.prems ae r by (auto split: prod.splits)
    obtain part where p: "kept l1 = kept l @ part" "r = Inr () \<longrightarrow> audit_line to_vec (aa_secs a) e = Some part"
      using append_kept[OF r] by blast
    obtain parts where ps: "kept l' = kept l1 @ concat parts" "length parts = length aes" "length rs1 = length aes"
      "\<forall>i < length aes. rs1 ! i = Inr () \<longrightarrow>
          audit_line to_vec (aa_secs (fst (aes ! i))) (snd (aes ! i)) = Some (parts ! i)"
      using Cons.IH[OF rs(1)] by blast
    show ?case
      using p ps rs(2) ae by (intro exI[of _ "part # parts"]) (auto simp: nth_Cons split: nat.splits)
  qed simp
  then show ?thesis using assms(2) by (simp add: kept_def)
qed

definition audit_works :: "nat \<Rightarrow> audit_answers" where
  "audit_works secs = \<lparr>aa_secs = secs, aa_stat = None, aa_remove_old = Some NotFound, aa_rename = None, aa_create = None,
     aa_open = None, aa_write = None, aa_flush = None\<rparr>"

theorem audit_lines_are_kept_witness:
  "\<exists>parts. kept (snd (append_all (\<lambda>r. Some (as_bytes (ar_method r)))
        [(audit_works 1, AuditSystem, ''login'', AuditFields_default, ''ok''),
         (audit_works 2, AuditSystem, ''lock_vault'', AuditFields_default, ''ok'')]
        \<lparr>al_log = Some [1, 2], al_old = None, al_max = Some 6, al_rotated = False\<rparr>)) = [1, 2] @ concat parts
     \<and> length parts = 2 \<and> parts ! 1 = as_bytes ''lock_vault'' @ [10]"
proof -
  let ?to_vec = "\<lambda>r. Some (as_bytes (ar_method r))"
  let ?aes = "[(audit_works 1, AuditSystem, ''login'', AuditFields_default, ''ok''),
         (audit_works 2, AuditSystem, ''lock_vault'', AuditFields_default, ''ok'')]"
  let ?l = "\<lparr>al_log = Some [1, 2], al_old = None, al_max = Some 6, al_rotated = False\<rparr>"
  have ok: "fst (append_all ?to_vec ?aes ?l) ! 1 = Inr ()"
    by (simp add: append_audit_def audit_line_def audit_record_def rotates_def exceeds_def rotate_audit_def write_audit_def
        open_audit_def audit_works_def)
  obtain rs l' where run: "append_all ?to_vec ?aes ?l = (rs, l')" by fastforce
  obtain parts where "kept l' = log_bytes ?l @ concat parts" "length parts = length ?aes"
      "\<forall>i < length ?aes. rs ! i = Inr () \<longrightarrow>
          audit_line ?to_vec (aa_secs (fst (?aes ! i))) (snd (?aes ! i)) = Some (parts ! i)"
    using audit_lines_are_kept[OF run] by auto
  then show ?thesis
    using run ok by (intro exI[of _ parts]) (auto simp: log_bytes_def audit_line_def audit_record_def dest!: spec[of _ 1])
qed

end
