(* ===== verification/Daemon.thy ===== *)
theory Daemon
  imports Service_Config Vault Session_Runs Stepwise_Runs Cookie_Store Executor_Conn Audit_Log Leakscan
begin

section \<open>The daemon\<close>

text \<open>
  The handlers of \<open>main.rs\<close> and \<open>stepwise.rs\<close> that work on several components, over one record of the
  daemon's state. Each definition is a handler run from its beginning to its end with nothing in
  between; what may happen between its critical sections is the subject of \<open>Session_Runs\<close> and
  \<open>Stepwise_Runs\<close>. What executors, timers and files answer is a record of the environment, and
  \<open>dm_effects\<close> collects what the daemon asked executors to do, the latest first. The audit lines are
  those of \<open>va_audit\<close>, handed to \<open>append_audit\<close>, the latest first. \<open>de_now env k\<close> is the \<open>k\<close>-th reading
  of the clock by a handler.
\<close>

datatype daemon_effect =
    ExportCookies nat
  | ReleaseLease nat LeaseTarget
  | ShutdownExecutor nat
  | StopChild nat
  | StopPending nat "ExecutorStepRequest list \<times> nat"
  | LeaseTab nat
  | StartLogin "Cookie ExecutorLoginWithCookies"
  | StartBegin "Cookie ExecutorBeginRequest"
  | StartAuthorize ExecutorAuthorizeDeviceRequest
  | StartProxy ApiProxyConfig ApiProxyStartOptions
  | StartMcp McpServerConfig McpServerLaunch
  | SendStep nat ExecutorStepRequest
  | RunApproval "(string \<times> string) list"

record DaemonState =
  dm_vault :: vault
  dm_grants :: ApprovalGrants
  dm_peers :: PeerStore
  dm_table :: session_table
  dm_controls :: "(StartKey, StartControl) table"
  dm_totp :: "(string, instant) table"
  dm_ledger :: Ledger
  dm_slots :: "(slot, PendingExecutor) table"
  dm_cookies :: cookie_dir
  dm_store :: CookieStore
  dm_approve_cmd :: "string option"
  dm_session_ttl :: duration
  dm_max_lifetime :: duration
  dm_shutting_down :: bool
  dm_proxies :: "(string, ApiProxyConfig) table"
  dm_mcp_servers :: "(string, McpServerConfig) table"
  dm_effects :: "daemon_effect list"

datatype approve_end = ApSpawnFailed | ApExited bool | ApWaitFailed | ApTimedOut

record ('w, 'i) DaemonEnv =
  de_vault :: "('w, 'i) VaultEnv"
  de_now :: "nat \<Rightarrow> instant"
  de_unix_now :: f64
  de_lib :: cookie_lib
  de_dir :: dir_answers
  de_write :: write_answers
  de_export :: "nat \<Rightarrow> json option"
  de_release :: "nat \<Rightarrow> LeaseTarget \<Rightarrow> bool"
  de_lease :: "nat \<Rightarrow> ErrorCode + string"
  de_start :: "Cookie ExecutorLoginWithCookies \<Rightarrow> ExecutorFailure + (ParsedLoginResponse \<times> nat)"
  de_begin :: "Cookie ExecutorBeginRequest \<Rightarrow> ExecutorFailure + (ExecutorState \<times> nat)"
  de_authorize :: "ExecutorAuthorizeDeviceRequest \<Rightarrow> ExecutorFailure + ReturnedCookies"
  de_proxy :: "ApiProxyConfig \<Rightarrow> ApiProxyStartOptions \<Rightarrow> ErrorCode + (u16 \<times> string \<times> nat \<times> ReturnedCookies)"
  de_mcp :: "McpServerConfig \<Rightarrow> McpServerLaunch \<Rightarrow> ErrorCode + (u16 \<times> string \<times> nat)"
  de_step :: "nat \<Rightarrow> ExecutorStepRequest \<Rightarrow> ExecutorFailure + ExecutorState"
  de_reader :: "nat \<Rightarrow> bool"
  de_ports_ok :: bool
  de_session_id :: string
  de_browser_id :: string
  de_login_id :: string
  de_slot :: slot
  de_approve :: "string \<Rightarrow> (string \<times> string) list \<Rightarrow> approve_end"
  de_approval_code :: "unit + byte"
  de_code_of :: "string \<Rightarrow> u64 \<Rightarrow> string"
  de_secs :: u64

definition effect :: "daemon_effect \<Rightarrow> DaemonState \<Rightarrow> DaemonState" where
  "effect e d = d\<lparr>dm_effects := e # dm_effects d\<rparr>"

definition daemon_audit :: "AuditPeer \<Rightarrow> string \<Rightarrow> AuditFields \<Rightarrow> string \<Rightarrow> DaemonState \<Rightarrow> DaemonState" where
  "daemon_audit peer meth fs outcome d =
     d\<lparr>dm_vault := (dm_vault d)\<lparr>va_audit := (peer, meth, fs, outcome) # va_audit (dm_vault d)\<rparr>\<rparr>"

definition audit_system_session :: "string \<Rightarrow> string \<Rightarrow> string \<Rightarrow> bool option \<Rightarrow> DaemonState \<Rightarrow> DaemonState" where
  "audit_system_session meth sess ns saved d =
     daemon_audit AuditSystem meth
       (AuditFields_default\<lparr>af_session_id := Some sess, af_namespace := Some ns, af_cookies_saved := saved\<rparr>) ''ok'' d"

subsection \<open>Ending sessions\<close>

definition export_cookies_of :: "('w, 'i) DaemonEnv \<Rightarrow> BrowserKey \<Rightarrow> nat \<Rightarrow> DaemonState \<Rightarrow> bool \<times> DaemonState" where
  "export_cookies_of env k ex d =
     (case export_browser_cookies (de_lib env) (dm_store d) (de_dir env) (de_write env) (de_unix_now env) k
             (de_export env ex) (dm_cookies d) of
        (saved, cd) \<Rightarrow> (saved, effect (ExportCookies ex) (d\<lparr>dm_cookies := cd\<rparr>)))"

definition release :: "('w, 'i) DaemonEnv \<Rightarrow> nat \<Rightarrow> LeaseTarget \<Rightarrow> DaemonState \<Rightarrow> bool \<times> DaemonState" where
  "release env ex tgt d = (de_release env ex tgt, effect (ReleaseLease ex tgt) d)"

fun release_leases ::
  "('w, 'i) DaemonEnv \<Rightarrow> nat \<Rightarrow> bool \<Rightarrow> (string \<times> Lease) list \<Rightarrow> DaemonState \<Rightarrow> DaemonState" where
  "release_leases env ex all_leases [] d = d"
| "release_leases env ex all_leases ((sess, l) # ls) d =
     (if \<not> all_leases \<and> \<not> LeaseTarget_is_service (target l) then release_leases env ex all_leases ls d
      else case release env ex (target l) d of
             (True, d) \<Rightarrow> release_leases env ex all_leases ls d
           | (False, d) \<Rightarrow> d)"

definition terminate_browser ::
  "('w, 'i) DaemonEnv \<Rightarrow> Browser \<Rightarrow> string \<Rightarrow> bool \<Rightarrow> DaemonState \<Rightarrow> DaemonState" where
  "terminate_browser env b meth all_leases d =
     (let (saved, d) = (if persist_cookies b
                        then (case export_cookies_of env (key b) (executor b) d of (saved, d) \<Rightarrow> (Some saved, d))
                        else (None, d));
          d = release_leases env (executor b) all_leases (leases b) d;
          d = effect (ShutdownExecutor (executor b)) d
      in fold (\<lambda>(sess, _). audit_system_session meth sess (namespace (key b)) saved) (leases b) d)"

definition terminate_browsers :: "('w, 'i) DaemonEnv \<Rightarrow> Browser list \<Rightarrow> DaemonState \<Rightarrow> DaemonState" where
  "terminate_browsers env bs d = fold (\<lambda>b. terminate_browser env b ''session_terminated'' True) bs d"

definition expire_browser_at_deadline :: "('w, 'i) DaemonEnv \<Rightarrow> string \<Rightarrow> instant \<Rightarrow> DaemonState \<Rightarrow> DaemonState" where
  "expire_browser_at_deadline env bid now d =
     (case expire_browser_locked bid now (dm_table d) of
        (None, st) \<Rightarrow> d\<lparr>dm_table := st\<rparr>
      | (Some b, st) \<Rightarrow> terminate_browser env b ''session_expired'' False (d\<lparr>dm_table := st\<rparr>))"

text \<open>One tick of \<open>spawn_session_reaper\<close>, and one expired lease.\<close>

definition end_expired_lease :: "('w, 'i) DaemonEnv \<Rightarrow> expired_lease \<Rightarrow> DaemonState \<Rightarrow> DaemonState" where
  "end_expired_lease env x d =
     (let (saved, d) = (if xl_shutdown x \<and> xl_persist x
                        then (case export_cookies_of env (xl_key x) (xl_executor x) d of (saved, d) \<Rightarrow> (Some saved, d))
                        else (None, d));
          (released, d) = release env (xl_executor x) (target (xl_lease x)) d;
          d = (if xl_shutdown x \<or> \<not> released then effect (ShutdownExecutor (xl_executor x)) d else d)
      in audit_system_session ''session_expired'' (xl_session x) (namespace (xl_key x)) saved d)"

definition session_reaper :: "('w, 'i) DaemonEnv \<Rightarrow> instant \<Rightarrow> DaemonState \<Rightarrow> DaemonState" where
  "session_reaper env now d =
     (case session_reaper_locked now (dm_table d) of
        (dead, expired, st) \<Rightarrow>
          fold (end_expired_lease env) expired
            (fold (\<lambda>b. terminate_browser env b ''session_expired'' False) dead (d\<lparr>dm_table := st\<rparr>)))"

definition end_revoked_lease :: "('w, 'i) DaemonEnv \<Rightarrow> expired_lease \<Rightarrow> DaemonState \<Rightarrow> DaemonState" where
  "end_revoked_lease env x d =
     (let d = snd (release env (xl_executor x) (target (xl_lease x)) d);
          d = (if xl_shutdown x then effect (ShutdownExecutor (xl_executor x)) d else d);
          saved = (if xl_shutdown x \<and> xl_persist x then Some False else None)
      in audit_system_session ''session_terminated'' (xl_session x) (namespace (xl_key x)) saved d)"

definition disconnect :: "('w, 'i) DaemonEnv \<Rightarrow> RpcRequest \<Rightarrow> PeerIdentity \<Rightarrow> DaemonState \<Rightarrow> HandledRequest \<times> DaemonState" where
  "disconnect env request peer d =
     (case required_string_param (rq_params request) ''session_id'' of
        Inl e \<Rightarrow> (classified (rq_id request) e, d)
      | Inr sess \<Rightarrow>
          (case disconnect_locked sess (principal_of peer) (dm_table d) of
             (None, st) \<Rightarrow> (classified (rq_id request) ErrorCode.NotFound, d\<lparr>dm_table := st\<rparr>)
           | (Some (l, ex, is_last, cookie_key), st) \<Rightarrow>
               (let d = d\<lparr>dm_table := st\<rparr>;
                    (audit, d) = (case (if is_last then cookie_key else None) of
                                    None \<Rightarrow> (None, d)
                                  | Some k \<Rightarrow>
                                      (case export_cookies_of env k ex d of
                                         (saved, d) \<Rightarrow> (Some (CookieAudit_session_end (Some saved)), d)));
                    (released, d) = release env ex (target l) d;
                    d = (if is_last \<or> \<not> released then effect (ShutdownExecutor ex) d else d)
                in (with_audit_cookies audit (success (rq_id request) (JObj [(''ok'', JBool True)])), d))))"

subsection \<open>Ending stepwise logins\<close>

definition start_control :: "StartKey \<Rightarrow> DaemonState \<Rightarrow> StartControl \<times> DaemonState" where
  "start_control k d =
     (case hget (dm_controls d) k of
        Some c \<Rightarrow> (c, d)
      | None \<Rightarrow> (StartControl_new, d\<lparr>dm_controls := hinsert k StartControl_new (dm_controls d)\<rparr>))"

definition set_control :: "StartKey \<Rightarrow> StartControl \<Rightarrow> DaemonState \<Rightarrow> DaemonState" where
  "set_control k c d = d\<lparr>dm_controls := hinsert k c (dm_controls d)\<rparr>"

definition finish_login ::
  "('w, 'i) DaemonEnv \<Rightarrow> string \<Rightarrow> BrowserKey \<Rightarrow> PendingExecutor option \<Rightarrow> EndReason \<Rightarrow> AuditPeer \<Rightarrow> DaemonState \<Rightarrow> DaemonState" where
  "finish_login env i k pending reason peer d =
     (let f = finish i k pending reason peer;
          d = (case fe_stop f of None \<Rightarrow> d | Some (p, abort) \<Rightarrow> effect (StopPending (pe_handle p) (stop_pending p abort)) d);
          d = (case fe_failure f of
                 None \<Rightarrow> d
               | Some sk \<Rightarrow> (case start_control sk d of (c, d) \<Rightarrow> set_control sk (record_failure (de_now env 0) c) d))
      in case fe_audit f of (p, m, fs, out) \<Rightarrow> daemon_audit p m fs out d)"

definition take_slot :: "slot \<Rightarrow> DaemonState \<Rightarrow> PendingExecutor option \<times> DaemonState" where
  "take_slot sl d = (hget (dm_slots d) sl, d\<lparr>dm_slots := hremove sl (dm_slots d)\<rparr>)"

definition end_entry ::
  "('w, 'i) DaemonEnv \<Rightarrow> EndReason \<Rightarrow> AuditPeer \<Rightarrow> string \<times> LedgerEntry \<Rightarrow> DaemonState \<Rightarrow> DaemonState" where
  "end_entry env reason peer ie d =
     (case ie of (i, e) \<Rightarrow>
       (case take_slot (en_slot e) d of (pending, d) \<Rightarrow> finish_login env i (en_key e) pending reason peer d))"

definition end_all :: "('w, 'i) DaemonEnv \<Rightarrow> EndReason \<Rightarrow> (string \<times> LedgerEntry) list \<Rightarrow> DaemonState \<Rightarrow> DaemonState" where
  "end_all env reason es d = fold (end_entry env reason AuditSystem) es d"

definition stepwise_terminate :: "('w, 'i) DaemonEnv \<Rightarrow> string option \<Rightarrow> EndReason \<Rightarrow> DaemonState \<Rightarrow> DaemonState" where
  "stepwise_terminate env ns reason d =
     (case take_namespace ns (dm_ledger d) of (es, l) \<Rightarrow> end_all env reason es (d\<lparr>dm_ledger := l\<rparr>))"

definition terminate_principal :: "('w, 'i) DaemonEnv \<Rightarrow> string \<Rightarrow> DaemonState \<Rightarrow> DaemonState" where
  "terminate_principal env prin d =
     (case take_principal prin (dm_ledger d) of (es, l) \<Rightarrow> end_all env PeerRevoked es (d\<lparr>dm_ledger := l\<rparr>))"

definition end_leaked :: "('w, 'i) DaemonEnv \<Rightarrow> string \<Rightarrow> PeerIdentity \<Rightarrow> DaemonState \<Rightarrow> DaemonState" where
  "end_leaked env i peer d =
     (case take_owned i (principal_of peer) (dm_ledger d) of
        (None, l) \<Rightarrow> d\<lparr>dm_ledger := l\<rparr>
      | (Some e, l) \<Rightarrow> end_entry env EndReason.Rejected (AuditPeer peer) (i, e) (d\<lparr>dm_ledger := l\<rparr>))"

definition terminate_peer_leases :: "('w, 'i) DaemonEnv \<Rightarrow> string \<Rightarrow> DaemonState \<Rightarrow> DaemonState" where
  "terminate_peer_leases env i d =
     (let d = terminate_principal env (''peer:'' @ i) d in
      case terminate_peer_leases_locked i (dm_table d) of
        (removed, st) \<Rightarrow> fold (end_revoked_lease env) removed (d\<lparr>dm_table := st\<rparr>))"

subsection \<open>Locking the vault\<close>

definition lock_vault ::
  "('w, 'i) DaemonEnv \<Rightarrow> RpcRequest \<Rightarrow> DaemonState \<Rightarrow> 'w \<Rightarrow> HandledRequest \<times> DaemonState \<times> 'w" where
  "lock_vault env request d w =
     (case optional_namespace (rq_params request) of
        Inl e \<Rightarrow> (classified (rq_id request) e, d, w)
      | Inr ns \<Rightarrow>
          (let d = d\<lparr>dm_grants := revoke ns (dm_grants d)\<rparr> in
           case lock_providers (de_vault env) (select_providers ns (dm_vault d)) (dm_vault d) w of
             (Inl e, v, w) \<Rightarrow> (classified (rq_id request) e, d\<lparr>dm_vault := v\<rparr>, w)
           | (Inr _, v, w) \<Rightarrow>
               (let d = d\<lparr>dm_vault := v\<rparr>;
                    (bs, st) = drain_browsers ns (dm_table d);
                    d = terminate_browsers env bs (d\<lparr>dm_table := st\<rparr>);
                    d = stepwise_terminate env ns LockVault d
                in (success (rq_id request) (JObj [(''ok'', JBool True)]), d, w))))"

subsection \<open>What ending sessions leaves alone\<close>

text \<open>
  Ending browsers, leases and stepwise logins sends requests, writes audit lines, saves cookies and
  counts failures; it changes nothing else, and neither requests nor lines are taken back.
\<close>

definition config_of ::
  "DaemonState \<Rightarrow> CookieStore \<times> string option \<times> duration \<times> duration \<times> bool
     \<times> (string, ApiProxyConfig) table \<times> (string, McpServerConfig) table" where
  "config_of d = (dm_store d, dm_approve_cmd d, dm_session_ttl d, dm_max_lifetime d, dm_shutting_down d,
     dm_proxies d, dm_mcp_servers d)"

lemma config_update [simp]:
  "config_of (effect e d) = config_of d" "config_of (daemon_audit p m fs out d) = config_of d"
  "config_of (d\<lparr>dm_cookies := cd\<rparr>) = config_of d" "config_of (d\<lparr>dm_controls := cs\<rparr>) = config_of d"
  "config_of (d\<lparr>dm_slots := sl\<rparr>) = config_of d" "config_of (d\<lparr>dm_table := st\<rparr>) = config_of d"
  "config_of (d\<lparr>dm_vault := v\<rparr>) = config_of d" "config_of (d\<lparr>dm_grants := g\<rparr>) = config_of d"
  "config_of (d\<lparr>dm_totp := t\<rparr>) = config_of d" "config_of (d\<lparr>dm_ledger := l\<rparr>) = config_of d"
  "config_of (d\<lparr>dm_peers := p'\<rparr>) = config_of d" "config_of (d\<lparr>dm_effects := es\<rparr>) = config_of d"
  by (simp_all add: config_of_def effect_def daemon_audit_def)

definition ends_only :: "DaemonState \<Rightarrow> DaemonState \<Rightarrow> bool" where
  "ends_only d d' \<longleftrightarrow>
     dm_table d' = dm_table d \<and> dm_grants d' = dm_grants d \<and> dm_peers d' = dm_peers d \<and> dm_ledger d' = dm_ledger d
     \<and> config_of d' = config_of d
     \<and> va_providers (dm_vault d') = va_providers (dm_vault d) \<and> va_registry (dm_vault d') = va_registry (dm_vault d)
     \<and> set (dm_effects d) \<subseteq> set (dm_effects d') \<and> set (va_audit (dm_vault d)) \<subseteq> set (va_audit (dm_vault d'))"

lemma ends_only_refl [simp, intro]: "ends_only d d"
  by (simp add: ends_only_def)

lemma ends_only_trans [trans]: "ends_only d d1 \<Longrightarrow> ends_only d1 d2 \<Longrightarrow> ends_only d d2"
  unfolding ends_only_def by auto

lemma ends_only_basic [intro]:
  "ends_only d (effect e d)" "ends_only d (daemon_audit p m fs out d)" "ends_only d (d\<lparr>dm_cookies := cd\<rparr>)"
  "ends_only d (d\<lparr>dm_controls := cs\<rparr>)" "ends_only d (d\<lparr>dm_slots := sl\<rparr>)"
  by (auto simp: ends_only_def effect_def daemon_audit_def)

lemma ends_only_fold: "(\<And>x d. x \<in> set xs \<Longrightarrow> ends_only d (f x d)) \<Longrightarrow> ends_only d (fold f xs d)"
proof (induction xs arbitrary: d)
  case (Cons x xs)
  have "ends_only d (f x d)" using Cons.prems by simp
  also have "ends_only (f x d) (fold f xs (f x d))" using Cons by simp
  finally show ?case by simp
qed simp

lemma ends_only_audit_session [intro]: "ends_only d (audit_system_session m s ns saved d)"
  unfolding audit_system_session_def by (rule ends_only_basic)

lemma ends_only_export: "ends_only d (snd (export_cookies_of env k ex d))"
proof -
  obtain saved cd where "export_browser_cookies (de_lib env) (dm_store d) (de_dir env) (de_write env) (de_unix_now env) k
             (de_export env ex) (dm_cookies d) = (saved, cd)" by fastforce
  then have "snd (export_cookies_of env k ex d) = effect (ExportCookies ex) (d\<lparr>dm_cookies := cd\<rparr>)"
    by (simp add: export_cookies_of_def)
  then show ?thesis using ends_only_trans ends_only_basic by metis
qed

lemma ends_only_export_pair: "export_cookies_of env k ex d = (saved, d') \<Longrightarrow> ends_only d d'"
  using ends_only_export[of d env k ex] by simp

lemma ends_only_release_leases: "ends_only d (release_leases env ex a ls d)"
proof (induction env ex a ls d rule: release_leases.induct)
  case (2 env ex a s l ls d)
  show ?case
    using 2 ends_only_basic(1)[of d "ReleaseLease ex (target l)"]
    by (auto simp: release_def split: bool.splits intro: ends_only_trans)
qed simp

lemma audit_session_in:
  "(AuditSystem, m, AuditFields_default\<lparr>af_session_id := Some s, af_namespace := Some ns, af_cookies_saved := saved\<rparr>, ''ok'')
     \<in> set (va_audit (dm_vault (audit_system_session m s ns saved d)))"
  by (simp add: audit_system_session_def daemon_audit_def)

lemma ends_only_audit_in: "ends_only d d' \<Longrightarrow> x \<in> set (va_audit (dm_vault d)) \<Longrightarrow> x \<in> set (va_audit (dm_vault d'))"
  by (auto simp: ends_only_def)

lemma fold_audit_session:
  assumes "d' = fold (\<lambda>(s, _). audit_system_session m s ns saved) ls d"
  shows "ends_only d d'"
    and "(s, l) \<in> set ls \<Longrightarrow> (AuditSystem, m, AuditFields_default\<lparr>af_session_id := Some s, af_namespace := Some ns,
        af_cookies_saved := saved\<rparr>, ''ok'') \<in> set (va_audit (dm_vault d'))"
proof -
  show "ends_only d d'" unfolding assms by (rule ends_only_fold) (auto split: prod.splits)
  show "(s, l) \<in> set ls \<Longrightarrow> (AuditSystem, m, AuditFields_default\<lparr>af_session_id := Some s, af_namespace := Some ns,
        af_cookies_saved := saved\<rparr>, ''ok'') \<in> set (va_audit (dm_vault d'))"
    unfolding assms
  proof (induction ls arbitrary: d)
    case (Cons x ls)
    let ?f = "\<lambda>(s, _). audit_system_session m s ns saved"
    have "ends_only (?f x d) (fold ?f ls (?f x d))" by (rule ends_only_fold) (auto split: prod.splits)
    from ends_only_audit_in[OF this] show ?case
      using Cons audit_session_in by (cases x) auto
  qed simp
qed

lemma terminate_browser_ends:
  "ends_only d (terminate_browser env b m a d)
   \<and> ShutdownExecutor (executor b) \<in> set (dm_effects (terminate_browser env b m a d))
   \<and> (\<forall>s l. (s, l) \<in> set (leases b) \<longrightarrow> (\<exists>saved. (AuditSystem, m, AuditFields_default\<lparr>af_session_id := Some s,
        af_namespace := Some (namespace (key b)), af_cookies_saved := saved\<rparr>, ''ok'')
          \<in> set (va_audit (dm_vault (terminate_browser env b m a d)))))"
proof -
  obtain saved d1 where s: "(if persist_cookies b
       then (case export_cookies_of env (key b) (executor b) d of (saved, d) \<Rightarrow> (Some saved, d)) else (None, d)) = (saved, d1)"
    by fastforce
  have 1: "ends_only d d1" using s ends_only_export_pair by (auto split: if_splits prod.splits)
  let ?d2 = "effect (ShutdownExecutor (executor b)) (release_leases env (executor b) a (leases b) d1)"
  have 2: "ends_only d1 ?d2" using ends_only_release_leases ends_only_basic(1) ends_only_trans by blast
  let ?d3 = "fold (\<lambda>(s, _). audit_system_session m s (namespace (key b)) saved) (leases b) ?d2"
  have f: "ends_only ?d2 ?d3" "(s, l) \<in> set (leases b) \<Longrightarrow> (AuditSystem, m, AuditFields_default\<lparr>af_session_id := Some s,
      af_namespace := Some (namespace (key b)), af_cookies_saved := saved\<rparr>, ''ok'') \<in> set (va_audit (dm_vault ?d3))" for s l
    by (rule fold_audit_session(1)[OF refl]) (rule fold_audit_session(2)[OF refl])
  have t: "terminate_browser env b m a d = ?d3" by (simp add: terminate_browser_def s)
  have "ShutdownExecutor (executor b) \<in> set (dm_effects ?d3)"
    using f(1) by (auto simp: ends_only_def effect_def)
  then show ?thesis unfolding t using f 1 2 ends_only_trans by blast
qed

lemma terminate_browsers_ends:
  assumes "b \<in> set bs"
  shows "ends_only d (terminate_browsers env bs d)
    \<and> ShutdownExecutor (executor b) \<in> set (dm_effects (terminate_browsers env bs d))
    \<and> (\<forall>s l. (s, l) \<in> set (leases b) \<longrightarrow> (\<exists>saved. (AuditSystem, ''session_terminated'', AuditFields_default\<lparr>af_session_id := Some s,
        af_namespace := Some (namespace (key b)), af_cookies_saved := saved\<rparr>, ''ok'')
          \<in> set (va_audit (dm_vault (terminate_browsers env bs d)))))"
  using assms
proof (induction bs arbitrary: d)
  case (Cons c bs)
  let ?d1 = "terminate_browser env c ''session_terminated'' True d"
  have rest: "ends_only ?d1 (terminate_browsers env bs ?d1)"
    unfolding terminate_browsers_def by (rule ends_only_fold) (use terminate_browser_ends in blast)
  have step: "terminate_browsers env (c # bs) d = terminate_browsers env bs ?d1" by (simp add: terminate_browsers_def)
  note c = terminate_browser_ends[of d env c "''session_terminated''" True]
  show ?case
  proof (cases "b = c")
    case True
    have "ShutdownExecutor (executor b) \<in> set (dm_effects (terminate_browsers env bs ?d1))"
      using c rest True by (auto simp: ends_only_def)
    then show ?thesis
      unfolding step using c ends_only_trans[OF _ rest] ends_only_audit_in[OF rest] unfolding True by metis
  next
    case False
    then have "b \<in> set bs" using Cons.prems by simp
    from Cons.IH[OF this, of ?d1] show ?thesis unfolding step using c ends_only_trans by blast
  qed
qed simp

lemma terminate_browsers_ends_only: "ends_only d (terminate_browsers env bs d)"
  unfolding terminate_browsers_def by (rule ends_only_fold) (use terminate_browser_ends in blast)

lemma ends_only_finish: "ends_only d (finish_login env i k pending reason peer d)"
proof -
  let ?f = "finish i k pending reason peer"
  let ?d1 = "case fe_stop ?f of None \<Rightarrow> d | Some (p, abort) \<Rightarrow> effect (StopPending (pe_handle p) (stop_pending p abort)) d"
  let ?d2 = "case fe_failure ?f of None \<Rightarrow> ?d1 | Some sk \<Rightarrow>
      (case start_control sk ?d1 of (c, d) \<Rightarrow> set_control sk (record_failure (de_now env 0) c) d)"
  have "ends_only d ?d1" by (auto split: option.splits)
  also have "ends_only ?d1 ?d2"
    by (auto simp: start_control_def set_control_def ends_only_def split: option.splits)
  also have "ends_only ?d2 (finish_login env i k pending reason peer d)"
    by (auto simp: finish_login_def Let_def split: prod.splits)
  finally show ?thesis .
qed

lemma ends_only_end_entry: "ends_only d (end_entry env reason peer ie d)"
  using ends_only_trans[OF ends_only_basic(5) ends_only_finish]
  by (cases ie) (simp add: end_entry_def take_slot_def)

lemma ends_only_end_all: "ends_only d (end_all env reason es d)"
  unfolding end_all_def by (rule ends_only_fold) (rule ends_only_end_entry)

lemma dm_slots_ends [simp]:
  "dm_slots (effect x d) = dm_slots d" "dm_slots (daemon_audit p m fs out d) = dm_slots d"
  "dm_slots (audit_system_session m s ns saved d) = dm_slots d"
  by (simp_all add: effect_def daemon_audit_def audit_system_session_def)

lemma dm_slots_fold: "(\<And>x d. dm_slots (f x d) = dm_slots d) \<Longrightarrow> dm_slots (fold f xs d) = dm_slots d"
  by (induction xs arbitrary: d) simp_all

lemma dm_slots_release_leases: "dm_slots (release_leases env ex a ls d) = dm_slots d"
proof (induction env ex a ls d rule: release_leases.induct)
  case (2 env ex a s l ls d)
  then show ?case by (cases "de_release env ex (target l)") (simp_all add: release_def)
qed simp

lemma terminate_browsers_slots: "dm_slots (terminate_browsers env bs d) = dm_slots d"
proof -
  have "dm_slots (snd (export_cookies_of env k ex d)) = dm_slots d" for k ex d
    by (simp add: export_cookies_of_def split: prod.split)
  then have x: "export_cookies_of env k ex d = (saved, d') \<Longrightarrow> dm_slots d' = dm_slots d" for k ex d saved d'
    by (metis snd_conv)
  have "dm_slots (terminate_browser env b m a d) = dm_slots d" for b m a d
  proof -
    obtain saved d1 where s: "(if persist_cookies b
         then (case export_cookies_of env (key b) (executor b) d of (saved, d) \<Rightarrow> (Some saved, d)) else (None, d)) = (saved, d1)"
      by fastforce
    have "dm_slots d1 = dm_slots d" using s x by (auto split: if_splits prod.splits)
    moreover have "dm_slots (fold (\<lambda>(sess, _). audit_system_session m sess n sv) ls d0) = dm_slots d0" for n sv and ls :: "(string \<times> Lease) list" and d0
      by (rule dm_slots_fold) (simp split: prod.split)
    ultimately show ?thesis by (simp add: terminate_browser_def s dm_slots_release_leases)
  qed
  then show ?thesis unfolding terminate_browsers_def by (rule dm_slots_fold)
qed

lemma dm_slots_finish: "dm_slots (finish_login env i k pending reason peer d) = dm_slots d"
  by (auto simp: finish_login_def start_control_def set_control_def Let_def split: option.splits prod.splits)

text \<open>A stepwise login that is ended has its line in the audit, and its executor has been told to stop.\<close>

lemma end_entry_ends:
  "(peer, audit_method reason, end_fields i (en_key e) None, end_outcome reason)
     \<in> set (va_audit (dm_vault (end_entry env reason peer (i, e) d)))
   \<and> (\<forall>p. hget (dm_slots d) (en_slot e) = Some p \<longrightarrow>
        StopPending (pe_handle p) (stop_pending p (reason = AbortedByCaller)) \<in> set (dm_effects (end_entry env reason peer (i, e) d)))
   \<and> dm_slots (end_entry env reason peer (i, e) d) = hremove (en_slot e) (dm_slots d)"
  by (auto simp: end_entry_def take_slot_def dm_slots_finish)
    (auto simp: finish_login_def finish_def daemon_audit_def effect_def start_control_def set_control_def Let_def split: option.splits)

lemma end_all_ends:
  assumes "(i, e) \<in> set es"
  shows "(AuditSystem, audit_method reason, end_fields i (en_key e) None, end_outcome reason)
      \<in> set (va_audit (dm_vault (end_all env reason es d)))
    \<and> (\<forall>p. hget (dm_slots d) (en_slot e) = Some p \<longrightarrow>
         StopPending (pe_handle p) (stop_pending p (reason = AbortedByCaller)) \<in> set (dm_effects (end_all env reason es d)))
    \<and> hget (dm_slots (end_all env reason es d)) (en_slot e) = None"
  using assms
proof (induction es arbitrary: d)
  case (Cons x es)
  obtain j f where x: "x = (j, f)" by fastforce
  let ?d = "end_entry env reason AuditSystem x d"
  have step: "end_all env reason (x # es) d = end_all env reason es ?d" by (simp add: end_all_def)
  have rest: "ends_only ?d (end_all env reason es ?d)" by (rule ends_only_end_all)
  note E = end_entry_ends[of AuditSystem reason j f env d, folded x]
  have keeps: "hget (dm_slots (end_all env reason es d)) sl = None" if "hget (dm_slots d) sl = None" for sl d
    using that
  proof (induction es arbitrary: d)
    case (Cons y es)
    then show ?case using end_entry_ends[of AuditSystem reason "fst y" "snd y" env d] by (simp add: end_all_def)
  qed (simp add: end_all_def)
  have stops: "StopPending (pe_handle p) (stop_pending p (reason = AbortedByCaller)) \<in> set (dm_effects (end_all env reason es ?d))"
    if "hget (dm_slots d) (en_slot f) = Some p" for p
    using E that rest by (auto simp: ends_only_def)
  show ?case
  proof (cases "x = (i, e)")
    case True
    then have "f = e" "j = i" using x by auto
    then show ?thesis unfolding step using E ends_only_audit_in[OF rest] stops keeps[of ?d "en_slot e"] by simp
  next
    case False
    then have i: "(i, e) \<in> set es" using Cons.prems by auto
    show ?thesis
    proof (cases "en_slot f = en_slot e")
      case True
      then show ?thesis unfolding step using Cons.IH[OF i, of ?d] stops by simp
    next
      case False
      then show ?thesis unfolding step using Cons.IH[OF i, of ?d] E by simp
    qed
  qed
qed simp

lemma take_ids_get:
  "hvalid (lg_entries l) \<Longrightarrow> take_ids is l = (es, l') \<Longrightarrow>
     hget (lg_entries l') i = (if i \<in> set is then None else hget (lg_entries l) i)"
proof (induction "is" l arbitrary: es l' rule: take_ids.induct)
  case (2 j "is" l)
  then show ?case
    by (cases "hget (lg_entries l) j") (auto simp: ledger_remove_def split: prod.splits)
qed simp

lemma take_selected_get:
  assumes "hvalid (lg_entries l)" "take_ids (select_ids P l) l = (es, l')"
  shows "hget (lg_entries l') i = (case hget (lg_entries l) i of None \<Rightarrow> None | Some e \<Rightarrow> if P e then None else Some e)"
proof -
  have "i \<in> set (select_ids P l) \<longleftrightarrow> (\<exists>e. hget (lg_entries l) i = Some e \<and> P e)"
    unfolding select_ids_def hget_iff_mem[OF assms(1)] by (force simp: image_iff)
  then show ?thesis
    using take_ids_get[OF assms, of i] by (auto split: option.splits)
qed

lemma take_namespace_get:
  assumes "hvalid (lg_entries l)" "take_namespace ns l = (es, l')"
  shows "hget (lg_entries l') i = (case hget (lg_entries l) i of None \<Rightarrow> None
     | Some e \<Rightarrow> if ns = None \<or> ns = Some (namespace (en_key e)) then None else Some e)"
  unfolding take_selected_get[OF assms(1) assms(2)[unfolded take_namespace_def]] by (auto split: option.splits)

lemma take_namespace_mem:
  assumes "hvalid (lg_entries l)" "take_namespace ns l = (es, l')" "hget (lg_entries l) i = Some e"
    "ns = None \<or> ns = Some (namespace (en_key e))"
  shows "(i, e) \<in> set es"
proof -
  have "i \<in> set (select_ids (\<lambda>e. case ns of None \<Rightarrow> True | Some n \<Rightarrow> n = namespace (en_key e)) l)"
    using assms(4) hget_mem[OF assms(3)] by (force simp: select_ids_def)
  then show ?thesis using take_ids_removes[OF assms(2)[unfolded take_namespace_def], of i e] assms(3) by blast
qed

text \<open>Ending the stepwise logins of a namespace, for whatever reason the daemon has.\<close>

lemma stepwise_terminate_ends:
  assumes "hvalid (lg_entries (dm_ledger d))" "hget (lg_entries (dm_ledger d)) i = Some e"
    "ns = None \<or> ns = Some (namespace (en_key e))"
  shows "(AuditSystem, audit_method reason, end_fields i (en_key e) None, end_outcome reason)
      \<in> set (va_audit (dm_vault (stepwise_terminate env ns reason d)))
    \<and> (\<forall>p. hget (dm_slots d) (en_slot e) = Some p \<longrightarrow>
         StopPending (pe_handle p) (stop_pending p (reason = AbortedByCaller)) \<in> set (dm_effects (stepwise_terminate env ns reason d)))
    \<and> hget (dm_slots (stepwise_terminate env ns reason d)) (en_slot e) = None"
proof -
  obtain es l where t: "take_namespace ns (dm_ledger d) = (es, l)" by fastforce
  show ?thesis
    using end_all_ends[OF take_namespace_mem[OF assms(1) t assms(2,3)], of reason env "d\<lparr>dm_ledger := l\<rparr>"] t
    by (simp add: stepwise_terminate_def)
qed

lemma take_principal_get:
  assumes "hvalid (lg_entries l)" "take_principal prin l = (es, l')"
  shows "hget (lg_entries l') i = (case hget (lg_entries l) i of None \<Rightarrow> None
     | Some e \<Rightarrow> if principal (en_key e) = prin then None else Some e)"
  by (rule take_selected_get[OF assms(1) assms(2)[unfolded take_principal_def]])

subsection \<open>Locking\<close>

lemma lock_vault_parts:
  assumes "optional_namespace (rq_params request) = Inr ns" "lock_vault env request d w = (h, d', w')" "hr_outcome h = ''ok''"
  obtains v w1 bs st where
    "lock_providers (de_vault env) (select_providers ns (dm_vault d)) (dm_vault d) w = (Inr (), v, w1)"
    "drain_browsers ns (dm_table d) = (bs, st)"
    "d' = stepwise_terminate env ns LockVault
       (terminate_browsers env bs (d\<lparr>dm_grants := revoke ns (dm_grants d), dm_vault := v, dm_table := st\<rparr>))"
proof -
  obtain r v w1 where lp: "lock_providers (de_vault env) (select_providers ns (dm_vault d)) (dm_vault d) w = (r, v, w1)"
    by (cases "lock_providers (de_vault env) (select_providers ns (dm_vault d)) (dm_vault d) w")
  obtain bs st where db: "drain_browsers ns (dm_table d) = (bs, st)" by fastforce
  have err: "ErrorCode_as_str e \<noteq> ''ok''" for e by (cases e) simp_all
  show ?thesis
  proof (cases r)
    case (Inl e)
    then have "hr_outcome h = ErrorCode_as_str e"
      using assms(1,2) lp by (auto simp: lock_vault_def Let_def classified_def classified_with_step_def handled_def)
    then show ?thesis using assms(3) err by metis
  next
    case (Inr u)
    then show ?thesis using that[of v w1 bs st] assms(1,2) lp db by (auto simp: lock_vault_def Let_def)
  qed
qed


text \<open>
  C7: a successful \<open>lock_vault\<close> leaves nothing of the namespace (of all namespaces, without one)
  usable: its providers are locked, no approval of its credentials can be reused, and none of its
  browsers, hosted services and stepwise logins is left. The executor of each browser and hosted
  service, and the executor in the slot of each stepwise login, has been told to stop; each ended
  session and each ended stepwise login has its line in the audit. What belongs to other namespaces
  stays.
\<close>

theorem lock_vault_ends_the_namespace:
  assumes inv: "vault_inv (dm_vault d)" "base_inv (dm_table d)" "hvalid (issued (dm_grants d))" "hvalid (lg_entries (dm_ledger d))"
    and ns: "optional_namespace (rq_params request) = Inr ns"
    and run: "lock_vault env request d w = (h, d', w')" and ok: "hr_outcome h = ''ok''"
  shows "(\<forall>n < length (va_providers (dm_vault d')). ns = None \<or> ns = Some (fst (va_providers (dm_vault d') ! n))
             \<longrightarrow> locked (snd (va_providers (dm_vault d') ! n)))
     \<and> (\<forall>p c. hget (issued (dm_grants d')) (p, c) = (if covers ns c then None else hget (issued (dm_grants d)) (p, c)))
     \<and> (\<forall>bid. hget (browsers (dm_table d')) bid = (case hget (browsers (dm_table d)) bid of None \<Rightarrow> None
             | Some b \<Rightarrow> if ns = None \<or> ns = Some (namespace (key b)) then None else Some b))
     \<and> (\<forall>i. hget (lg_entries (dm_ledger d')) i = (case hget (lg_entries (dm_ledger d)) i of None \<Rightarrow> None
             | Some e \<Rightarrow> if ns = None \<or> ns = Some (namespace (en_key e)) then None else Some e))
     \<and> (\<forall>bid b. hget (browsers (dm_table d)) bid = Some b \<longrightarrow> ns = None \<or> ns = Some (namespace (key b)) \<longrightarrow>
          ShutdownExecutor (executor b) \<in> set (dm_effects d')
          \<and> (\<forall>s l. hget (leases b) s = Some l \<longrightarrow> (\<exists>saved. (AuditSystem, ''session_terminated'',
               AuditFields_default\<lparr>af_session_id := Some s, af_namespace := Some (namespace (key b)), af_cookies_saved := saved\<rparr>,
               ''ok'') \<in> set (va_audit (dm_vault d')))))
     \<and> (\<forall>i e. hget (lg_entries (dm_ledger d)) i = Some e \<longrightarrow> ns = None \<or> ns = Some (namespace (en_key e)) \<longrightarrow>
          (AuditSystem, ''stepwise_terminated'', end_fields i (en_key e) None, ''lock_vault'') \<in> set (va_audit (dm_vault d'))
          \<and> (\<forall>p. hget (dm_slots d) (en_slot e) = Some p \<longrightarrow> StopPending (pe_handle p) (stop_pending p False) \<in> set (dm_effects d'))
          \<and> hget (dm_slots d') (en_slot e) = None)"
proof -
  obtain v w1 bs st where lp: "lock_providers (de_vault env) (select_providers ns (dm_vault d)) (dm_vault d) w = (Inr (), v, w1)"
    and db: "drain_browsers ns (dm_table d) = (bs, st)"
    and d': "d' = stepwise_terminate env ns LockVault
       (terminate_browsers env bs (d\<lparr>dm_grants := revoke ns (dm_grants d), dm_vault := v, dm_table := st\<rparr>))"
    using lock_vault_parts[OF ns run ok] by blast
  define d1 where "d1 = d\<lparr>dm_grants := revoke ns (dm_grants d), dm_vault := v, dm_table := st\<rparr>"
  define d2 where "d2 = terminate_browsers env bs d1"
  obtain es l where tn: "take_namespace ns (dm_ledger d2) = (es, l)" by fastforce
  have d'2: "d' = end_all env LockVault es (d2\<lparr>dm_ledger := l\<rparr>)"
    using d' tn by (simp add: stepwise_terminate_def d2_def d1_def)
  have e12: "ends_only d1 d2" unfolding d2_def by (rule terminate_browsers_ends_only)
  have e2: "ends_only (d2\<lparr>dm_ledger := l\<rparr>) d'" unfolding d'2 by (rule ends_only_end_all)
  have led: "dm_ledger d2 = dm_ledger d" using e12 by (simp add: ends_only_def d1_def)
  have fields: "va_providers (dm_vault d') = va_providers v" "dm_grants d' = revoke ns (dm_grants d)" "dm_table d' = st" "dm_ledger d' = l"
    using e12 e2 by (simp_all add: ends_only_def d1_def)
  have lens: "length (va_providers v) = length (va_providers (dm_vault d))" "map fst (va_providers v) = map fst (va_providers (dm_vault d))"
    and lk: "\<forall>n \<in> set (select_providers ns (dm_vault d)). locked (snd (va_providers v ! n))"
    using lock_providers_ok[OF inv(1) distinct_select _ lp] map_eq_imp_length_eq by (auto simp: select_providers_iff)
  have names: "n < length (va_providers v) \<Longrightarrow> fst (va_providers v ! n) = fst (va_providers (dm_vault d) ! n)" for n
    using lens by (metis nth_map)
  have 1: "\<forall>n < length (va_providers (dm_vault d')). ns = None \<or> ns = Some (fst (va_providers (dm_vault d') ! n))
             \<longrightarrow> locked (snd (va_providers (dm_vault d') ! n))"
    using lk lens(1) names unfolding fields by (auto simp: select_providers_iff)
  have 5: "ShutdownExecutor (executor b) \<in> set (dm_effects d')
          \<and> (\<forall>s l. hget (leases b) s = Some l \<longrightarrow> (\<exists>saved. (AuditSystem, ''session_terminated'',
               AuditFields_default\<lparr>af_session_id := Some s, af_namespace := Some (namespace (key b)), af_cookies_saved := saved\<rparr>,
               ''ok'') \<in> set (va_audit (dm_vault d'))))"
    if b: "hget (browsers (dm_table d)) bid = Some b" "ns = None \<or> ns = Some (namespace (key b))" for bid b
  proof -
    have "b \<in> set bs" using drain_exact[OF inv(2) db] b by blast
    from terminate_browsers_ends[OF this, of d1 env, folded d2_def] show ?thesis
      using e2 hget_mem unfolding ends_only_def by fastforce
  qed
  have sl: "dm_slots d2 = dm_slots d" by (simp add: d2_def d1_def terminate_browsers_slots)
  have d'3: "d' = stepwise_terminate env ns LockVault d2" using d' by (simp add: d2_def d1_def)
  have 6: "(AuditSystem, ''stepwise_terminated'', end_fields i (en_key e) None, ''lock_vault'') \<in> set (va_audit (dm_vault d'))
      \<and> (\<forall>p. hget (dm_slots d) (en_slot e) = Some p \<longrightarrow> StopPending (pe_handle p) (stop_pending p False) \<in> set (dm_effects d'))
      \<and> hget (dm_slots d') (en_slot e) = None"
    if "hget (lg_entries (dm_ledger d)) i = Some e" "ns = None \<or> ns = Some (namespace (en_key e))" for i e
    using stepwise_terminate_ends[of d2 i e ns LockVault env] inv(4) that unfolding led sl d'3 by simp
  show ?thesis
    using 1 5 6 hget_revoke[OF inv(3)] drain_exact[OF inv(2) db] take_namespace_get[OF inv(4) tn[unfolded led]]
    unfolding fields by blast
qed

definition demo_daemon :: DaemonState where
  "demo_daemon = \<lparr>dm_vault = demo_vault, dm_grants = \<lparr>ttl = 10, issued = [((''uid:1'', ''op:e''), 0)], generation = 0\<rparr>,
     dm_peers = example_store, dm_table = example_table, dm_controls = [], dm_totp = [], dm_ledger = Ledger_new 1 1,
     dm_slots = [], dm_cookies = ex_dir, dm_store = ex_store, dm_approve_cmd = None, dm_session_ttl = 1,
     dm_max_lifetime = 1, dm_shutting_down = False, dm_proxies = [], dm_mcp_servers = [], dm_effects = []\<rparr>"

definition demo_lock_request :: RpcRequest where
  "demo_lock_request = \<lparr>rq_jsonrpc = ''2.0'', rq_id = JInt 1, rq_method = ''lock_vault'',
     rq_params = JObj [(''namespace'', JStr ''op'')]\<rparr>"

lemma demo_ns: "optional_namespace (rq_params demo_lock_request) = Inr (Some ''op'')"
  by (simp add: demo_lock_request_def optional_namespace_def)

lemma demo_inv:
  "vault_inv (dm_vault demo_daemon)" "base_inv (dm_table demo_daemon)" "hvalid (issued (dm_grants demo_daemon))"
  "hvalid (lg_entries (dm_ledger demo_daemon))"
proof -
  have "base_inv (rs_table example_run)" by (rule run_invD(2)[OF session_run_inv[OF example_session_run]])
  then show "base_inv (dm_table demo_daemon)" by (simp add: demo_daemon_def example_run_def)
qed (auto simp: demo_daemon_def vault_inv_def demo_vault_def demo_static_def static_secrets_def hvalid_def Ledger_new_def)

lemma demo_select: "select_providers (Some ''op'') demo_vault = [0]"
  by (simp add: select_providers_def demo_vault_def)

lemma lock_vault_succeeds:
  assumes "optional_namespace (rq_params request) = Inr ns"
    "lock_providers (de_vault env) (select_providers ns (dm_vault d)) (dm_vault d) w = (Inr u, v, w1)"
    "lock_vault env request d w = (h, d', w')"
  shows "hr_outcome h = ''ok''"
proof -
  obtain bs st where "drain_browsers ns (dm_table d) = (bs, st)" by fastforce
  then show ?thesis using assms by (auto simp: lock_vault_def success_def handled_def)
qed

theorem lock_vault_ends_the_namespace_witness:
  "let d' = fst (snd (lock_vault (undefined :: (unit, unit) DaemonEnv) demo_lock_request demo_daemon ()))
   in hget (browsers (dm_table d')) ''b1'' = None \<and> hget (issued (dm_grants d')) (''uid:1'', ''op:e'') = None
      \<and> ShutdownExecutor (executor example_browser) \<in> set (dm_effects d')"
proof -
  let ?env = "undefined :: (unit, unit) DaemonEnv"
  obtain h d' w' where run: "lock_vault ?env demo_lock_request demo_daemon () = (h, d', w')"
    by (cases "lock_vault ?env demo_lock_request demo_daemon ()")
  have lk: "lock_providers (de_vault ?env) (select_providers (Some ''op'') (dm_vault demo_daemon)) (dm_vault demo_daemon) ()
      = (Inr (), demo_vault\<lparr>va_providers := [(''op'', PrStatic (demo_static\<lparr>stp_locked := True\<rparr>))]\<rparr>, ())"
    by (simp add: demo_daemon_def demo_select) (simp add: demo_vault_def as_provider_def static_lock_def)
  have ok: "hr_outcome h = ''ok''" by (rule lock_vault_succeeds[OF demo_ns lk run])
  have b: "hget (browsers (dm_table demo_daemon)) ''b1'' = Some example_browser" "namespace (key example_browser) = ''op''"
    by (simp_all add: demo_daemon_def example_table_def example_browser_def new_browser_def example_key_def BrowserKey_new_def)
  have cov: "covers (Some ''op'') ''op:e''" by (simp add: covers_def starts_with_def)
  note all = lock_vault_ends_the_namespace[OF demo_inv demo_ns run ok]
  have "hget (browsers (dm_table d')) ''b1'' = None" using all b by auto
  moreover have "hget (issued (dm_grants d')) (''uid:1'', ''op:e'') = None" using all cov by auto
  moreover have "ShutdownExecutor (executor example_browser) \<in> set (dm_effects d')"
    using all[THEN conjunct2, THEN conjunct2, THEN conjunct2, THEN conjunct2, THEN conjunct1, rule_format, OF b(1)] b(2) by simp
  ultimately show ?thesis using run by simp
qed

text \<open>
  A provider that fails to lock stops \<open>lock_vault\<close>: the caller gets the error, the approvals of
  the namespace are gone, but its browsers, hosted services and stepwise logins stay as they were.
\<close>

lemma failed_lock_ends_no_session:
  assumes "optional_namespace (rq_params request) = Inr ns"
    "lock_providers (de_vault env) (select_providers ns (dm_vault d)) (dm_vault d) w = (Inl e, v, w1)"
  shows "lock_vault env request d w = (classified (rq_id request) e, d\<lparr>dm_grants := revoke ns (dm_grants d), dm_vault := v\<rparr>, w1)"
  using assms by (simp add: lock_vault_def)

end
