(* ===== verification/Handlers.thy ===== *)
theory Handlers
  imports Daemon
begin

section \<open>Requests that start executors\<close>

text \<open>
  The approval gate of \<open>main.rs\<close> and the handlers behind it: \<open>login\<close>, \<open>login_begin\<close>, \<open>authorize_device\<close>
  and the opening of hosted services. As in \<open>Daemon\<close> a handler runs from its beginning to its end.
  What a new executor answers to its first request is a field of the environment (the outcome of
  \<open>open_executor_with\<close>), and each start is an effect with the request that carries the credential.
\<close>

subsection \<open>The approval gate\<close>

definition approval_vars :: "string \<Rightarrow> string \<Rightarrow> string \<Rightarrow> PeerIdentity \<Rightarrow> byte \<Rightarrow> duration \<Rightarrow> (string \<times> string) list" where
  "approval_vars cid url meth peer code grant_ttl =
     [(''TEGATA_CRED_ID'', cid), (''TEGATA_TARGET_URL'', url), (''TEGATA_METHOD'', meth),
      (''TEGATA_PEER'', case peer of Uid u \<Rightarrow> decimal (unat u) | _ \<Rightarrow> principal_of peer),
      (''TEGATA_APPROVAL_CODE'', decimal (unat code)),
      (''TEGATA_APPROVAL_GRANT_TTL_SECS'', decimal (as_secs grant_ttl))]"

definition approve_command ::
  "('w, 'i) DaemonEnv \<Rightarrow> string \<Rightarrow> string \<Rightarrow> string \<Rightarrow> PeerIdentity \<Rightarrow> DaemonState \<Rightarrow> (ErrorCode + unit) \<times> DaemonState" where
  "approve_command env cid url meth peer d =
     (case dm_approve_cmd d of
        None \<Rightarrow> (Inr (), d)
      | Some cmd \<Rightarrow>
          (case de_approval_code env of
             Inl _ \<Rightarrow> (Inl Internal, d)
           | Inr code \<Rightarrow>
               (let vars = approval_vars cid url meth peer code (ttl (dm_grants d)) in
                case de_approve env cmd vars of
                  ApSpawnFailed \<Rightarrow> (Inl Internal, d)
                | ApExited True \<Rightarrow> (Inr (), effect (RunApproval vars) d)
                | ApExited False \<Rightarrow> (Inl ApprovalDenied, effect (RunApproval vars) d)
                | ApWaitFailed \<Rightarrow> (Inl Internal, effect (RunApproval vars) d)
                | ApTimedOut \<Rightarrow> (Inl ApprovalTimeout, effect (RunApproval vars) d))))"

definition approval_required :: "DaemonState \<Rightarrow> bool" where
  "approval_required d \<longleftrightarrow> dm_approve_cmd d \<noteq> None"

definition approve_with_grant ::
  "('w, 'i) DaemonEnv \<Rightarrow> string \<Rightarrow> string \<Rightarrow> string \<Rightarrow> PeerIdentity \<Rightarrow> DaemonState
     \<Rightarrow> (ErrorCode + ApprovalGrant option) \<times> DaemonState" where
  "approve_with_grant env cid url meth peer d =
     (let prin = principal_of peer; (reused, g) = reuse prin cid (de_now env 0) (dm_grants d); d = d\<lparr>dm_grants := g\<rparr> in
      if reused then (Inr (Some Reused), d)
      else
        let observed = generation (dm_grants d) in
        (case approve_command env cid url meth peer d of
           (Inl e, d) \<Rightarrow> (Inl e, d)
         | (Inr _, d) \<Rightarrow>
             (case issue prin cid (de_now env 1) observed (dm_grants d) of
                (ok, g) \<Rightarrow> (Inr (if ok then Some Issued else None), d\<lparr>dm_grants := g\<rparr>))))"

definition gate_on_approval ::
  "('w, 'i) DaemonEnv \<Rightarrow> string \<Rightarrow> string \<Rightarrow> string \<Rightarrow> PeerIdentity \<Rightarrow> DaemonState \<Rightarrow> 'w
     \<Rightarrow> (ErrorCode + ApprovalGrant option) \<times> DaemonState \<times> 'w" where
  "gate_on_approval env cid url meth peer d w =
     (if \<not> approval_required d then (Inr None, d, w)
      else
        (case credential_state (de_vault env) cid (dm_vault d) w of
           (r, v, w) \<Rightarrow>
             (let d = d\<lparr>dm_vault := v\<rparr> in
              case r of
                Inl e \<Rightarrow> (Inl e, d, w)
              | Inr None \<Rightarrow> (Inl InvalidCredential, d, w)
              | Inr (Some cs) \<Rightarrow>
                  if cs_locked cs then (Inl VaultLocked, d, w)
                  else if \<not> cs_confirmed cs
                  then (case approve_command env cid url meth peer d of
                          (Inl e, d) \<Rightarrow> (Inl e, d, w)
                        | (Inr _, d) \<Rightarrow> (Inr None, d, w))
                  else (case approve_with_grant env cid url meth peer d of (r, d) \<Rightarrow> (r, d, w)))))"

subsection \<open>Browser sessions\<close>

definition session_result :: "string \<Rightarrow> string \<Rightarrow> string \<Rightarrow> json" where
  "session_result sess tgt_id endp =
     JObj [(''session_id'', JStr sess), (''target_id'', JStr tgt_id),
           (''channel'', JObj [(''kind'', JStr ''cdp''), (''endpoint'', JStr endp)])]"

definition join_browser ::
  "('w, 'i) DaemonEnv \<Rightarrow> BrowserKey \<Rightarrow> string \<Rightarrow> DaemonState \<Rightarrow> (ErrorCode + json) option \<times> DaemonState" where
  "join_browser env k prin d =
     (case join_look_locked k (de_now env 2) (dm_table d) of
        None \<Rightarrow> (None, d)
      | Some j \<Rightarrow>
          if jl_expired j then (None, expire_browser_at_deadline env (jl_browser j) (de_now env 3) d)
          else
            let ex = jl_executor j; d = effect (LeaseTab ex) d in
            (case de_lease env ex of
               Inl e \<Rightarrow>
                 if \<not> join_active_locked (jl_browser j) (de_now env 3) (dm_table d)
                 then (None, expire_browser_at_deadline env (jl_browser j) (de_now env 4) d)
                 else (Some (Inl e), d)
             | Inr tgt_id \<Rightarrow>
                 (case join_insert_locked (jl_browser j) (de_session_id env) prin tgt_id (dm_session_ttl d) (de_now env 3)
                         (dm_table d) of
                    (joined, taken, st) \<Rightarrow>
                      (let d = d\<lparr>dm_table := st\<rparr> in
                       case taken of
                         Some b \<Rightarrow>
                           (None, terminate_browser env b ''session_expired'' False (snd (release env ex (Tab tgt_id) d)))
                       | None \<Rightarrow>
                           if \<not> joined then (None, snd (release env ex (Tab tgt_id) d))
                           else (Some (Inr (session_result (de_session_id env) tgt_id (jl_endpoint j))), d)))))"

record BrowserRegistration =
  br_key :: BrowserKey
  br_principal :: string
  br_exclusive :: bool
  br_persist_cookies :: bool
  br_endpoint :: string
  br_target_id :: string
  br_executor :: nat
  br_started_at :: instant

definition register_login_browser ::
  "('w, 'i) DaemonEnv \<Rightarrow> BrowserRegistration \<Rightarrow> DaemonState \<Rightarrow> (ErrorCode + json) \<times> DaemonState" where
  "register_login_browser env r d =
     (let limit = br_started_at r + dm_max_lifetime d; sess = de_session_id env in
      if \<not> de_reader env (br_executor r) then (Inl Internal, effect (StopChild (br_executor r)) d)
      else
        (case cdp_port_from_endpoint (br_endpoint r) of
           None \<Rightarrow> (Inl Internal, effect (StopChild (br_executor r)) d)
         | Some prt \<Rightarrow>
             if \<not> de_ports_ok env then (Inl Internal, effect (ShutdownExecutor (br_executor r)) d)
             else
               let b = new_browser (br_key r) (br_executor r) prt (br_endpoint r) limit sess (br_principal r)
                         (Tab (br_target_id r)) (dm_session_ttl d) (de_now env 5) (br_exclusive r) (br_persist_cookies r);
                   st = register_port_locked sess (br_principal r) prt (dm_table d)
               in (Inr (session_result sess (br_target_id r) (br_endpoint r)),
                   d\<lparr>dm_table := register_browser_locked (de_browser_id env) b st\<rparr>)))"

definition save_returned ::
  "('w, 'i) DaemonEnv \<Rightarrow> BrowserKey \<Rightarrow> json option \<Rightarrow> DaemonState \<Rightarrow> DaemonState" where
  "save_returned env k cookies d =
     (case cookies of
        None \<Rightarrow> d
      | Some v \<Rightarrow>
          d\<lparr>dm_cookies := snd (save_cookies (de_lib env) (dm_store d) (de_dir env) (de_write env) k v (de_unix_now env)
                                   (dm_cookies d))\<rparr>)"

definition restore_cookies ::
  "('w, 'i) DaemonEnv \<Rightarrow> BrowserKey \<Rightarrow> DaemonState \<Rightarrow> bool \<times> Cookie list option \<times> DaemonState" where
  "restore_cookies env k d =
     (if CookieStore_persists (dm_store d) (cred_id k)
      then (case load_cookies (de_lib env) k (de_unix_now env) (dm_cookies d) of
              (restored, cd) \<Rightarrow> (True, restored, d\<lparr>dm_cookies := cd\<rparr>))
      else (False, None, d))"

definition start_login ::
  "('w, 'i) DaemonEnv \<Rightarrow> RpcRequest \<Rightarrow> BrowserKey \<Rightarrow> string \<Rightarrow> LoginParams \<Rightarrow> bool \<Rightarrow> DaemonState \<Rightarrow> 'w
     \<Rightarrow> HandledRequest \<times> DaemonState \<times> 'w" where
  "start_login env request k prin params excl d w =
     (let i = rq_id request; sk = SkBrowser k; d = snd (start_control sk d) in
      case (if excl then (None, d) else join_browser env k prin d) of
        (Some (Inr result), d) \<Rightarrow> (with_audit_shared True (success i result), d, w)
      | (Some (Inl e), d) \<Rightarrow> (classified i e, d, w)
      | (None, d) \<Rightarrow>
          (case is_limited (de_now env 6) (fst (start_control sk d)) of
             (limited, c) \<Rightarrow>
               (let d = set_control sk c d in
                if limited then (classified i RateLimited, d, w)
                else
                  (case resolve_unlocked_credential (de_vault env) (lp_cred_id params) (dm_vault d) w of
                     (Inl e, v, w) \<Rightarrow> (classified i e, d\<lparr>dm_vault := v\<rparr>, w)
                   | (Inr cred, v, w) \<Rightarrow>
                       (case restore_cookies env k (d\<lparr>dm_vault := v\<rparr>) of
                          (persisted, restored, d) \<Rightarrow>
                            (let c = record_attempt (de_now env 7) c;
                                 started_at = de_now env 8;
                                 start = login_request (de_code_of env) (de_secs env) params cred restored;
                                 d = effect (StartLogin start) d
                             in case de_start env start of
                                  Inl f \<Rightarrow>
                                    (classified_with_step i (ef_code f) (ef_step f),
                                     set_control sk (record_failure (de_now env 9) c) d, w)
                                | Inr (parsed, ex) \<Rightarrow>
                                    (case register_login_browser env
                                            \<lparr>br_key = k, br_principal = prin, br_exclusive = excl, br_persist_cookies = persisted,
                                             br_endpoint = pl_endpoint parsed, br_target_id = pl_target_id parsed,
                                             br_executor = ex, br_started_at = started_at\<rparr>
                                            (set_control sk (record_success c) d) of
                                       (Inl e, d) \<Rightarrow> (classified i e, d, w)
                                     | (Inr result, d) \<Rightarrow>
                                         if persisted
                                         then (with_audit_cookies
                                                 (Some (CookieAudit_login (restored \<noteq> None) (pl_steps_skipped parsed)))
                                                 (with_audit_shared False (success i result)),
                                               save_returned env k (pl_cookies parsed) d, w)
                                         else (with_audit_cookies None (with_audit_shared False (success i result)), d, w))))))))"

definition login ::
  "('w, 'i) DaemonEnv \<Rightarrow> (json \<Rightarrow> LoginRequestParams option) \<Rightarrow> RpcRequest \<Rightarrow> PeerIdentity \<Rightarrow> DaemonState \<Rightarrow> 'w
     \<Rightarrow> HandledRequest \<times> DaemonState \<times> 'w" where
  "login env decode request peer d w =
     (case parse_params decode (rq_params request) of
        Inl e \<Rightarrow> (classified (rq_id request) e, d, w)
      | Inr rp \<Rightarrow>
          (let params = lr_login rp in
           case split_once (lp_cred_id params) '':'' of
             None \<Rightarrow> (classified (rq_id request) InvalidCredential, d, w)
           | Some (ns, _) \<Rightarrow>
               (let prin = principal_of peer; k = BrowserKey_new prin ns (lp_cred_id params) in
                case gate_on_approval env (lp_cred_id params) (lp_target_url params) ''login'' peer d w of
                  (Inl e, d, w) \<Rightarrow> (classified (rq_id request) e, d, w)
                | (Inr grant, d, w) \<Rightarrow>
                    (case start_login env request k prin params (lr_exclusive rp) d w of
                       (h, d, w) \<Rightarrow> (with_audit_approval_grant grant h, d, w)))))"

subsection \<open>Stepwise logins\<close>

record Launched =
  la_key :: BrowserKey
  la_exclusive :: bool
  la_persist_cookies :: bool
  la_started_at :: instant
  la_pending :: PendingExecutor

definition login_end_reason :: "BrowserKey \<Rightarrow> PeerIdentity \<Rightarrow> DaemonState \<Rightarrow> EndReason option" where
  "login_end_reason k peer d =
     immediate_end_reason (namespace_locked (namespace k) (dm_vault d))
       (case peer of Peer i _ \<Rightarrow> \<not> is_active (dm_peers d) i | _ \<Rightarrow> False) (dm_shutting_down d)"

definition register_pending ::
  "('w, 'i) DaemonEnv \<Rightarrow> PeerIdentity \<Rightarrow> Launched \<Rightarrow> DaemonState \<Rightarrow> (ErrorCode + string) \<times> DaemonState" where
  "register_pending env peer la d =
     (let i = de_login_id env;
          e = LedgerEntry_new (la_key la) (la_exclusive la) (la_persist_cookies la) (la_started_at la) (de_now env 5) (de_slot env);
          d = d\<lparr>dm_slots := hinsert (de_slot env) (la_pending la) (dm_slots d), dm_ledger := ledger_insert i e (dm_ledger d)\<rparr>
      in case login_end_reason (la_key la) peer d of
           None \<Rightarrow> (Inr i, d)
         | Some reason \<Rightarrow>
             (case take_owned i (principal (la_key la)) (dm_ledger d) of
                (None, l) \<Rightarrow> (Inl (immediate_error reason), d\<lparr>dm_ledger := l\<rparr>)
              | (Some e, l) \<Rightarrow>
                  (Inl (immediate_error reason), end_entry env reason AuditSystem (i, e) (d\<lparr>dm_ledger := l\<rparr>))))"

definition hand_off ::
  "('w, 'i) DaemonEnv \<Rightarrow> StartControl \<Rightarrow> Launched \<Rightarrow> DoneState \<Rightarrow> DaemonState
     \<Rightarrow> (ErrorCode + json) \<times> StartControl \<times> DaemonState" where
  "hand_off env c la done d =
     (let k = la_key la; shared = hcontains (shared_browsers (dm_table d)) k in
      case register_login_browser env
             \<lparr>br_key = k, br_principal = principal k, br_exclusive = (la_exclusive la \<or> shared),
              br_persist_cookies = la_persist_cookies la, br_endpoint = ds_endpoint done, br_target_id = ds_target_id done,
              br_executor = pe_handle (la_pending la), br_started_at = la_started_at la\<rparr> d of
        (Inl e, d) \<Rightarrow> (Inl e, c, d)
      | (Inr result, d) \<Rightarrow>
          (Inr (done_result result), record_success c,
           if la_persist_cookies la then save_returned env k (ds_cookies done) d else d))"

definition begin_after_approval ::
  "('w, 'i) DaemonEnv \<Rightarrow> json \<Rightarrow> BrowserKey \<Rightarrow> BeginParams \<Rightarrow> PeerIdentity \<Rightarrow> DaemonState \<Rightarrow> 'w
     \<Rightarrow> HandledRequest \<times> DaemonState \<times> 'w" where
  "begin_after_approval env i k params peer d w =
     (let sk = SkBrowser k; d = snd (start_control sk d) in
      case (if bp_exclusive params then (None, d) else join_browser env k (principal k) d) of
        (Some (Inr result), d) \<Rightarrow> (with_audit_shared True (success i (done_result result)), d, w)
      | (Some (Inl e), d) \<Rightarrow> (classified i e, d, w)
      | (None, d) \<Rightarrow>
          (case is_limited (de_now env 6) (fst (start_control sk d)) of
             (limited, c) \<Rightarrow>
               (let d = set_control sk c d in
                if limited then (classified i RateLimited, d, w)
                else
                  (case resolve_unlocked_credential (de_vault env) (bp_cred_id params) (dm_vault d) w of
                     (Inl e, v, w) \<Rightarrow> (classified i e, d\<lparr>dm_vault := v\<rparr>, w)
                   | (Inr cred, v, w) \<Rightarrow>
                       (case restore_cookies env k (d\<lparr>dm_vault := v\<rparr>) of
                          (persisted, restored, d) \<Rightarrow>
                            (let c = record_attempt (de_now env 7) c;
                                 start = begin_request params cred restored;
                                 d = effect (StartBegin start) d
                             in case de_begin env start of
                                  Inl f \<Rightarrow>
                                    (classified_with_step i (ef_code f) (ef_step f),
                                     set_control sk (record_failure (de_now env 9) c) d, w)
                                | Inr (reply, ex) \<Rightarrow>
                                    (let la = \<lparr>la_key = k, la_exclusive = bp_exclusive params, la_persist_cookies = persisted,
                                               la_started_at = de_now env 8,
                                               la_pending = \<lparr>pe_handle = ex, pe_next_id = 2\<rparr>\<rparr>;
                                         audit = (\<lambda>skipped. if persisted then Some (CookieAudit_login (restored \<noteq> None) skipped) else None)
                                     in case reply of
                                          Pending snapshot \<Rightarrow>
                                            (case register_pending env peer la (set_control sk c d) of
                                               (Inl e, d) \<Rightarrow> (classified i e, d, w)
                                             | (Inr login_id, d) \<Rightarrow>
                                                 (with_audit_cookies (audit False) (success i (pending_result login_id snapshot)), d, w))
                                        | Done done \<Rightarrow>
                                            (case hand_off env c la done d of
                                               (Inl e, c, d) \<Rightarrow> (classified i e, set_control sk c d, w)
                                             | (Inr result, c, d) \<Rightarrow>
                                                 (with_audit_cookies (audit (ds_steps_skipped done))
                                                    (with_audit_shared False (success i result)), set_control sk c d, w))
                                        | Aborted \<Rightarrow>
                                            (classified i Internal,
                                             set_control sk (record_failure (de_now env 9) c) (effect (StopChild ex) d), w))))))))"

definition login_begin ::
  "('w, 'i) DaemonEnv \<Rightarrow> (json \<Rightarrow> BeginParams option) \<Rightarrow> RpcRequest \<Rightarrow> PeerIdentity \<Rightarrow> DaemonState \<Rightarrow> 'w
     \<Rightarrow> HandledRequest \<times> DaemonState \<times> 'w" where
  "login_begin env decode request peer d w =
     (case parse_params decode (rq_params request) of
        Inl e \<Rightarrow> (classified (rq_id request) e, d, w)
      | Inr params \<Rightarrow>
          (case split_once (bp_cred_id params) '':'' of
             None \<Rightarrow> (classified (rq_id request) InvalidCredential, d, w)
           | Some (ns, _) \<Rightarrow>
               (let k = BrowserKey_new (principal_of peer) ns (bp_cred_id params) in
                case gate_on_approval env (bp_cred_id params) (bp_target_url params) ''login_begin'' peer d w of
                  (Inl e, d, w) \<Rightarrow> (classified (rq_id request) e, d, w)
                | (Inr grant, d, w) \<Rightarrow>
                    (case begin_after_approval env (rq_id request) k params peer d w of
                       (h, d, w) \<Rightarrow> (with_audit_approval_grant grant h, d, w)))))"

text \<open>One step: the totp code, the exchange, and what follows from the answer.\<close>

definition step_totp ::
  "('w, 'i) DaemonEnv \<Rightarrow> StepAction \<Rightarrow> string \<Rightarrow> DaemonState \<Rightarrow> 'w \<Rightarrow> (ErrorCode + string option) \<times> DaemonState \<times> 'w" where
  "step_totp env act cid d w =
     (if \<not> needs_totp act then (Inr None, d, w)
      else (case resolve_unlocked_credential (de_vault env) cid (dm_vault d) w of
              (Inl e, v, w) \<Rightarrow> (Inl e, d\<lparr>dm_vault := v\<rparr>, w)
            | (Inr cred, v, w) \<Rightarrow> (Inr (current_totp (de_code_of env) (de_secs env) cred), d\<lparr>dm_vault := v\<rparr>, w)))"

definition hand_off_step ::
  "('w, 'i) DaemonEnv \<Rightarrow> PeerIdentity \<Rightarrow> json \<Rightarrow> string \<Rightarrow> Ticket \<Rightarrow> PendingExecutor option \<Rightarrow> DoneState \<Rightarrow> DaemonState
     \<Rightarrow> HandledRequest \<times> DaemonState" where
  "hand_off_step env peer i login_id t pending done d =
     (case pending of
        None \<Rightarrow> (classified i ErrorCode.NotFound, d)
      | Some p \<Rightarrow>
          (let k = tk_key t; sk = SkBrowser k;
               la = \<lparr>la_key = k, la_exclusive = tk_exclusive t, la_persist_cookies = tk_persist_cookies t,
                     la_started_at = tk_browser_started_at t, la_pending = p\<rparr>
           in case start_control sk d of
                (c, d) \<Rightarrow>
                  (case hand_off env c la done d of
                     (Inr result, c, d) \<Rightarrow>
                       (with_audit_shared False (success i result),
                        daemon_audit (AuditPeer peer) ''stepwise_handoff''
                          (end_fields login_id k (Option.bind (jget result ''session_id'') jas_str)) ''ok'' (set_control sk c d))
                   | (Inl e, c, d) \<Rightarrow>
                       (classified i e,
                        finish_login env login_id k None (EndReason.Failed e) (AuditPeer peer) (set_control sk c d)))))"

definition run_step ::
  "('w, 'i) DaemonEnv \<Rightarrow> PeerIdentity \<Rightarrow> json \<Rightarrow> string \<Rightarrow> StepAction \<Rightarrow> Ticket \<Rightarrow> DaemonState \<Rightarrow> 'w
     \<Rightarrow> HandledRequest \<times> DaemonState \<times> 'w" where
  "run_step env peer i login_id act t d w =
     (case (if is_current login_id (tk_slot t) (dm_ledger d) then hget (dm_slots d) (tk_slot t) else None) of
        None \<Rightarrow> (classified i ErrorCode.NotFound, d, w)
      | Some pending \<Rightarrow>
          if act = Abort then
            (let d = snd (take_slot (tk_slot t) d);
                 d = d\<lparr>dm_ledger := snd (remove_current login_id (tk_slot t) (dm_ledger d))\<rparr>
             in (success i (JObj [(''state'', JStr ''aborted'')]),
                 finish_login env login_id (tk_key t) (Some pending) AbortedByCaller (AuditPeer peer) d, w))
          else
            (case step_totp env act (cred_id (tk_key t)) d w of
               (Inl e, d, w) \<Rightarrow>
                 (classified i e, d\<lparr>dm_ledger := ledger_release login_id (tk_slot t) (de_now env 0) (dm_ledger d)\<rparr>, w)
             | (Inr totp_code, d, w) \<Rightarrow>
                 (let d = (if totp_code \<noteq> None then d\<lparr>dm_ledger := note_totp login_id (tk_slot t) (dm_ledger d)\<rparr> else d);
                      (rid, pending) = take_id pending;
                      d = d\<lparr>dm_slots := hinsert (tk_slot t) pending (dm_slots d)\<rparr>;
                      req = \<lparr>st_op = ''login_step'', st_id = rid, st_action = act, st_totp = totp_code\<rparr>;
                      d = effect (SendStep (pe_handle pending) req) d;
                      nxt = next_after (de_step env (pe_handle pending) req)
                  in case nxt of
                       Continue r \<Rightarrow>
                         (let d = d\<lparr>dm_ledger := ledger_release login_id (tk_slot t) (de_now env 1) (dm_ledger d)\<rparr> in
                          (case r of
                             Inr snapshot \<Rightarrow> success i (pending_result login_id snapshot)
                           | Inl f \<Rightarrow> classified_with_step i (ef_code f) (ef_step f), d, w))
                     | Handoff done \<Rightarrow>
                         (let d = snd (take_slot (tk_slot t) (d\<lparr>dm_ledger := snd (remove_current login_id (tk_slot t) (dm_ledger d))\<rparr>))
                          in case hand_off_step env peer i login_id t (Some pending) done d of (h, d) \<Rightarrow> (h, d, w))
                     | EndWith reason f \<Rightarrow>
                         (let d = snd (take_slot (tk_slot t) (d\<lparr>dm_ledger := snd (remove_current login_id (tk_slot t) (dm_ledger d))\<rparr>))
                          in (classified_with_step i (ef_code f) (ef_step f),
                              finish_login env login_id (tk_key t) (Some pending) reason (AuditPeer peer) d, w)))))"

definition login_step ::
  "('w, 'i) DaemonEnv \<Rightarrow> (json \<Rightarrow> StepParams option) \<Rightarrow> RpcRequest \<Rightarrow> PeerIdentity \<Rightarrow> DaemonState \<Rightarrow> 'w
     \<Rightarrow> HandledRequest \<times> DaemonState \<times> 'w" where
  "login_step env decode request peer d w =
     (let i = rq_id request in
      case parse_step_params decode (rq_params request) of
        Inl e \<Rightarrow> (classified i e, d, w)
      | Inr params \<Rightarrow>
          (let login_id = sp_login_id params in
           case claim login_id (principal_of peer) (de_now env 2) (dm_ledger d) of
             (cl, l) \<Rightarrow>
               (let d = d\<lparr>dm_ledger := l\<rparr> in
                case cl of
                  ClaimNotFound \<Rightarrow> (classified i ErrorCode.NotFound, d, w)
                | ClaimExpired e \<Rightarrow> (classified i ErrorCode.NotFound, end_entry env Expired AuditSystem (login_id, e) d, w)
                | ClaimExhausted e \<Rightarrow>
                    (classified i RateLimited, end_entry env (EndReason.Failed RateLimited) (AuditPeer peer) (login_id, e) d, w)
                | ClaimReady t \<Rightarrow> run_step env peer i login_id (sp_action params) t d w)))"

subsection \<open>Device codes\<close>

definition approve_authorize_device ::
  "('w, 'i) DaemonEnv \<Rightarrow> AuthorizeDeviceParams \<Rightarrow> PeerIdentity \<Rightarrow> DaemonState \<Rightarrow> (ErrorCode + ApprovalGrant option) \<times> DaemonState" where
  "approve_authorize_device env params peer d =
     (case audit_target_url (ad_verification_url params) of
        None \<Rightarrow> (Inl Internal, d)
      | Some url \<Rightarrow> approve_with_grant env (ad_cred_id params) url ''authorize_device'' peer d)"

definition load_login_cookies ::
  "('w, 'i) DaemonEnv \<Rightarrow> BrowserKey \<Rightarrow> DaemonState \<Rightarrow> LoginCookies option \<times> DaemonState" where
  "load_login_cookies env k d =
     (case LoginCookies_load (de_lib env) (dm_store d) k (de_unix_now env) (dm_cookies d) of
        (lc, cd) \<Rightarrow> (lc, d\<lparr>dm_cookies := cd\<rparr>))"

definition finish_login_cookies ::
  "('w, 'i) DaemonEnv \<Rightarrow> LoginCookies option \<Rightarrow> ReturnedCookies \<Rightarrow> DaemonState \<Rightarrow> CookieAudit option \<times> DaemonState" where
  "finish_login_cookies env lc returned d =
     (case lc of
        None \<Rightarrow> (None, d)
      | Some lc \<Rightarrow>
          (case LoginCookies_finish (de_lib env) (dm_store d) (de_dir env) (de_write env) (de_unix_now env) lc returned (dm_cookies d) of
             (audit, cd) \<Rightarrow> (Some audit, d\<lparr>dm_cookies := cd\<rparr>)))"

definition authorize_device_approved ::
  "('w, 'i) DaemonEnv \<Rightarrow> RpcRequest \<Rightarrow> AuthorizeDeviceParams \<Rightarrow> BrowserKey \<Rightarrow> string \<Rightarrow> DaemonState \<Rightarrow> 'w
     \<Rightarrow> HandledRequest \<times> DaemonState \<times> 'w" where
  "authorize_device_approved env request params k login_url d w =
     (let i = rq_id request in
      case resolve_unlocked_credential (de_vault env) (ad_cred_id params) (dm_vault d) w of
        (Inl e, v, w) \<Rightarrow> (classified i e, d\<lparr>dm_vault := v\<rparr>, w)
      | (Inr cred, v, w) \<Rightarrow>
          (case load_login_cookies env k (d\<lparr>dm_vault := v\<rparr>) of
             (lc, d) \<Rightarrow>
               (let start = authorize_device_request (de_code_of env) (de_secs env) params login_url cred
                              (Option.bind lc (wire_cookies (de_lib env)));
                    d = effect (StartAuthorize start) d
                in case de_authorize env start of
                     Inl f \<Rightarrow> (classified_with_step i (ef_code f) (ef_step f), d, w)
                   | Inr returned \<Rightarrow>
                       (case finish_login_cookies env lc returned d of
                          (audit, d) \<Rightarrow> (with_audit_cookies audit (success i (JObj [(''ok'', JBool True)])), d, w)))))"

definition authorize_device ::
  "('w, 'i) DaemonEnv \<Rightarrow> (json \<Rightarrow> AuthorizeDeviceParams option) \<Rightarrow> RpcRequest \<Rightarrow> PeerIdentity \<Rightarrow> DaemonState \<Rightarrow> 'w
     \<Rightarrow> HandledRequest \<times> DaemonState \<times> 'w" where
  "authorize_device env decode request peer d w =
     (let i = rq_id request in
      case parse_params decode (rq_params request) of
        Inl e \<Rightarrow> (classified i e, d, w)
      | Inr params \<Rightarrow>
          (case http_origin (ad_verification_url params) of
             None \<Rightarrow> (classified i Internal, d, w)
           | Some verification_origin \<Rightarrow>
               if \<not> valid_authorize_steps (ad_steps params) then (classified i Internal, d, w)
               else
                 (case split_once (ad_cred_id params) '':'' of
                    None \<Rightarrow> (classified i InvalidCredential, d, w)
                  | Some (ns, _) \<Rightarrow>
                      (let k = BrowserKey_new (principal_of peer) ns (ad_cred_id params) in
                       case credential_metadata (de_vault env) (ad_cred_id params) (dm_vault d) w of
                         (Inl e, v, w) \<Rightarrow> (classified i e, d\<lparr>dm_vault := v\<rparr>, w)
                       | (Inr None, v, w) \<Rightarrow> (classified i InvalidCredential, d\<lparr>dm_vault := v\<rparr>, w)
                       | (Inr (Some uri), v, w) \<Rightarrow>
                           (let d = d\<lparr>dm_vault := v\<rparr>;
                                login_url = (case uri of Some u \<Rightarrow> if u \<noteq> [] then u else verification_origin
                                                       | None \<Rightarrow> verification_origin)
                            in case (if approval_required d then approve_authorize_device env params peer d else (Inr None, d)) of
                                 (Inl e, d) \<Rightarrow> (classified i e, d, w)
                               | (Inr grant, d) \<Rightarrow>
                                   (case authorize_device_approved env request params k login_url d w of
                                      (h, d, w) \<Rightarrow> (with_audit_approval_grant grant h, d, w)))))))"

subsection \<open>Hosted services\<close>

datatype HostedService = HsProxy ApiProxyConfig | HsMcp McpServerConfig

fun hs_kind :: "HostedService \<Rightarrow> ServiceKind" where
  "hs_kind (HsProxy _) = ApiProxy"
| "hs_kind (HsMcp _) = McpServer"

fun hs_name :: "HostedService \<Rightarrow> string" where
  "hs_name (HsProxy p) = pc_name p"
| "hs_name (HsMcp m) = mc_name m"

fun hs_cred_id :: "HostedService \<Rightarrow> string option" where
  "hs_cred_id (HsProxy p) = api_proxy_cred_id p"
| "hs_cred_id (HsMcp m) = Some (mc_cred_id m)"

fun hs_target_url :: "HostedService \<Rightarrow> string" where
  "hs_target_url (HsProxy p) = pc_upstream p"
| "hs_target_url (HsMcp m) = ''mcp:'' @ mc_name m"

fun logs_in_browser :: "HostedService \<Rightarrow> bool" where
  "logs_in_browser (HsProxy p) = (pc_oauth p \<noteq> None)"
| "logs_in_browser (HsMcp _) = False"

definition hs_lookup :: "ServiceKind \<Rightarrow> string \<Rightarrow> DaemonState \<Rightarrow> HostedService option" where
  "hs_lookup kind name d =
     (case kind of
        ApiProxy \<Rightarrow> map_option HsProxy (hget (dm_proxies d) name)
      | McpServer \<Rightarrow> map_option HsMcp (hget (dm_mcp_servers d) name))"

text \<open>
  A launch with the configuration it belongs to. \<open>build_mcp_server_launch\<close> gives \<open>Some\<close> on UTF-8
  templates (\<open>Service_Config\<close>), which the strings of a configuration are.
\<close>

datatype ServiceLaunch = LaunchProxy ApiProxyConfig ApiProxyStartOptions | LaunchMcp McpServerConfig McpServerLaunch

definition build_launch ::
  "('w, 'i) DaemonEnv \<Rightarrow> HostedService \<Rightarrow> ResolvedCredential \<Rightarrow> json list option \<Rightarrow> ErrorCode + ServiceLaunch" where
  "build_launch env s cred cookies =
     (case s of
        HsProxy p \<Rightarrow> map_sum id (LaunchProxy p) (api_proxy_launch (de_code_of env) (de_secs env) p cred cookies)
      | HsMcp m \<Rightarrow> map_sum id (LaunchMcp m) (the (build_mcp_server_launch (de_code_of env) (de_secs env) (mc_env m) cred)))"

fun start_effect :: "ServiceLaunch \<Rightarrow> daemon_effect" where
  "start_effect (LaunchProxy p x) = StartProxy p x"
| "start_effect (LaunchMcp m x) = StartMcp m x"

fun start_service ::
  "('w, 'i) DaemonEnv \<Rightarrow> ServiceLaunch \<Rightarrow> ErrorCode + (u16 \<times> string \<times> nat \<times> ReturnedCookies)" where
  "start_service env (LaunchProxy p x) = de_proxy env p x"
| "start_service env (LaunchMcp m x) =
     map_sum id (\<lambda>(prt, secret, ex). (prt, secret, ex, ReturnedCookies_default)) (de_mcp env m x)"

fun open_result :: "HostedService \<Rightarrow> string \<Rightarrow> u16 \<Rightarrow> string \<Rightarrow> json" where
  "open_result (HsProxy _) sess prt secret =
     JObj [(''session_id'', JStr sess), (''base_url'', JStr (''http://127.0.0.1:'' @ decimal (unat prt) @ ''/'' @ secret))]"
| "open_result (HsMcp _) sess prt secret =
     JObj [(''session_id'', JStr sess), (''port'', JInt (uint prt)), (''stream_secret'', JStr secret)]"

definition register_service_lease ::
  "('w, 'i) DaemonEnv \<Rightarrow> PeerIdentity \<Rightarrow> nat \<Rightarrow> ServiceKind \<Rightarrow> string \<Rightarrow> string \<Rightarrow> u16 \<Rightarrow> instant \<Rightarrow> DaemonState
     \<Rightarrow> (ErrorCode + string) \<times> DaemonState" where
  "register_service_lease env peer ex kind cid ns prt limit d =
     (let prin = principal_of peer; sess = de_session_id env in
      if \<not> de_reader env ex then (Inl Internal, effect (StopChild ex) d)
      else if \<not> de_ports_ok env then (Inl Internal, effect (ShutdownExecutor ex) d)
      else
        let b = new_browser (BrowserKey_new prin ns cid) ex prt [] limit sess prin (lease_target kind) (dm_session_ttl d)
                  (de_now env 5) True False;
            st = register_port_locked sess prin prt (dm_table d)
        in (Inr sess, d\<lparr>dm_table := register_browser_locked (de_browser_id env) b st\<rparr>))"

definition start_service_session ::
  "('w, 'i) DaemonEnv \<Rightarrow> PeerIdentity \<Rightarrow> HostedService \<Rightarrow> string \<Rightarrow> string \<Rightarrow> DaemonState \<Rightarrow> 'w
     \<Rightarrow> (ErrorCode + (string \<times> u16 \<times> string \<times> CookieAudit option)) \<times> DaemonState \<times> 'w" where
  "start_service_session env peer s cid ns d w =
     (let sk = service_start_key (hs_kind s) (principal_of peer) (hs_name s) in
      case start_control sk d of
        (c, d) \<Rightarrow>
          (case is_limited (de_now env 6) c of
             (limited, c) \<Rightarrow>
               (let d = set_control sk c d in
                if limited then (Inl RateLimited, d, w)
                else
                  (case resolve_unlocked_credential (de_vault env) cid (dm_vault d) w of
                     (Inl e, v, w) \<Rightarrow> (Inl e, d\<lparr>dm_vault := v\<rparr>, w)
                   | (Inr cred, v, w) \<Rightarrow>
                       (case (if logs_in_browser s
                              then load_login_cookies env (BrowserKey_new (principal_of peer) ns cid) (d\<lparr>dm_vault := v\<rparr>)
                              else (None, d\<lparr>dm_vault := v\<rparr>)) of
                          (lc, d) \<Rightarrow>
                            (case build_launch env s cred (Option.bind lc (wire_cookies (de_lib env))) of
                               Inl e \<Rightarrow> (Inl e, d, w)
                             | Inr launch \<Rightarrow>
                                 (let c = record_attempt (de_now env 7) c; d = effect (start_effect launch) d in
                                  case start_service env launch of
                                    Inl e \<Rightarrow> (Inl e, set_control sk (record_failure (de_now env 9) c) d, w)
                                  | Inr (prt, secret, ex, returned) \<Rightarrow>
                                      (case register_service_lease env peer ex (hs_kind s) cid ns prt
                                              (de_now env 8 + dm_max_lifetime d) (set_control sk (record_success c) d) of
                                         (Inl e, d) \<Rightarrow> (Inl e, d, w)
                                       | (Inr sess, d) \<Rightarrow>
                                           (case finish_login_cookies env lc returned d of
                                              (audit, d) \<Rightarrow> (Inr (sess, prt, secret, audit), d, w))))))))))"

definition open_service ::
  "('w, 'i) DaemonEnv \<Rightarrow> ServiceKind \<Rightarrow> (json \<Rightarrow> string option) \<Rightarrow> RpcRequest \<Rightarrow> PeerIdentity \<Rightarrow> DaemonState \<Rightarrow> 'w
     \<Rightarrow> HandledRequest \<times> DaemonState \<times> 'w" where
  "open_service env kind decode_name request peer d w =
     (let i = rq_id request in
      case parse_params decode_name (rq_params request) of
        Inl e \<Rightarrow> (classified i e, d, w)
      | Inr name \<Rightarrow>
          (case hs_lookup kind name d of
             None \<Rightarrow> (classified i ErrorCode.NotFound, d, w)
           | Some s \<Rightarrow>
               (case hs_cred_id s of
                  None \<Rightarrow> (classified i InvalidCredential, d, w)
                | Some cid \<Rightarrow>
                    (let url = hs_target_url s;
                         fs = (named_audit_fields kind (hs_name s))\<lparr>af_cred_id := Some cid, af_target_url := Some url,
                                af_namespace := map_option fst (split_once cid '':'')\<rparr>
                     in case split_once cid '':'' of
                          None \<Rightarrow> (with_audit_fields fs (classified i InvalidCredential), d, w)
                        | Some (ns, _) \<Rightarrow>
                            (case gate_on_approval env cid url (open_method kind) peer d w of
                               (Inl e, d, w) \<Rightarrow> (with_audit_fields fs (classified i e), d, w)
                             | (Inr grant, d, w) \<Rightarrow>
                                 (case start_service_session env peer s cid ns d w of
                                    (Inl e, d, w) \<Rightarrow>
                                      (with_audit_approval_grant grant (with_audit_fields fs (classified i e)), d, w)
                                  | (Inr (sess, prt, secret, audit), d, w) \<Rightarrow>
                                      (with_audit_approval_grant grant
                                         (with_audit_cookies audit
                                            (with_audit_fields (fs\<lparr>af_session_id := Some sess\<rparr>)
                                               (success i (open_result s sess prt secret)))), d, w)))))))"

subsection \<open>The gate lets nothing pass without an approval\<close>

definition is_start :: "daemon_effect \<Rightarrow> bool" where
  "is_start e = (case e of StartLogin _ \<Rightarrow> True | StartBegin _ \<Rightarrow> True | StartAuthorize _ \<Rightarrow> True
     | StartProxy _ _ \<Rightarrow> True | StartMcp _ _ \<Rightarrow> True | _ \<Rightarrow> False)"

text \<open>The starts so far: each hands a resolved credential to an executor.\<close>

definition starts :: "DaemonState \<Rightarrow> daemon_effect list" where
  "starts d = filter is_start (dm_effects d)"

datatype start_request =
    ReqLogin "json \<Rightarrow> LoginRequestParams option"
  | ReqBegin "json \<Rightarrow> BeginParams option"
  | ReqAuthorize "json \<Rightarrow> AuthorizeDeviceParams option"
  | ReqOpen ServiceKind "json \<Rightarrow> string option"

fun handle_start ::
  "('w, 'i) DaemonEnv \<Rightarrow> start_request \<Rightarrow> RpcRequest \<Rightarrow> PeerIdentity \<Rightarrow> DaemonState \<Rightarrow> 'w
     \<Rightarrow> HandledRequest \<times> DaemonState \<times> 'w" where
  "handle_start env (ReqLogin decode) request peer d w = login env decode request peer d w"
| "handle_start env (ReqBegin decode) request peer d w = login_begin env decode request peer d w"
| "handle_start env (ReqAuthorize decode) request peer d w = authorize_device env decode request peer d w"
| "handle_start env (ReqOpen kind decode) request peer d w = open_service env kind decode request peer d w"

text \<open>What the operator is asked about: the credential, the address and the method.\<close>

definition params_of :: "(json \<Rightarrow> 'p option) \<Rightarrow> RpcRequest \<Rightarrow> 'p option" where
  "params_of decode request = (case parse_params decode (rq_params request) of Inl _ \<Rightarrow> None | Inr p \<Rightarrow> Some p)"

fun subject_of :: "start_request \<Rightarrow> RpcRequest \<Rightarrow> DaemonState \<Rightarrow> (string \<times> string \<times> string) option" where
  "subject_of (ReqLogin decode) request d =
     map_option (\<lambda>rp. (lp_cred_id (lr_login rp), lp_target_url (lr_login rp), ''login'')) (params_of decode request)"
| "subject_of (ReqBegin decode) request d =
     map_option (\<lambda>bp. (bp_cred_id bp, bp_target_url bp, ''login_begin'')) (params_of decode request)"
| "subject_of (ReqAuthorize decode) request d =
     Option.bind (params_of decode request) (\<lambda>ad.
       map_option (\<lambda>url. (ad_cred_id ad, url, ''authorize_device'')) (audit_target_url (ad_verification_url ad)))"
| "subject_of (ReqOpen kind decode) request d =
     Option.bind (params_of decode request) (\<lambda>name.
       Option.bind (hs_lookup kind name d) (\<lambda>s.
         map_option (\<lambda>cid. (cid, hs_target_url s, open_method kind)) (hs_cred_id s)))"

definition operator_agrees :: "('w, 'i) DaemonEnv \<Rightarrow> string \<Rightarrow> string \<Rightarrow> string \<Rightarrow> PeerIdentity \<Rightarrow> DaemonState \<Rightarrow> bool" where
  "operator_agrees env cid url meth peer d \<longleftrightarrow>
     (case (dm_approve_cmd d, de_approval_code env) of
        (Some cmd, Inr code) \<Rightarrow>
          de_approve env cmd (approval_vars cid url meth peer code (ttl (dm_grants d))) = ApExited True
      | _ \<Rightarrow> False)"

definition approved :: "('w, 'i) DaemonEnv \<Rightarrow> string \<Rightarrow> string \<Rightarrow> string \<Rightarrow> PeerIdentity \<Rightarrow> DaemonState \<Rightarrow> bool" where
  "approved env cid url meth peer d \<longleftrightarrow>
     fst (reuse (principal_of peer) cid (de_now env 0) (dm_grants d)) \<or> operator_agrees env cid url meth peer d"

lemma starts_update [simp]:
  "starts (d\<lparr>dm_vault := v\<rparr>) = starts d" "starts (d\<lparr>dm_grants := g\<rparr>) = starts d"
  "starts (effect (RunApproval vars) d) = starts d"
  by (simp_all add: starts_def effect_def is_start_def)

lemma approve_command_gate:
  "approve_command env cid url meth peer d = (r, d1) \<Longrightarrow> dm_approve_cmd d = Some cmd \<Longrightarrow>
     starts d1 = starts d \<and> (r = Inr u \<longrightarrow> operator_agrees env cid url meth peer d)"
  by (auto simp: approve_command_def Let_def operator_agrees_def split: sum.splits approve_end.splits bool.splits)

lemma ttl_reuse [simp]: "ttl (snd (reuse p c now g)) = ttl g"
  by (simp add: reuse_def prune_def Let_def)

lemma approve_with_grant_gate:
  assumes "approve_with_grant env cid url meth peer d = (r, d1)" "dm_approve_cmd d = Some cmd"
  shows "starts d1 = starts d \<and> (r = Inr g \<longrightarrow> approved env cid url meth peer d)"
proof -
  obtain reused g0 where re: "reuse (principal_of peer) cid (de_now env 0) (dm_grants d) = (reused, g0)" by fastforce
  have t: "ttl g0 = ttl (dm_grants d)" using re ttl_reuse by (metis snd_conv)
  show ?thesis
  proof (cases reused)
    case True
    then show ?thesis using assms(1) re by (auto simp: approve_with_grant_def approved_def)
  next
    case False
    obtain q d2 where q: "approve_command env cid url meth peer (d\<lparr>dm_grants := g0\<rparr>) = (q, d2)" by fastforce
    have "starts d2 = starts d" "q = Inr () \<Longrightarrow> approved env cid url meth peer d"
      using approve_command_gate[OF q, of cmd "()"] assms(2) t
      by (auto simp: approved_def operator_agrees_def split: option.splits sum.splits)
    then show ?thesis
      using assms(1) re False q by (auto simp: approve_with_grant_def split: sum.splits prod.splits)
  qed
qed

lemma gate_on_approval_gate:
  assumes "gate_on_approval env cid url meth peer d w = (r, d1, w1)" "dm_approve_cmd d = Some cmd"
  shows "starts d1 = starts d \<and> (r = Inr g \<longrightarrow> approved env cid url meth peer d)"
proof -
  obtain q v w2 where q: "credential_state (de_vault env) cid (dm_vault d) w = (q, v, w2)"
    by (cases "credential_state (de_vault env) cid (dm_vault d) w")
  let ?d = "d\<lparr>dm_vault := v\<rparr>"
  have same: "approved env cid url meth peer ?d = approved env cid url meth peer d"
    by (auto simp: approved_def operator_agrees_def split: option.splits sum.splits)
  have agree: "operator_agrees env cid url meth peer ?d \<Longrightarrow> approved env cid url meth peer d"
    by (auto simp: approved_def operator_agrees_def split: option.splits sum.splits)
  have cmd: "dm_approve_cmd ?d = Some cmd" using assms(2) by simp
  show ?thesis
    using assms q approve_command_gate[OF _ cmd, of env cid url meth peer _ _ "()"]
      approve_with_grant_gate[OF _ cmd, of env cid url meth peer] same agree
    by (auto simp: gate_on_approval_def approval_required_def Let_def split: sum.splits option.splits if_splits prod.splits)
qed


lemma approve_authorize_device_gate:
  assumes "approve_authorize_device env params peer d = (r, d1)" "dm_approve_cmd d = Some cmd"
  shows "starts d1 = starts d \<and> (r = Inr g \<longrightarrow>
    (\<exists>url. audit_target_url (ad_verification_url params) = Some url \<and> approved env (ad_cred_id params) url ''authorize_device'' peer d))"
proof (cases "audit_target_url (ad_verification_url params)")
  case None
  then show ?thesis using assms(1) by (auto simp: approve_authorize_device_def)
next
  case (Some url)
  then have "approve_with_grant env (ad_cred_id params) url ''authorize_device'' peer d = (r, d1)"
    using assms(1) by (simp add: approve_authorize_device_def)
  from approve_with_grant_gate[OF this assms(2), of g] Some show ?thesis by blast
qed

lemma approved_vault [simp]: "approved env cid url meth peer (d\<lparr>dm_vault := v\<rparr>) = approved env cid url meth peer d"
  by (auto simp: approved_def operator_agrees_def split: option.splits sum.splits)

subsection \<open>What is started\<close>

text \<open>
  The credential behind an approval: what the providers, as the gate left them, resolve the approved name to.
\<close>

definition approved_credential ::
  "('w, 'i) DaemonEnv \<Rightarrow> string \<Rightarrow> DaemonState \<Rightarrow> 'w \<Rightarrow> ErrorCode + ResolvedCredential" where
  "approved_credential env cid d w =
     (case credential_refs (de_vault env) cid (dm_vault d) w of
        (_, v, w) \<Rightarrow> fst (resolve_unlocked_credential (de_vault env) cid v w))"

text \<open>
  A start carries a credential and an address: the secrets of the request are those of the credential, and its
  target is the address. The address of a hosted service is that of its configuration.
\<close>

fun start_carries :: "('w, 'i) DaemonEnv \<Rightarrow> ResolvedCredential \<Rightarrow> string \<Rightarrow> daemon_effect \<Rightarrow> bool" where
  "start_carries env cred url (StartLogin r) \<longleftrightarrow>
     el_secret (elc_login r) = executor_secret (de_code_of env) (de_secs env) cred \<and> el_target_url (elc_login r) = url"
| "start_carries env cred url (StartBegin r) \<longleftrightarrow>
     eb_secret r = \<lparr>bs_username = rc_username cred, bs_password = rc_password cred\<rparr> \<and> eb_target_url r = url"
| "start_carries env cred url (StartAuthorize r) \<longleftrightarrow>
     ea_secret r = executor_secret (de_code_of env) (de_secs env) cred \<and> audit_target_url (ea_verification_url r) = Some url"
| "start_carries env cred url (StartProxy p x) \<longleftrightarrow>
     pc_upstream p = url \<and> (\<exists>cookies. api_proxy_launch (de_code_of env) (de_secs env) p cred cookies = Inr x)"
| "start_carries env cred url (StartMcp m x) \<longleftrightarrow>
     ''mcp:'' @ mc_name m = url \<and> the (build_mcp_server_launch (de_code_of env) (de_secs env) (mc_env m) cred) = Inr x"
| "start_carries env cred url _ \<longleftrightarrow> False"

definition no_start :: "DaemonState \<Rightarrow> DaemonState \<Rightarrow> bool" where
  "no_start d d' \<longleftrightarrow> starts d' = starts d \<and> va_providers (dm_vault d') = va_providers (dm_vault d)"

lemma no_start_refl [simp, intro]: "no_start d d"
  by (simp add: no_start_def)

lemma no_start_trans [trans]: "no_start d d1 \<Longrightarrow> no_start d1 d2 \<Longrightarrow> no_start d d2"
  by (simp add: no_start_def)

lemma starts_effect [simp]: "starts (effect x d) = (if is_start x then x # starts d else starts d)"
  by (simp add: starts_def effect_def)

lemma starts_fields [simp]:
  "starts (d\<lparr>dm_table := st\<rparr>) = starts d" "starts (d\<lparr>dm_controls := cs\<rparr>) = starts d" "starts (d\<lparr>dm_cookies := cd\<rparr>) = starts d"
  "starts (d\<lparr>dm_slots := sl\<rparr>) = starts d" "starts (d\<lparr>dm_ledger := l\<rparr>) = starts d" "starts (daemon_audit p m fs out d) = starts d"
  by (simp_all add: starts_def daemon_audit_def)

lemma vault_effect [simp]: "dm_vault (effect x d) = dm_vault d"
  by (simp add: effect_def)

lemma no_start_basic [simp]:
  "\<not> is_start x \<Longrightarrow> no_start d (effect x d)" "no_start d (d\<lparr>dm_table := st\<rparr>)" "no_start d (d\<lparr>dm_controls := cs\<rparr>)"
  "no_start d (d\<lparr>dm_cookies := cd\<rparr>)" "no_start d (d\<lparr>dm_slots := sl\<rparr>)" "no_start d (d\<lparr>dm_ledger := l\<rparr>)" "no_start d (daemon_audit p m fs out d)"
  by (simp_all add: no_start_def) (simp add: daemon_audit_def)

lemma is_start_simps [simp]:
  "\<not> is_start (ExportCookies n)" "\<not> is_start (ReleaseLease n t)" "\<not> is_start (ShutdownExecutor n)" "\<not> is_start (StopChild n)"
  "\<not> is_start (StopPending n q)" "\<not> is_start (LeaseTab n)" "\<not> is_start (RunApproval vars)"
  "is_start (StartLogin r)" "is_start (StartBegin b)" "is_start (StartAuthorize a)" "is_start (StartProxy p x)" "is_start (StartMcp m y)"
  by (simp_all add: is_start_def)

lemma no_start_fold: "(\<And>x d. no_start d (f x d)) \<Longrightarrow> no_start d (fold f xs d)"
proof (induction xs arbitrary: d)
  case (Cons x xs)
  then show ?case using no_start_trans[of d "f x d"] by simp
qed simp

lemma no_start_release [simp]: "no_start d (snd (release env ex t d))"
  by (simp add: release_def)

lemma no_start_release_leases: "no_start d (release_leases env ex a ls d)"
proof (induction env ex a ls d rule: release_leases.induct)
  case (2 env ex a s l ls d)
  let ?d = "effect (ReleaseLease ex (target l)) d"
  have "no_start d (release_leases env ex a ls ?d)" if "no_start ?d (release_leases env ex a ls ?d)"
    using no_start_trans[OF no_start_basic(1) that] by simp
  then show ?case using 2 by (cases "de_release env ex (target l)") (simp_all add: release_def)
qed simp

lemma no_start_export: "export_cookies_of env k ex d = (saved, d') \<Longrightarrow> no_start d d'"
  by (auto simp: export_cookies_of_def no_start_def split: prod.splits)

lemma no_start_terminate_browser: "no_start d (terminate_browser env b m a d)"
proof -
  obtain saved d1 where s: "(if persist_cookies b
       then (case export_cookies_of env (key b) (executor b) d of (saved, d) \<Rightarrow> (Some saved, d)) else (None, d)) = (saved, d1)"
    by fastforce
  have "no_start d d1" using s no_start_export by (auto split: if_splits prod.splits)
  also have "no_start d1 (release_leases env (executor b) a (leases b) d1)" (is "no_start _ ?d2") by (rule no_start_release_leases)
  also have "no_start ?d2 (effect (ShutdownExecutor (executor b)) ?d2)" (is "no_start _ ?d3") by simp
  also have "no_start ?d3 (fold (\<lambda>(sess, _). audit_system_session m sess (namespace (key b)) saved) (leases b) ?d3)"
    by (rule no_start_fold) (simp add: audit_system_session_def split: prod.split)
  finally show ?thesis by (simp add: terminate_browser_def s)
qed

lemma no_start_expire: "no_start d (expire_browser_at_deadline env bid now d)"
  by (simp add: no_start_trans[OF no_start_basic(2) no_start_terminate_browser] expire_browser_at_deadline_def split: prod.split option.split)

lemma no_start_control [simp]: "no_start d (snd (start_control sk d))" "no_start d (set_control sk c d)"
  by (simp_all add: start_control_def set_control_def split: option.split)

lemma no_start_join:
  assumes "join_browser env k prin d = (r, d')"
  shows "no_start d d'"
proof -
  have a: "no_start d (expire_browser_at_deadline env b n (effect (LeaseTab ex) d))" for b n ex
    by (rule no_start_trans[OF no_start_basic(1) no_start_expire]) simp
  have b: "no_start d ((effect (LeaseTab ex) d)\<lparr>dm_table := st\<rparr>)" for ex st
    by (rule no_start_trans[OF no_start_basic(1) no_start_basic(2)]) simp
  have c: "no_start d (snd (release env ex t ((effect (LeaseTab ex) d)\<lparr>dm_table := st\<rparr>)))" for ex t st
    by (rule no_start_trans[OF b no_start_release])
  have e: "no_start d (terminate_browser env x m al (snd (release env ex t ((effect (LeaseTab ex) d)\<lparr>dm_table := st\<rparr>))))" for x m al ex t st
    by (rule no_start_trans[OF c no_start_terminate_browser])
  show ?thesis
    using assms a b c e
    by (auto simp: join_browser_def Let_def no_start_expire split: option.splits if_splits sum.splits prod.splits)
qed

lemma starts_control [simp]: "starts (snd (start_control sk d)) = starts d" "starts (set_control sk c d) = starts d"
  using no_start_control unfolding no_start_def by simp_all

lemma starts_restore: "restore_cookies env k d = (p, r, d') \<Longrightarrow> starts d' = starts d"
  by (auto simp: restore_cookies_def split: if_splits prod.splits)

lemma starts_save_returned [simp]: "starts (save_returned env k c d) = starts d"
  by (simp add: save_returned_def split: option.split)

lemma starts_register_login_browser: "register_login_browser env r d = (x, d') \<Longrightarrow> starts d' = starts d"
  by (auto simp: register_login_browser_def Let_def split: if_splits option.splits)

lemma starts_hand_off: "hand_off env c la done d = (x, c', d') \<Longrightarrow> starts d' = starts d"
  by (auto simp: hand_off_def Let_def dest: starts_register_login_browser split: prod.splits sum.splits)

lemma starts_finish_login [simp]: "starts (finish_login env i k pending reason peer d) = starts d"
proof -
  have "start_control sk x = (c, y) \<Longrightarrow> starts y = starts x" for sk x c y using starts_control(1)[of sk x] by simp
  then show ?thesis by (auto simp: finish_login_def finish_def Let_def split: option.splits prod.splits)
qed

lemma starts_end_entry [simp]: "starts (end_entry env reason peer ie d) = starts d"
  by (simp add: end_entry_def take_slot_def split: prod.split)

lemma starts_register_pending: "register_pending env peer la d = (x, d') \<Longrightarrow> starts d' = starts d"
  by (auto simp: register_pending_def Let_def split: option.splits prod.splits)

lemma starts_login_cookies:
  "load_login_cookies env k d = (lc, d') \<Longrightarrow> starts d' = starts d"
  "finish_login_cookies env lc ret d = (a, d') \<Longrightarrow> starts d' = starts d"
  by (auto simp: load_login_cookies_def finish_login_cookies_def split: option.splits prod.splits)

lemma starts_register_service_lease: "register_service_lease env peer ex kind cid ns prt limit d = (x, d') \<Longrightarrow> starts d' = starts d"
  by (auto simp: register_service_lease_def Let_def split: if_splits)

text \<open>What a credential resolves to depends on the providers alone, not on the audit or the registered secrets.\<close>

lemma resolve_by_providers:
  assumes "va_providers v' = va_providers v"
  shows "fst (resolve_unlocked_credential env cid v' w) = fst (resolve_unlocked_credential env cid v w)"
proof -
  have f: "find_provider ns v' = find_provider ns v" for ns using assms by (simp add: find_provider_def)
  show ?thesis
    using assms f
    by (auto simp: resolve_unlocked_credential_def resolve_credential_def run_provider_def Let_def split: option.splits prod.splits sum.splits)
qed

lemma start_login_starts:
  assumes "start_login env request k prin params excl d w = (h, d', w')" "starts d' \<noteq> starts d"
  shows "\<exists>cred cookies. fst (resolve_unlocked_credential (de_vault env) (lp_cred_id params) (dm_vault d) w) = Inr cred
    \<and> starts d' = StartLogin (login_request (de_code_of env) (de_secs env) params cred cookies) # starts d"
proof -
  let ?sk = "SkBrowser k" and ?d0 = "snd (start_control (SkBrowser k) d)"
  obtain j d1 where j: "(if excl then (None, ?d0) else join_browser env k prin ?d0) = (j, d1)" by fastforce
  have q: "no_start d d1" using j no_start_trans[OF no_start_control(1) no_start_join] no_start_control(1)[of d ?sk] by (auto split: if_splits)
  have n: "j = None"
    using assms j q by (cases j) (auto simp: start_login_def Let_def no_start_def split: sum.splits)
  obtain lim c where l: "is_limited (de_now env 6) (fst (start_control ?sk d1)) = (lim, c)" by fastforce
  obtain r v w1 where r: "resolve_unlocked_credential (de_vault env) (lp_cred_id params) (dm_vault d1) w = (r, v, w1)"
    by (metis prod_cases3)
  have nl: "\<not> lim" using assms j n l q by (auto simp: start_login_def Let_def no_start_def)
  have dv: "dm_vault (set_control ?sk c d1) = dm_vault d1" by (simp add: set_control_def)
  obtain cred where c: "r = Inr cred"
    using assms j n l nl r dv q by (cases r) (auto simp: start_login_def Let_def no_start_def)
  obtain ps rs d2 where rc: "restore_cookies env k ((set_control ?sk c d1)\<lparr>dm_vault := v\<rparr>) = (ps, rs, d2)" by (metis prod_cases3)
  have s2: "starts d2 = starts d" using starts_restore[OF rc] q by (simp add: no_start_def)
  let ?start = "login_request (de_code_of env) (de_secs env) params cred rs"
  have "starts d' = StartLogin ?start # starts d"
    using assms(1) j n l nl r dv c rc s2
    by (auto simp: start_login_def Let_def dest!: starts_register_login_browser split: sum.splits prod.splits if_splits)
  moreover have "fst (resolve_unlocked_credential (de_vault env) (lp_cred_id params) (dm_vault d) w) = Inr cred"
    using resolve_by_providers[of "dm_vault d1" "dm_vault d" "de_vault env" "lp_cred_id params" w] q r c by (simp add: no_start_def)
  ultimately show ?thesis by blast
qed

lemma begin_after_approval_starts:
  assumes "begin_after_approval env i k params peer d w = (h, d', w')" "starts d' \<noteq> starts d"
  shows "\<exists>cred cookies. fst (resolve_unlocked_credential (de_vault env) (bp_cred_id params) (dm_vault d) w) = Inr cred
    \<and> starts d' = StartBegin (begin_request params cred cookies) # starts d"
proof -
  let ?sk = "SkBrowser k" and ?d0 = "snd (start_control (SkBrowser k) d)"
  obtain j d1 where j: "(if bp_exclusive params then (None, ?d0) else join_browser env k (principal k) ?d0) = (j, d1)" by fastforce
  have q: "no_start d d1" using j no_start_trans[OF no_start_control(1) no_start_join] no_start_control(1)[of d ?sk] by (auto split: if_splits)
  have n: "j = None"
    using assms j q by (cases j) (auto simp: begin_after_approval_def Let_def no_start_def split: sum.splits)
  obtain lim c where l: "is_limited (de_now env 6) (fst (start_control ?sk d1)) = (lim, c)" by fastforce
  obtain r v w1 where r: "resolve_unlocked_credential (de_vault env) (bp_cred_id params) (dm_vault d1) w = (r, v, w1)"
    by (metis prod_cases3)
  have nl: "\<not> lim" using assms j n l q by (auto simp: begin_after_approval_def Let_def no_start_def)
  have dv: "dm_vault (set_control ?sk c d1) = dm_vault d1" by (simp add: set_control_def)
  obtain cred where c: "r = Inr cred"
    using assms j n l nl r dv q by (cases r) (auto simp: begin_after_approval_def Let_def no_start_def)
  obtain ps rs d2 where rc: "restore_cookies env k ((set_control ?sk c d1)\<lparr>dm_vault := v\<rparr>) = (ps, rs, d2)" by (metis prod_cases3)
  have s2: "starts d2 = starts d" using starts_restore[OF rc] q by (simp add: no_start_def)
  have "starts d' = StartBegin (begin_request params cred rs) # starts d"
    using assms(1) j n l nl r dv c rc s2
    by (auto simp: begin_after_approval_def Let_def dest!: starts_register_pending starts_hand_off
        split: sum.splits prod.splits if_splits ExecutorState.splits)
  moreover have "fst (resolve_unlocked_credential (de_vault env) (bp_cred_id params) (dm_vault d) w) = Inr cred"
    using resolve_by_providers[of "dm_vault d1" "dm_vault d" "de_vault env" "bp_cred_id params" w] q r c by (simp add: no_start_def)
  ultimately show ?thesis by blast
qed

lemma authorize_device_approved_starts:
  assumes "authorize_device_approved env request params k login_url d w = (h, d', w')" "starts d' \<noteq> starts d"
  shows "\<exists>cred cookies. fst (resolve_unlocked_credential (de_vault env) (ad_cred_id params) (dm_vault d) w) = Inr cred
    \<and> starts d' = StartAuthorize (authorize_device_request (de_code_of env) (de_secs env) params login_url cred cookies) # starts d"
proof -
  obtain r v w1 where r: "resolve_unlocked_credential (de_vault env) (ad_cred_id params) (dm_vault d) w = (r, v, w1)" by (metis prod_cases3)
  obtain cred where c: "r = Inr cred" using assms r by (cases r) (auto simp: authorize_device_approved_def Let_def)
  obtain lc d1 where l: "load_login_cookies env k (d\<lparr>dm_vault := v\<rparr>) = (lc, d1)" by fastforce
  have "starts d1 = starts d" using starts_login_cookies(1)[OF l] by simp
  then show ?thesis
    using assms(1) r c l
    by (auto simp: authorize_device_approved_def Let_def dest!: starts_login_cookies(2) split: sum.splits prod.splits)
qed

lemma build_launch_carries:
  assumes "build_launch env s cred cookies = Inr launch"
  shows "start_carries env cred (hs_target_url s) (start_effect launch) \<and> is_start (start_effect launch)"
proof (cases s)
  case (HsProxy p)
  then show ?thesis using assms by (cases "api_proxy_launch (de_code_of env) (de_secs env) p cred cookies") (auto simp: build_launch_def)
next
  case (HsMcp m)
  then show ?thesis using assms
    by (cases "the (build_mcp_server_launch (de_code_of env) (de_secs env) (mc_env m) cred)") (auto simp: build_launch_def)
qed

lemma start_service_session_starts:
  assumes "start_service_session env peer s cid ns d w = (x, d', w')" "starts d' \<noteq> starts d"
  shows "\<exists>cred launch. fst (resolve_unlocked_credential (de_vault env) cid (dm_vault d) w) = Inr cred
    \<and> start_carries env cred (hs_target_url s) (start_effect launch) \<and> starts d' = start_effect launch # starts d"
proof -
  let ?sk = "service_start_key (hs_kind s) (principal_of peer) (hs_name s)"
  obtain c0 d1 where s: "start_control ?sk d = (c0, d1)" by fastforce
  have q: "no_start d d1" using no_start_control(1)[of d ?sk] s by simp
  obtain lim c where l: "is_limited (de_now env 6) c0 = (lim, c)" by fastforce
  have nl: "\<not> lim" using assms s l q by (auto simp: start_service_session_def Let_def no_start_def)
  obtain r v w1 where r: "resolve_unlocked_credential (de_vault env) cid (dm_vault d1) w = (r, v, w1)" by (metis prod_cases3)
  have dv: "dm_vault (set_control ?sk c d1) = dm_vault d1" by (simp add: set_control_def)
  obtain cred where c: "r = Inr cred"
    using assms s l nl r dv q by (cases r) (auto simp: start_service_session_def Let_def no_start_def)
  let ?d2 = "(set_control ?sk c d1)\<lparr>dm_vault := v\<rparr>"
  obtain lc d3 where lc: "(if logs_in_browser s then load_login_cookies env (BrowserKey_new (principal_of peer) ns cid) ?d2 else (None, ?d2)) = (lc, d3)"
    by fastforce
  have s3: "starts d3 = starts d" using lc starts_login_cookies(1)[of env _ ?d2] q by (auto simp: no_start_def split: if_splits)
  obtain launch where b: "build_launch env s cred (Option.bind lc (wire_cookies (de_lib env))) = Inr launch"
    using assms s l nl r dv c lc s3
    by (cases "build_launch env s cred (Option.bind lc (wire_cookies (de_lib env)))") (auto simp: start_service_session_def Let_def)
  note B = build_launch_carries[OF b]
  have "starts d' = start_effect launch # starts d"
    using assms(1) s l nl r dv c lc b s3 B
    by (auto simp: start_service_session_def Let_def dest!: starts_register_service_lease starts_login_cookies(2) split: sum.splits prod.splits)
  moreover have "fst (resolve_unlocked_credential (de_vault env) cid (dm_vault d) w) = Inr cred"
    using resolve_by_providers[of "dm_vault d1" "dm_vault d" "de_vault env" cid w] q r c by (simp add: no_start_def)
  ultimately show ?thesis using B by blast
qed

text \<open>The gate leaves the providers as the listing of the credential left them.\<close>

lemma approve_command_vault: "approve_command env cid url meth peer d = (r, d1) \<Longrightarrow> dm_vault d1 = dm_vault d"
  by (auto simp: approve_command_def Let_def split: option.splits sum.splits approve_end.splits bool.splits)

lemma approve_with_grant_vault: "approve_with_grant env cid url meth peer d = (r, d1) \<Longrightarrow> dm_vault d1 = dm_vault d"
  by (auto simp: approve_with_grant_def Let_def dest: approve_command_vault split: if_splits prod.splits sum.splits)

lemma credential_state_refs:
  "credential_state env cid v w = (Inr (Some s), v1, w1) \<Longrightarrow> \<exists>x. credential_refs env cid v w = (x, v1, w1)"
  by (auto simp: credential_state_def split: option.splits prod.splits sum.splits)

lemma credential_metadata_refs:
  "credential_metadata env cid v w = (Inr (Some s), v1, w1) \<Longrightarrow> \<exists>x. credential_refs env cid v w = (x, v1, w1)"
  by (auto simp: credential_metadata_def split: option.splits prod.splits sum.splits)

lemma gate_credential:
  assumes "gate_on_approval env cid url meth peer d w = (Inr g, d1, w1)" "dm_approve_cmd d = Some cmd"
  shows "fst (resolve_unlocked_credential (de_vault env) cid (dm_vault d1) w1) = approved_credential env cid d w"
proof -
  obtain q v w2 where q: "credential_state (de_vault env) cid (dm_vault d) w = (q, v, w2)"
    by (cases "credential_state (de_vault env) cid (dm_vault d) w")
  have "(\<exists>s. q = Inr (Some s)) \<and> dm_vault d1 = v \<and> w1 = w2"
    using assms q
    by (auto simp: gate_on_approval_def approval_required_def Let_def dest: approve_command_vault approve_with_grant_vault
        split: sum.splits option.splits if_splits prod.splits)
  then show ?thesis using credential_state_refs[of "de_vault env" cid "dm_vault d" w] q by (auto simp: approved_credential_def)
qed

subsection \<open>Every start is approved\<close>

definition approved_start ::
  "('w, 'i) DaemonEnv \<Rightarrow> (string \<times> string \<times> string) option \<Rightarrow> PeerIdentity \<Rightarrow> DaemonState \<Rightarrow> 'w \<Rightarrow> DaemonState \<Rightarrow> bool" where
  "approved_start env subject peer d w d' \<longleftrightarrow>
     (\<exists>cid url meth cred e. subject = Some (cid, url, meth) \<and> approved env cid url meth peer d
        \<and> approved_credential env cid d w = Inr cred \<and> starts d' = e # starts d \<and> start_carries env cred url e)"

lemma login_gate:
  assumes run: "login env decode request peer d w = (h, d', w')" and cmd: "dm_approve_cmd d = Some cmd" and s: "starts d' \<noteq> starts d"
  shows "approved_start env (subject_of (ReqLogin decode) request d) peer d w d'"
proof (cases "parse_params decode (rq_params request)")
  case (Inl e)
  then show ?thesis using run s by (simp add: login_def)
next
  case (Inr rp)
  let ?p = "lr_login rp"
  obtain r d1 w1 where g: "gate_on_approval env (lp_cred_id ?p) (lp_target_url ?p) ''login'' peer d w = (r, d1, w1)"
    by (cases "gate_on_approval env (lp_cred_id ?p) (lp_target_url ?p) ''login'' peer d w")
  note G = gate_on_approval_gate[OF g cmd]
  obtain grant ns h1 where m: "r = Inr grant"
      "start_login env request (BrowserKey_new (principal_of peer) ns (lp_cred_id ?p)) (principal_of peer) ?p (lr_exclusive rp) d1 w1 = (h1, d', w')"
    using run s Inr g G by (auto simp: login_def Let_def split: option.splits sum.splits prod.splits)
  have a: "approved env (lp_cred_id ?p) (lp_target_url ?p) ''login'' peer d" and st: "starts d1 = starts d" using G m(1) by blast+
  obtain cred cookies where c: "fst (resolve_unlocked_credential (de_vault env) (lp_cred_id ?p) (dm_vault d1) w1) = Inr cred"
      "starts d' = StartLogin (login_request (de_code_of env) (de_secs env) ?p cred cookies) # starts d"
    using start_login_starts[OF m(2)] s st by auto
  show ?thesis
    using a c gate_credential[OF g[unfolded m(1)] cmd] Inr by (auto simp: approved_start_def params_of_def login_request_def)
qed

lemma login_begin_gate:
  assumes run: "login_begin env decode request peer d w = (h, d', w')" and cmd: "dm_approve_cmd d = Some cmd" and s: "starts d' \<noteq> starts d"
  shows "approved_start env (subject_of (ReqBegin decode) request d) peer d w d'"
proof (cases "parse_params decode (rq_params request)")
  case (Inl e)
  then show ?thesis using run s by (simp add: login_begin_def)
next
  case (Inr bp)
  obtain r d1 w1 where g: "gate_on_approval env (bp_cred_id bp) (bp_target_url bp) ''login_begin'' peer d w = (r, d1, w1)"
    by (cases "gate_on_approval env (bp_cred_id bp) (bp_target_url bp) ''login_begin'' peer d w")
  note G = gate_on_approval_gate[OF g cmd]
  obtain grant ns h1 where m: "r = Inr grant"
      "begin_after_approval env (rq_id request) (BrowserKey_new (principal_of peer) ns (bp_cred_id bp)) bp peer d1 w1 = (h1, d', w')"
    using run s Inr g G by (auto simp: login_begin_def Let_def split: option.splits sum.splits prod.splits)
  have a: "approved env (bp_cred_id bp) (bp_target_url bp) ''login_begin'' peer d" and st: "starts d1 = starts d" using G m(1) by blast+
  obtain cred cookies where c: "fst (resolve_unlocked_credential (de_vault env) (bp_cred_id bp) (dm_vault d1) w1) = Inr cred"
      "starts d' = StartBegin (begin_request bp cred cookies) # starts d"
    using begin_after_approval_starts[OF m(2)] s st by auto
  show ?thesis
    using a c gate_credential[OF g[unfolded m(1)] cmd] Inr by (auto simp: approved_start_def params_of_def begin_request_def)
qed

lemma open_service_gate:
  assumes run: "open_service env kind decode request peer d w = (h, d', w')" and cmd: "dm_approve_cmd d = Some cmd" and s: "starts d' \<noteq> starts d"
  shows "approved_start env (subject_of (ReqOpen kind decode) request d) peer d w d'"
proof -
  obtain name hs cid ns rest where n: "parse_params decode (rq_params request) = Inr name" "hs_lookup kind name d = Some hs"
      "hs_cred_id hs = Some cid" "split_once cid '':'' = Some (ns, rest)"
    using run s by (auto simp: open_service_def Let_def split: option.splits sum.splits)
  obtain r d1 w1 where g: "gate_on_approval env cid (hs_target_url hs) (open_method kind) peer d w = (r, d1, w1)"
    by (cases "gate_on_approval env cid (hs_target_url hs) (open_method kind) peer d w")
  note G = gate_on_approval_gate[OF g cmd]
  obtain grant x where m: "r = Inr grant" "start_service_session env peer hs cid ns d1 w1 = (x, d', w')"
    using run s n g G by (auto simp: open_service_def Let_def split: sum.splits prod.splits)
  have a: "approved env cid (hs_target_url hs) (open_method kind) peer d" and st: "starts d1 = starts d" using G m(1) by blast+
  obtain cred launch where c: "fst (resolve_unlocked_credential (de_vault env) cid (dm_vault d1) w1) = Inr cred"
      "start_carries env cred (hs_target_url hs) (start_effect launch)" "starts d' = start_effect launch # starts d"
    using start_service_session_starts[OF m(2)] s st by auto
  show ?thesis
    using a c gate_credential[OF g[unfolded m(1)] cmd] n by (auto simp: approved_start_def params_of_def)
qed

lemma authorize_device_gate:
  assumes run: "authorize_device env decode request peer d w = (h, d', w')" and cmd: "dm_approve_cmd d = Some cmd" and s: "starts d' \<noteq> starts d"
  shows "approved_start env (subject_of (ReqAuthorize decode) request d) peer d w d'"
proof -
  obtain p o1 ns rest where n: "parse_params decode (rq_params request) = Inr p" "http_origin (ad_verification_url p) = Some o1"
      "valid_authorize_steps (ad_steps p)" "split_once (ad_cred_id p) '':'' = Some (ns, rest)"
    using run s by (auto simp: authorize_device_def Let_def split: option.splits sum.splits if_splits)
  obtain q v w1 where m: "credential_metadata (de_vault env) (ad_cred_id p) (dm_vault d) w = (q, v, w1)"
    by (cases "credential_metadata (de_vault env) (ad_cred_id p) (dm_vault d) w")
  have "\<exists>uri. q = Inr (Some uri)"
  proof (cases q)
    case (Inl e)
    then show ?thesis using run s n m by (auto simp: authorize_device_def)
  next
    case (Inr x)
    then show ?thesis using run s n m by (cases x) (auto simp: authorize_device_def)
  qed
  then obtain uri where q: "q = Inr (Some uri)" by blast
  let ?d = "d\<lparr>dm_vault := v\<rparr>"
  have req: "approval_required ?d" "dm_approve_cmd ?d = Some cmd" using cmd by (simp_all add: approval_required_def)
  obtain r d1 where g: "approve_authorize_device env p peer ?d = (r, d1)" by fastforce
  note G = approve_authorize_device_gate[OF g req(2)]
  have dv: "dm_vault d1 = v" using g approve_with_grant_vault[of env _ _ _ peer ?d] by (auto simp: approve_authorize_device_def split: option.splits)
  obtain grant k login_url h1 where a: "r = Inr grant" "authorize_device_approved env request p k login_url d1 w1 = (h1, d', w')"
    using run s n m q g req G by (auto simp: authorize_device_def Let_def split: sum.splits prod.splits)
  obtain url where u: "audit_target_url (ad_verification_url p) = Some url" "approved env (ad_cred_id p) url ''authorize_device'' peer d"
    and st: "starts d1 = starts d" using G a(1) by auto
  obtain cred cookies where c: "fst (resolve_unlocked_credential (de_vault env) (ad_cred_id p) (dm_vault d1) w1) = Inr cred"
      "starts d' = StartAuthorize (authorize_device_request (de_code_of env) (de_secs env) p login_url cred cookies) # starts d"
    using authorize_device_approved_starts[OF a(2)] s st by auto
  have "approved_credential env (ad_cred_id p) d w = Inr cred"
    using credential_metadata_refs[of "de_vault env" "ad_cred_id p" "dm_vault d" w] m q c(1) dv by (auto simp: approved_credential_def)
  then show ?thesis using n u c(2) by (auto simp: approved_start_def params_of_def authorize_device_request_def)
qed

text \<open>
  C1: while an approval command is configured, a request that starts an executor (a login, a
  stepwise login, a device authorization, an API proxy or an MCP server) starts exactly one, and
  only with an approval: either a live grant, which was given to this caller for this credential
  whatever address and method it was asked for, or the approval command, run with the credential,
  the address, the method and the caller of this request, which exited with success. The executor
  gets the secrets of that very credential, as the vault resolves its name, and the address that was
  put to the operator.
\<close>

theorem starts_are_approved:
  assumes "handle_start env req request peer d w = (h, d', w')" "dm_approve_cmd d = Some cmd" "starts d' \<noteq> starts d"
  shows "\<exists>cid url meth cred e. subject_of req request d = Some (cid, url, meth)
    \<and> (fst (reuse (principal_of peer) cid (de_now env 0) (dm_grants d)) \<or> operator_agrees env cid url meth peer d)
    \<and> approved_credential env cid d w = Inr cred \<and> starts d' = e # starts d \<and> start_carries env cred url e"
  using assms login_gate login_begin_gate authorize_device_gate open_service_gate
  by (cases req) (simp_all add: approved_start_def approved_def)


definition gated_daemon :: DaemonState where
  "gated_daemon = demo_daemon\<lparr>dm_approve_cmd := Some ''ask'', dm_grants := \<lparr>ttl = 0, issued = [], generation = 0\<rparr>\<rparr>"

definition gated_env :: "(unit, unit) DaemonEnv" where
  "gated_env = undefined\<lparr>de_now := (\<lambda>_. 0), de_approval_code := Inr 42, de_approve := (\<lambda>_ _. ApExited True),
     de_start := (\<lambda>_. Inl (failure_of Internal))\<rparr>"

definition gated_params :: LoginRequestParams where
  "gated_params = \<lparr>lr_login = \<lparr>lp_cred_id = ''op:e'', lp_target_url = ''https://e.example/'', lp_steps = None,
     lp_success_selector = None, lp_failure_selector = None\<rparr>, lr_exclusive = True\<rparr>"

lemma gated_state:
  "credential_state env ''op:e'' demo_vault w = (Inr (Some \<lparr>cs_locked = False, cs_confirmed = True\<rparr>), demo_vault, w)"
  by (simp add: credential_state_def credential_refs_def demo_vault_def demo_static_def split_once_def starts_with_def
      find_provider_def run_provider_def as_provider_def static_list_refs_def
      static_take_autolock_event_def Let_def)


lemma gated_gate:
  "gate_on_approval gated_env ''op:e'' url meth peer gated_daemon () =
     (Inr None, effect (RunApproval (approval_vars ''op:e'' url meth peer 42 0)) gated_daemon, ())"
proof -
  have v: "dm_vault gated_daemon = demo_vault" "dm_approve_cmd gated_daemon = Some ''ask''" "ttl (dm_grants gated_daemon) = 0"
    by (simp_all add: gated_daemon_def demo_daemon_def)
  let ?d = "effect (RunApproval (approval_vars ''op:e'' url meth peer 42 0)) gated_daemon"
  have same: "gated_daemon\<lparr>dm_vault := demo_vault\<rparr> = gated_daemon" "gated_daemon\<lparr>dm_grants := dm_grants gated_daemon\<rparr> = gated_daemon"
    "?d\<lparr>dm_grants := dm_grants gated_daemon\<rparr> = ?d" "dm_grants ?d = dm_grants gated_daemon"
    using v(1) by (simp_all add: effect_def)
  have ac: "approve_command gated_env ''op:e'' url meth peer gated_daemon = (Inr (), ?d)"
    using v by (simp add: approve_command_def gated_env_def Let_def)
  have aw: "approve_with_grant gated_env ''op:e'' url meth peer gated_daemon = (Inr None, ?d)"
    using v by (simp add: approve_with_grant_def reuse_def issue_def ac same Let_def)
  show ?thesis using v by (simp add: gate_on_approval_def approval_required_def gated_state same aw)
qed

lemma gated_start:
  fixes d :: DaemonState
  assumes "dm_vault d = demo_vault" "dm_controls d = []" "dm_store d = ex_store" "start_login gated_env request k prin (lr_login gated_params) True d () = (h, d', w')"
  shows "starts d' \<noteq> starts d"
  using assms
  by (auto simp: start_login_def start_control_def hget_def is_limited_def prune_attempts_def StartControl_new_def
      resolve_unlocked_credential_def demo_resolve restore_cookies_def Let_def set_control_def gated_params_def gated_env_def
      starts_def effect_def is_start_def hinsert_def MAX_START_ATTEMPTS_def split: prod.splits if_splits)

theorem starts_are_approved_witness:
  "case login gated_env (\<lambda>_. Some gated_params) demo_lock_request (Uid 7) gated_daemon () of
     (h, d', w') \<Rightarrow> operator_agrees gated_env ''op:e'' ''https://e.example/'' ''login'' (Uid 7) gated_daemon
       \<and> (\<exists>cred e. approved_credential gated_env ''op:e'' gated_daemon () = Inr cred \<and> starts d' = e # starts gated_daemon
            \<and> start_carries gated_env cred ''https://e.example/'' e)"
proof -
  obtain h d' w' where run: "login gated_env (\<lambda>_. Some gated_params) demo_lock_request (Uid 7) gated_daemon () = (h, d', w')"
    by (cases "login gated_env (\<lambda>_. Some gated_params) demo_lock_request (Uid 7) gated_daemon ()")
  have cmd: "dm_approve_cmd gated_daemon = Some ''ask''" by (simp add: gated_daemon_def)
  let ?d = "effect (RunApproval (approval_vars ''op:e'' ''https://e.example/'' ''login'' (Uid 7) 42 0)) gated_daemon"
  obtain h' d'' w'' where st: "start_login gated_env demo_lock_request (BrowserKey_new (principal_of (Uid 7)) ''op'' ''op:e'')
      (principal_of (Uid 7)) (lr_login gated_params) True ?d () = (h', d'', w'')"
    by (cases "start_login gated_env demo_lock_request (BrowserKey_new (principal_of (Uid 7)) ''op'' ''op:e'')
      (principal_of (Uid 7)) (lr_login gated_params) True ?d ()")
  have "d'' = d'"
    using run st
    by (simp add: login_def gated_params_def parse_params_def split_once_def starts_with_def gated_gate Let_def)
  moreover have "starts d'' \<noteq> starts ?d"
    using gated_start[OF _ _ _ st] by (simp add: effect_def gated_daemon_def demo_daemon_def)
  ultimately have s: "starts d' \<noteq> starts gated_daemon" by simp
  have g: "\<not> fst (reuse p c now (dm_grants gated_daemon))" for p c now by (simp add: gated_daemon_def reuse_def)
  show ?thesis
    using starts_are_approved[of gated_env "ReqLogin (\<lambda>_. Some gated_params)", OF _ cmd s] run g
    by (auto simp: params_of_def parse_params_def gated_params_def)
qed

end
