(* ===== verification/Rpc_Server.thy ===== *)
theory Rpc_Server
  imports Handlers
begin

section \<open>Connections and requests\<close>

text \<open>
  The daemon's side of a connection: \<open>serve_connection\<close>, \<open>handle_request\<close> and \<open>write_response\<close> of
  \<open>main.rs\<close> with the administrative requests and \<open>status\<close>. A connection is the list of its lines; what
  the libraries make of a line (serde) and what changes from line to line (clock, randomness, the
  executors' answers) is a field of the environment, one environment per line. Writes to the
  connection succeed: a failed one ends it like the end of the input.
\<close>

record ('w, 'i) ServerEnv =
  sv_daemon :: "('w, 'i) DaemonEnv"
  sv_allowed_uids :: "u32 list"
  sv_operator_uids :: "u32 list"
  sv_request :: "byte list \<Rightarrow> RpcRequest option"
  sv_text :: "json \<Rightarrow> byte list option"
  sv_base64 :: "byte list \<Rightarrow> string"
  sv_quote :: "string \<Rightarrow> string"
  sv_uuid :: "string \<Rightarrow> string option"
  sv_login :: "json \<Rightarrow> LoginRequestParams option"
  sv_begin :: "json \<Rightarrow> BeginParams option"
  sv_step :: "json \<Rightarrow> StepParams option"
  sv_authorize :: "json \<Rightarrow> AuthorizeDeviceParams option"
  sv_name :: "json \<Rightarrow> string option"
  sv_label :: "json \<Rightarrow> string option"
  sv_peer_id :: "json \<Rightarrow> string option"
  sv_forget :: "json \<Rightarrow> (string option \<times> bool) option"
  sv_totp :: "string \<Rightarrow> string \<times> nat"
  sv_sha256 :: "byte list \<Rightarrow> byte list"
  sv_token_bytes :: "io_error + byte list"
  sv_ulid_bytes :: "io_error + byte list"
  sv_millis :: u64
  sv_unix :: nat
  sv_peers_written :: bool

subsection \<open>Administrative requests\<close>

definition issue_peer_with_label ::
  "('w, 'i) ServerEnv \<Rightarrow> RpcRequest \<Rightarrow> string \<Rightarrow> DaemonState \<Rightarrow> HandledRequest \<times> DaemonState" where
  "issue_peer_with_label env request label d =
     (if label = [] then (classified (rq_id request) Internal, d)
      else
        (case issue_peer (sv_sha256 env) label (sv_token_bytes env) (sv_millis env) (sv_ulid_bytes env) (sv_unix env)
                (sv_peers_written env) (dm_peers d) of
           (Inl _, store) \<Rightarrow> (classified (rq_id request) Internal, d\<lparr>dm_peers := store\<rparr>)
         | (Inr p, store) \<Rightarrow>
             (success (rq_id request) (JObj [(''peer_id'', JStr (ip_peer_id p)), (''token'', JStr (ip_token p))]),
              d\<lparr>dm_peers := store\<rparr>)))"

definition admin_token_issue :: "('w, 'i) ServerEnv \<Rightarrow> RpcRequest \<Rightarrow> DaemonState \<Rightarrow> HandledRequest \<times> DaemonState" where
  "admin_token_issue env request d = issue_peer_with_label env request ''default'' d"

definition admin_peer_issue :: "('w, 'i) ServerEnv \<Rightarrow> RpcRequest \<Rightarrow> DaemonState \<Rightarrow> HandledRequest \<times> DaemonState" where
  "admin_peer_issue env request d =
     (case parse_params (sv_label env) (rq_params request) of
        Inl e \<Rightarrow> (classified (rq_id request) e, d)
      | Inr label \<Rightarrow>
          if label = [] then (classified (rq_id request) Internal, d)
          else issue_peer_with_label env request label d)"

definition admin_peer_revoke :: "('w, 'i) ServerEnv \<Rightarrow> RpcRequest \<Rightarrow> DaemonState \<Rightarrow> HandledRequest \<times> DaemonState" where
  "admin_peer_revoke env request d =
     (case parse_params (sv_peer_id env) (rq_params request) of
        Inl e \<Rightarrow> (classified (rq_id request) e, d)
      | Inr i \<Rightarrow>
          (case revoke_peer i (sv_unix env) (sv_peers_written env) (dm_peers d) of
             (r, store) \<Rightarrow>
               (let d = d\<lparr>dm_peers := store\<rparr> in
                case r of
                  Inr True \<Rightarrow>
                    (success (rq_id request) (JObj [(''ok'', JBool True)]), terminate_peer_leases (sv_daemon env) i d)
                | Inr False \<Rightarrow> (classified (rq_id request) ErrorCode.NotFound, d)
                | Inl _ \<Rightarrow> (classified (rq_id request) Internal, d))))"

definition peer_json :: "PeerRecord \<Rightarrow> json" where
  "peer_json p =
     JObj [(''peer_id'', JStr (pr_peer_id p)), (''label'', JStr (pr_label p)), (''issued_at'', JStr (issued_at p)),
           (''revoked_at'', or_null (revoked_at p))]"

definition admin_peer_list :: "RpcRequest \<Rightarrow> DaemonState \<Rightarrow> HandledRequest" where
  "admin_peer_list request d =
     (case list_peers (dm_peers d) of
        Inl _ \<Rightarrow> classified (rq_id request) Internal
      | Inr ps \<Rightarrow> success (rq_id request) (JArr (map peer_json ps)))"

definition admin_cookies_forget :: "('w, 'i) ServerEnv \<Rightarrow> RpcRequest \<Rightarrow> DaemonState \<Rightarrow> HandledRequest \<times> DaemonState" where
  "admin_cookies_forget env request d =
     (case parse_params (sv_forget env) (rq_params request) of
        Inl e \<Rightarrow> (classified (rq_id request) e, d)
      | Inr (cid, everything) \<Rightarrow>
          (let audit = AuditFields_default\<lparr>af_cred_id := cid, af_all := (if everything then Some True else None)\<rparr>;
               forget = (\<lambda>tgt.
                 case forget_cookies (de_lib (sv_daemon env)) tgt (dm_cookies d) of
                   (Inr removed, cd) \<Rightarrow>
                     (with_audit_fields (audit\<lparr>af_removed := Some removed\<rparr>)
                        (success (rq_id request) (JObj [(''removed'', JInt (int removed))])), d\<lparr>dm_cookies := cd\<rparr>)
                 | (Inl _, cd) \<Rightarrow> (with_audit_fields audit (classified (rq_id request) Internal), d\<lparr>dm_cookies := cd\<rparr>))
           in case (cid, everything) of
                (Some c, False) \<Rightarrow> forget (ForgetCredential c)
              | (None, True) \<Rightarrow> forget ForgetAll
              | _ \<Rightarrow> (with_audit_fields audit (classified (rq_id request) Internal), d)))"

definition status :: "RpcRequest \<Rightarrow> DaemonState \<Rightarrow> HandledRequest" where
  "status request d =
     (case status_counts (dm_table d) of
        (nbrowsers, nleases) \<Rightarrow>
          success (rq_id request)
            (JObj [(''ok'', JBool True), (''browsers'', JInt (int nbrowsers)), (''leases'', JInt (int nleases))]))"

subsection \<open>Requests\<close>

definition handle_admin ::
  "('w, 'i) ServerEnv \<Rightarrow> RpcRequest \<Rightarrow> DaemonState \<Rightarrow> HandledRequest \<times> DaemonState" where
  "handle_admin env request d =
     (if rq_method request = ''admin_peer_issue'' then admin_peer_issue env request d
      else if rq_method request = ''admin_peer_revoke'' then admin_peer_revoke env request d
      else if rq_method request = ''admin_peer_list'' then (admin_peer_list request d, d)
      else if rq_method request = ''admin_token_issue'' then admin_token_issue env request d
      else if rq_method request = ''admin_cookies_forget'' then admin_cookies_forget env request d
      else (classified (rq_id request) Internal, d))"

definition handle_normal ::
  "('w, 'i) ServerEnv \<Rightarrow> RpcRequest \<Rightarrow> PeerIdentity \<Rightarrow> DaemonState \<Rightarrow> 'w \<Rightarrow> HandledRequest \<times> DaemonState \<times> 'w" where
  "handle_normal env request peer d w =
     (let e = sv_daemon env; m = rq_method request in
      if m = ''status'' then (status request d, d, w)
      else if m = ''list_credentials''
      then (case list_credentials (de_vault e) request (dm_vault d) w of (h, v, w) \<Rightarrow> (h, d\<lparr>dm_vault := v\<rparr>, w))
      else if m = ''login'' then login e (sv_login env) request peer d w
      else if m = ''login_begin'' then login_begin e (sv_begin env) request peer d w
      else if m = ''login_step'' then login_step e (sv_step env) request peer d w
      else if m = ''authorize_device'' then authorize_device e (sv_authorize env) request peer d w
      else if m = ''open_api_proxy'' then open_service e ApiProxy (sv_name env) request peer d w
      else if m = ''open_mcp_server'' then open_service e McpServer (sv_name env) request peer d w
      else if m = ''disconnect'' then (case disconnect e request peer d of (h, d) \<Rightarrow> (h, d, w))
      else if m = ''get_totp''
      then (case get_totp (de_vault e) (sv_totp env) (de_now e 0) (de_now e 1) request (dm_vault d) (dm_totp d) w of
              (h, v, seen, w) \<Rightarrow> (h, d\<lparr>dm_vault := v, dm_totp := seen\<rparr>, w))
      else if m = ''lock_vault'' then lock_vault e request d w
      else (method_not_found (rq_id request), d, w))"

definition handle_request ::
  "('w, 'i) ServerEnv \<Rightarrow> RpcRequest \<Rightarrow> PeerIdentity \<Rightarrow> DaemonState \<Rightarrow> 'w \<Rightarrow> HandledRequest \<times> DaemonState \<times> 'w" where
  "handle_request env request peer d w =
     (if rq_jsonrpc request \<noteq> JSON_RPC_VERSION then (classified (rq_id request) Internal, d, w)
      else if starts_with (rq_method request) ''admin_'' then
        (if \<not> allows_admin_rpc peer (sv_operator_uids env) then (classified (rq_id request) AdminRequired, d, w)
         else case handle_admin env request d of (h, d) \<Rightarrow> (h, d, w))
      else if \<not> allows_normal_rpc peer (sv_allowed_uids env) then (classified (rq_id request) Unauthorized, d, w)
      else handle_normal env request peer d w)"

subsection \<open>Replies\<close>

definition write_response ::
  "('w, 'i) ServerEnv \<Rightarrow> RpcResponse \<Rightarrow> PeerIdentity \<Rightarrow> string \<Rightarrow> AuditFields \<Rightarrow> string \<Rightarrow> DaemonState
     \<Rightarrow> byte list option \<times> DaemonState" where
  "write_response env response peer meth fs outcome d =
     (case sv_text env (rpc_response_json response) of
        None \<Rightarrow> (None, d)
      | Some bytes \<Rightarrow>
          if scan_bytes (sv_base64 env) (sv_quote env) bytes (va_registry (dm_vault d)) = []
          then (Some (bytes @ [10]), daemon_audit (AuditPeer peer) meth fs outcome d)
          else
            (let d = daemon_audit (AuditPeer peer) meth fs (ErrorCode_as_str Internal) d in
             case sv_text env (rpc_response_json (error_response (rp_id response) Internal)) of
               None \<Rightarrow> (None, d)
             | Some bytes \<Rightarrow>
                 (Some (bytes @ [10]),
                  case pending_login_id meth (rp_result response) of
                    None \<Rightarrow> d
                  | Some i \<Rightarrow> end_leaked (sv_daemon env) i peer d)))"

text \<open>\<open>{"ok":false,"error":"UNAUTHORIZED"}\<close> and a line feed.\<close>

definition refusal :: "byte list" where
  "refusal = as_bytes (concat [[CHR ''{'', CHR 0x22], ''ok'', [CHR 0x22], '':false,'', [CHR 0x22], ''error'', [CHR 0x22, CHR '':'', CHR 0x22],
     ''UNAUTHORIZED'', [CHR 0x22, CHR ''}'']]) @ [10]"

text \<open>One line: what is sent back, and whether the connection goes on.\<close>

definition serve_line ::
  "('w, 'i) ServerEnv \<Rightarrow> PeerIdentity \<Rightarrow> byte list \<Rightarrow> DaemonState \<Rightarrow> 'w \<Rightarrow> (byte list option \<times> bool) \<times> DaemonState \<times> 'w" where
  "serve_line env peer line d w =
     (if (case peer of Peer i _ \<Rightarrow> \<not> is_active (dm_peers d) i | _ \<Rightarrow> False) then ((Some refusal, False), d, w)
      else
        (case sv_request env line of
           Some request \<Rightarrow>
             (case handle_request env request peer d w of
                (h, d, w) \<Rightarrow>
                  (case write_response env (hr_response h) peer (rq_method request)
                          (final_audit_fields (sv_uuid env) request h) (hr_outcome h) d of
                     (sent, d) \<Rightarrow> ((sent, sent \<noteq> None), d, w)))
         | None \<Rightarrow>
             (case write_response env (error_response JNull Internal) peer [] AuditFields_default (ErrorCode_as_str Internal) d of
                (sent, d) \<Rightarrow> ((sent, sent \<noteq> None), d, w))))"

fun serve_connection ::
  "PeerIdentity \<Rightarrow> (('w, 'i) ServerEnv \<times> byte list) list \<Rightarrow> DaemonState \<Rightarrow> 'w \<Rightarrow> byte list list \<times> DaemonState \<times> 'w" where
  "serve_connection peer [] d w = ([], d, w)"
| "serve_connection peer ((env, line) # ls) d w =
     (case serve_line env peer line d w of
        ((sent, go), d, w) \<Rightarrow>
          (case (if go then serve_connection peer ls d w else ([], d, w)) of
             (out, d, w) \<Rightarrow> ((case sent of None \<Rightarrow> out | Some b \<Rightarrow> b # out), d, w)))"

subsection \<open>What requests leave alone\<close>

lemma registry_run_provider: "run_provider n f v w = (r, b, v', w') \<Longrightarrow> va_registry v' = va_registry v"
  by (auto simp: run_provider_def Let_def audit_provider_autolock_def split: prod.splits if_splits)

lemma registry_resolve: "resolve_credential env cid v w = (r, v', w') \<Longrightarrow> set (va_registry v) \<subseteq> set (va_registry v')"
  by (auto simp: resolve_credential_def Let_def register_credential_def register_secret_def
      split: prod.splits option.splits sum.splits if_splits dest!: registry_run_provider)

lemma registry_resolve_unlocked:
  "resolve_unlocked_credential env cid v w = (r, v', w') \<Longrightarrow> set (va_registry v) \<subseteq> set (va_registry v')"
  by (auto simp: resolve_unlocked_credential_def split: prod.splits option.splits sum.splits dest!: registry_resolve)

lemma registry_refs: "credential_refs env cid v w = (r, v', w') \<Longrightarrow> va_registry v' = va_registry v"
  by (auto simp: credential_refs_def split: prod.splits option.splits dest!: registry_run_provider)

lemma registry_state: "credential_state env cid v w = (r, v', w') \<Longrightarrow> va_registry v' = va_registry v"
  by (auto simp: credential_state_def split: prod.splits option.splits sum.splits dest!: registry_refs)

lemma registry_metadata: "credential_metadata env cid v w = (r, v', w') \<Longrightarrow> va_registry v' = va_registry v"
  by (auto simp: credential_metadata_def split: prod.splits option.splits sum.splits dest!: registry_refs)

lemma registry_list_providers: "list_providers env ns acc v w = (r, v', w') \<Longrightarrow> va_registry v' = va_registry v"
  by (induction env ns acc v w rule: list_providers.induct)
    (auto split: prod.splits sum.splits dest!: registry_run_provider)

lemma registry_list: "list_credentials env request v w = (h, v', w') \<Longrightarrow> va_registry v' = va_registry v"
  by (auto simp: list_credentials_def split: prod.splits sum.splits dest!: registry_list_providers)

lemma registry_totp: "get_totp env code_of now later request v seen w = (h, v', seen', w') \<Longrightarrow> set (va_registry v) \<subseteq> set (va_registry v')"
  by (auto simp: get_totp_def split: prod.splits sum.splits option.splits if_splits dest!: registry_resolve)

lemma registry_lock: "lock_providers env ns v w = (r, v', w') \<Longrightarrow> va_registry v' = va_registry v"
  by (induction env ns v w rule: lock_providers.induct)
    (auto simp: Let_def split: prod.splits sum.splits if_splits dest!: registry_run_provider)

text \<open>
  A property of the state that what handlers do respects: ending sessions, writing the session
  table, grants, codes and the ledger, and a vault that forgets no registered secret. It survives
  every request that is not administrative.
\<close>

locale daemon_invariant =
  fixes P :: "DaemonState \<Rightarrow> bool"
  assumes P_ends: "ends_only d d' \<Longrightarrow> P d \<Longrightarrow> P d'"
    and P_table [simp]: "P d \<Longrightarrow> P (d\<lparr>dm_table := st\<rparr>)"
    and P_grants [simp]: "P d \<Longrightarrow> P (d\<lparr>dm_grants := g\<rparr>)"
    and P_totp [simp]: "P d \<Longrightarrow> P (d\<lparr>dm_totp := t\<rparr>)"
    and P_ledger [simp]: "P d \<Longrightarrow> P (d\<lparr>dm_ledger := l\<rparr>)"
    and P_vault [simp]: "P d \<Longrightarrow> set (va_registry (dm_vault d)) \<subseteq> set (va_registry v) \<Longrightarrow> P (d\<lparr>dm_vault := v\<rparr>)"
begin

lemmas P_ending [simp] = ends_only_basic[THEN P_ends] conjunct1[OF terminate_browser_ends, THEN P_ends]
  terminate_browsers_ends_only[THEN P_ends] ends_only_finish[THEN P_ends] ends_only_end_entry[THEN P_ends]
  ends_only_end_all[THEN P_ends] ends_only_audit_session[THEN P_ends]

lemma P_controls [simp]: "P d \<Longrightarrow> P (set_control k c d)" "P d \<Longrightarrow> P (snd (start_control k d))"
  by (auto simp: set_control_def start_control_def split: option.splits)

lemma P_start_control: "start_control k d = (c, d') \<Longrightarrow> P d \<longrightarrow> P d'"
  by (metis P_controls(2) snd_conv)

lemma P_expire [simp]: "P d \<Longrightarrow> P (expire_browser_at_deadline env bid now d)"
  by (auto simp: expire_browser_at_deadline_def split: prod.splits option.splits)

lemma P_stepwise [simp]:
  "P d \<Longrightarrow> P (stepwise_terminate env ns reason d)" "P d \<Longrightarrow> P (terminate_principal env prin d)"
  "P d \<Longrightarrow> P (end_leaked env i peer d)" "P d \<Longrightarrow> P (snd (take_slot sl d))"
  by (auto simp: stepwise_terminate_def terminate_principal_def end_leaked_def take_slot_def split: prod.splits option.splits)

lemma P_approve_command: "approve_command env cid url meth peer d = (r, d') \<Longrightarrow> P d \<longrightarrow> P d'"
  by (auto simp: approve_command_def Let_def split: option.splits sum.splits approve_end.splits bool.splits)

lemma P_approve_with_grant: "approve_with_grant env cid url meth peer d = (r, d') \<Longrightarrow> P d \<longrightarrow> P d'"
  by (auto simp: approve_with_grant_def Let_def split: sum.splits prod.splits if_splits dest!: P_approve_command)

lemma P_gate: "gate_on_approval env cid url meth peer d w = (r, d', w') \<Longrightarrow> P d \<longrightarrow> P d'"
  by (auto simp: gate_on_approval_def Let_def split: sum.splits prod.splits if_splits option.splits
      dest!: P_approve_command P_approve_with_grant registry_state)

lemma P_join: "join_browser env k prin d = (r, d') \<Longrightarrow> P d \<longrightarrow> P d'"
  by (auto simp: join_browser_def release_def Let_def split: sum.splits prod.splits if_splits option.splits)

lemma P_register: "register_login_browser env br d = (r, d') \<Longrightarrow> P d \<longrightarrow> P d'"
  by (auto simp: register_login_browser_def Let_def split: if_splits option.splits)

lemma P_save [simp]: "P d \<Longrightarrow> P (save_returned env k cs d)"
  by (auto simp: save_returned_def split: option.splits)

lemma P_restore: "restore_cookies env k d = (p, r, d') \<Longrightarrow> P d \<longrightarrow> P d'"
  by (auto simp: restore_cookies_def split: if_splits prod.splits)

lemma P_load: "load_login_cookies env k d = (r, d') \<Longrightarrow> P d \<longrightarrow> P d'"
  by (auto simp: load_login_cookies_def split: prod.splits)

lemma P_finish_cookies: "finish_login_cookies env lc rc d = (r, d') \<Longrightarrow> P d \<longrightarrow> P d'"
  by (auto simp: finish_login_cookies_def split: prod.splits option.splits)

lemmas P_parts = P_start_control P_join P_register P_restore P_load P_finish_cookies registry_resolve_unlocked

lemma P_start_login: "start_login env request k prin params excl d w = (h, d', w') \<Longrightarrow> P d \<longrightarrow> P d'"
  by (auto simp: start_login_def Let_def split: prod.splits if_splits option.splits sum.splits dest!: P_parts)

lemma P_login: "login env decode request peer d w = (h, d', w') \<Longrightarrow> P d \<longrightarrow> P d'"
  by (auto simp: login_def Let_def split: prod.splits option.splits sum.splits dest!: P_gate P_start_login)

lemma P_register_pending: "register_pending env peer la d = (r, d') \<Longrightarrow> P d \<longrightarrow> P d'"
  by (auto simp: register_pending_def Let_def split: prod.splits option.splits)

lemma P_hand_off: "hand_off env c la done d = (r, c', d') \<Longrightarrow> P d \<longrightarrow> P d'"
  by (auto simp: hand_off_def Let_def split: prod.splits sum.splits dest!: P_register)

lemma P_begin: "begin_after_approval env i k params peer d w = (h, d', w') \<Longrightarrow> P d \<longrightarrow> P d'"
  by (auto simp: begin_after_approval_def Let_def split: prod.splits if_splits option.splits sum.splits ExecutorState.splits
      dest!: P_parts P_hand_off P_register_pending)

lemma P_login_begin: "login_begin env decode request peer d w = (h, d', w') \<Longrightarrow> P d \<longrightarrow> P d'"
  by (auto simp: login_begin_def Let_def split: prod.splits option.splits sum.splits dest!: P_gate P_begin)

lemma P_hand_off_step: "hand_off_step env peer i login_id t pending done d = (h, d') \<Longrightarrow> P d \<longrightarrow> P d'"
  by (auto simp: hand_off_step_def Let_def split: prod.splits option.splits sum.splits dest!: P_hand_off P_start_control)

lemma P_step_totp: "step_totp env act cid d w = (r, d', w') \<Longrightarrow> P d \<longrightarrow> P d'"
  by (auto simp: step_totp_def split: prod.splits sum.splits if_splits dest!: registry_resolve_unlocked)

lemma P_run_step: "run_step env peer i login_id act t d w = (h, d', w') \<Longrightarrow> P d \<longrightarrow> P d'"
  by (auto simp: run_step_def Let_def split: prod.splits option.splits sum.splits if_splits Next.splits
      dest!: P_step_totp P_hand_off_step)

lemma P_login_step: "login_step env decode request peer d w = (h, d', w') \<Longrightarrow> P d \<longrightarrow> P d'"
  by (auto simp: login_step_def Let_def split: prod.splits sum.splits Claim.splits dest!: P_run_step)

lemma P_authorize_approved: "authorize_device_approved env request params k url d w = (h, d', w') \<Longrightarrow> P d \<longrightarrow> P d'"
  by (auto simp: authorize_device_approved_def Let_def split: prod.splits sum.splits dest!: P_parts)

lemma P_authorize: "authorize_device env decode request peer d w = (h, d', w') \<Longrightarrow> P d \<longrightarrow> P d'"
  by (auto simp: authorize_device_def approve_authorize_device_def Let_def split: prod.splits sum.splits option.splits if_splits
      dest!: P_authorize_approved P_approve_with_grant registry_metadata)

lemma P_register_service: "register_service_lease env peer ex kind cid ns prt limit d = (r, d') \<Longrightarrow> P d \<longrightarrow> P d'"
  by (auto simp: register_service_lease_def Let_def split: if_splits)

lemma P_start_service: "start_service_session env peer s cid ns d w = (r, d', w') \<Longrightarrow> P d \<longrightarrow> P d'"
  by (auto simp: start_service_session_def Let_def split: prod.splits sum.splits if_splits dest!: P_parts P_register_service)

lemma P_open_service: "open_service env kind decode request peer d w = (h, d', w') \<Longrightarrow> P d \<longrightarrow> P d'"
  by (auto simp: open_service_def Let_def split: prod.splits sum.splits option.splits dest!: P_gate P_start_service)

lemma P_export: "export_cookies_of env k ex d = (saved, d') \<Longrightarrow> P d \<longrightarrow> P d'"
  using P_ends[OF ends_only_export_pair] by blast

lemma P_disconnect: "disconnect env request peer d = (h, d') \<Longrightarrow> P d \<longrightarrow> P d'"
  by (auto simp: disconnect_def Let_def release_def split: prod.splits sum.splits option.splits if_splits dest!: P_export)

lemma P_lock_vault: "lock_vault env request d w = (h, d', w') \<Longrightarrow> P d \<longrightarrow> P d'"
  by (auto simp: lock_vault_def Let_def split: prod.splits sum.splits dest!: registry_lock)

lemma P_terminate_peer [simp]: "P d \<Longrightarrow> P (terminate_peer_leases env i d)"
proof -
  have "P d \<Longrightarrow> P (end_revoked_lease env x d)" for x d
    by (simp add: end_revoked_lease_def Let_def release_def)
  then have "P d \<Longrightarrow> P (fold (end_revoked_lease env) xs d)" for xs d
    by (induction xs arbitrary: d) auto
  then show "P d \<Longrightarrow> P (terminate_peer_leases env i d)" by (auto simp: terminate_peer_leases_def Let_def split: prod.splits)
qed

lemma P_handle_normal: "handle_normal env request peer d w = (h, d', w') \<Longrightarrow> P d \<longrightarrow> P d'"
  by (auto simp: handle_normal_def Let_def split: prod.splits if_splits
      dest!: P_login P_login_begin P_login_step P_authorize P_open_service P_disconnect P_lock_vault registry_list registry_totp)

end

text \<open>The peers and the configuration stay, and registered secrets stay registered.\<close>

interpretation kept: daemon_invariant "\<lambda>d. dm_peers d = ps \<and> config_of d = cfg" for ps cfg
  by unfold_locales (auto simp: ends_only_def)

interpretation watched: daemon_invariant "\<lambda>d. secrets \<subseteq> set (va_registry (dm_vault d))" for secrets
  by unfold_locales (auto simp: ends_only_def)

subsection \<open>Who may do what\<close>

definition permitted :: "('w, 'i) ServerEnv \<Rightarrow> RpcRequest \<Rightarrow> PeerIdentity \<Rightarrow> bool" where
  "permitted env request peer \<longleftrightarrow>
     (if starts_with (rq_method request) ''admin_'' then allows_admin_rpc peer (sv_operator_uids env)
      else allows_normal_rpc peer (sv_allowed_uids env))"

definition PEER_METHODS :: "string list" where
  "PEER_METHODS = [''admin_peer_issue'', ''admin_peer_revoke'', ''admin_token_issue'']"

lemma handle_admin_keeps:
  assumes "handle_admin env request d = (h, d')"
  shows "config_of d' = config_of d \<and> (dm_peers d' \<noteq> dm_peers d \<longrightarrow> rq_method request \<in> set PEER_METHODS)"
proof -
  have issue: "config_of d' = config_of d" if "issue_peer_with_label env request label d = (h, d')" for label
    using that by (auto simp: issue_peer_with_label_def split: if_splits prod.splits sum.splits)
  have revoke: "config_of d' = config_of d" if "admin_peer_revoke env request d = (h, d')"
    using that kept.P_terminate_peer[OF conjI[OF refl refl], where env = "sv_daemon env"]
    by (auto simp: admin_peer_revoke_def Let_def split: sum.splits prod.splits bool.splits)
  have forget: "config_of d' = config_of d \<and> dm_peers d' = dm_peers d" if "admin_cookies_forget env request d = (h, d')"
    using that by (auto simp: admin_cookies_forget_def Let_def split: sum.splits prod.splits bool.splits option.splits)
  show ?thesis
    using assms issue revoke forget
    by (auto simp: handle_admin_def PEER_METHODS_def admin_peer_issue_def admin_token_issue_def split: if_splits sum.splits)
qed

text \<open>
  C3: a request of a caller without the right its method needs changes nothing, in the daemon, in
  the providers' files and in the session table, and is answered with an error: administrative
  methods need the administrative right, all others the right to call. No request changes the
  configuration, and only an administrative request that issues or revokes a peer changes the
  peers, so an agent cannot give itself or another one access.
\<close>

theorem only_operators_change_the_peers:
  assumes run: "handle_request env request peer d w = (h, d', w')"
  shows "(\<not> permitted env request peer \<longrightarrow>
           d' = d \<and> w' = w \<and> hr_outcome h \<in> {''INTERNAL'', ''ADMIN_REQUIRED'', ''UNAUTHORIZED''} \<and> rp_result (hr_response h) = None)
     \<and> config_of d' = config_of d
     \<and> (dm_peers d' \<noteq> dm_peers d \<longrightarrow> permitted env request peer \<and> rq_method request \<in> set PEER_METHODS)"
proof (cases "rq_jsonrpc request \<noteq> JSON_RPC_VERSION \<or> \<not> permitted env request peer")
  case True
  then show ?thesis
    using run
    by (auto simp: handle_request_def permitted_def classified_def classified_with_step_def handled_def error_response_with_step_def
        split: if_splits)
next
  case False
  then have "(if starts_with (rq_method request) ''admin_'' then (case handle_admin env request d of (h, d) \<Rightarrow> (h, d, w))
      else handle_normal env request peer d w) = (h, d', w')"
    using run by (auto simp: handle_request_def permitted_def split: if_splits)
  then show ?thesis
    using False handle_admin_keeps[of env request d h d'] kept.P_handle_normal[of env request peer d w h d' w' "dm_peers d" "config_of d"]
    by (auto split: if_splits prod.splits)
qed


definition issue_request :: RpcRequest where
  "issue_request = \<lparr>rq_jsonrpc = ''2.0'', rq_id = JInt 1, rq_method = ''admin_token_issue'', rq_params = JNull\<rparr>"

theorem only_operators_change_the_peers_witness:
  "let env = (undefined :: (unit, unit) ServerEnv)\<lparr>sv_operator_uids := [7]\<rparr>
   in \<not> permitted env issue_request (Uid 8) \<and> permitted env issue_request (Uid 7)
      \<and> fst (snd (handle_request env issue_request (Uid 8) demo_daemon ())) = demo_daemon"
proof -
  let ?env = "(undefined :: (unit, unit) ServerEnv)\<lparr>sv_operator_uids := [7]\<rparr>"
  have p: "\<not> permitted ?env issue_request (Uid 8)" "permitted ?env issue_request (Uid 7)"
    by (simp_all add: permitted_def issue_request_def starts_with_def allows_admin_rpc_def)
  obtain h d' w' where run: "handle_request ?env issue_request (Uid 8) demo_daemon () = (h, d', w')"
    by (cases "handle_request ?env issue_request (Uid 8) demo_daemon ()")
  show ?thesis using only_operators_change_the_peers[OF run] p run by (simp add: Let_def)
qed

subsection \<open>No reply carries a secret\<close>

text \<open>Some form of a secret is in the bytes (\<open>Leakscan\<close>).\<close>

definition carries :: "('w, 'i) ServerEnv \<Rightarrow> byte list \<Rightarrow> string \<Rightarrow> bool" where
  "carries env bytes secret \<longleftrightarrow>
     (\<exists>enc needle ic off. (enc, needle, ic) \<in> set (variants (sv_base64 env) (sv_quote env) secret)
        \<and> needle \<noteq> [] \<and> occurs_at ic bytes needle off)"

lemma scan_carries:
  "scan_bytes (sv_base64 env) (sv_quote env) bytes secrets = [] \<longleftrightarrow> \<not> (\<exists>s \<in> set secrets. carries env bytes s)"
proof -
  have "scan_bytes (sv_base64 env) (sv_quote env) bytes secrets = [] \<longleftrightarrow>
      (\<forall>h. h \<notin> set (scan_bytes (sv_base64 env) (sv_quote env) bytes secrets))" by auto
  also have "\<dots> \<longleftrightarrow> (\<forall>i<length secrets. \<not> carries env bytes (secrets ! i))"
    unfolding mem_scan_bytes carries_def by (metis Hit.select_convs(1,2,3))
  finally show ?thesis by (metis in_set_conv_nth)
qed

lemma registry_end_leaked [simp]: "va_registry (dm_vault (end_leaked env i peer d)) = va_registry (dm_vault d)"
proof -
  obtain r l where t: "take_owned i (principal_of peer) (dm_ledger d) = (r, l)" by fastforce
  show ?thesis
  proof (cases r)
    case (Some e)
    have "ends_only (d\<lparr>dm_ledger := l\<rparr>) (end_entry env EndReason.Rejected (AuditPeer peer) (i, e) (d\<lparr>dm_ledger := l\<rparr>))"
      by (rule ends_only_end_entry)
    then show ?thesis using t Some by (simp add: end_leaked_def ends_only_def)
  qed (use t in \<open>simp add: end_leaked_def\<close>)
qed

lemma registry_audit [simp]: "va_registry (dm_vault (daemon_audit p m fs out d)) = va_registry (dm_vault d)"
  by (simp add: daemon_audit_def)

lemma write_response_clean:
  assumes "write_response env response peer meth fs outcome d = (Some out, d')"
  shows "va_registry (dm_vault d') = va_registry (dm_vault d) \<and> (\<exists>bytes. out = bytes @ [10]
     \<and> ((\<exists>s \<in> set (va_registry (dm_vault d')). carries env bytes s)
          \<longrightarrow> (\<exists>i. sv_text env (rpc_response_json (error_response i Internal)) = Some bytes)))"
  using assms scan_carries[of env _ "va_registry (dm_vault d)"]
  by (auto simp: write_response_def Let_def split: option.splits if_splits)

lemma registry_handle_admin:
  assumes "handle_admin env request d = (h, d')"
  shows "set (va_registry (dm_vault d)) \<subseteq> set (va_registry (dm_vault d'))"
proof -
  have "x \<in> set (va_registry (dm_vault (terminate_peer_leases (sv_daemon env) i d1)))"
    if "x \<in> set (va_registry (dm_vault d1))" for x i d1
    using watched.P_terminate_peer[of "{x}" d1 "sv_daemon env" i] that by simp
  then show ?thesis
    using assms
    by (auto simp: handle_admin_def admin_peer_issue_def admin_token_issue_def issue_peer_with_label_def admin_peer_revoke_def
        admin_cookies_forget_def Let_def split: if_splits sum.splits prod.splits bool.splits option.splits)
qed

lemma registry_handle_request:
  assumes "handle_request env request peer d w = (h, d', w')"
  shows "set (va_registry (dm_vault d)) \<subseteq> set (va_registry (dm_vault d'))"
  using assms registry_handle_admin[of env request d h d']
    watched.P_handle_normal[of env request peer d w h d' w' "set (va_registry (dm_vault d))"]
  by (auto simp: handle_request_def split: if_splits prod.splits)

text \<open>
  C2: what a line is answered with carries no secret that has been registered by then, the secrets this
  very request resolved included, in none of the forms the scanner knows, unless it is the fixed error
  reply (an internal error with the id of the request) or the refusal of a revoked peer. Registered
  secrets stay registered, so the same holds for every later line.
\<close>

theorem replies_carry_no_secret:
  assumes "serve_line env peer line d w = ((Some out, go), d', w')"
  shows "set (va_registry (dm_vault d)) \<subseteq> set (va_registry (dm_vault d'))
     \<and> (out = refusal \<or> (\<exists>bytes. out = bytes @ [10] \<and> ((\<exists>s \<in> set (va_registry (dm_vault d')). carries env bytes s)
          \<longrightarrow> (\<exists>i. sv_text env (rpc_response_json (error_response i Internal)) = Some bytes))))"
proof (cases "(case peer of Peer i _ \<Rightarrow> \<not> is_active (dm_peers d) i | _ \<Rightarrow> False)")
  case True
  then show ?thesis using assms by (simp add: serve_line_def)
next
  case active: False
  show ?thesis
  proof (cases "sv_request env line")
    case None
    then have "write_response env (error_response JNull Internal) peer [] AuditFields_default (ErrorCode_as_str Internal) d = (Some out, d')"
      using assms active by (auto simp: serve_line_def split: prod.splits)
    from write_response_clean[OF this] show ?thesis by auto
  next
    case (Some request)
    obtain h d1 w1 where h: "handle_request env request peer d w = (h, d1, w1)" by (cases "handle_request env request peer d w")
    then have "write_response env (hr_response h) peer (rq_method request) (final_audit_fields (sv_uuid env) request h) (hr_outcome h) d1 = (Some out, d')"
      using assms active Some by (auto simp: serve_line_def split: prod.splits)
    from write_response_clean[OF this] registry_handle_request[OF h] show ?thesis by auto
  qed
qed


definition status_env :: "(unit, unit) ServerEnv" where
  "status_env = undefined\<lparr>sv_allowed_uids := [7], sv_base64 := (\<lambda>_. ''bb''), sv_quote := (\<lambda>s. s),
     sv_request := (\<lambda>_. Some \<lparr>rq_jsonrpc = ''2.0'', rq_id = JInt 1, rq_method = ''status'', rq_params = JNull\<rparr>),
     sv_text := (\<lambda>j. if jget j ''result'' = None then Some [2] else Some [1])\<rparr>"

theorem replies_carry_no_secret_witness:
  "fst (serve_line status_env (Uid 7) [] demo_daemon ()) = (Some [1, 10], True)
   \<and> \<not> carries status_env [1] ''hunter2''"
proof -
  obtain sent go d' w' where run: "serve_line status_env (Uid 7) [] demo_daemon () = ((sent, go), d', w')"
    by (metis surj_pair)
  have j: "jget (rpc_response_json (error_response i Internal)) ''result'' = None" for i
    by (simp add: rpc_response_json_def error_response_def error_response_with_step_def opt_entry_def)
  have req: "handle_request status_env \<lparr>rq_jsonrpc = ''2.0'', rq_id = JInt 1, rq_method = ''status'', rq_params = JNull\<rparr> (Uid 7) demo_daemon ()
      = (status \<lparr>rq_jsonrpc = ''2.0'', rq_id = JInt 1, rq_method = ''status'', rq_params = JNull\<rparr> demo_daemon, demo_daemon, ())"
    by (simp add: handle_request_def handle_normal_def JSON_RPC_VERSION_def starts_with_def allows_normal_rpc_def status_env_def)
  have body: "sv_text status_env (rpc_response_json (hr_response (status r demo_daemon))) = Some [1]" for r
    by (simp add: status_env_def status_def success_def handled_def rpc_response_json_def opt_entry_def split: prod.splits)
  have scan: "scan_bytes (sv_base64 status_env) (sv_quote status_env) [1] (va_registry (dm_vault demo_daemon)) = []"
  proof -
    have "scan_bytes (\<lambda>_. ''bb'') (\<lambda>s. s) [1] [''alice'', ''hunter2'', ''JBSW''] = []" by code_simp
    then show ?thesis by (simp add: status_env_def demo_daemon_def demo_vault_def)
  qed
  have sent: "sent = Some [1, 10]" "go" "va_registry (dm_vault d') = va_registry demo_vault"
    using run req body scan
    by (auto simp: serve_line_def write_response_def demo_daemon_def status_env_def split: prod.splits)
  have "length refusal \<noteq> length [1 :: byte, 10]" by (simp add: refusal_def as_bytes_def)
  then have "refusal \<noteq> [1, 10]" by metis
  with replies_carry_no_secret[of status_env "Uid 7" "[]" demo_daemon "()"] run sent j show ?thesis
    by (auto simp: demo_vault_def status_env_def)
qed

subsection \<open>Revoking a peer\<close>

lemma ends_only_revoked: "ends_only d (fold (end_revoked_lease env) xs d)"
  by (rule ends_only_fold) (auto simp: end_revoked_lease_def release_def Let_def
      intro!: ends_only_trans[OF _ ends_only_audit_session] ends_only_trans[OF _ ends_only_basic(1)])

lemma terminate_peer_leases_exact:
  assumes "base_inv (dm_table d)" "hvalid (lg_entries (dm_ledger d))" "d' = terminate_peer_leases env i d"
  shows "lease_in (dm_table d') bid s = Some l \<longleftrightarrow> lease_in (dm_table d) bid s = Some l \<and> lease_principal l \<noteq> ''peer:'' @ i"
    and "hget (lg_entries (dm_ledger d')) j = Some e \<longleftrightarrow> hget (lg_entries (dm_ledger d)) j = Some e \<and> principal (en_key e) \<noteq> ''peer:'' @ i"
    and "dm_peers d' = dm_peers d"
proof -
  obtain es led where tp: "take_principal (''peer:'' @ i) (dm_ledger d) = (es, led)" by fastforce
  define d1 where "d1 = terminate_principal env (''peer:'' @ i) d"
  have e1: "ends_only (d\<lparr>dm_ledger := led\<rparr>) d1" using tp ends_only_end_all by (simp add: d1_def terminate_principal_def)
  then have t1: "dm_table d1 = dm_table d" "dm_ledger d1 = led" by (simp_all add: ends_only_def)
  obtain gone st where tl: "terminate_peer_leases_locked i (dm_table d) = (gone, st)" by fastforce
  have "d' = fold (end_revoked_lease env) gone (d1\<lparr>dm_table := st\<rparr>)"
    using assms(3) unfolding terminate_peer_leases_def Let_def d1_def[symmetric] t1 tl by simp
  then have "ends_only (d1\<lparr>dm_table := st\<rparr>) d'" using ends_only_revoked by simp
  then have t2: "dm_table d' = st" "dm_ledger d' = led" "dm_peers d' = dm_peers d"
    using t1 e1 by (simp_all add: ends_only_def)
  show "lease_in (dm_table d') bid s = Some l \<longleftrightarrow> lease_in (dm_table d) bid s = Some l \<and> lease_principal l \<noteq> ''peer:'' @ i"
    unfolding t2 by (rule revocation_exact[OF assms(1) tl])
  show "hget (lg_entries (dm_ledger d')) j = Some e \<longleftrightarrow> hget (lg_entries (dm_ledger d)) j = Some e \<and> principal (en_key e) \<noteq> ''peer:'' @ i"
    unfolding t2 take_principal_get[OF assms(2) tp] by (auto split: option.splits)
  show "dm_peers d' = dm_peers d" by (rule t2)
qed

lemma revoke_peer_true: "revoke_peer i now ok store = (Inr True, store') \<Longrightarrow> \<not> is_active store' i"
  by (auto simp: revoke_peer_def is_active_def persist_def find_set_revoked Let_def split: option.splits if_splits)

text \<open>
  C4: once an operator's \<open>admin_peer_revoke\<close> has succeeded, the peer is out: it is no longer active,
  every lease of its sessions and every stepwise login of it is gone and nobody else's is, and
  each further line on its connections, open ones included, is refused without any effect and ends the connection.
\<close>

theorem revocation_cuts_the_peer_off:
  fixes env :: "('w, 'i) ServerEnv"
  assumes inv: "base_inv (dm_table d)" "hvalid (lg_entries (dm_ledger d))"
    and run: "handle_request env request peer d w = (h, d', w')" "rq_method request = ''admin_peer_revoke''" "hr_outcome h = ''ok''"
    and i: "parse_params (sv_peer_id env) (rq_params request) = Inr i"
  shows "\<not> is_active (dm_peers d') i
     \<and> (\<forall>bid s l. lease_in (dm_table d') bid s = Some l \<longleftrightarrow> lease_in (dm_table d) bid s = Some l \<and> lease_principal l \<noteq> ''peer:'' @ i)
     \<and> (\<forall>j e. hget (lg_entries (dm_ledger d')) j = Some e \<longleftrightarrow>
          hget (lg_entries (dm_ledger d)) j = Some e \<and> principal (en_key e) \<noteq> ''peer:'' @ i)
     \<and> (\<forall>env1 label line w1. serve_line (env1 :: ('w, 'i) ServerEnv) (Peer i label) line d' w1 = ((Some refusal, False), d', w1))"
proof -
  have code: "ErrorCode_as_str e \<noteq> ''ok''" for e by (cases e) simp_all
  have "admin_peer_revoke env request d = (h, d')"
    using run code by (auto simp: handle_request_def starts_with_def handle_admin_def classified_def classified_with_step_def handled_def
        split: if_splits prod.splits)
  then obtain store where st: "revoke_peer i (sv_unix env) (sv_peers_written env) (dm_peers d) = (Inr True, store)"
    and d': "d' = terminate_peer_leases (sv_daemon env) i (d\<lparr>dm_peers := store\<rparr>)"
    using i run(3) code
    by (auto simp: admin_peer_revoke_def classified_def classified_with_step_def handled_def Let_def
        split: prod.splits sum.splits bool.splits)
  have inv': "base_inv (dm_table (d\<lparr>dm_peers := store\<rparr>))" "hvalid (lg_entries (dm_ledger (d\<lparr>dm_peers := store\<rparr>)))" using inv by simp_all
  note ex = terminate_peer_leases_exact[OF inv' d']
  have "\<not> is_active (dm_peers d') i" using ex(3) revoke_peer_true[OF st] by simp
  then show ?thesis using ex(1,2) by (simp add: serve_line_def)
qed


definition revoke_request :: RpcRequest where
  "revoke_request = \<lparr>rq_jsonrpc = ''2.0'', rq_id = JInt 1, rq_method = ''admin_peer_revoke'', rq_params = JNull\<rparr>"

definition revoke_env :: "(unit, unit) ServerEnv" where
  "revoke_env = undefined\<lparr>sv_peer_id := (\<lambda>_. Some (pr_peer_id (hd (peers example_store)))), sv_peers_written := True, sv_unix := 5\<rparr>"

theorem revocation_cuts_the_peer_off_witness:
  "let d' = fst (snd (handle_request revoke_env revoke_request (Uid 0) demo_daemon ()));
       i = pr_peer_id (hd (peers example_store))
   in is_active (dm_peers demo_daemon) i \<and> \<not> is_active (dm_peers d') i
      \<and> serve_line revoke_env (Peer i ''x'') [] d' () = ((Some refusal, False), d', ())"
proof -
  let ?i = "pr_peer_id (hd (peers example_store))"
  obtain h d' w' where run: "handle_request revoke_env revoke_request (Uid 0) demo_daemon () = (h, d', w')"
    by (metis surj_pair)
  have m: "rq_method revoke_request = ''admin_peer_revoke''" by (simp add: revoke_request_def)
  have i: "parse_params (sv_peer_id revoke_env) (rq_params revoke_request) = Inr ?i"
    by (simp add: parse_params_def revoke_env_def)
  have a: "is_active (dm_peers demo_daemon) ?i" by (simp add: demo_daemon_def is_active_def example_store_def issue_peer_def persist_def Let_def)
  obtain store where "revoke_peer ?i 5 True example_store = (Inr True, store)"
    using a by (auto simp: revoke_peer_def is_active_def persist_def demo_daemon_def Let_def split: option.splits)
  then have ok: "hr_outcome h = ''ok''"
    using run i
    by (auto simp: handle_request_def revoke_request_def JSON_RPC_VERSION_def starts_with_def allows_admin_rpc_def handle_admin_def
        admin_peer_revoke_def revoke_env_def demo_daemon_def success_def handled_def split: prod.splits)
  show ?thesis
    using revocation_cuts_the_peer_off[OF demo_inv(2,4) run m ok i] a run by (simp add: Let_def)
qed

end
