(* ===== verification/Operator_Rpc.thy ===== *)
theory Operator_Rpc
  imports Rpc_Server Approvals
begin

section \<open>Approval by an operator\<close>

text \<open>
  On Windows the gate asks an operator instead of running a command: \<open>approve_by_operator\<close> puts the
  request into the queue (\<open>Approvals\<close>) and waits, and the operator lists and decides the pending requests
  with \<open>admin_approval_list\<close> and \<open>admin_approval_decide\<close>. What happens to the queue between the registration
  and the end of the waiting is the argument \<open>others\<close>.
\<close>

definition operator_request :: "string \<Rightarrow> string \<Rightarrow> string \<Rightarrow> PeerIdentity \<Rightarrow> ApprovalRequest" where
  "operator_request cid url meth peer =
     \<lparr>ar_method = meth, ar_cred_id = cid, ar_target_url = url, ar_principal = principal_of peer\<rparr>"

fun approval_error_code :: "ApprovalError \<Rightarrow> ErrorCode" where
  "approval_error_code Denied = ApprovalDenied"
| "approval_error_code Timeout = ApprovalTimeout"

definition approve_by_operator ::
  "string \<Rightarrow> string \<Rightarrow> string \<Rightarrow> PeerIdentity \<Rightarrow> u128 list \<Rightarrow> u64 \<Rightarrow> instant \<Rightarrow> (Pending \<Rightarrow> Entries \<Rightarrow> Entries) \<Rightarrow> wakeup \<Rightarrow> Entries
     \<Rightarrow> ((ErrorCode + unit) \<times> Entries) option" where
  "approve_by_operator cid url meth peer ids tok now others wake entries =
     map_option (\<lambda>(p, entries). map_prod (map_sum approval_error_code id) id (wait p wake (others p entries)))
       (register_with (operator_request cid url meth peer) ids tok now entries)"

definition pending_json :: "PendingSummary \<Rightarrow> json" where
  "pending_json s =
     JObj [(''id'', JStr (ps_id s)), (''method'', JStr (ps_method s)), (''cred_id'', JStr (ps_cred_id s)),
           (''target_url'', JStr (ps_target_url s)), (''principal'', JStr (ps_principal s)), (''age_secs'', JInt (int (ps_age_secs s)))]"

definition admin_approval_list :: "RpcRequest \<Rightarrow> instant \<Rightarrow> Entries \<Rightarrow> HandledRequest" where
  "admin_approval_list rq now entries =
     success (rq_id rq) (JObj [(''pending'', JArr (map pending_json (approvals_list now entries)))])"

text \<open>With the decision that is sent to the waiter, if any.\<close>

definition admin_approval_decide ::
  "(json \<Rightarrow> (string \<times> bool) option) \<Rightarrow> RpcRequest \<Rightarrow> Entries \<Rightarrow> HandledRequest \<times> (u64 \<times> bool) option \<times> Entries" where
  "admin_approval_decide decode rq entries =
     (case parse_params decode (rq_params rq) of
        Inl e \<Rightarrow> (classified (rq_id rq) e, None, entries)
      | Inr (i, allow) \<Rightarrow>
          (case decide i allow entries of
             (sent, entries) \<Rightarrow>
               (with_audit_approval i allow
                  (if sent \<noteq> None then success (rq_id rq) (JObj [(''ok'', JBool True)])
                   else classified (rq_id rq) ErrorCode.NotFound), sent, entries)))"

subsection \<open>The operator's answer reaches the request it was given for\<close>

lemma registered_entry:
  assumes "register_with r ids tok now entries = Some (p, entries1)"
  shows "hget entries1 (pd_id p) = Some \<lparr>token = tok, request = r, created_at = now\<rparr>" "pd_token p = tok"
  using assms by (auto simp: register_with_def split: option.splits)

lemma listed:
  assumes "hget entries i = Some e"
  shows "summarize now i e \<in> set (approvals_list now entries)"
  using hget_mem[OF assms] by (force simp: approvals_list_def image_iff)

lemma decide_registered:
  assumes "decode (rq_params rq) = Some (i, allow)" "rq_params rq \<noteq> JNull" "hget entries i = Some e"
  shows "admin_approval_decide decode rq entries =
       (with_audit_approval i allow (success (rq_id rq) (JObj [(''ok'', JBool True)])), Some (token e, allow), hremove i entries)"
  using assms by (simp add: admin_approval_decide_def parse_params_def decide_def)

text \<open>
  C19: the operator's round trip: the request is listed under its id with the method, credential,
  address and caller the gate was asked about, and the decision made under that id is the one the waiting
  gate gets, as success or as \<open>APPROVAL_DENIED\<close>, and takes the request off the list.
\<close>

theorem operator_round_trip:
  assumes reg: "register_with (operator_request cid url meth peer) ids tok now entries = Some (p, entries1)"
    and dec: "decode (rq_params rq) = Some (pd_id p, allow)" "rq_params rq \<noteq> JNull"
  shows "(\<exists>s \<in> set (approvals_list later entries1). ps_id s = pd_id p \<and> ps_method s = meth \<and> ps_cred_id s = cid
       \<and> ps_target_url s = url \<and> ps_principal s = principal_of peer)
     \<and> fst (snd (admin_approval_decide decode rq entries1)) = Some (pd_token p, allow)
     \<and> approve_by_operator cid url meth peer ids tok now (\<lambda>_ es. snd (snd (admin_approval_decide decode rq es))) (Decision allow) entries
       = Some (if allow then Inr () else Inl ApprovalDenied, hremove (pd_id p) entries1)"
proof -
  note e = registered_entry[OF reg]
  note d = decide_registered[of decode rq "pd_id p" allow entries1, OF dec e(1)]
  have "hget (hremove (pd_id p) entries1) (pd_id p) = None" by simp
  then have "snd (remove_own p (hremove (pd_id p) entries1)) = hremove (pd_id p) entries1" by (simp add: remove_own_def)
  then have "approve_by_operator cid url meth peer ids tok now (\<lambda>_ es. snd (snd (admin_approval_decide decode rq es))) (Decision allow) entries
       = Some (if allow then Inr () else Inl ApprovalDenied, hremove (pd_id p) entries1)"
    using reg by (simp add: approve_by_operator_def d wait_def)
  then show ?thesis
    using listed[OF e(1), of later] d e(2) by (force simp: summarize_def operator_request_def)
qed

theorem operator_round_trip_witness:
  "let p = \<lparr>pd_id = pad6 42, pd_token = 7\<rparr>; rq = \<lparr>rq_jsonrpc = ''2.0'', rq_id = JInt 1, rq_method = ''admin_approval_decide'', rq_params = JObj []\<rparr>
   in approve_by_operator ''op:e'' ''u'' ''login'' (Uid 7) [42] 7 0
        (\<lambda>_ es. snd (snd (admin_approval_decide (\<lambda>_. Some (pad6 42, False)) rq es))) (Decision False) []
      = Some (Inl ApprovalDenied, [])"
proof -
  let ?rq = "\<lparr>rq_jsonrpc = ''2.0'', rq_id = JInt 1, rq_method = ''admin_approval_decide'', rq_params = JObj []\<rparr>"
  let ?e = "\<lparr>token = 7, request = operator_request ''op:e'' ''u'' ''login'' (Uid 7), created_at = 0\<rparr>"
  have reg: "register_with (operator_request ''op:e'' ''u'' ''login'' (Uid 7)) [42] 7 0 [] = Some (\<lparr>pd_id = pad6 42, pd_token = 7\<rparr>, [(pad6 42, ?e)])"
    by (simp add: register_with_def ID_SPACE_def hcontains_def hget_def hinsert_def Let_def)
  show ?thesis
    using operator_round_trip[OF reg, of "\<lambda>_. Some (pad6 42, False)" ?rq False] by (simp add: hremove_def)
qed

end
