(* ===== verification/Transports.thy ===== *)
theory Transports
  imports Rpc_Server
begin

section \<open>Listeners\<close>

text \<open>
  How a connection becomes a caller: the token-authenticated TCP transport of \<open>transport/tcp.rs\<close> with
  the preamble of \<open>wire.rs\<close>, the credentials of a Unix socket (\<open>transport/unix.rs\<close>), and what \<open>main.rs\<close> does
  with an accepted connection. The bytes a client sends are the list it will have sent when it closes or the
  timeout passes; the text of JSON lines is a parameter.
\<close>

subsection \<open>The preamble\<close>

definition PREAMBLE_VERSION :: u32 where "PREAMBLE_VERSION = 1"

definition MAX_PREAMBLE_BYTES :: nat where "MAX_PREAMBLE_BYTES = 4 * 1024"

record PreambleTunnel =
  pt_session_id :: string
  pt_port :: u16

record Preamble =
  pre_v :: u32
  pre_auth :: string
  pre_tunnel :: "PreambleTunnel option"

record PreambleResponse =
  pr_ok :: bool
  pr_error :: "string option"

datatype PreambleError = PreUnauthorized | PreNotFound | PreForbidden

fun PreambleError_as_str :: "PreambleError \<Rightarrow> string" where
  "PreambleError_as_str PreUnauthorized = ''UNAUTHORIZED''"
| "PreambleError_as_str PreNotFound = ''NOT_FOUND''"
| "PreambleError_as_str PreForbidden = ''FORBIDDEN''"

definition PreambleResponse_accepted :: PreambleResponse where
  "PreambleResponse_accepted = \<lparr>pr_ok = True, pr_error = None\<rparr>"

definition PreambleResponse_refused :: "PreambleError \<Rightarrow> PreambleResponse" where
  "PreambleResponse_refused e = \<lparr>pr_ok = False, pr_error = Some (PreambleError_as_str e)\<rparr>"

text \<open>\<open>read_preamble\<close> takes the line so far and the bytes to come; \<open>None\<close> is every error it returns.\<close>

fun read_preamble :: "(byte list \<Rightarrow> Preamble option) \<Rightarrow> byte list \<Rightarrow> byte list \<Rightarrow> (Preamble \<times> byte list) option" where
  "read_preamble decode line [] = None"
| "read_preamble decode line (b # bs) =
     (let line = line @ [b] in
      if b = 10 then map_option (\<lambda>p. (p, bs)) (decode line)
      else if length line \<ge> MAX_PREAMBLE_BYTES then None
      else read_preamble decode line bs)"

definition reserve_pending_connection :: "nat \<Rightarrow> nat \<Rightarrow> bool \<times> nat" where
  "reserve_pending_connection pending limit = (if pending < limit then (True, pending + 1) else (False, pending))"

text \<open>
  What comes of a connection: an RPC stream with the bytes already sent, a tunnel to a port of the
  loopback, a refusal, or a connection dropped because the port did not answer.
\<close>

datatype tcp_outcome = TcpRpc PeerIdentity "byte list" | TcpTunnel u16 | TcpRefused PreambleError | TcpDropped

record tcp_env =
  te_decode :: "byte list \<Rightarrow> Preamble option"
  te_sha256 :: "byte list \<Rightarrow> byte list"
  te_in_time :: bool
  te_connects :: "u16 \<Rightarrow> bool"

definition handle_connection :: "tcp_env \<Rightarrow> PeerStore \<Rightarrow> session_table \<Rightarrow> byte list \<Rightarrow> nat \<Rightarrow> tcp_outcome \<times> nat" where
  "handle_connection env store st sent pending =
     (case (if te_in_time env then read_preamble (te_decode env) [] sent else None) of
        None \<Rightarrow> (TcpRefused PreUnauthorized, pending - 1)
      | Some (preamble, rest) \<Rightarrow>
          (case (if pre_v preamble = PREAMBLE_VERSION then authenticator store (te_sha256 env (as_bytes (pre_auth preamble))) else None) of
             None \<Rightarrow> (TcpRefused PreUnauthorized, pending - 1)
           | Some peer \<Rightarrow>
               (case pre_tunnel preamble of
                  None \<Rightarrow> (TcpRpc peer rest, pending - 1)
                | Some t \<Rightarrow>
                    (case resolve_cdp_port (pt_session_id t) (principal_of peer) st of
                       None \<Rightarrow> (TcpRefused PreNotFound, pending - 1)
                     | Some prt \<Rightarrow>
                         if pt_port t = 0 \<or> prt \<noteq> pt_port t then (TcpRefused PreForbidden, pending - 1)
                         else if te_connects env (pt_port t) then (TcpTunnel (pt_port t), pending - 1)
                         else (TcpDropped, pending - 1)))))"

text \<open>What a connection gets before it is used: nothing on an RPC stream.\<close>

fun preamble_reply :: "tcp_outcome \<Rightarrow> PreambleResponse option" where
  "preamble_reply (TcpRpc _ _) = None"
| "preamble_reply (TcpTunnel _) = Some PreambleResponse_accepted"
| "preamble_reply (TcpRefused e) = Some (PreambleResponse_refused e)"
| "preamble_reply TcpDropped = None"

subsection \<open>Unix sockets\<close>

datatype Accepted = Rpc PeerIdentity "u32 list" | UnixRpc PeerIdentity "u32 list" "u32 list" | Consumed

definition unix_accept :: "u32 list \<Rightarrow> u32 list \<Rightarrow> u32 option \<Rightarrow> Accepted" where
  "unix_accept allowed operators uid =
     (case uid of
        None \<Rightarrow> Consumed
      | Some u \<Rightarrow>
          if u \<noteq> 0 \<and> u \<notin> set allowed \<and> u \<notin> set operators then Consumed
          else UnixRpc (Uid u) allowed operators)"

fun tcp_accept :: "tcp_outcome \<Rightarrow> Accepted" where
  "tcp_accept (TcpRpc peer _) = Rpc peer []"
| "tcp_accept _ = Consumed"

text \<open>The caller and the two lists \<open>serve_connection\<close> is started with.\<close>

fun process_accepted :: "Accepted \<Rightarrow> (PeerIdentity \<times> u32 list \<times> u32 list) option" where
  "process_accepted (Rpc peer operators) = Some (peer, [], operators)"
| "process_accepted (UnixRpc peer allowed operators) = Some (peer, allowed, operators)"
| "process_accepted Consumed = None"

subsection \<open>Shutdown\<close>

definition shut_down :: "('w, 'i) DaemonEnv \<Rightarrow> DaemonState \<Rightarrow> DaemonState" where
  "shut_down env d =
     (let d = d\<lparr>dm_shutting_down := True\<rparr> in
      case drain_browsers None (dm_table d) of
        (bs, st) \<Rightarrow> stepwise_terminate env None Shutdown (terminate_browsers env bs (d\<lparr>dm_table := st\<rparr>)))"

subsection \<open>Reading a preamble is bounded\<close>

lemma read_preamble_rest: "read_preamble decode line bs = Some (p, rest) \<Longrightarrow>
    \<exists>body. bs = body @ [10] @ rest \<and> 10 \<notin> set body \<and> decode (line @ body @ [10]) = Some p
      \<and> (body \<noteq> [] \<longrightarrow> length line + length body < MAX_PREAMBLE_BYTES)"
proof (induction decode line bs rule: read_preamble.induct)
  case (2 decode line b bs)
  show ?case
  proof (cases "b = 10")
    case True
    then show ?thesis using "2.prems" by (intro exI[of _ "[]"]) auto
  next
    case False
    then have "length (line @ [b]) < MAX_PREAMBLE_BYTES" "read_preamble decode (line @ [b]) bs = Some (p, rest)"
      using "2.prems" by (auto simp: Let_def split: if_splits)
    with "2.IH"[OF refl False] obtain body where "bs = body @ [10] @ rest" "10 \<notin> set body"
        "decode ((line @ [b]) @ body @ [10]) = Some p" "body \<noteq> [] \<longrightarrow> length (line @ [b]) + length body < MAX_PREAMBLE_BYTES"
      by (auto simp: not_le)
    then show ?thesis using False \<open>length (line @ [b]) < MAX_PREAMBLE_BYTES\<close> by (intro exI[of _ "b # body"]) auto
  qed
qed simp

lemma read_preamble_prefix:
  assumes "length line < MAX_PREAMBLE_BYTES"
  shows "map_option fst (read_preamble decode line bs) =
     map_option fst (read_preamble decode line (take (MAX_PREAMBLE_BYTES - length line) bs))"
  using assms
proof (induction decode line bs rule: read_preamble.induct)
  case (2 decode line b bs)
  obtain n where n: "MAX_PREAMBLE_BYTES - length line = Suc n" using "2.prems" by (cases "MAX_PREAMBLE_BYTES - length line") auto
  show ?case
  proof (cases "b = 10 \<or> length (line @ [b]) \<ge> MAX_PREAMBLE_BYTES")
    case True
    then show ?thesis using n by (auto simp: Let_def option.map_comp comp_def)
  next
    case False
    then have "n = MAX_PREAMBLE_BYTES - length (line @ [b])" using n by simp
    then show ?thesis using "2.IH"[OF refl] False n by (simp add: Let_def not_le)
  qed
qed simp


lemma read_preamble_line:
  assumes "10 \<notin> set body" "length line + length body < MAX_PREAMBLE_BYTES"
  shows "read_preamble decode line (body @ [10] @ rest) = map_option (\<lambda>p. (p, rest)) (decode (line @ body @ [10]))"
  using assms
proof (induction body arbitrary: line)
  case (Cons b body)
  then show ?case using Cons.IH[of "line @ [b]"] by (auto simp: Let_def)
qed simp

subsection \<open>Who gets in\<close>

text \<open>
  C23: over TCP nobody gets an RPC stream or a tunnel without the token of a peer that is not revoked,
  in a well-formed first line of at most 4 KiB; and a tunnel leads only to a port that is registered for
  that peer under the session it named.
\<close>

theorem tcp_callers_hold_a_token:
  assumes run: "handle_connection env store st sent pending = (out, n)" and ok: "\<exists>peer rest prt. out = TcpRpc peer rest \<or> out = TcpTunnel prt"
  shows "\<exists>body rest preamble p. sent = body @ [10] @ rest \<and> length body < MAX_PREAMBLE_BYTES \<and> te_decode env (body @ [10]) = Some preamble
     \<and> p \<in> set (active_peers store) \<and> as_bytes (token_sha256 p) = digest_to_hex_bytes (te_sha256 env (as_bytes (pre_auth preamble)))
     \<and> (case out of
          TcpRpc peer r \<Rightarrow> peer = Peer (pr_peer_id p) (pr_label p) \<and> r = rest
        | TcpTunnel prt \<Rightarrow> \<exists>t. pre_tunnel preamble = Some t \<and> prt \<noteq> 0
            \<and> resolve_cdp_port (pt_session_id t) (principal_of (Peer (pr_peer_id p) (pr_label p))) st = Some prt
        | _ \<Rightarrow> False)"
proof -
  obtain preamble rest peer where r: "read_preamble (te_decode env) [] sent = Some (preamble, rest)"
    and a: "authenticator store (te_sha256 env (as_bytes (pre_auth preamble))) = Some peer"
    using run ok by (auto simp: handle_connection_def split: if_splits option.splits)
  obtain body where body: "sent = body @ [10] @ rest" "te_decode env (body @ [10]) = Some preamble" "length body < MAX_PREAMBLE_BYTES"
    using read_preamble_rest[OF r] by (cases "\<exists>body. body \<noteq> []") (auto simp: MAX_PREAMBLE_BYTES_def)
  obtain p where p: "p \<in> set (active_peers store)" "peer = Peer (pr_peer_id p) (pr_label p)"
      "as_bytes (token_sha256 p) = digest_to_hex_bytes (te_sha256 env (as_bytes (pre_auth preamble)))"
    using authenticator_SomeD[OF a] by (auto simp: active_peers_def)
  have "case out of TcpRpc q r' \<Rightarrow> q = peer \<and> r' = rest
        | TcpTunnel prt \<Rightarrow> \<exists>t. pre_tunnel preamble = Some t \<and> prt \<noteq> 0 \<and> resolve_cdp_port (pt_session_id t) (principal_of peer) st = Some prt
        | _ \<Rightarrow> False"
    using run ok r a by (auto simp: handle_connection_def split: if_splits option.splits)
  then show ?thesis using body p by blast
qed


definition tcp_demo :: tcp_env where
  "tcp_demo = \<lparr>te_decode = (\<lambda>_. Some \<lparr>pre_v = 1, pre_auth = base64url (replicate 32 7), pre_tunnel = None\<rparr>),
     te_sha256 = example_sha256, te_in_time = True, te_connects = (\<lambda>_. True)\<rparr>"

lemma example_authenticates:
  "authenticator example_store (example_sha256 (as_bytes (base64url (replicate 32 7)))) =
     Some (Peer (''p_'' @ generate_ulid 5 (replicate 10 9)) ''box'')"
  by (simp add: authenticator_eq active_peers_def example_store_def issue_peer_def persist_def Let_def as_bytes_digest_to_hex)

theorem tcp_callers_hold_a_token_witness:
  "fst (handle_connection tcp_demo example_store example_table [1, 10, 2] 1) = TcpRpc (Peer (''p_'' @ generate_ulid 5 (replicate 10 9)) ''box'') [2]
   \<and> active_peers example_store \<noteq> []"
proof -
  have run: "handle_connection tcp_demo example_store example_table [1, 10, 2] 1 =
      (TcpRpc (Peer (''p_'' @ generate_ulid 5 (replicate 10 9)) ''box'') [2], 0)"
    using example_authenticates
    by (simp add: handle_connection_def tcp_demo_def MAX_PREAMBLE_BYTES_def PREAMBLE_VERSION_def)
  from tcp_callers_hold_a_token[OF run] run show ?thesis by auto
qed

subsection \<open>An issued token gets in\<close>

text \<open>
  C24: the token an operator gets from \<open>admin_peer_issue\<close> or \<open>admin_token_issue\<close> opens a connection: a client
  that sends it in the first line is served as the new peer, from the byte after that line on.
\<close>

theorem issued_token_opens_a_connection:
  assumes run: "handle_request env request peer d w = (h, d', w')" "rq_method request \<in> {''admin_peer_issue'', ''admin_token_issue''}"
      "hr_outcome h = ''ok''"
  shows "\<exists>token i label result. rp_result (hr_response h) = Some result
     \<and> jget result ''token'' = Some (JStr token) \<and> jget result ''peer_id'' = Some (JStr i)
     \<and> (\<forall>tenv st line rest n. te_sha256 tenv = sv_sha256 env \<and> te_in_time tenv \<and> 10 \<notin> set line \<and> length line < MAX_PREAMBLE_BYTES
          \<and> te_decode tenv (line @ [10]) = Some \<lparr>pre_v = PREAMBLE_VERSION, pre_auth = token, pre_tunnel = None\<rparr>
          \<longrightarrow> handle_connection tenv (dm_peers d') st (line @ [10] @ rest) n = (TcpRpc (Peer i label) rest, n - 1))"
proof -
  have code: "ErrorCode_as_str e \<noteq> ''ok''" for e by (cases e) simp_all
  obtain label where lb: "issue_peer_with_label env request label d = (h, d')"
    using run code
    by (auto simp: handle_request_def starts_with_def handle_admin_def admin_peer_issue_def admin_token_issue_def classified_def
        classified_with_step_def handled_def split: if_splits prod.splits sum.splits)
  then obtain p where p: "issue_peer (sv_sha256 env) label (sv_token_bytes env) (sv_millis env) (sv_ulid_bytes env) (sv_unix env)
        (sv_peers_written env) (dm_peers d) = (Inr p, dm_peers d')"
    and h: "h = success (rq_id request) (JObj [(''peer_id'', JStr (ip_peer_id p)), (''token'', JStr (ip_token p))])"
    using run(3) code
    by (auto simp: issue_peer_with_label_def classified_def classified_with_step_def handled_def split: if_splits prod.splits sum.splits)
  have "authenticator (dm_peers d') (sv_sha256 env (as_bytes (ip_token p))) = Some (Peer (ip_peer_id p) label)"
    using issue_peer_authenticates[OF p] by simp
  then have "handle_connection tenv (dm_peers d') st (line @ [10] @ rest) n = (TcpRpc (Peer (ip_peer_id p) label) rest, n - 1)"
    if "te_sha256 tenv = sv_sha256 env" "te_in_time tenv" "10 \<notin> set line" "length line < MAX_PREAMBLE_BYTES"
      "te_decode tenv (line @ [10]) = Some \<lparr>pre_v = PREAMBLE_VERSION, pre_auth = ip_token p, pre_tunnel = None\<rparr>" for tenv st line rest n
    using that read_preamble_line[of line "[]" "te_decode tenv" rest] by (simp add: handle_connection_def)
  then show ?thesis using h by (intro exI[of _ "ip_token p"] exI[of _ "ip_peer_id p"] exI[of _ label]) (simp add: success_def handled_def)
qed

definition issue_env :: "(unit, unit) ServerEnv" where
  "issue_env = undefined\<lparr>sv_operator_uids := [7], sv_sha256 := example_sha256, sv_token_bytes := Inr (replicate 32 7),
     sv_ulid_bytes := Inr (replicate 10 9), sv_millis := 5, sv_unix := 3, sv_peers_written := True\<rparr>"

theorem issued_token_opens_a_connection_witness:
  "let d' = fst (snd (handle_request issue_env issue_request (Uid 7) demo_daemon ()))
   in \<exists>i label. handle_connection tcp_demo (dm_peers d') example_table [1, 10, 2] 1 = (TcpRpc (Peer i label) [2], 0)"
proof -
  obtain h d' w' where run: "handle_request issue_env issue_request (Uid 7) demo_daemon () = (h, d', w')" by (metis surj_pair)
  have h: "hr_outcome h = ''ok'' \<and> (\<exists>i. rp_result (hr_response h) = Some (JObj [(''peer_id'', JStr i), (''token'', JStr (base64url (replicate 32 7)))]))"
    using run
    by (auto simp: handle_request_def issue_request_def JSON_RPC_VERSION_def starts_with_def allows_admin_rpc_def handle_admin_def
        admin_token_issue_def issue_peer_with_label_def issue_env_def issue_peer_def persist_def success_def handled_def Let_def)
  have m: "rq_method issue_request \<in> {''admin_peer_issue'', ''admin_token_issue''}" by (simp add: issue_request_def)
  have te: "te_sha256 tcp_demo = sv_sha256 issue_env" "te_in_time tcp_demo" "length [1 :: byte] < MAX_PREAMBLE_BYTES"
    "te_decode tcp_demo ([1] @ [10]) = Some \<lparr>pre_v = PREAMBLE_VERSION, pre_auth = base64url (replicate 32 7), pre_tunnel = None\<rparr>"
    by (simp_all add: tcp_demo_def issue_env_def MAX_PREAMBLE_BYTES_def PREAMBLE_VERSION_def)
  obtain tok i label result where r: "rp_result (hr_response h) = Some result" "jget result ''token'' = Some (JStr tok)"
    and all: "\<forall>tenv st line rest n. te_sha256 tenv = sv_sha256 issue_env \<and> te_in_time tenv \<and> 10 \<notin> set line \<and> length line < MAX_PREAMBLE_BYTES
          \<and> te_decode tenv (line @ [10]) = Some \<lparr>pre_v = PREAMBLE_VERSION, pre_auth = tok, pre_tunnel = None\<rparr>
          \<longrightarrow> handle_connection tenv (dm_peers d') st (line @ [10] @ rest) n = (TcpRpc (Peer i label) rest, n - 1)"
    using issued_token_opens_a_connection[OF run m conjunct1[OF h]] by (elim exE conjE)
  have "tok = base64url (replicate 32 7)" using r h by auto
  then have "handle_connection tcp_demo (dm_peers d') example_table ([1] @ [10] @ [2]) 1 = (TcpRpc (Peer i label) [2], 1 - 1)"
    using all[rule_format, of tcp_demo "[1]"] te by simp
  then show ?thesis using run by auto
qed

subsection \<open>Handshakes are bounded\<close>

text \<open>
  The counter of connections whose preamble has not been read, and the number of handshakes under way. A
  new connection is turned away or starts a handshake; a handshake ends when \<open>handle_connection\<close> has read
  the preamble or given up.
\<close>

inductive tcp_run :: "nat \<Rightarrow> nat \<Rightarrow> nat \<Rightarrow> bool" for limit where
  listens: "tcp_run limit 0 0"
| arrives: "tcp_run limit pending n \<Longrightarrow> reserve_pending_connection pending limit = (True, pending') \<Longrightarrow> tcp_run limit pending' (n + 1)"
| turned_away: "tcp_run limit pending n \<Longrightarrow> reserve_pending_connection pending limit = (False, pending') \<Longrightarrow> tcp_run limit pending' n"
| settles: "tcp_run limit pending (n + 1) \<Longrightarrow> handle_connection env store st sent pending = (out, pending') \<Longrightarrow> tcp_run limit pending' n"

text \<open>
  at most \<open>max_pending_connections\<close> handshakes are under way at any time, and the counter never loses
  one: it is back at zero when none is.
\<close>

theorem handshakes_are_bounded:
  assumes "tcp_run limit pending n"
  shows "pending = n \<and> n \<le> limit"
  using assms
proof induction
  case (settles pending n env store st sent out pending')
  then have "pending' = pending - 1" by (auto simp: handle_connection_def split: if_splits option.splits)
  then show ?case using settles.IH by simp
qed (auto simp: reserve_pending_connection_def split: if_splits)

theorem handshakes_are_bounded_witness: "tcp_run 1 1 1 \<and> (1 :: nat) \<le> 1"
proof -
  have "tcp_run 1 1 1"
    using tcp_run.arrives[OF tcp_run.listens, of 1 1] by (simp add: reserve_pending_connection_def)
  then show ?thesis using handshakes_are_bounded by blast
qed

subsection \<open>Nothing survives the shutdown\<close>

text \<open>A stepwise login that is a target when it is registered ends itself: its executor is stopped, and it is not kept.\<close>

lemma register_pending_ended:
  assumes "login_end_reason (la_key la) peer (d\<lparr>dm_slots := sl, dm_ledger := l\<rparr>) = Some reason" "\<And>i. hget (lg_entries (dm_ledger d)) i = None"
    and l: "sl = hinsert (de_slot env) (la_pending la) (dm_slots d)"
      "l = ledger_insert (de_login_id env) (LedgerEntry_new (la_key la) (la_exclusive la) (la_persist_cookies la) (la_started_at la)
         (de_now env 5) (de_slot env)) (dm_ledger d)"
    and run: "register_pending env peer la d = (r, d')"
  shows "r = Inl (immediate_error reason) \<and> StopPending (pe_handle (la_pending la)) (stop_pending (la_pending la) False) \<in> set (dm_effects d')
    \<and> (\<forall>i. hget (lg_entries (dm_ledger d')) i = None)"
proof -
  let ?e = "LedgerEntry_new (la_key la) (la_exclusive la) (la_persist_cookies la) (la_started_at la) (de_now env 5) (de_slot env)"
  let ?d = "d\<lparr>dm_slots := sl, dm_ledger := l\<rparr>" and ?l = "ledger_remove (de_login_id env) l"
  have t: "take_owned (de_login_id env) (principal (la_key la)) l = (Some ?e, ?l)"
    by (simp add: l take_owned_def) (simp add: LedgerEntry_new_def)
  have d': "r = Inl (immediate_error reason)" "d' = end_entry env reason AuditSystem (de_login_id env, ?e) (?d\<lparr>dm_ledger := ?l\<rparr>)"
    using run assms(1) t by (auto simp: register_pending_def Let_def l)
  have n: "(reason = AbortedByCaller) = False" using immediate_end_reason_cases assms(1) unfolding login_end_reason_def by blast
  have p: "hget (dm_slots (?d\<lparr>dm_ledger := ?l\<rparr>)) (en_slot ?e) = Some (la_pending la)" by (simp add: l LedgerEntry_new_def)
  have "StopPending (pe_handle (la_pending la)) (stop_pending (la_pending la) False) \<in> set (dm_effects d')"
    using end_entry_ends[of AuditSystem reason "de_login_id env" ?e env "?d\<lparr>dm_ledger := ?l\<rparr>", THEN conjunct2, THEN conjunct1, rule_format, OF p]
    unfolding d'(2) n .
  moreover have "dm_ledger d' = ?l" using ends_only_end_entry[of "?d\<lparr>dm_ledger := ?l\<rparr>" env reason] unfolding d'(2) by (simp add: ends_only_def)
  ultimately show ?thesis using d'(1) assms(2) by (simp add: l ledger_remove_def ledger_insert_def)
qed

text \<open>
  C18: after the shutdown no session and no stepwise login is left. The executor of each session and the executor in
  the slot of each stepwise login has been told to stop, and each of them has its line in the audit. A stepwise login
  whose executor was still starting is caught when it is registered afterwards: the request gets an error, its executor
  is told to stop, and nothing is left in the ledger. (Only stepwise logins look at the flag of the shutdown;
  \<open>register_after_shutdown\<close> below is about the others.)
\<close>

theorem shutdown_leaves_no_session:
  assumes inv: "base_inv (dm_table d)" "hvalid (lg_entries (dm_ledger d))"
  shows "(\<forall>bid. hget (browsers (dm_table (shut_down env d))) bid = None)
     \<and> (\<forall>i. hget (lg_entries (dm_ledger (shut_down env d))) i = None)
     \<and> (\<forall>bid b. hget (browsers (dm_table d)) bid = Some b \<longrightarrow> ShutdownExecutor (executor b) \<in> set (dm_effects (shut_down env d))
          \<and> (\<forall>s l. hget (leases b) s = Some l \<longrightarrow> (\<exists>saved. (AuditSystem, ''session_terminated'',
               AuditFields_default\<lparr>af_session_id := Some s, af_namespace := Some (namespace (key b)), af_cookies_saved := saved\<rparr>,
               ''ok'') \<in> set (va_audit (dm_vault (shut_down env d))))))
     \<and> (\<forall>i e. hget (lg_entries (dm_ledger d)) i = Some e \<longrightarrow>
          (AuditSystem, ''stepwise_terminated'', end_fields i (en_key e) None, ''shutdown'') \<in> set (va_audit (dm_vault (shut_down env d)))
          \<and> (\<forall>p. hget (dm_slots d) (en_slot e) = Some p \<longrightarrow>
               StopPending (pe_handle p) (stop_pending p False) \<in> set (dm_effects (shut_down env d))))
     \<and> (\<forall>peer la r d'. register_pending env peer la (shut_down env d) = (r, d') \<longrightarrow> (\<exists>e. r = Inl e)
          \<and> StopPending (pe_handle (la_pending la)) (stop_pending (la_pending la) False) \<in> set (dm_effects d')
          \<and> (\<forall>i. hget (lg_entries (dm_ledger d')) i = None))"
proof -
  define d1 where "d1 = d\<lparr>dm_shutting_down := True\<rparr>"
  obtain bs st where db: "drain_browsers None (dm_table d) = (bs, st)" by fastforce
  define d2 where "d2 = terminate_browsers env bs (d1\<lparr>dm_table := st\<rparr>)"
  obtain es l where tn: "take_namespace None (dm_ledger d2) = (es, l)" by fastforce
  have sw: "shut_down env d = stepwise_terminate env None Shutdown d2" using db by (simp add: shut_down_def d2_def d1_def)
  then have sd: "shut_down env d = end_all env Shutdown es (d2\<lparr>dm_ledger := l\<rparr>)" using tn by (simp add: stepwise_terminate_def)
  have e12: "ends_only (d1\<lparr>dm_table := st\<rparr>) d2" unfolding d2_def by (rule terminate_browsers_ends_only)
  have e2: "ends_only (d2\<lparr>dm_ledger := l\<rparr>) (shut_down env d)" unfolding sd by (rule ends_only_end_all)
  have fields: "dm_table (shut_down env d) = st" "dm_ledger (shut_down env d) = l" "dm_ledger d2 = dm_ledger d" "dm_shutting_down (shut_down env d)"
    using e12 e2 by (auto simp: ends_only_def d1_def config_of_def)
  have sl: "dm_slots d2 = dm_slots d" by (simp add: d2_def d1_def terminate_browsers_slots)
  have 1: "ShutdownExecutor (executor b) \<in> set (dm_effects (shut_down env d))
      \<and> (\<forall>s l. hget (leases b) s = Some l \<longrightarrow> (\<exists>saved. (AuditSystem, ''session_terminated'',
           AuditFields_default\<lparr>af_session_id := Some s, af_namespace := Some (namespace (key b)), af_cookies_saved := saved\<rparr>,
           ''ok'') \<in> set (va_audit (dm_vault (shut_down env d)))))" if "hget (browsers (dm_table d)) bid = Some b" for bid b
  proof -
    have "b \<in> set bs" using drain_exact[OF inv(1) db] that by blast
    from terminate_browsers_ends[OF this, of "d1\<lparr>dm_table := st\<rparr>" env, folded d2_def] show ?thesis
      using e2 hget_mem unfolding ends_only_def by fastforce
  qed
  have 2: "(AuditSystem, ''stepwise_terminated'', end_fields i (en_key e) None, ''shutdown'') \<in> set (va_audit (dm_vault (shut_down env d)))
      \<and> (\<forall>p. hget (dm_slots d) (en_slot e) = Some p \<longrightarrow> StopPending (pe_handle p) (stop_pending p False) \<in> set (dm_effects (shut_down env d)))"
    if "hget (lg_entries (dm_ledger d)) i = Some e" for i e
    using stepwise_terminate_ends[of d2 i e None Shutdown env] inv(2) that unfolding fields(3) sl sw by simp
  have 3: "hget (browsers st) bid = None" for bid using drain_exact[OF inv(1) db] by (auto split: option.splits)
  have 4: "hget (lg_entries l) i = None" for i
    using take_namespace_get[OF inv(2) tn[unfolded fields]] by (auto split: option.splits)
  have 5: "(\<exists>e. r = Inl e) \<and> StopPending (pe_handle (la_pending la)) (stop_pending (la_pending la) False) \<in> set (dm_effects d')
      \<and> (\<forall>i. hget (lg_entries (dm_ledger d')) i = None)" if run: "register_pending env peer la (shut_down env d) = (r, d')" for peer la r d'
  proof -
    have "\<exists>reason. login_end_reason (la_key la) peer ((shut_down env d)\<lparr>dm_slots := sl, dm_ledger := l\<rparr>) = Some reason" for sl l
      using fields(4) by (simp add: login_end_reason_def immediate_end_reason_def)
    then show ?thesis using register_pending_ended[OF _ _ refl refl run] 4 fields(2) by metis
  qed
  show ?thesis using 1 2 3 4 5 unfolding fields(1,2) by blast
qed

theorem shutdown_leaves_no_session_witness:
  "hget (browsers (dm_table demo_daemon)) ''b1'' \<noteq> None
   \<and> hget (browsers (dm_table (shut_down (undefined :: (unit, unit) DaemonEnv) demo_daemon))) ''b1'' = None"
proof -
  have "hget (browsers (dm_table demo_daemon)) ''b1'' \<noteq> None" by (simp add: demo_daemon_def example_table_def)
  then show ?thesis using conjunct1[OF shutdown_leaves_no_session[OF demo_inv(2,4)]] by blast
qed

text \<open>
  A plain login does not look at the flag: one whose executor was still starting is registered after the sweep, and
  nothing stops its executor any more.
\<close>

lemma register_after_shutdown:
  assumes "de_reader env (br_executor r)" "cdp_port_from_endpoint (br_endpoint r) = Some prt" "de_ports_ok env"
    "register_login_browser env r (shut_down env d) = (x, d')"
  shows "(\<exists>result. x = Inr result) \<and> dm_effects d' = dm_effects (shut_down env d)
    \<and> (\<exists>b. hget (browsers (dm_table d')) (de_browser_id env) = Some b \<and> executor b = br_executor r)"
  using assms by (auto simp: register_login_browser_def Let_def register_browser_locked_def new_browser_def)

end
