(* ===== verification/Bridge.thy ===== *)
theory Bridge
  imports Transports Std_Text
begin

section \<open>The bridge\<close>

text \<open>
  \<open>tegata-bridge\<close> (\<open>unix.rs\<close>): a local socket whose clients reach the daemon over TCP with the peer's token.
  What connecting, reading and writing come to are arguments; each direction of a forwarded connection is
  the list of its lines. A slice of a text off its character boundaries panics; that is the outer \<open>None\<close> of
  \<open>default_daemon_addr\<close>.
\<close>

definition DEFAULT_DAEMON_PORT :: u16 where "DEFAULT_DAEMON_PORT = 0x5447"

definition trim_end :: "string \<Rightarrow> string" where
  "trim_end s = concat (trim_end_matches is_whitespace_char (utf8_chunks s))"

fun split_chunks :: "string list \<Rightarrow> string \<Rightarrow> string list" where
  "split_chunks [] word = (if word = [] then [] else [word])"
| "split_chunks (ch # chs) word =
     (if is_whitespace_char ch then (if word = [] then split_chunks chs [] else word # split_chunks chs [])
      else split_chunks chs (word @ ch))"

definition split_whitespace :: "string \<Rightarrow> string list" where
  "split_whitespace s = split_chunks (utf8_chunks s) []"

subsection \<open>The daemon's address\<close>

definition slice :: "string \<Rightarrow> nat \<Rightarrow> nat \<Rightarrow> string option" where
  "slice s a b = (if is_char_boundary s a \<and> is_char_boundary s b then Some (take (b - a) (drop a s)) else None)"

definition hex_digit_value :: "char \<Rightarrow> nat option" where
  "hex_digit_value c =
     (let n = (of_char c :: nat) in
      if 48 \<le> n \<and> n \<le> 57 then Some (n - 48) else if 65 \<le> n \<and> n \<le> 70 then Some (n - 55)
      else if 97 \<le> n \<and> n \<le> 102 then Some (n - 87) else None)"

text \<open>\<open>u8::from_str_radix(s, 16)\<close> of two bytes: a sign is allowed before the digits.\<close>

fun hex_octet :: "string \<Rightarrow> byte option" where
  "hex_octet [c, d] =
     (if c = CHR ''+'' then map_option of_nat (hex_digit_value d)
      else (case (hex_digit_value c, hex_digit_value d) of
              (Some x, Some y) \<Rightarrow> Some (of_nat (16 * x + y))
            | _ \<Rightarrow> None))"
| "hex_octet _ = None"

fun octet_loop :: "string \<Rightarrow> nat list \<Rightarrow> byte list \<Rightarrow> byte list option option" where
  "octet_loop s [] acc = Some (Some acc)"
| "octet_loop s (i # is) acc =
     (case slice s (i * 2) (i * 2 + 2) of
        None \<Rightarrow> None
      | Some t \<Rightarrow> (case hex_octet t of None \<Rightarrow> Some None | Some v \<Rightarrow> octet_loop s is (acc @ [v])))"

definition gateway_addr :: "byte list \<Rightarrow> string" where
  "gateway_addr octets =
     decimal (unat (octets ! 3)) @ ''.'' @ decimal (unat (octets ! 2)) @ ''.'' @ decimal (unat (octets ! 1)) @ ''.''
     @ decimal (unat (octets ! 0)) @ '':'' @ decimal (unat DEFAULT_DAEMON_PORT)"

fun route_loop :: "string list \<Rightarrow> string option option" where
  "route_loop [] = Some None"
| "route_loop (line # ls) =
     (let columns = split_whitespace line in
      if length columns < 3 \<or> columns ! 1 \<noteq> ''00000000'' \<or> columns ! 2 = ''00000000'' then route_loop ls
      else if length (columns ! 2) \<noteq> 8 then route_loop ls
      else (case octet_loop (columns ! 2) [0, 1, 2, 3] [] of
              None \<Rightarrow> None
            | Some None \<Rightarrow> route_loop ls
            | Some (Some octets) \<Rightarrow> Some (Some (gateway_addr octets))))"

definition default_daemon_addr :: "fs_error + string \<Rightarrow> (fs_error + string) option" where
  "default_daemon_addr route =
     (case route of
        Inl e \<Rightarrow> Some (Inl e)
      | Inr text \<Rightarrow> map_option (\<lambda>r. case r of None \<Rightarrow> Inl fs_error.NotFound | Some a \<Rightarrow> Inr a) (route_loop (drop 1 (str_lines text))))"

subsection \<open>The token\<close>

definition read_token :: "fs_error + nat \<Rightarrow> fs_error + string \<Rightarrow> fs_error + string" where
  "read_token mode content =
     (case mode of
        Inl e \<Rightarrow> Inl e
      | Inr m \<Rightarrow> if m mod 0x1000 \<noteq> 0x180 then Inl (OtherError ''token file must have permissions 0600'') else map_sum id trim_end content)"

definition accepts_client :: "u32 option \<Rightarrow> u32 \<Rightarrow> bool" where
  "accepts_client peer_uid euid = (peer_uid = Some euid)"

subsection \<open>Clients\<close>

definition BRIDGE_ERROR_CODE :: int where "BRIDGE_ERROR_CODE = -32000"

definition write_rpc_error :: "json \<Rightarrow> string \<Rightarrow> RpcResponse" where
  "write_rpc_error i message =
     \<lparr>rp_jsonrpc = ''2.0'', rp_id = i, rp_result = None,
      rp_error = Some \<lparr>re_code = BRIDGE_ERROR_CODE, re_message = message, re_data = None\<rparr>\<rparr>"

definition refusal_message :: "string option \<Rightarrow> string" where
  "refusal_message e =
     (if e = Some ''UNAUTHORIZED'' then ''UNAUTHORIZED'' else if e = Some ''FORBIDDEN'' then ''FORBIDDEN'' else ''INTERNAL'')"

definition rpc_preamble :: "string \<Rightarrow> Preamble" where
  "rpc_preamble auth = \<lparr>pre_v = PREAMBLE_VERSION, pre_auth = auth, pre_tunnel = None\<rparr>"

definition tunnel_preamble :: "string \<Rightarrow> string \<Rightarrow> u16 \<Rightarrow> Preamble" where
  "tunnel_preamble auth sess prt =
     \<lparr>pre_v = PREAMBLE_VERSION, pre_auth = auth, pre_tunnel = Some \<lparr>pt_session_id = sess, pt_port = prt\<rparr>\<rparr>"

text \<open>What a client gets: lines of the daemon, or a reply of the bridge itself.\<close>

datatype bridge_out = Line string | Reply RpcResponse

fun forward_daemon :: "(string \<Rightarrow> PreambleResponse option) \<Rightarrow> json \<Rightarrow> bool \<Rightarrow> string list \<Rightarrow> bridge_out list" where
  "forward_daemon decode i first_response [] = (if first_response then [Reply (write_rpc_error i ''INTERNAL'')] else [])"
| "forward_daemon decode i first_response (line # ls) =
     (if first_response then
        (case decode (trim_end line) of
           Some response \<Rightarrow>
             if \<not> pr_ok response then [Reply (write_rpc_error i (refusal_message (pr_error response)))]
             else Line line # forward_daemon decode i False ls
         | None \<Rightarrow> Line line # forward_daemon decode i False ls)
      else Line line # forward_daemon decode i False ls)"

text \<open>
  How a connection to the daemon goes. \<open>bi_reply\<close> is what comes back after the preamble it is given, and
  depends on that preamble.
\<close>

record bridge_io =
  bi_connects :: bool
  bi_preamble_written :: bool
  bi_first_written :: bool
  bi_reply :: "Preamble \<Rightarrow> fs_error + string option"
  bi_local_port :: "u16 option"

datatype open_tunnel_end = TunnelReply RpcResponse | TunnelOpened json u16 Preamble | TunnelFailed

definition serve_open_tunnel ::
  "(json \<Rightarrow> (string \<times> u16) option) \<Rightarrow> (string \<Rightarrow> PreambleResponse option) \<Rightarrow> bridge_io \<Rightarrow> RpcRequest \<Rightarrow> string \<Rightarrow> open_tunnel_end" where
  "serve_open_tunnel decode_params decode io request auth =
     (let failed = TunnelReply (write_rpc_error (rq_id request) ''INTERNAL'') in
      case decode_params (rq_params request) of
        None \<Rightarrow> failed
      | Some (sess, prt) \<Rightarrow>
          if \<not> bi_connects io \<or> \<not> bi_preamble_written io then failed
          else (case bi_reply io (tunnel_preamble auth sess prt) of
                  Inr (Some line) \<Rightarrow>
                    (case decode (trim_end line) of
                       None \<Rightarrow> failed
                     | Some response \<Rightarrow>
                         if \<not> pr_ok response then TunnelReply (write_rpc_error (rq_id request) (refusal_message (pr_error response)))
                         else (case bi_local_port io of
                                 None \<Rightarrow> TunnelFailed
                               | Some lp \<Rightarrow> TunnelOpened (JObj [(''local_port'', JInt (uint lp))]) lp (tunnel_preamble auth sess prt)))
                | _ \<Rightarrow> failed))"

text \<open>One connection to an opened tunnel: whether it is spliced to the daemon.\<close>

definition serve_tunnel_connection :: "(string \<Rightarrow> PreambleResponse option) \<Rightarrow> bridge_io \<Rightarrow> string \<Rightarrow> u16 \<Rightarrow> string \<Rightarrow> bool" where
  "serve_tunnel_connection decode io sess prt auth =
     (bi_connects io \<and> bi_preamble_written io
      \<and> (case bi_reply io (tunnel_preamble auth sess prt) of
           Inr (Some line) \<Rightarrow> (case decode (trim_end line) of Some response \<Rightarrow> pr_ok response | None \<Rightarrow> False)
         | _ \<Rightarrow> False))"

datatype client_end = ClientClosed | ClientReply RpcResponse | ClientTunnel open_tunnel_end
  | ClientForwarded Preamble string "bridge_out list"

definition serve_client ::
  "(string \<Rightarrow> RpcRequest option) \<Rightarrow> (json \<Rightarrow> (string \<times> u16) option) \<Rightarrow> (string \<Rightarrow> PreambleResponse option) \<Rightarrow> bridge_io
     \<Rightarrow> string \<Rightarrow> fs_error + string \<Rightarrow> string list \<Rightarrow> client_end" where
  "serve_client parse decode_params decode io auth opening daemon_lines =
     (case opening of
        Inl _ \<Rightarrow> ClientClosed
      | Inr line \<Rightarrow>
          if line = [] then ClientClosed
          else
            (let parsed = parse (trim_end line); i = (case parsed of Some r \<Rightarrow> rq_id r | None \<Rightarrow> JNull) in
             case parsed of
               Some r \<Rightarrow>
                 if rq_method r = ''bridge_open_tunnel'' then ClientTunnel (serve_open_tunnel decode_params decode io r auth)
                 else if \<not> bi_connects io \<or> \<not> bi_preamble_written io \<or> \<not> bi_first_written io
                 then ClientReply (write_rpc_error i ''INTERNAL'')
                 else ClientForwarded (rpc_preamble auth) line (forward_daemon decode i True daemon_lines)
             | None \<Rightarrow>
                 if \<not> bi_connects io \<or> \<not> bi_preamble_written io \<or> \<not> bi_first_written io
                 then ClientReply (write_rpc_error i ''INTERNAL'')
                 else ClientForwarded (rpc_preamble auth) line (forward_daemon decode i True daemon_lines)))"

text \<open>A line of the daemon, byte by byte: none at the end of the stream, an error in the middle of a line.\<close>

fun read_line :: "string \<Rightarrow> string \<Rightarrow> (fs_error + string option) \<times> string" where
  "read_line acc [] = (if acc = [] then Inr None else Inl (OtherError ''unterminated line''), [])"
| "read_line acc (b # bs) =
     (let acc = acc @ [b] in
      if b = CHR 0x0A then (case from_utf8 acc of Some l \<Rightarrow> Inr (Some l) | None \<Rightarrow> Inl (OtherError ''response is not UTF-8''), bs)
      else read_line acc bs)"


lemma preamble_response_fields [simp]:
  "pr_ok PreambleResponse_accepted" "\<not> pr_ok (PreambleResponse_refused e)"
  "pr_error (PreambleResponse_refused e) = Some (PreambleError_as_str e)"
  by (simp_all add: PreambleResponse_accepted_def PreambleResponse_refused_def)

subsection \<open>Lines pass unchanged\<close>

lemma forward_daemon_later: "forward_daemon decode i False ls = map Line ls"
  by (induction ls) auto

text \<open>
  everything the daemon sends reaches the client unchanged and in order, except when the daemon refuses the
  connection: then the client gets an error reply with the id of its request, with the refusal's code
  where it is \<open>UNAUTHORIZED\<close> or \<open>FORBIDDEN\<close>; and \<open>INTERNAL\<close> when the daemon closes without a word.
\<close>

theorem bridge_forwards_verbatim:
  "forward_daemon decode i True ls =
     (case ls of
        [] \<Rightarrow> [Reply (write_rpc_error i ''INTERNAL'')]
      | l # _ \<Rightarrow>
          (case decode (trim_end l) of
             None \<Rightarrow> map Line ls
           | Some r \<Rightarrow>
               if pr_ok r then map Line ls
               else [Reply (write_rpc_error i
                      (if pr_error r \<in> {Some ''UNAUTHORIZED'', Some ''FORBIDDEN''} then the (pr_error r) else ''INTERNAL''))]))"
  by (auto simp: forward_daemon_later refusal_message_def split: list.splits option.splits)

subsection \<open>The bridge and the daemon\<close>

text \<open>
  The bridge against the daemon's listener: \<open>wire\<close> is how a preamble is written, \<open>written\<close> how a reply is, and the
  JSON library reads back what it writes.
\<close>

lemma open_tunnel_outcome:
  assumes json: "decode (trim_end (written PreambleResponse_accepted)) = Some PreambleResponse_accepted"
      "\<And>e. decode (trim_end (written (PreambleResponse_refused e))) = Some (PreambleResponse_refused e)"
    and params: "decode_params (rq_params request) = Some (sess, prt)"
    and up: "bi_connects io" "bi_preamble_written io" "bi_local_port io = Some lp"
    and reply: "\<And>p. bi_reply io p = Inr (map_option written (preamble_reply (fst (handle_connection tenv store st (wire p) n))))"
  shows "serve_open_tunnel decode_params decode io request auth =
     (case fst (handle_connection tenv store st (wire (tunnel_preamble auth sess prt)) n) of
        TcpTunnel _ \<Rightarrow> TunnelOpened (JObj [(''local_port'', JInt (uint lp))]) lp (tunnel_preamble auth sess prt)
      | TcpRefused PreUnauthorized \<Rightarrow> TunnelReply (write_rpc_error (rq_id request) ''UNAUTHORIZED'')
      | TcpRefused PreForbidden \<Rightarrow> TunnelReply (write_rpc_error (rq_id request) ''FORBIDDEN'')
      | _ \<Rightarrow> TunnelReply (write_rpc_error (rq_id request) ''INTERNAL''))"
    and "serve_tunnel_connection decode io sess prt auth =
      (\<exists>p. fst (handle_connection tenv store st (wire (tunnel_preamble auth sess prt)) n) = TcpTunnel p)"
  using params up reply[of "tunnel_preamble auth sess prt"] json
  by (cases "fst (handle_connection tenv store st (wire (tunnel_preamble auth sess prt)) n)";
      auto simp: serve_open_tunnel_def serve_tunnel_connection_def refusal_message_def Let_def split: PreambleError.splits)+

text \<open>When the daemon's listener grants a tunnel to a token: the port is that of a session of the token's peer.\<close>

definition tunnel_granted :: "tcp_env \<Rightarrow> PeerStore \<Rightarrow> session_table \<Rightarrow> string \<Rightarrow> string \<Rightarrow> u16 \<Rightarrow> bool" where
  "tunnel_granted tenv store st auth sess prt \<longleftrightarrow>
     te_in_time tenv \<and> prt \<noteq> 0 \<and> te_connects tenv prt
     \<and> (\<exists>peer. authenticator store (te_sha256 tenv (as_bytes auth)) = Some peer \<and> resolve_cdp_port sess (principal_of peer) st = Some prt)"

lemma handle_tunnel_preamble:
  assumes "read_preamble (te_decode tenv) [] sent = Some (tunnel_preamble auth sess prt, rest)"
  shows "fst (handle_connection tenv store st sent n) =
     (if \<not> te_in_time tenv then TcpRefused PreUnauthorized
      else (case authenticator store (te_sha256 tenv (as_bytes auth)) of
              None \<Rightarrow> TcpRefused PreUnauthorized
            | Some peer \<Rightarrow>
                (case resolve_cdp_port sess (principal_of peer) st of
                   None \<Rightarrow> TcpRefused PreNotFound
                 | Some p \<Rightarrow> if prt = 0 \<or> p \<noteq> prt then TcpRefused PreForbidden
                             else if te_connects tenv prt then TcpTunnel prt else TcpDropped)))"
  using assms by (auto simp: handle_connection_def tunnel_preamble_def split: option.splits)

text \<open>
  C21: \<open>bridge_open_tunnel\<close> opens a tunnel exactly when the daemon's listener grants one to the preamble the bridge
  sends, which has the bridge's token and the session and the port of the request: when the token belongs to an active
  peer and the port is the one registered for a session of that peer. Otherwise nothing is opened, and the client gets
  an error reply with the id of its request, which says \<open>UNAUTHORIZED\<close> when the token is not accepted and \<open>FORBIDDEN\<close>
  when the session is the peer's but the port is another. A connection to a tunnel that is open is spliced under the
  same condition, as it is at that moment. The daemon's answers are those of its listener, and the JSON library reads
  back the preamble and the replies it wrote.
\<close>

theorem bridge_tunnel_is_the_daemons_decision:
  assumes json: "decode (trim_end (written PreambleResponse_accepted)) = Some PreambleResponse_accepted"
      "\<And>e. decode (trim_end (written (PreambleResponse_refused e))) = Some (PreambleResponse_refused e)"
      "read_preamble (te_decode tenv) [] (wire (tunnel_preamble auth sess prt)) = Some (tunnel_preamble auth sess prt, rest)"
    and params: "decode_params (rq_params request) = Some (sess, prt)"
    and up: "bi_connects io" "bi_preamble_written io" "bi_local_port io = Some lp"
    and reply: "\<And>p. bi_reply io p = Inr (map_option written (preamble_reply (fst (handle_connection tenv store st (wire p) n))))"
  shows "(if tunnel_granted tenv store st auth sess prt
      then serve_open_tunnel decode_params decode io request auth
             = TunnelOpened (JObj [(''local_port'', JInt (uint lp))]) lp (tunnel_preamble auth sess prt)
      else (\<exists>message. serve_open_tunnel decode_params decode io request auth = TunnelReply (write_rpc_error (rq_id request) message)
              \<and> (authenticator store (te_sha256 tenv (as_bytes auth)) = None \<longrightarrow> message = ''UNAUTHORIZED'')
              \<and> (\<forall>peer p. te_in_time tenv \<longrightarrow> authenticator store (te_sha256 tenv (as_bytes auth)) = Some peer \<longrightarrow>
                   resolve_cdp_port sess (principal_of peer) st = Some p \<longrightarrow> p \<noteq> prt \<longrightarrow> message = ''FORBIDDEN'')))
    \<and> serve_tunnel_connection decode io sess prt auth = tunnel_granted tenv store st auth sess prt"
proof -
  note H = handle_tunnel_preamble[OF json(3), of store st n]
  note O = open_tunnel_outcome[where written = written and decode = decode and decode_params = decode_params and wire = wire, OF json(1,2) params up reply, of auth, unfolded H]
  show ?thesis
    unfolding O by (auto simp: tunnel_granted_def split: option.splits)
qed

text \<open>A refusal for a session that is not the peer's, or not there, loses its code on the way.\<close>

lemma bridge_hides_not_found:
  assumes json: "decode (trim_end (written PreambleResponse_accepted)) = Some PreambleResponse_accepted"
      "\<And>e. decode (trim_end (written (PreambleResponse_refused e))) = Some (PreambleResponse_refused e)"
    and params: "decode_params (rq_params request) = Some (sess, prt)"
    and up: "bi_connects io" "bi_preamble_written io" "bi_local_port io = Some lp"
    and reply: "\<And>p. bi_reply io p = Inr (map_option written (preamble_reply (fst (handle_connection tenv store st (wire p) n))))"
    and gone: "fst (handle_connection tenv store st (wire (tunnel_preamble auth sess prt)) n) = TcpRefused PreNotFound"
  shows "serve_open_tunnel decode_params decode io request auth = TunnelReply (write_rpc_error (rq_id request) ''INTERNAL'')"
  using open_tunnel_outcome(1)[where written = written and decode = decode and decode_params = decode_params and wire = wire, OF json params up reply, of auth] gone by simp

definition demo_text :: "PreambleResponse \<Rightarrow> string" where
  "demo_text r = (if pr_ok r then ''ok'' else the (pr_error r)) @ [CHR 0x0A]"

definition demo_decode :: "string \<Rightarrow> PreambleResponse option" where
  "demo_decode s = Some (if s = ''ok'' then PreambleResponse_accepted else \<lparr>pr_ok = False, pr_error = Some s\<rparr>)"

lemma demo_json:
  "demo_decode (trim_end (demo_text PreambleResponse_accepted)) = Some PreambleResponse_accepted"
  "demo_decode (trim_end (demo_text (PreambleResponse_refused e))) = Some (PreambleResponse_refused e)"
proof -
  have "trim_end (''ok'' @ [CHR 0x0A]) = ''ok''" by code_simp
  then show "demo_decode (trim_end (demo_text PreambleResponse_accepted)) = Some PreambleResponse_accepted"
    by (simp add: demo_text_def demo_decode_def)
  have "trim_end (''UNAUTHORIZED'' @ [CHR 0x0A]) = ''UNAUTHORIZED''" "trim_end (''NOT_FOUND'' @ [CHR 0x0A]) = ''NOT_FOUND''"
    "trim_end (''FORBIDDEN'' @ [CHR 0x0A]) = ''FORBIDDEN''" by code_simp+
  then have "trim_end (PreambleError_as_str e @ [CHR 0x0A]) = PreambleError_as_str e" "PreambleError_as_str e \<noteq> ''ok''"
    by (cases e; simp)+
  then show "demo_decode (trim_end (demo_text (PreambleResponse_refused e))) = Some (PreambleResponse_refused e)"
    by (simp add: demo_text_def demo_decode_def PreambleResponse_refused_def)
qed

definition tunnel_demo :: tcp_env where
  "tunnel_demo = tcp_demo\<lparr>te_decode := (\<lambda>_. Some (tunnel_preamble ''t'' ''s1'' 9222))\<rparr>"

theorem bridge_tunnel_is_the_daemons_decision_witness:
  "let io = \<lparr>bi_connects = True, bi_preamble_written = True, bi_first_written = True,
             bi_reply = \<lambda>_. Inr (map_option demo_text (preamble_reply (fst (handle_connection tunnel_demo example_store example_table [1, 10] 1)))),
             bi_local_port = Some 4000\<rparr>
   in serve_open_tunnel (\<lambda>_. Some (''s1'', 9222)) demo_decode io demo_lock_request ''t''
        = TunnelReply (write_rpc_error (rq_id demo_lock_request) ''UNAUTHORIZED'')
      \<and> \<not> serve_tunnel_connection demo_decode io ''s1'' 9222 ''t''"
proof -
  define io where "io = \<lparr>bi_connects = True, bi_preamble_written = True, bi_first_written = True,
             bi_reply = \<lambda>_ :: Preamble. Inr (map_option demo_text (preamble_reply (fst (handle_connection tunnel_demo example_store example_table [1, 10] 1)))),
             bi_local_port = Some 4000\<rparr>"
  have sent: "read_preamble (te_decode tunnel_demo) [] ((\<lambda>_ :: Preamble. [1, 10]) (tunnel_preamble ''t'' ''s1'' 9222)) = Some (tunnel_preamble ''t'' ''s1'' 9222, [])"
    by (simp add: tunnel_demo_def tcp_demo_def MAX_PREAMBLE_BYTES_def)
  have a: "authenticator example_store (te_sha256 tunnel_demo (as_bytes ''t'')) = None"
  proof -
    have "length (base64url (replicate 32 7)) = 43" by code_simp
    then have "example_sha256 (as_bytes ''t'') \<noteq> example_sha256 (as_bytes (base64url (replicate 32 7)))"
      by (simp add: example_sha256_def as_bytes_def)
    then show ?thesis
      by (simp add: tunnel_demo_def tcp_demo_def authenticator_eq active_peers_def example_store_def issue_peer_def persist_def Let_def
          as_bytes_digest_to_hex digest_to_hex_bytes_inject)
  qed
  have io: "(\<lambda>_. Some (''s1'', 9222)) (rq_params demo_lock_request) = Some (''s1'', 9222)" "bi_connects io" "bi_preamble_written io"
    "bi_local_port io = Some 4000"
    "\<And>p. bi_reply io p = Inr (map_option demo_text (preamble_reply (fst (handle_connection tunnel_demo example_store example_table ((\<lambda>_. [1, 10]) p) 1))))"
    by (simp_all add: io_def)
  have g: "\<not> tunnel_granted tunnel_demo example_store example_table ''t'' ''s1'' 9222" using a by (simp add: tunnel_granted_def)
  have "serve_open_tunnel (\<lambda>_. Some (''s1'', 9222)) demo_decode io demo_lock_request ''t''
        = TunnelReply (write_rpc_error (rq_id demo_lock_request) ''UNAUTHORIZED'')
      \<and> \<not> serve_tunnel_connection demo_decode io ''s1'' 9222 ''t''"
    using bridge_tunnel_is_the_daemons_decision[where written = demo_text and decode = demo_decode and decode_params = "\<lambda>_. Some (''s1'', 9222)" and wire = "\<lambda>_ :: Preamble. [1, 10]",
        OF demo_json sent io] a g by auto
  then show ?thesis by (simp add: Let_def io_def)
qed

subsection \<open>The default route\<close>

definition HEX_UPPER :: string where "HEX_UPPER = ''0123456789ABCDEF''"

text \<open>A byte as the kernel prints it in \<open>/proc/net/route\<close>.\<close>

definition hex_upper :: "byte \<Rightarrow> string" where
  "hex_upper b = [HEX_UPPER ! (unat b div 16), HEX_UPPER ! (unat b mod 16)]"

lemma hex_digit_upper: "n < 16 \<Longrightarrow> hex_digit_value (HEX_UPPER ! n) = Some n \<and> HEX_UPPER ! n \<noteq> CHR ''+'' \<and> \<not> is_continuation (HEX_UPPER ! n)"
proof -
  have "\<forall>n \<in> set [0..<16]. hex_digit_value (HEX_UPPER ! n) = Some n \<and> HEX_UPPER ! n \<noteq> CHR ''+'' \<and> \<not> is_continuation (HEX_UPPER ! n)"
    by code_simp
  then show "n < 16 \<Longrightarrow> hex_digit_value (HEX_UPPER ! n) = Some n \<and> HEX_UPPER ! n \<noteq> CHR ''+'' \<and> \<not> is_continuation (HEX_UPPER ! n)" by simp
qed

lemma unat_byte_bound: "unat (b :: byte) < 256"
  using unsigned_less[of b] by simp

lemma hex_upper_octet: "hex_octet (hex_upper b) = Some b"
proof -
  have b: "unat b div 16 < 16" "unat b mod 16 < 16" using unat_byte_bound[of b] by (auto simp: less_mult_imp_div_less)
  have "16 * (unat b div 16) + unat b mod 16 = unat b" by simp
  then have "of_nat (16 * (unat b div 16) + unat b mod 16) = b" by (simp only: of_nat_unat ucast_id)
  then show ?thesis using hex_digit_upper[OF b(1)] hex_digit_upper[OF b(2)] by (simp add: hex_upper_def)
qed


lemma hex_upper_chars: "\<exists>x y. hex_upper b = [x, y] \<and> \<not> is_continuation x \<and> \<not> is_continuation y"
proof -
  have b: "unat b div 16 < 16" "unat b mod 16 < 16" using unat_byte_bound[of b] by (auto simp: less_mult_imp_div_less)
  show ?thesis using hex_digit_upper[OF b(1)] hex_digit_upper[OF b(2)] by (simp add: hex_upper_def)
qed

lemma octet_loop_upper:
  "octet_loop (hex_upper d @ hex_upper c @ hex_upper b @ hex_upper a) [0, 1, 2, 3] [] = Some (Some [d, c, b, a])"
proof -
  obtain d1 d0 where d: "hex_upper d = [d1, d0]" "\<not> is_continuation d1" using hex_upper_chars by blast
  obtain c1 c0 where c: "hex_upper c = [c1, c0]" "\<not> is_continuation c1" using hex_upper_chars by blast
  obtain b1 b0 where b: "hex_upper b = [b1, b0]" "\<not> is_continuation b1" using hex_upper_chars by blast
  obtain a1 a0 where a: "hex_upper a = [a1, a0]" "\<not> is_continuation a1" using hex_upper_chars by blast
  show ?thesis
    using hex_upper_octet[of d] hex_upper_octet[of c] hex_upper_octet[of b] hex_upper_octet[of a] a b c d
    by (simp add: slice_def is_char_boundary_def del: hex_octet.simps)
qed

text \<open>
  the gateway of the first default route in \<open>/proc/net/route\<close>, which the kernel prints as the hexadecimal
  digits of the address in reverse byte order, comes out as the dotted address with the daemon's port.
\<close>

theorem default_route_is_found:
  assumes skip: "\<forall>l \<in> set earlier. length (split_whitespace l) < 3 \<or> split_whitespace l ! 1 \<noteq> ''00000000''"
    and line: "split_whitespace line = name # ''00000000'' # (hex_upper d @ hex_upper c @ hex_upper b @ hex_upper a) # columns"
    and gateway: "[a, b, c, d] \<noteq> [0, 0, 0, 0]"
  shows "route_loop (earlier @ line # later) = Some (Some (decimal (unat a) @ ''.'' @ decimal (unat b) @ ''.'' @ decimal (unat c) @ ''.''
     @ decimal (unat d) @ '':21575''))"
proof -
  let ?g = "hex_upper d @ hex_upper c @ hex_upper b @ hex_upper a"
  have eight: "length ?g = 8" by (simp add: hex_upper_def)
  have "octet_loop ''00000000'' [0, 1, 2, 3] [] = Some (Some [0, 0, 0, 0])" by code_simp
  then have nz: "?g \<noteq> ''00000000''" using octet_loop_upper[of d c b a] gateway by (metis list.inject option.inject)
  have prt: "decimal (unat DEFAULT_DAEMON_PORT) = ''21575''" by (simp add: DEFAULT_DAEMON_PORT_def decimal.simps char_of_def bit_0)
  show ?thesis
    using skip
  proof (induction earlier)
    case Nil
    then show ?case
      unfolding append_Nil route_loop.simps line Let_def
      using eight nz octet_loop_upper[of d c b a] by (simp add: gateway_addr_def prt del: octet_loop.simps)
  qed (auto simp: Let_def simp del: octet_loop.simps)
qed

theorem default_route_is_found_witness:
  "route_loop [''eth0 00000000 0101A8C0 0003''] = Some (Some ''192.168.1.1:21575'')"
proof -
  have l: "split_whitespace ''eth0 00000000 0101A8C0 0003'' = ''eth0'' # ''00000000'' # (hex_upper 1 @ hex_upper 1 @ hex_upper 168 @ hex_upper 192) # [''0003'']"
  proof -
    have "split_whitespace ''eth0 00000000 0101A8C0 0003'' = [''eth0'', ''00000000'', ''0101A8C0'', ''0003'']"
      by (simp add: split_whitespace_def utf8_len_def is_whitespace_char_def is_whitespace_cp_def code_point_def Let_def)
    moreover have "hex_upper 1 = ''01''" "hex_upper 168 = ''A8''" "hex_upper 192 = ''C0''"
      by (simp_all add: hex_upper_def HEX_UPPER_def)
    ultimately show ?thesis by simp
  qed
  have "decimal 192 @ ''.'' @ decimal 168 @ ''.'' @ decimal 1 @ ''.'' @ decimal 1 @ '':21575'' = ''192.168.1.1:21575''" by (simp add: decimal.simps char_of_def bit_0)
  then show ?thesis using default_route_is_found[OF _ l, of "[]" "[]"] by simp
qed

end
