(* ===== verification/Service_Events.thy ===== *)
theory Service_Events
  imports Daemon
begin

section \<open>Events of hosted services\<close>

text \<open>
  The task that reads the output of a kept executor (\<open>spawn_executor_reaper\<close> of \<open>main.rs\<close>): replies are
  handed to the request that waits for them, event lines of an injection proxy or an MCP server are
  audited and may end the lease, and when the executor is gone its browser is removed. Ending a
  lease runs in a task of its own, so the reader, those tasks and the rest of the daemon interleave;
  the step relation \<open>reader_step\<close> has all of them. The decoders serde derives for the events are
  fields of \<open>event_lib\<close>.
\<close>

record ServiceEventContext =
  sx_kind :: ServiceKind
  sx_browser_id :: string
  sx_session_id :: string
  sx_namespace :: string
  sx_name :: string
  sx_cred_id :: string
  sx_peer :: PeerIdentity

definition ServiceEventContext_audit_fields :: "ServiceEventContext \<Rightarrow> AuditFields" where
  "ServiceEventContext_audit_fields cx =
     (named_audit_fields (sx_kind cx) (sx_name cx))\<lparr>af_cred_id := Some (sx_cred_id cx),
        af_session_id := Some (sx_session_id cx), af_namespace := Some (sx_namespace cx)\<rparr>"

record ExecutorApiProxyRequestEvent =
  rv_event :: string
  rv_http_method :: string
  rv_path :: string
  rv_status :: u16

record ExecutorApiProxyOAuthTokenEvent =
  oe_event :: string
  oe_action :: string

record event_lib =
  el_parse :: "string \<Rightarrow> json option"
  el_request :: "json \<Rightarrow> ExecutorApiProxyRequestEvent option"
  el_oauth :: "json \<Rightarrow> ExecutorApiProxyOAuthTokenEvent option"
  el_mcp :: "json \<Rightarrow> ExecutorMcpServerEvent option"

definition append_service_audit ::
  "ServiceEventContext \<Rightarrow> string \<Rightarrow> AuditFields \<Rightarrow> string \<Rightarrow> DaemonState \<Rightarrow> DaemonState" where
  "append_service_audit cx meth fs outcome d = daemon_audit (AuditPeer (sx_peer cx)) meth fs outcome d"

definition audit_api_proxy_event :: "event_lib \<Rightarrow> ServiceEventContext \<Rightarrow> json \<Rightarrow> DaemonState \<Rightarrow> DaemonState" where
  "audit_api_proxy_event lib cx ev d =
     (case Option.bind (jget ev ''event'') jas_str of
        None \<Rightarrow> d
      | Some name \<Rightarrow>
          if name = ''api_proxy_request'' then
            (case el_request lib ev of
               None \<Rightarrow> d
             | Some e \<Rightarrow>
                 (let fs = (ServiceEventContext_audit_fields cx)\<lparr>af_http_method := Some (rv_http_method e),
                             af_path := Some (audit_proxy_path (rv_path e)), af_status := Some (rv_status e)\<rparr>
                  in append_service_audit cx ''api_proxy_request'' fs (api_proxy_outcome (rv_status e)) d))
          else if name = ''oauth_token'' then
            (case el_oauth lib ev of
               None \<Rightarrow> d
             | Some e \<Rightarrow>
                 if oe_action e \<notin> set [''issued'', ''refreshed'', ''refresh_failed'', ''revoked''] then d
                 else
                   (let outcome = (if oe_action e = ''refresh_failed'' then oe_action e else ''ok'');
                        fs = (ServiceEventContext_audit_fields cx)\<lparr>af_oauth_action := Some (oe_action e)\<rparr>
                    in append_service_audit cx ''api_proxy_oauth'' fs outcome d))
          else d)"

text \<open>The second component is the task \<open>handle_mcp_server_event\<close> spawns, to be run by \<open>end_service_lease\<close>.\<close>

definition handle_mcp_server_event ::
  "event_lib \<Rightarrow> ServiceEventContext \<Rightarrow> json \<Rightarrow> DaemonState \<Rightarrow> DaemonState \<times> (string \<times> string) option" where
  "handle_mcp_server_event lib cx ev d =
     (case Option.bind (el_mcp lib ev) (\<lambda>e. map_option (Pair e) (classify_mcp_server_event e)) of
        None \<Rightarrow> (d, None)
      | Some (e, end_reason, outcome, exit_code) \<Rightarrow>
          (let fs = (ServiceEventContext_audit_fields cx)\<lparr>af_mcp_action := Some (me_action e), af_exit_code := exit_code\<rparr>;
               d = append_service_audit cx ''mcp_server'' fs outcome d
           in (d, map_option (Pair (sx_browser_id cx)) end_reason)))"

definition handle_service_event ::
  "event_lib \<Rightarrow> ServiceEventContext \<Rightarrow> json \<Rightarrow> DaemonState \<Rightarrow> DaemonState \<times> (string \<times> string) option" where
  "handle_service_event lib cx ev d =
     (case sx_kind cx of
        ApiProxy \<Rightarrow> (audit_api_proxy_event lib cx ev d, None)
      | McpServer \<Rightarrow> handle_mcp_server_event lib cx ev d)"

definition end_service_lease :: "('w, 'i) DaemonEnv \<Rightarrow> string \<Rightarrow> string \<Rightarrow> DaemonState \<Rightarrow> DaemonState" where
  "end_service_lease env bid meth d =
     (case take_browser_locked bid (dm_table d) of
        (None, st) \<Rightarrow> d\<lparr>dm_table := st\<rparr>
      | (Some b, st) \<Rightarrow> terminate_browser env b meth True (d\<lparr>dm_table := st\<rparr>))"

subsection \<open>The reader of an executor's output\<close>

text \<open>
  \<open>Reading\<close> is the loop, \<open>Leaving\<close> after its \<open>break\<close>, \<open>Returned\<close> when nobody takes replies any more and
  \<open>Ended\<close> after the last section.
\<close>

datatype reader_phase = Reading | Leaving | Returned | Ended

record reader =
  er_phase :: reader_phase
  er_stream :: "char option list"
  er_sent :: "string list"
  er_tasks :: "(string \<times> string) list"
  er_daemon :: DaemonState

definition reader_line ::
  "event_lib \<Rightarrow> ServiceEventContext option \<Rightarrow> bool \<Rightarrow> reader \<Rightarrow> reader" where
  "reader_line lib service open_channel r =
     (case read_executor_line (er_stream r) of
        (Some line, rest) \<Rightarrow>
          if line = [] then r\<lparr>er_phase := Leaving, er_stream := rest\<rparr>
          else (case executor_event (el_parse lib) line of
                  Some ev \<Rightarrow>
                    (case service of
                       None \<Rightarrow> r\<lparr>er_stream := rest\<rparr>
                     | Some cx \<Rightarrow>
                         (case handle_service_event lib cx ev (er_daemon r) of
                            (d, task) \<Rightarrow> r\<lparr>er_stream := rest, er_daemon := d,
                                           er_tasks := er_tasks r @ (case task of None \<Rightarrow> [] | Some t \<Rightarrow> [t])\<rparr>))
                | None \<Rightarrow>
                    if open_channel then r\<lparr>er_stream := rest, er_sent := er_sent r @ [line]\<rparr>
                    else r\<lparr>er_stream := rest, er_phase := Returned\<rparr>)
      | (None, rest) \<Rightarrow> r\<lparr>er_phase := Leaving, er_stream := rest\<rparr>)"

definition executor_gone :: "string \<Rightarrow> DaemonState \<Rightarrow> DaemonState" where
  "executor_gone bid d =
     (case executor_gone_locked bid (dm_table d) of
        (None, st) \<Rightarrow> d\<lparr>dm_table := st\<rparr>
      | (Some b, st) \<Rightarrow>
          fold (\<lambda>(sess, _). audit_system_session ''session_terminated'' sess (namespace (key b))
                              (if persist_cookies b then Some False else None))
            (leases b) (d\<lparr>dm_table := st\<rparr>))"

text \<open>
  The rest of the daemon only adds to the audit, and it never puts back the browser, whose id was
  drawn for it.
\<close>

definition elsewhere :: "string \<Rightarrow> DaemonState \<Rightarrow> DaemonState \<Rightarrow> bool" where
  "elsewhere bid d d' \<longleftrightarrow>
     set (va_audit (dm_vault d)) \<subseteq> set (va_audit (dm_vault d'))
     \<and> (hget (browsers (dm_table d)) bid = None \<longrightarrow> hget (browsers (dm_table d')) bid = None)"

inductive reader_step ::
  "('w, 'i) DaemonEnv \<Rightarrow> event_lib \<Rightarrow> ServiceEventContext option \<Rightarrow> string \<Rightarrow> reader \<Rightarrow> reader \<Rightarrow> bool"
  for env lib service bid where
  read: "er_phase r = Reading \<Longrightarrow> reader_step env lib service bid r (reader_line lib service open_channel r)"
| leave: "er_phase r = Leaving \<Longrightarrow>
    reader_step env lib service bid r (r\<lparr>er_phase := Ended, er_daemon := executor_gone bid (er_daemon r)\<rparr>)"
| task: "er_tasks r = ts @ (b, meth) # us \<Longrightarrow>
    reader_step env lib service bid r (r\<lparr>er_tasks := ts @ us, er_daemon := end_service_lease env b meth (er_daemon r)\<rparr>)"
| other: "elsewhere bid (er_daemon r) d \<Longrightarrow> reader_step env lib service bid r (r\<lparr>er_daemon := d\<rparr>)"

definition reader_start :: "char option list \<Rightarrow> DaemonState \<Rightarrow> reader" where
  "reader_start stream d = \<lparr>er_phase = Reading, er_stream = stream, er_sent = [], er_tasks = [], er_daemon = d\<rparr>"

subsection \<open>The lines the reader takes\<close>

lemma read_executor_bytes_shorter:
  "read_executor_bytes s line = (Some l, rest) \<Longrightarrow> length rest + length l \<le> length s + length line"
  by (induction s line rule: read_executor_bytes.induct) (auto split: if_splits)

lemma read_executor_line_shorter:
  assumes "read_executor_line s = (Some l, rest)" "l \<noteq> []"
  shows "length rest < length s"
proof -
  obtain m where m: "read_executor_bytes s [] = (Some m, rest)" "from_utf8 m = Some l"
    using assms(1) by (auto simp: read_executor_line_def split: prod.splits option.splits)
  have "m \<noteq> []" using m(2) assms(2) by (auto simp: from_utf8_def split: if_splits)
  then show ?thesis using read_executor_bytes_shorter[OF m(1)] by (cases m) auto
qed

text \<open>The lines of an output up to where the loop stops: its end, a failed read or a line that is not text.\<close>

function stream_lines :: "char option list \<Rightarrow> string list" where
  "stream_lines s =
     (case read_executor_line s of
        (Some l, rest) \<Rightarrow> if l = [] then [] else l # stream_lines rest
      | (None, _) \<Rightarrow> [])"
  by auto
termination
  by (relation "measure length") (auto dest: read_executor_line_shorter[OF sym])

declare stream_lines.simps [simp del]

lemma daemon_audit_set [simp]:
  "set (va_audit (dm_vault (daemon_audit p m fs out d))) = insert (p, m, fs, out) (set (va_audit (dm_vault d)))"
  "dm_table (daemon_audit p m fs out d) = dm_table d"
  by (simp_all add: daemon_audit_def)

text \<open>An event adds at most one line, and neither the line nor the task depends on the state.\<close>

lemma handle_service_event_shape:
  obtains items task where
    "\<forall>d. dm_table (fst (handle_service_event lib cx ev d)) = dm_table d"
    "\<forall>d. set (va_audit (dm_vault (fst (handle_service_event lib cx ev d)))) = items \<union> set (va_audit (dm_vault d))"
    "\<forall>d. snd (handle_service_event lib cx ev d) = task"
    "\<forall>b m. task = Some (b, m) \<longrightarrow> b = sx_browser_id cx"
proof (cases "sx_kind cx")
  case ApiProxy
  let ?items = "(case Option.bind (jget ev ''event'') jas_str of
        None \<Rightarrow> {}
      | Some name \<Rightarrow>
          if name = ''api_proxy_request'' then
            (case el_request lib ev of None \<Rightarrow> {} | Some e \<Rightarrow>
               {(AuditPeer (sx_peer cx), ''api_proxy_request'', (ServiceEventContext_audit_fields cx)\<lparr>af_http_method := Some (rv_http_method e),
                  af_path := Some (audit_proxy_path (rv_path e)), af_status := Some (rv_status e)\<rparr>, api_proxy_outcome (rv_status e))})
          else if name = ''oauth_token'' then
            (case el_oauth lib ev of None \<Rightarrow> {} | Some e \<Rightarrow>
               if oe_action e \<notin> set [''issued'', ''refreshed'', ''refresh_failed'', ''revoked''] then {}
               else {(AuditPeer (sx_peer cx), ''api_proxy_oauth'', (ServiceEventContext_audit_fields cx)\<lparr>af_oauth_action := Some (oe_action e)\<rparr>,
                  if oe_action e = ''refresh_failed'' then oe_action e else ''ok'')})
          else {})"
  show ?thesis
    by (rule that[where items = ?items and task = None])
      (simp_all add: handle_service_event_def ApiProxy audit_api_proxy_event_def append_service_audit_def Let_def split: option.splits)
next
  case McpServer
  let ?c = "Option.bind (el_mcp lib ev) (\<lambda>e. map_option (Pair e) (classify_mcp_server_event e))"
  show ?thesis
    by (rule that[where items = "case ?c of None \<Rightarrow> {} | Some (e, end_reason, outcome, exit_code) \<Rightarrow>
          {(AuditPeer (sx_peer cx), ''mcp_server'', (ServiceEventContext_audit_fields cx)\<lparr>af_mcp_action := Some (me_action e),
             af_exit_code := exit_code\<rparr>, outcome)}"
        and task = "case ?c of None \<Rightarrow> None | Some (e, end_reason, _) \<Rightarrow> map_option (Pair (sx_browser_id cx)) end_reason"])
      (auto simp add: handle_service_event_def McpServer handle_mcp_server_event_def append_service_audit_def Let_def split: option.splits prod.splits)
qed

lemma end_service_lease_elsewhere:
  "elsewhere bid d (end_service_lease env bid meth d) \<and> hget (browsers (dm_table (end_service_lease env bid meth d))) bid = None"
proof -
  obtain b st where t: "take_browser_locked bid (dm_table d) = (b, st)" by fastforce
  have g: "hget (browsers st) bid = None" using t by (auto simp: take_browser_locked_def forget_shared_def remove_ports_def Let_def split: option.splits)
  show ?thesis
  proof (cases b)
    case None
    then show ?thesis using t g by (simp add: end_service_lease_def elsewhere_def)
  next
    case (Some x)
    let ?d = "terminate_browser env x meth True (d\<lparr>dm_table := st\<rparr>)"
    have "ends_only (d\<lparr>dm_table := st\<rparr>) ?d" using terminate_browser_ends by blast
    then have "set (va_audit (dm_vault d)) \<subseteq> set (va_audit (dm_vault ?d))" "dm_table ?d = st" by (auto simp: ends_only_def)
    then show ?thesis using t g Some by (simp add: end_service_lease_def elsewhere_def)
  qed
qed

lemma executor_gone_elsewhere:
  "elsewhere bid d (executor_gone bid d) \<and> hget (browsers (dm_table (executor_gone bid d))) bid = None"
proof -
  obtain b st where t: "executor_gone_locked bid (dm_table d) = (b, st)" by fastforce
  have g: "hget (browsers st) bid = None" using t by (auto simp: executor_gone_locked_def forget_shared_def remove_ports_def Let_def split: option.splits)
  show ?thesis
  proof (cases b)
    case None
    then show ?thesis using t g by (simp add: executor_gone_def elsewhere_def)
  next
    case (Some x)
    let ?d = "executor_gone bid d"
    have "ends_only (d\<lparr>dm_table := st\<rparr>) ?d"
      unfolding executor_gone_def t Some by (simp add: fold_audit_session(1)[OF refl])
    then have "set (va_audit (dm_vault d)) \<subseteq> set (va_audit (dm_vault ?d))" "dm_table ?d = st" by (auto simp: ends_only_def)
    then show ?thesis using g by (simp add: elsewhere_def)
  qed
qed

subsection \<open>The invariant of the reader\<close>

text \<open>
  What the lines \<open>seen\<close> so far have led to: the replies among them are with the request that waits, in
  order, every event has its audit line, and a lease an event ends has its task waiting or is gone.
\<close>

definition event_settled :: "event_lib \<Rightarrow> ServiceEventContext \<Rightarrow> string \<Rightarrow> reader \<Rightarrow> json \<Rightarrow> bool" where
  "event_settled lib cx bid r ev \<longleftrightarrow>
     (\<forall>d. set (va_audit (dm_vault (fst (handle_service_event lib cx ev d))))
           \<subseteq> set (va_audit (dm_vault d)) \<union> set (va_audit (dm_vault (er_daemon r)))
        \<and> (\<forall>t. snd (handle_service_event lib cx ev d) = Some t \<longrightarrow>
              t \<in> set (er_tasks r) \<or> hget (browsers (dm_table (er_daemon r))) bid = None))"

definition reader_inv ::
  "event_lib \<Rightarrow> ServiceEventContext \<Rightarrow> string \<Rightarrow> char option list \<Rightarrow> string list \<Rightarrow> string list \<Rightarrow> reader \<Rightarrow> bool" where
  "reader_inv lib cx bid stream seen todo r \<longleftrightarrow>
     stream_lines stream = seen @ todo
     \<and> (er_phase r = Reading \<longrightarrow> todo = stream_lines (er_stream r))
     \<and> (er_phase r = Returned \<longrightarrow> (\<exists>l. executor_event (el_parse lib) l = None \<and> todo = l # stream_lines (er_stream r)))
     \<and> (er_phase r \<in> {Leaving, Ended} \<longrightarrow> todo = [])
     \<and> er_sent r = filter (\<lambda>l. executor_event (el_parse lib) l = None) seen
     \<and> (\<forall>l \<in> set seen. \<forall>ev. executor_event (el_parse lib) l = Some ev \<longrightarrow> event_settled lib cx bid r ev)
     \<and> (\<forall>t \<in> set (er_tasks r). fst t = bid)
     \<and> (er_phase r = Ended \<longrightarrow> hget (browsers (dm_table (er_daemon r))) bid = None)"

lemma event_settled_mono:
  assumes "event_settled lib cx bid r ev" "elsewhere bid (er_daemon r) (er_daemon r')"
    "set (er_tasks r) \<subseteq> set (er_tasks r') \<or> hget (browsers (dm_table (er_daemon r'))) bid = None"
  shows "event_settled lib cx bid r' ev"
  using assms unfolding event_settled_def elsewhere_def by (meson Un_mono order_refl order_trans subsetD)

lemma reader_inv_mono:
  assumes "reader_inv lib cx bid s seen todo r" "elsewhere bid (er_daemon r) (er_daemon r')"
    "set (er_tasks r) \<subseteq> set (er_tasks r') \<or> hget (browsers (dm_table (er_daemon r'))) bid = None"
    "er_phase r' = er_phase r" "er_stream r' = er_stream r" "er_sent r' = er_sent r" "\<forall>t \<in> set (er_tasks r'). fst t = bid"
  shows "reader_inv lib cx bid s seen todo r'"
  using assms event_settled_mono[OF _ assms(2,3)] unfolding reader_inv_def elsewhere_def by auto

lemma reader_line_inv:
  assumes "reader_inv lib cx bid s seen todo r" "er_phase r = Reading" "sx_browser_id cx = bid"
  shows "\<exists>seen todo. reader_inv lib cx bid s seen todo (reader_line lib (Some cx) open_channel r)"
proof -
  obtain l rest where rl: "read_executor_line (er_stream r) = (l, rest)" by fastforce
  have sl: "stream_lines (er_stream r) = (case l of Some l \<Rightarrow> if l = [] then [] else l # stream_lines rest | None \<Rightarrow> [])"
    by (simp add: stream_lines.simps[of "er_stream r"] rl split: option.splits)
  have m: "todo = stream_lines (er_stream r)" using assms(1,2) by (simp add: reader_inv_def)
  show ?thesis
  proof (cases "l = None \<or> l = Some []")
    case True
    then have "reader_line lib (Some cx) open_channel r = r\<lparr>er_phase := Leaving, er_stream := rest\<rparr>" "todo = []"
      using rl sl m by (auto simp: reader_line_def)
    then have "reader_inv lib cx bid s seen todo (reader_line lib (Some cx) open_channel r)"
      using assms(1) unfolding reader_inv_def event_settled_def by simp
    then show ?thesis by blast
  next
    case False
    then obtain line where line: "l = Some line" "line \<noteq> []" by auto
    have todo: "todo = line # stream_lines rest" using sl m line by simp
    show ?thesis
    proof (cases "executor_event (el_parse lib) line")
      case None
      show ?thesis
      proof (cases open_channel)
        case True
        then have "reader_line lib (Some cx) open_channel r = r\<lparr>er_stream := rest, er_sent := er_sent r @ [line]\<rparr>"
          using rl line None by (simp add: reader_line_def)
        then have "reader_inv lib cx bid s (seen @ [line]) (stream_lines rest) (reader_line lib (Some cx) open_channel r)"
          using assms(1,2) None todo unfolding reader_inv_def event_settled_def by auto
        then show ?thesis by blast
      next
        case False
        then have "reader_line lib (Some cx) open_channel r = r\<lparr>er_stream := rest, er_phase := Returned\<rparr>"
          using rl line None by (simp add: reader_line_def)
        then have "reader_inv lib cx bid s seen todo (reader_line lib (Some cx) open_channel r)"
          using assms(1) None todo unfolding reader_inv_def event_settled_def by simp
        then show ?thesis by blast
      qed
    next
      case (Some ev)
      obtain items task where sh: "\<forall>d. dm_table (fst (handle_service_event lib cx ev d)) = dm_table d"
          "\<forall>d. set (va_audit (dm_vault (fst (handle_service_event lib cx ev d)))) = items \<union> set (va_audit (dm_vault d))"
          "\<forall>d. snd (handle_service_event lib cx ev d) = task" "\<forall>b m. task = Some (b, m) \<longrightarrow> b = sx_browser_id cx"
        by (rule handle_service_event_shape[of lib cx ev])
      let ?d = "fst (handle_service_event lib cx ev (er_daemon r))"
      let ?r = "r\<lparr>er_daemon := ?d, er_tasks := er_tasks r @ (case task of None \<Rightarrow> [] | Some t \<Rightarrow> [t])\<rparr>"
      have step: "reader_line lib (Some cx) open_channel r = ?r\<lparr>er_stream := rest\<rparr>"
        using rl line Some sh(3)[rule_format, of "er_daemon r"] by (auto simp: reader_line_def split: prod.splits)
      have "elsewhere bid (er_daemon r) ?d" by (auto simp: elsewhere_def sh)
      then have i: "reader_inv lib cx bid s seen todo ?r"
        by (intro reader_inv_mono[OF assms(1)]) (use assms(1,3) sh(4) in \<open>auto simp: reader_inv_def split: option.splits\<close>)
      have "event_settled lib cx bid ?r ev" by (auto simp: event_settled_def sh)
      then have "reader_inv lib cx bid s (seen @ [line]) (stream_lines rest) (?r\<lparr>er_stream := rest\<rparr>)"
        using i Some assms(2) todo unfolding reader_inv_def event_settled_def by auto
      then show ?thesis unfolding step by blast
    qed
  qed
qed

lemma reader_step_inv:
  assumes "reader_step env lib (Some cx) bid r r'" "reader_inv lib cx bid s seen todo r" "sx_browser_id cx = bid"
  shows "\<exists>seen todo. reader_inv lib cx bid s seen todo r'"
  using assms(1)
proof (cases rule: reader_step.cases)
  case (read ch)
  then show ?thesis using reader_line_inv assms(2,3) by blast
next
  case leave
  have "reader_inv lib cx bid s seen todo (r\<lparr>er_daemon := executor_gone bid (er_daemon r)\<rparr>)"
    using executor_gone_elsewhere[of bid "er_daemon r"] assms(2)
    by (intro reader_inv_mono[OF assms(2)]) (auto simp: reader_inv_def)
  then show ?thesis
    using leave executor_gone_elsewhere[of bid "er_daemon r"] unfolding reader_inv_def event_settled_def by auto
next
  case (task ts b meth us)
  have b: "b = bid" using assms(2) task(2) by (auto simp: reader_inv_def)
  have "reader_inv lib cx bid s seen todo r'"
    using end_service_lease_elsewhere[of bid "er_daemon r" env meth] assms(2) task unfolding b
    by (intro reader_inv_mono[OF assms(2)]) (auto simp: reader_inv_def)
  then show ?thesis by blast
next
  case (other d)
  have "reader_inv lib cx bid s seen todo r'"
    using assms(2) other by (intro reader_inv_mono[OF assms(2)]) (auto simp: reader_inv_def)
  then show ?thesis by blast
qed

lemma reader_run_inv:
  assumes "(reader_step env lib (Some cx) bid)\<^sup>*\<^sup>* (reader_start s d) r" "sx_browser_id cx = bid"
  shows "\<exists>seen todo. reader_inv lib cx bid s seen todo r"
  using assms(1)
proof (induction rule: rtranclp_induct)
  case base
  have "reader_inv lib cx bid s [] (stream_lines s) (reader_start s d)" by (simp add: reader_inv_def reader_start_def)
  then show ?case by blast
next
  case (step r r')
  then show ?case using reader_step_inv assms(2) by blast
qed

subsection \<open>What the events of an MCP server lead to\<close>

text \<open>
  C9: Take any interleaving of the task that reads the output of an MCP server's executor, the tasks
  it spawned and the rest of the daemon. The replies handed over are exactly the lines read so far
  that are no events, in order (the task gives up only on a reply nobody waits for), so no event is ever taken for the reply to a request; every
  recognised event read so far is in the audit under the caller, the session and the server; and
  after an event that ends the lease (\<open>exit\<close> or \<open>leak\<close>), once the spawned tasks have run, the browser
  that held the lease is gone. When the reader has finished, all lines of the output were read and
  the browser is gone.
\<close>

theorem mcp_server_events_are_settled:
  assumes "(reader_step env lib (Some cx) (sx_browser_id cx))\<^sup>*\<^sup>* (reader_start stream d) r" "sx_kind cx = McpServer"
  shows "\<exists>seen todo. stream_lines stream = seen @ todo
    \<and> er_sent r = filter (\<lambda>l. executor_event (el_parse lib) l = None) seen
    \<and> (case er_phase r of Reading \<Rightarrow> todo = stream_lines (er_stream r)
         | Returned \<Rightarrow> (\<exists>l. executor_event (el_parse lib) l = None \<and> todo = l # stream_lines (er_stream r))
         | _ \<Rightarrow> todo = [])
    \<and> (er_phase r = Ended \<longrightarrow> hget (browsers (dm_table (er_daemon r))) (sx_browser_id cx) = None)
    \<and> (\<forall>l \<in> set seen. \<forall>ev e reason outcome code.
         executor_event (el_parse lib) l = Some ev \<and> el_mcp lib ev = Some e
         \<and> classify_mcp_server_event e = Some (reason, outcome, code) \<longrightarrow>
           (AuditPeer (sx_peer cx), ''mcp_server'', (ServiceEventContext_audit_fields cx)\<lparr>af_mcp_action := Some (me_action e),
              af_exit_code := code\<rparr>, outcome) \<in> set (va_audit (dm_vault (er_daemon r)))
           \<and> (reason \<noteq> None \<and> er_tasks r = [] \<longrightarrow> hget (browsers (dm_table (er_daemon r))) (sx_browser_id cx) = None))"
proof -
  obtain seen todo where i: "reader_inv lib cx (sx_browser_id cx) stream seen todo r"
    using reader_run_inv[OF assms(1) refl] by blast
  have "(AuditPeer (sx_peer cx), ''mcp_server'', (ServiceEventContext_audit_fields cx)\<lparr>af_mcp_action := Some (me_action e),
              af_exit_code := code\<rparr>, outcome) \<in> set (va_audit (dm_vault (er_daemon r)))
           \<and> (reason \<noteq> None \<and> er_tasks r = [] \<longrightarrow> hget (browsers (dm_table (er_daemon r))) (sx_browser_id cx) = None)"
    if "l \<in> set seen" "executor_event (el_parse lib) l = Some ev" "el_mcp lib ev = Some e"
      "classify_mcp_server_event e = Some (reason, outcome, code)" for l ev e reason outcome code
  proof -
    let ?clean = "d\<lparr>dm_vault := (dm_vault d)\<lparr>va_audit := []\<rparr>\<rparr>"
    have "event_settled lib cx (sx_browser_id cx) r ev" using i that by (auto simp: reader_inv_def)
    from this[unfolded event_settled_def, THEN spec[of _ ?clean]] show ?thesis
      using that assms(2) by (auto simp: handle_service_event_def handle_mcp_server_event_def append_service_audit_def)
  qed
  moreover have "case er_phase r of Reading \<Rightarrow> todo = stream_lines (er_stream r)
         | Returned \<Rightarrow> (\<exists>l. executor_event (el_parse lib) l = None \<and> todo = l # stream_lines (er_stream r))
         | _ \<Rightarrow> todo = []"
    using i by (cases "er_phase r") (simp_all add: reader_inv_def)
  ultimately show ?thesis using i unfolding reader_inv_def by blast
qed

definition leak_event :: json where
  "leak_event = JObj [(''event'', JStr ''mcp_server''), (''action'', JStr ''leak'')]"

definition leak_lib :: event_lib where
  "leak_lib = \<lparr>el_parse = \<lambda>_. Some leak_event, el_request = \<lambda>_. None, el_oauth = \<lambda>_. None,
     el_mcp = \<lambda>_. Some \<lparr>me_event = ''mcp_server'', me_action = ''leak'', me_exit_code = None\<rparr>\<rparr>"

definition leak_context :: ServiceEventContext where
  "leak_context = \<lparr>sx_kind = McpServer, sx_browser_id = ''b1'', sx_session_id = ''s1'', sx_namespace = ''op'',
     sx_name = ''files'', sx_cred_id = ''op:e'', sx_peer = Uid 1\<rparr>"

definition leak_stream :: "char option list" where
  "leak_stream = [Some (CHR ''x''), Some (CHR 0x0A)]"

lemma leak_read: "read_executor_line leak_stream = (Some [CHR ''x'', CHR 0x0A], [])"
  by (simp add: read_executor_line_def leak_stream_def from_utf8_def) code_simp

theorem mcp_server_events_are_settled_witness:
  "\<exists>r. (reader_step (undefined :: (unit, unit) DaemonEnv) leak_lib (Some leak_context) ''b1'')\<^sup>*\<^sup>* (reader_start leak_stream demo_daemon) r
     \<and> hget (browsers (dm_table demo_daemon)) ''b1'' \<noteq> None
     \<and> hget (browsers (dm_table (er_daemon r))) ''b1'' = None
     \<and> (AuditPeer (Uid 1), ''mcp_server'', (ServiceEventContext_audit_fields leak_context)\<lparr>af_mcp_action := Some ''leak'',
          af_exit_code := None\<rparr>, ''leak'') \<in> set (va_audit (dm_vault (er_daemon r)))"
proof -
  let ?env = "undefined :: (unit, unit) DaemonEnv" and ?s = "reader_start leak_stream demo_daemon"
  let ?step = "reader_step ?env leak_lib (Some leak_context) (sx_browser_id leak_context)"
  define d where "d = fst (handle_service_event leak_lib leak_context leak_event demo_daemon)"
  have ev: "executor_event (el_parse leak_lib) l = Some leak_event" for l
    by (simp add: executor_event_def leak_lib_def leak_event_def)
  have h: "handle_service_event leak_lib leak_context leak_event demo_daemon = (d, Some (''b1'', ''mcp_server_leak''))"
    by (simp add: d_def handle_service_event_def handle_mcp_server_event_def leak_context_def leak_lib_def classify_mcp_server_event_def)
  define r1 where "r1 = ?s\<lparr>er_stream := [], er_daemon := d, er_tasks := [(''b1'', ''mcp_server_leak'')]\<rparr>"
  define r where "r = r1\<lparr>er_tasks := [], er_daemon := end_service_lease ?env ''b1'' ''mcp_server_leak'' (er_daemon r1)\<rparr>"
  have "reader_line leak_lib (Some leak_context) True ?s = r1"
    using ev h by (simp add: reader_line_def reader_start_def leak_read r1_def)
  then have "?step ?s r1" using reader_step.read[of ?s ?env leak_lib "Some leak_context"] by (metis reader.select_convs(1) reader_start_def)
  moreover have "?step r1 r"
    using reader_step.task[of r1 "[]" "''b1''" "''mcp_server_leak''" "[]"] by (simp add: r_def r1_def)
  ultimately have run: "?step\<^sup>*\<^sup>* ?s r" by (meson rtranclp.simps)
  have "sx_kind leak_context = McpServer" by (simp add: leak_context_def)
  from mcp_server_events_are_settled[OF run this] obtain seen todo where
      st: "stream_lines leak_stream = seen @ todo"
        "case er_phase r of Reading \<Rightarrow> todo = stream_lines (er_stream r)
         | Returned \<Rightarrow> (\<exists>l. executor_event (el_parse leak_lib) l = None \<and> todo = l # stream_lines (er_stream r)) | _ \<Rightarrow> todo = []"
    and ok: "\<forall>l \<in> set seen. \<forall>ev e reason outcome code.
         executor_event (el_parse leak_lib) l = Some ev \<and> el_mcp leak_lib ev = Some e
         \<and> classify_mcp_server_event e = Some (reason, outcome, code) \<longrightarrow>
           (AuditPeer (sx_peer leak_context), ''mcp_server'', (ServiceEventContext_audit_fields leak_context)\<lparr>af_mcp_action := Some (me_action e),
              af_exit_code := code\<rparr>, outcome) \<in> set (va_audit (dm_vault (er_daemon r)))
           \<and> (reason \<noteq> None \<and> er_tasks r = [] \<longrightarrow> hget (browsers (dm_table (er_daemon r))) (sx_browser_id leak_context) = None)"
    by blast
  have "stream_lines [] = []" "stream_lines leak_stream = [[CHR ''x'', CHR 0x0A]]"
    by (simp_all add: stream_lines.simps[of leak_stream] stream_lines.simps[of "[]"] leak_read)
      (simp_all add: read_executor_line_def from_utf8_def split: option.splits)
  then have "seen = [[CHR ''x'', CHR 0x0A]]" using st by (simp add: r_def r1_def reader_start_def)
  then have res: "(AuditPeer (Uid 1), ''mcp_server'', (ServiceEventContext_audit_fields leak_context)\<lparr>af_mcp_action := Some ''leak'',
              af_exit_code := None\<rparr>, ''leak'') \<in> set (va_audit (dm_vault (er_daemon r)))
           \<and> (er_tasks r = [] \<longrightarrow> hget (browsers (dm_table (er_daemon r))) ''b1'' = None)"
    using ok ev[of "[CHR ''x'', CHR 0x0A]"] by (simp add: leak_lib_def leak_context_def classify_mcp_server_event_def)
  have "hget (browsers (dm_table demo_daemon)) ''b1'' \<noteq> None" by (simp add: demo_daemon_def example_table_def)
  moreover have "er_tasks r = []" "sx_browser_id leak_context = ''b1''" by (simp_all add: r_def leak_context_def)
  ultimately show ?thesis using res run by auto
qed
end
