(* ===== verification/Startup.thy ===== *)
theory Startup
  imports Transports
begin

section \<open>Starting the daemon\<close>

text \<open>
  \<open>run_daemon\<close> of \<open>main.rs\<close> from the configuration to the first accepted connection, on a Unix host: the
  checks of the configuration, the check of the executor, the state directory, the peers, the
  daemon's first state (\<open>build_state\<close>) and the listeners (\<open>transport/unix.rs\<close>). What the system answers
  is a record; the events a start leaves behind are listed in their order. Reading the TOML text is
  an answer too, so \<open>StartConfig\<close> is what serde makes of it.
\<close>

subsection \<open>Addresses\<close>

text \<open>
  \<open>str::parse::<IpAddr>\<close>: four decimal octets without leading zeros, or groups of up to four
  hexadecimal digits with at most one \<open>::\<close> and possibly an IPv4 address in the last two groups; the
  whole text has to be used up.
\<close>

datatype ip_addr = V4 "nat list" | V6 "nat list"

definition to_digit :: "nat \<Rightarrow> char \<Rightarrow> nat option" where
  "to_digit radix c =
     (let n = of_char c :: nat;
          d = (if 48 \<le> n \<and> n \<le> 57 then n - 48
               else if 97 \<le> n \<and> n \<le> 122 then n - 87
               else if 65 \<le> n \<and> n \<le> 90 then n - 55 else radix)
      in if d < radix then Some d else None)"

definition digits_value :: "nat \<Rightarrow> string \<Rightarrow> nat" where
  "digits_value radix ds = foldl (\<lambda>v c. v * radix + the (to_digit radix c)) 0 ds"

definition read_number :: "nat \<Rightarrow> nat \<Rightarrow> bool \<Rightarrow> nat \<Rightarrow> string \<Rightarrow> (nat \<times> string) option" where
  "read_number radix max_digits allow_zero_prefix limit s =
     (let ds = takeWhile (\<lambda>c. to_digit radix c \<noteq> None) s in
      if length ds > max_digits then None
      else if ds = [] then None
      else if \<not> allow_zero_prefix \<and> hd ds = CHR ''0'' \<and> length ds > 1 then None
      else if digits_value radix ds > limit then None
      else Some (digits_value radix ds, drop (length ds) s))"

definition read_separator :: "char \<Rightarrow> bool \<Rightarrow> string \<Rightarrow> string option" where
  "read_separator c is_first s =
     (if is_first then Some s else (case s of [] \<Rightarrow> None | d # s \<Rightarrow> if d = c then Some s else None))"

fun read_octets :: "nat \<Rightarrow> bool \<Rightarrow> string \<Rightarrow> (nat list \<times> string) option" where
  "read_octets 0 is_first s = Some ([], s)"
| "read_octets (Suc n) is_first s =
     (case Option.bind (read_separator CHR ''.'' is_first s) (read_number 10 3 False 255) of
        None \<Rightarrow> None
      | Some (g, rest) \<Rightarrow> map_option (\<lambda>(gs, rest). (g # gs, rest)) (read_octets n False rest))"

definition read_ipv4_addr :: "string \<Rightarrow> (nat list \<times> string) option" where
  "read_ipv4_addr s = read_octets 4 True s"

fun read_groups :: "nat \<Rightarrow> bool \<Rightarrow> string \<Rightarrow> nat list \<times> bool \<times> string" where
  "read_groups 0 is_first s = ([], False, s)"
| "read_groups (Suc n) is_first s =
     (case (if n = 0 then None else Option.bind (read_separator CHR '':'' is_first s) read_ipv4_addr) of
        Some (os, rest) \<Rightarrow> ([os ! 0 * 256 + os ! 1, os ! 2 * 256 + os ! 3], True, rest)
      | None \<Rightarrow>
          (case Option.bind (read_separator CHR '':'' is_first s) (read_number 16 4 True 65535) of
             None \<Rightarrow> ([], False, s)
           | Some (g, rest) \<Rightarrow> (case read_groups n False rest of (gs, v4, rest) \<Rightarrow> (g # gs, v4, rest))))"

definition read_ipv6_addr :: "string \<Rightarrow> (nat list \<times> string) option" where
  "read_ipv6_addr s =
     (case read_groups 8 True s of
        (front, v4, rest) \<Rightarrow>
          if length front = 8 then Some (front, rest)
          else if v4 then None
          else (case strip_prefix rest ''::'' of
                  None \<Rightarrow> None
                | Some rest \<Rightarrow>
                    (case read_groups (8 - (length front + 1)) True rest of
                       (back, _, rest) \<Rightarrow> Some (front @ replicate (8 - length front - length back) 0 @ back, rest))))"

definition parse_ip_addr :: "string \<Rightarrow> ip_addr option" where
  "parse_ip_addr s =
     (case (case read_ipv4_addr s of
              Some (os, rest) \<Rightarrow> Some (V4 os, rest)
            | None \<Rightarrow> map_option (\<lambda>(gs, rest). (V6 gs, rest)) (read_ipv6_addr s)) of
        Some (a, []) \<Rightarrow> Some a
      | _ \<Rightarrow> None)"

fun is_unspecified :: "ip_addr \<Rightarrow> bool" where
  "is_unspecified (V4 os) = list_all (\<lambda>n. n = 0) os"
| "is_unspecified (V6 gs) = list_all (\<lambda>n. n = 0) gs"

definition resolve_tcp_bind :: "string \<Rightarrow> u16 \<Rightarrow> string + ip_addr \<times> u16" where
  "resolve_tcp_bind bind prt =
     (case parse_ip_addr bind of
        None \<Rightarrow> Inl ''tcp bind must be an explicit IP address''
      | Some a \<Rightarrow> if is_unspecified a then Inl ''tcp bind must not be an unspecified address'' else Inr (a, prt))"

subsection \<open>The executor's first answer\<close>

record ExecutorHelloResponse =
  hl_ok :: bool
  hl_uid :: "u32 option"
  hl_pid :: u32
  hl_reason :: "string option"

definition executor_refusal :: "ExecutorHelloResponse \<Rightarrow> string" where
  "executor_refusal r =
     (case hl_reason r of
        Some reason \<Rightarrow> ''executor reported ok=false: '' @ reason
      | None \<Rightarrow> ''executor reported ok=false'')"

definition executor_socket_error :: "string \<Rightarrow> string \<Rightarrow> string" where
  "executor_socket_error p e = ''executor socket '' @ quoted p @ '' is not connectable: '' @ e"

definition spawned_executor_error :: "string \<Rightarrow> string \<Rightarrow> string" where
  "spawned_executor_error entry e = ''executor '' @ quoted entry @ '' failed the startup check: '' @ e"

text \<open>How one \<open>hello\<close> goes: an error of the connection, of writing or of flushing, and the line or the error of reading it.\<close>

record hello_answers =
  ha_connect :: "string option"
  ha_write :: "string option"
  ha_flush :: "string option"
  ha_line :: "string + string"

definition OWN_USER :: string where
  "OWN_USER = ''executor must not run as the daemon'' @ [CHR 0x27] @ ''s own user''"

definition validate_executor_socket ::
  "(string \<Rightarrow> string + ExecutorHelloResponse) \<Rightarrow> hello_answers \<Rightarrow> u32 \<Rightarrow> string \<Rightarrow> string + u32" where
  "validate_executor_socket decode a euid p =
     (case ha_connect a of
        Some e \<Rightarrow> Inl (executor_socket_error p e)
      | None \<Rightarrow>
          (case ha_write a of
             Some e \<Rightarrow> Inl (executor_socket_error p e)
           | None \<Rightarrow>
               (case ha_flush a of
                  Some e \<Rightarrow> Inl (executor_socket_error p e)
                | None \<Rightarrow>
                    (case ha_line a of
                       Inl e \<Rightarrow> Inl (executor_socket_error p e)
                     | Inr line \<Rightarrow>
                         if line = [] then Inl (executor_socket_error p ''empty response'')
                         else (case decode line of
                                 Inl e \<Rightarrow> Inl (executor_socket_error p e)
                               | Inr r \<Rightarrow>
                                   if \<not> hl_ok r then Inl (executor_socket_error p (executor_refusal r))
                                   else if hl_uid r = Some 0 then Inl ''executor must not run as root''
                                   else (case hl_uid r of
                                           None \<Rightarrow> Inl OWN_USER
                                         | Some uid \<Rightarrow> if uid = euid then Inl OWN_USER else Inr uid))))))"

definition request_executor_hello ::
  "(string \<Rightarrow> string + ExecutorHelloResponse) \<Rightarrow> hello_answers \<Rightarrow> ExecutorConnection
     \<Rightarrow> (string + ExecutorHelloResponse) \<times> ExecutorConnection" where
  "request_executor_hello decode a c =
     (case ha_write a of
        Some e \<Rightarrow> (Inl e, c)
      | None \<Rightarrow>
          (let c = c\<lparr>xc_sent := xc_sent c @ [JObj [(''op'', JStr ''hello'')]]\<rparr> in
           case ha_line a of
             Inl e \<Rightarrow> (Inl e, c)
           | Inr line \<Rightarrow>
               if line = [] then (Inl ''the executor exited without answering hello'', c) else (decode line, c)))"

text \<open>The second component is the connection as it is left.\<close>

definition validate_spawned_executor ::
  "(string \<Rightarrow> string + ExecutorHelloResponse) \<Rightarrow> hello_answers \<Rightarrow> exec_answers \<Rightarrow> string \<Rightarrow> string
     \<Rightarrow> string + ExecutorConnection \<Rightarrow> (string + unit) \<times> ExecutorConnection option" where
  "validate_spawned_executor decode a stop entry node_path connection =
     (case connection of
        Inl e \<Rightarrow>
          (Inl (spawned_executor_error entry (''the executor could not be started with node '' @ quoted node_path @ '': '' @ e)), None)
      | Inr c \<Rightarrow>
          (case request_executor_hello decode a c of
             (response, c) \<Rightarrow>
               (let c = shutdown_executor_handle stop 1 c in
                ((case response of
                    Inl e \<Rightarrow> Inl (spawned_executor_error entry e)
                  | Inr r \<Rightarrow>
                      if \<not> hl_ok r then Inl (spawned_executor_error entry (executor_refusal r)) else Inr ()), Some c))))"

subsection \<open>Listeners\<close>

text \<open>The answers of one \<open>UnixTransport::bind\<close>: errors of its calls, and whether the path is taken.\<close>

record unix_answers =
  ua_parents :: "string option"
  ua_inherit :: "string option"
  ua_exists :: bool
  ua_remove :: "string option"
  ua_bind :: "string option"
  ua_chmod :: "string option"

datatype listening =
    Inherited "u32 list" "u32 list"
  | UnixBound string "u32 list" "u32 list"
  | TcpBound ip_addr u16

record activation =
  sv_listen_fds :: "string option"
  sv_listen_pid :: "string option"
  sv_own_pid :: nat

definition socket_activation_enabled :: "activation \<Rightarrow> bool" where
  "socket_activation_enabled v \<longleftrightarrow> sv_listen_fds v = Some ''1'' \<and> sv_listen_pid v = Some (decimal (sv_own_pid v))"

text \<open>
  The error, if any, and what has begun to listen: a socket whose mode cannot be set is bound already,
  and is closed again when the start ends with the error.
\<close>

definition unix_bind ::
  "activation \<Rightarrow> unix_answers \<Rightarrow> string \<Rightarrow> u32 list \<Rightarrow> u32 list \<Rightarrow> string option \<times> listening list" where
  "unix_bind v a p uids ops =
     (case ua_parents a of
        Some e \<Rightarrow> (Some e, [])
      | None \<Rightarrow>
          if socket_activation_enabled v
          then (case ua_inherit a of Some e \<Rightarrow> (Some e, []) | None \<Rightarrow> (None, [Inherited uids ops]))
          else (case (if ua_exists a then ua_remove a else None) of
                  Some e \<Rightarrow> (Some e, [])
                | None \<Rightarrow>
                    (case ua_bind a of
                       Some e \<Rightarrow> (Some e, [])
                     | None \<Rightarrow> (ua_chmod a, [UnixBound p uids ops]))))"

definition tcp_bind :: "(ip_addr \<Rightarrow> u16 \<Rightarrow> string option) \<Rightarrow> string \<Rightarrow> u16 \<Rightarrow> string + listening" where
  "tcp_bind bind_tcp_listener bind prt =
     (case resolve_tcp_bind bind prt of
        Inl e \<Rightarrow> Inl e
      | Inr (a, p) \<Rightarrow> (case bind_tcp_listener a p of Some e \<Rightarrow> Inl e | None \<Rightarrow> Inr (TcpBound a p)))"

fun bind_listener ::
  "activation \<Rightarrow> (string \<Rightarrow> unix_answers) \<Rightarrow> (ip_addr \<Rightarrow> u16 \<Rightarrow> string option) \<Rightarrow> ListenConfig
     \<Rightarrow> string option \<times> listening list" where
  "bind_listener v unix tcp (LcUnix p uids ops) = unix_bind v (unix p) p uids ops"
| "bind_listener v unix tcp (LcTcp bind prt) =
     (case tcp_bind tcp bind prt of Inl e \<Rightarrow> (Some e, []) | Inr b \<Rightarrow> (None, [b]))"
| "bind_listener v unix tcp (LcPipe _ _ _) = (Some ''pipe listeners are only supported on Windows'', [])"

text \<open>The listeners that came up, also when a later one fails.\<close>

fun platform_bind ::
  "activation \<Rightarrow> (string \<Rightarrow> unix_answers) \<Rightarrow> (ip_addr \<Rightarrow> u16 \<Rightarrow> string option) \<Rightarrow> ListenConfig list
     \<Rightarrow> string option \<times> listening list" where
  "platform_bind v unix tcp [] = (None, [])"
| "platform_bind v unix tcp (l # ls) =
     (case bind_listener v unix tcp l of
        (Some e, bs) \<Rightarrow> (Some e, bs)
      | (None, bs) \<Rightarrow> (case platform_bind v unix tcp ls of (e, cs) \<Rightarrow> (e, bs @ cs)))"

subsection \<open>The first state\<close>

datatype ProviderConfigKind =
    PkMock "EntryConfig list"
  | PkBitwardenCli string string string "string list" "nat option"
  | PkAgeFile string string "nat option"
  | PkPass string "string option" "string option" "string list" "nat option"

record ProviderConfig =
  pv_namespace :: string
  pv_persist_cookies :: "string list"
  pv_kind :: ProviderConfigKind

text \<open>The keys of \<open>Config\<close> that the earlier checks do not read.\<close>

record StartConfig = Config +
  sc_state_dir :: string
  sc_approve_cmd :: "string option"
  sc_approve_operator :: "bool option"
  sc_approval_grant_ttl_secs :: nat
  sc_executor_entry :: "string option"
  sc_executor_socket :: "string option"
  sc_session_ttl_secs :: "nat option"
  sc_providers :: "ProviderConfig list"

datatype start_error =
    StartError string
  | StateDirError fs_error
  | PeerFileError io_error
  | IdentityFileError string
  | CookieDirError fs_error

datatype start_event =
    SocketExecutor u32
  | SpawnedExecutor ExecutorConnection
  | RemoveLegacyDir string
  | BwVersion string
  | Listening listening
  | ReadyLine

record start_env =
  st_config :: "string + string list \<times> StartConfig"
  st_hello :: hello_answers
  st_decode :: "string \<Rightarrow> string + ExecutorHelloResponse"
  st_euid :: u32
  st_spawn :: "string + ExecutorConnection"
  st_stop :: exec_answers
  st_entry_var :: "string option"
  st_current_exe :: "string option"
  st_dir :: dir_answers
  st_stored :: "(io_error + PeerRecord list) option"
  st_legacy :: "(io_error + byte list) option"
  st_now :: nat
  st_peers_written :: bool
  st_legacy_renamed :: bool
  st_identity_mode :: "string \<Rightarrow> nat option"
  st_lib :: cookie_lib
  st_cookie_dir :: dir_answers
  st_cookies :: cookie_dir
  st_activation :: activation
  st_unix :: "string \<Rightarrow> unix_answers"
  st_tcp :: "ip_addr \<Rightarrow> u16 \<Rightarrow> string option"

definition resolve_executor_entry :: "start_env \<Rightarrow> StartConfig \<Rightarrow> string" where
  "resolve_executor_entry env cfg =
     (case sc_executor_entry cfg of
        Some entry \<Rightarrow> entry
      | None \<Rightarrow>
          (case st_entry_var env of
             Some (c # cs) \<Rightarrow> c # cs
           | _ \<Rightarrow> (case st_current_exe env of None \<Rightarrow> ''tegatad'' | Some binary \<Rightarrow> binary)
                    @ ''/../../../packages/tegata-executor/dist/index.js''))"

definition session_ttl_of :: "nat option \<Rightarrow> duration \<Rightarrow> duration" where
  "session_ttl_of secs default_ttl = from_secs (case secs of None \<Rightarrow> as_secs default_ttl | Some s \<Rightarrow> s)"

definition build_provider ::
  "start_env \<Rightarrow> StartConfig \<Rightarrow> ProviderConfig \<Rightarrow> string list \<times> bool
     \<Rightarrow> start_error + provider \<times> string list \<times> bool" where
  "build_provider env cfg pc acc =
     (let (registry, version_logged) = acc;
          session_ttl = from_secs (case sc_session_ttl_secs cfg of None \<Rightarrow> 300 | Some s \<Rightarrow> s)
      in case pv_kind pc of
        PkMock entries \<Rightarrow>
          (case static_from_config entries registry of (p, registry) \<Rightarrow> Inr (PrStatic p, registry, version_logged))
      | PkBitwardenCli url mail askpass exposable secs \<Rightarrow>
          Inr (PrBitwarden (BitwardenCliProvider_new
                 \<lparr>bcf_namespace = pv_namespace pc, bcf_server_url = url, bcf_email = mail, bcf_askpass_cmd = askpass,
                  bcf_appdata_dir = sc_state_dir cfg @ ''/bw-'' @ safe_path_component (pv_namespace pc), bcf_bw_path = None,
                  bcf_totp_exposable = exposable, bcf_session_ttl = session_ttl_of secs session_ttl\<rparr>), registry, True)
      | PkAgeFile entries identity secs \<Rightarrow>
          (case FileProvider_new (st_identity_mode env identity)
                  \<lparr>fc_entries_path = entries, fc_identity_path = identity, fc_session_ttl = session_ttl_of secs session_ttl\<rparr> of
             None \<Rightarrow> Inl (IdentityFileError identity)
           | Some p \<Rightarrow> Inr (PrFile p, registry, version_logged))
      | PkPass store gnupg bin exposable secs \<Rightarrow>
          Inr (PrPass (PassProvider_new
                 \<lparr>ppc_store_dir = store, ppc_gnupghome = gnupg, ppc_pass_bin = bin, ppc_totp_exposable = exposable,
                  ppc_session_ttl = session_ttl_of secs session_ttl\<rparr>), registry, version_logged))"

fun build_providers ::
  "start_env \<Rightarrow> StartConfig \<Rightarrow> ProviderConfig list \<Rightarrow> string list \<times> bool
     \<Rightarrow> (start_error + (string \<times> provider) list \<times> string list) \<times> start_event list" where
  "build_providers env cfg [] acc = (Inr ([], fst acc), [])"
| "build_providers env cfg (pc # pcs) acc =
     (case build_provider env cfg pc acc of
        Inl e \<Rightarrow> (Inl e, [])
      | Inr (p, registry, logged) \<Rightarrow>
          (let evs = (if logged \<and> \<not> snd acc then [BwVersion (pv_namespace pc)] else []) in
           case build_providers env cfg pcs (registry, logged) of
             (Inl e, evs') \<Rightarrow> (Inl e, evs @ evs')
           | (Inr (ps, registry), evs') \<Rightarrow> (Inr ((pv_namespace pc, p) # ps, registry), evs @ evs')))"

definition by_name :: "('c \<Rightarrow> string) \<Rightarrow> 'c list \<Rightarrow> (string, 'c) table" where
  "by_name nm cs = fold (\<lambda>c t. hinsert (nm c) c t) cs []"

definition build_state :: "start_env \<Rightarrow> StartConfig \<Rightarrow> PeerStore \<Rightarrow> (start_error + DaemonState) \<times> start_event list" where
  "build_state env cfg ps =
     (case build_providers env cfg (sc_providers cfg) ([], False) of
        (Inl e, evs) \<Rightarrow> (Inl e, evs)
      | (Inr (providers, registry), evs) \<Rightarrow>
          (let policy = fold (\<lambda>pc. policy_insert (pv_namespace pc) (pv_persist_cookies pc)) (sc_providers cfg) \<lparr>by_namespace = []\<rparr>;
               store = CookieStore_new (sc_state_dir cfg) policy
           in case prepare_store (st_lib env) store (st_cookie_dir env) (st_cookies env) of
                (Inl e, _) \<Rightarrow> (Inl (CookieDirError e), evs)
              | (Inr _, cookies) \<Rightarrow>
                  (Inr \<lparr>dm_vault = \<lparr>va_providers = providers, va_registry = registry, va_audit = []\<rparr>,
                     dm_grants = ApprovalGrants_new (from_secs (sc_approval_grant_ttl_secs cfg)), dm_peers = ps,
                     dm_table = \<lparr>browsers = [], shared_browsers = [], ports = []\<rparr>, dm_controls = [], dm_totp = [],
                     dm_ledger = Ledger_new (from_secs (cf_stepwise_idle_secs cfg)) (from_secs (cf_stepwise_max_secs cfg)),
                     dm_slots = [], dm_cookies = cookies, dm_store = store, dm_approve_cmd = sc_approve_cmd cfg,
                     dm_session_ttl = from_secs (case sc_session_ttl_secs cfg of None \<Rightarrow> 300 | Some s \<Rightarrow> s),
                     dm_max_lifetime = from_secs (cf_browser_max_lifetime_secs cfg), dm_shutting_down = False,
                     dm_proxies = by_name pc_name (cf_api_proxy cfg), dm_mcp_servers = by_name mc_name (cf_mcp_server cfg),
                     dm_effects = []\<rparr>, evs)))"

subsection \<open>The order of a start\<close>

definition PASSWORD_FILE_DIR :: string where "PASSWORD_FILE_DIR = ''.bw-passwords''"

definition check_executor :: "start_env \<Rightarrow> StartConfig \<Rightarrow> start_error option \<times> start_event list" where
  "check_executor env cfg =
     (case sc_executor_socket cfg of
        Some p \<Rightarrow>
          (case validate_executor_socket (st_decode env) (st_hello env) (st_euid env) p of
             Inl e \<Rightarrow> (Some (StartError e), [])
           | Inr uid \<Rightarrow> (None, [SocketExecutor uid]))
      | None \<Rightarrow>
          (case validate_spawned_executor (st_decode env) (st_hello env) (st_stop env) (resolve_executor_entry env cfg) ''node'' (st_spawn env) of
             (r, c) \<Rightarrow> (case r of Inl e \<Rightarrow> Some (StartError e) | Inr _ \<Rightarrow> None,
                       case c of None \<Rightarrow> [] | Some c \<Rightarrow> [SpawnedExecutor c])))"

definition run_daemon :: "start_env \<Rightarrow> bool \<Rightarrow> (start_error + DaemonState) \<times> start_event list" where
  "run_daemon env ready =
     (case st_config env of
        Inl e \<Rightarrow> (Inl (StartError e), [])
      | Inr (keys, cfg) \<Rightarrow>
          (case check_config keys (Config.truncate cfg) of
             Inl e \<Rightarrow> (Inl (StartError e), [])
           | Inr listeners \<Rightarrow>
               (case check_executor env cfg of
                  (Some e, evs) \<Rightarrow> (Inl e, evs)
                | (None, evs) \<Rightarrow>
                    (case ensure_private_dir (sc_state_dir cfg) (st_dir env) of
                       Inl e \<Rightarrow> (Inl (StateDirError e), evs)
                     | Inr _ \<Rightarrow>
                         (let evs = evs @ [RemoveLegacyDir (sc_state_dir cfg @ ''/'' @ PASSWORD_FILE_DIR)] in
                          if sc_approve_operator cfg \<noteq> None
                          then (Inl (StartError ''approve_operator is only supported on Windows''), evs)
                          else
                            (case lr_store (load_or_import (st_stored env) (st_legacy env) (st_now env) (st_peers_written env)
                                              (st_legacy_renamed env)) of
                               Inl e \<Rightarrow> (Inl (PeerFileError e), evs)
                             | Inr ps \<Rightarrow>
                                 (case build_state env cfg ps of
                                    (Inl e, evs') \<Rightarrow> (Inl e, evs @ evs')
                                  | (Inr d, evs') \<Rightarrow>
                                      (case platform_bind (st_activation env) (st_unix env) (st_tcp env) listeners of
                                         (Some e, bs) \<Rightarrow> (Inl (StartError e), evs @ evs' @ map Listening bs)
                                       | (None, bs) \<Rightarrow>
                                           (Inr d, evs @ evs' @ map Listening bs @ (if ready then [ReadyLine] else []))))))))))"

subsection \<open>Nothing listens before the checks\<close>

lemma validate_executor_socket_ok:
  "validate_executor_socket decode a euid p = Inr uid \<Longrightarrow>
     \<exists>line reply. ha_connect a = None \<and> ha_line a = Inr line \<and> line \<noteq> [] \<and> decode line = Inr reply \<and> hl_ok reply
       \<and> hl_uid reply = Some uid \<and> uid \<noteq> 0 \<and> uid \<noteq> euid"
  by (auto simp: validate_executor_socket_def split: option.splits sum.splits if_splits)

lemma request_executor_hello_ok:
  "request_executor_hello decode a c = (Inr reply, d) \<Longrightarrow>
     (\<exists>line. ha_line a = Inr line \<and> line \<noteq> [] \<and> decode line = Inr reply) \<and> JObj [(''op'', JStr ''hello'')] \<in> set (xc_sent d)
       \<and> xc_kind d = xc_kind c"
  by (auto simp: request_executor_hello_def Let_def split: option.splits sum.splits if_splits)

lemma shutdown_executor_handle_ends:
  "set (xc_sent c) \<subseteq> set (xc_sent (shutdown_executor_handle stop i c))
   \<and> (xc_kind c = Spawned \<longrightarrow> xa_serialized stop \<longrightarrow> xa_exits stop \<or> xc_killed (shutdown_executor_handle stop i c))"
  by (auto simp: shutdown_executor_handle_def wait_or_kill_executor_def kill_executor_handle_def Let_def split: ExecutorKind.split)

text \<open>An executor that passed the check has answered the \<open>hello\<close> it was sent with \<open>ok\<close>, and has been stopped again.\<close>

lemma validate_spawned_executor_ok:
  assumes "validate_spawned_executor decode a stop entry node conn = (Inr u, c')"
  shows "\<exists>c d line reply. conn = Inr c \<and> c' = Some d \<and> ha_line a = Inr line \<and> line \<noteq> [] \<and> decode line = Inr reply \<and> hl_ok reply
    \<and> JObj [(''op'', JStr ''hello'')] \<in> set (xc_sent d)
    \<and> (xc_kind c = Spawned \<longrightarrow> xa_serialized stop \<longrightarrow> xa_exits stop \<or> xc_killed d)"
proof -
  obtain c where c: "conn = Inr c" using assms by (cases conn) (auto simp: validate_spawned_executor_def)
  obtain q d where q: "request_executor_hello decode a c = (q, d)" by fastforce
  have c': "c' = Some (shutdown_executor_handle stop 1 d)" using assms c q by (simp add: validate_spawned_executor_def Let_def)
  obtain reply where r: "q = Inr reply" "hl_ok reply"
    using assms c q by (cases q) (auto simp: validate_spawned_executor_def Let_def split: if_splits)
  note H = request_executor_hello_ok[OF q[unfolded r(1)]] and S = shutdown_executor_handle_ends[of d stop 1]
  show ?thesis using c c' r(2) H S by (intro exI[of _ c] exI[of _ "shutdown_executor_handle stop 1 d"]) auto
qed

definition listener_ok :: "activation \<Rightarrow> ListenConfig list \<Rightarrow> listening \<Rightarrow> bool" where
  "listener_ok v ls b \<longleftrightarrow>
     (case b of
        TcpBound a p \<Rightarrow> \<not> is_unspecified a \<and> (\<exists>bind. LcTcp bind p \<in> set ls \<and> parse_ip_addr bind = Some a)
      | UnixBound p uids ops \<Rightarrow> LcUnix p uids ops \<in> set ls
      | Inherited uids ops \<Rightarrow> socket_activation_enabled v \<and> (\<exists>p. LcUnix p uids ops \<in> set ls))"

lemma bind_listener_ok: "bind_listener v unix tcp l = (e, bs) \<Longrightarrow> b \<in> set bs \<Longrightarrow> listener_ok v [l] b"
  by (cases l)
    (auto simp: listener_ok_def unix_bind_def tcp_bind_def resolve_tcp_bind_def split: option.splits sum.splits if_splits)

lemma listener_ok_mono: "listener_ok v ls b \<Longrightarrow> set ls \<subseteq> set ks \<Longrightarrow> listener_ok v ks b"
  by (auto simp: listener_ok_def split: listening.splits)

lemma platform_bind_ok: "platform_bind v unix tcp ls = (e, bs) \<Longrightarrow> b \<in> set bs \<Longrightarrow> listener_ok v ls b"
proof (induction v unix tcp ls arbitrary: e bs rule: platform_bind.induct)
  case (2 v unix tcp l ls)
  obtain e1 bs1 where l: "bind_listener v unix tcp l = (e1, bs1)" by fastforce
  obtain e' cs where r: "platform_bind v unix tcp ls = (e', cs)" by fastforce
  have "b \<in> set bs1 \<or> (e1 = None \<and> b \<in> set cs)" using 2(2,3) l r by (cases e1) auto
  then show ?case
    using bind_listener_ok[OF l] 2(1)[OF l[symmetric] _ r] listener_ok_mono[of v "[l]" b "l # ls"] listener_ok_mono[of v ls b "l # ls"] by auto
qed simp

lemma build_providers_silent: "Listening b \<notin> set (snd (build_providers env cfg pcs acc))"
proof (induction pcs arbitrary: acc)
  case (Cons pc pcs)
  have "Listening b \<notin> set evs" if "build_providers env cfg pcs acc' = (r, evs)" for acc' r evs
    using Cons[of acc'] that by simp
  then show ?case by (auto simp: Let_def split: sum.splits prod.splits)
qed simp

lemma build_state_silent: "Listening b \<notin> set (snd (build_state env cfg ps))"
  using build_providers_silent[of b env cfg "sc_providers cfg" "([], False)"]
  by (auto simp: build_state_def Let_def split: sum.splits prod.splits)

lemma check_executor_silent: "Listening b \<notin> set (snd (check_executor env cfg))"
  by (auto simp: check_executor_def split: sum.splits prod.splits option.splits)

text \<open>A start that reaches a listener has passed every check before it.\<close>

lemma run_daemon_listening:
  assumes "run_daemon env ready = (r, evs)" "Listening b \<in> set evs"
  obtains keys cfg listeners evs1 ps d evs2 e bs u where "st_config env = Inr (keys, cfg)"
    "check_config keys (Config.truncate cfg) = Inr listeners" "check_executor env cfg = (None, evs1)" "set evs1 \<subseteq> set evs"
    "ensure_private_dir (sc_state_dir cfg) (st_dir env) = Inr u" "sc_approve_operator cfg = None"
    "build_state env cfg ps = (Inr d, evs2)"
    "platform_bind (st_activation env) (st_unix env) (st_tcp env) listeners = (e, bs)" "b \<in> set bs"
proof -
  have ce: "Listening b \<notin> set x" if "check_executor env cfg = (y, x)" for cfg y x
    using check_executor_silent[of b env cfg] that by simp
  have bs: "Listening b \<notin> set x" if "build_state env cfg ps = (y, x)" for cfg ps y x
    using build_state_silent[of b env cfg ps] that by simp
  show ?thesis
    using assms ce bs that
    by (auto simp: run_daemon_def Let_def split: sum.splits prod.splits option.splits if_splits) blast+
qed

text \<open>
  C6: No listener comes up before every check has passed. When a start has left a listener, whatever
  happened later, its configuration was accepted, and the executor had answered \<open>hello\<close> with \<open>ok\<close>: a
  separate one, over its socket, naming a user that is neither root nor the daemon's own; one the
  daemon starts itself had come up, had been sent the \<open>hello\<close>, and had then been stopped again. The
  state directory had been seen with mode 0700 and the daemon's owner, not as a symbolic link; and the
  listener is one of the configured ones, a TCP listener on a literal address other than \<open>0.0.0.0\<close> and
  \<open>::\<close> (the IPv4 address inside a mapped one is not looked at,
  \<open>mapped_unspecified_address_is_bound\<close>).
\<close>

theorem nothing_listens_unchecked:
  assumes "run_daemon env ready = (r, evs)" "Listening b \<in> set evs"
  shows "\<exists>keys cfg listeners. st_config env = Inr (keys, cfg) \<and> check_config keys (Config.truncate cfg) = Inr listeners
    \<and> listener_ok (st_activation env) listeners b
    \<and> (\<exists>line reply. ha_line (st_hello env) = Inr line \<and> line \<noteq> [] \<and> st_decode env line = Inr reply \<and> hl_ok reply
         \<and> (case sc_executor_socket cfg of
              Some p \<Rightarrow> ha_connect (st_hello env) = None
                \<and> (\<exists>uid. hl_uid reply = Some uid \<and> uid \<noteq> 0 \<and> uid \<noteq> st_euid env \<and> SocketExecutor uid \<in> set evs)
            | None \<Rightarrow> (\<exists>c d. st_spawn env = Inr c \<and> SpawnedExecutor d \<in> set evs \<and> JObj [(''op'', JStr ''hello'')] \<in> set (xc_sent d)
                \<and> (xc_kind c = Spawned \<longrightarrow> xa_serialized (st_stop env) \<longrightarrow> xa_exits (st_stop env) \<or> xc_killed d))))
    \<and> (\<exists>md. (da_stat (st_dir env) = Inr md \<or> (da_stat (st_dir env) = Inl fs_error.NotFound \<and> da_stat_again (st_dir env) = Inr md))
         \<and> \<not> md_symlink md \<and> md_dir md \<and> md_mode md mod 512 = 448 \<and> md_uid md = da_euid (st_dir env))"
proof -
  obtain keys cfg listeners evs1 ps d evs2 e bs u where p: "st_config env = Inr (keys, cfg)"
    "check_config keys (Config.truncate cfg) = Inr listeners" "check_executor env cfg = (None, evs1)" "set evs1 \<subseteq> set evs"
    "ensure_private_dir (sc_state_dir cfg) (st_dir env) = Inr u" "sc_approve_operator cfg = None" "build_state env cfg ps = (Inr d, evs2)"
    "platform_bind (st_activation env) (st_unix env) (st_tcp env) listeners = (e, bs)" "b \<in> set bs"
    by (rule run_daemon_listening[OF assms])
  have x: "\<exists>line reply. ha_line (st_hello env) = Inr line \<and> line \<noteq> [] \<and> st_decode env line = Inr reply \<and> hl_ok reply
      \<and> (case sc_executor_socket cfg of
           Some p \<Rightarrow> ha_connect (st_hello env) = None
             \<and> (\<exists>uid. hl_uid reply = Some uid \<and> uid \<noteq> 0 \<and> uid \<noteq> st_euid env \<and> SocketExecutor uid \<in> set evs)
         | None \<Rightarrow> (\<exists>c d. st_spawn env = Inr c \<and> SpawnedExecutor d \<in> set evs \<and> JObj [(''op'', JStr ''hello'')] \<in> set (xc_sent d)
             \<and> (xc_kind c = Spawned \<longrightarrow> xa_serialized (st_stop env) \<longrightarrow> xa_exits (st_stop env) \<or> xc_killed d)))"
  proof (cases "sc_executor_socket cfg")
    case (Some q)
    then obtain uid where v: "validate_executor_socket (st_decode env) (st_hello env) (st_euid env) q = Inr uid" "evs1 = [SocketExecutor uid]"
      using p(3) by (auto simp: check_executor_def split: sum.splits)
    show ?thesis using validate_executor_socket_ok[OF v(1)] v(2) p(4) Some by auto
  next
    case None
    then obtain w c' where v: "validate_spawned_executor (st_decode env) (st_hello env) (st_stop env) (resolve_executor_entry env cfg) ''node''
        (st_spawn env) = (Inr w, c')" "evs1 = (case c' of None \<Rightarrow> [] | Some c \<Rightarrow> [SpawnedExecutor c])"
      using p(3) by (auto simp: check_executor_def split: sum.splits prod.splits)
    show ?thesis using validate_spawned_executor_ok[OF v(1)] v(2) p(4) None by fastforce
  qed
  show ?thesis
    using p(1,2) platform_bind_ok[OF p(8,9)] x ensured_directory_is_private[OF p(5)] by blast
qed

subsection \<open>The first state satisfies the invariants\<close>

lemma build_provider_inv:
  assumes "build_provider env cfg pc (registry, logged) = Inr (p, registry', logged')"
  shows "provider_inv p \<and> prereg p \<subseteq> set registry' \<and> set registry \<subseteq> set registry'"
  using assms
  by (auto simp: build_provider_def Let_def bw_new_inv pass_new_inv dest: file_new_inv dest!: static_from_config_registers
      split: ProviderConfigKind.splits option.splits prod.splits)

lemma build_providers_inv:
  assumes "build_providers env cfg pcs (registry, logged) = (Inr (ps, registry'), evs)"
  shows "map fst ps = map pv_namespace pcs \<and> (\<forall>x \<in> set ps. provider_inv (snd x) \<and> prereg (snd x) \<subseteq> set registry')
     \<and> set registry \<subseteq> set registry'"
  using assms
proof (induction pcs arbitrary: registry logged ps evs)
  case (Cons pc pcs)
  obtain p r l ps' evs' where b: "build_provider env cfg pc (registry, logged) = Inr (p, r, l)"
      "build_providers env cfg pcs (r, l) = (Inr (ps', registry'), evs')" "ps = (pv_namespace pc, p) # ps'"
    using Cons.prems by (auto simp: Let_def split: sum.splits prod.splits)
  from build_provider_inv[OF b(1)] Cons.IH[OF b(2)] show ?case using b(3) by auto
qed simp

lemma by_name_get:
  assumes "distinct (map nm cs)"
  shows "hvalid (by_name nm cs) \<and> (hget (by_name nm cs) n = Some c \<longleftrightarrow> c \<in> set cs \<and> nm c = n)"
proof -
  have "hvalid t \<Longrightarrow> hvalid (fold (\<lambda>c t. hinsert (nm c) c t) cs t)
      \<and> (hget (fold (\<lambda>c t. hinsert (nm c) c t) cs t) n = Some c \<longleftrightarrow>
           (c \<in> set cs \<and> nm c = n) \<or> (n \<notin> nm ` set cs \<and> hget t n = Some c))" for t
    using assms
  proof (induction cs arbitrary: t)
    case (Cons x cs)
    then show ?case using Cons.IH[of "hinsert (nm x) x t"] by (auto)
  qed simp
  from this[of "[]"] show ?thesis by (simp add: by_name_def)
qed

text \<open>
  C17: A daemon that starts begins in a state that satisfies the invariants the other properties
  assume: the vault has the configured providers under their names and already watches every secret
  of a mock provider, there is no browser, port, lease, grant, stepwise login or launch on record,
  the peers in memory are those on disk, every configured proxy and server is found under its name
  and nothing else is, and the lifetimes are positive.
\<close>

theorem first_state_is_sound:
  assumes "run_daemon env ready = (Inr d, evs)"
  shows "\<exists>keys cfg. st_config env = Inr (keys, cfg)
    \<and> vault_inv (dm_vault d) \<and> map fst (va_providers (dm_vault d)) = map pv_namespace (sc_providers cfg)
    \<and> table_inv [] (dm_table d) \<and> browsers (dm_table d) = [] \<and> issued (dm_grants d) = [] \<and> lg_entries (dm_ledger d) = []
    \<and> dm_controls d = [] \<and> dm_slots d = [] \<and> dm_effects d = [] \<and> \<not> dm_shutting_down d
    \<and> on_disk (dm_peers d) = peers (dm_peers d)
    \<and> hvalid (dm_proxies d) \<and> (\<forall>n c. hget (dm_proxies d) n = Some c \<longleftrightarrow> c \<in> set (cf_api_proxy cfg) \<and> pc_name c = n)
    \<and> hvalid (dm_mcp_servers d) \<and> (\<forall>n c. hget (dm_mcp_servers d) n = Some c \<longleftrightarrow> c \<in> set (cf_mcp_server cfg) \<and> mc_name c = n)
    \<and> 0 < dm_max_lifetime d \<and> 0 < lg_idle (dm_ledger d) \<and> 0 < lg_max (dm_ledger d)"
proof -
  obtain keys cfg ls ps evs2 where p: "st_config env = Inr (keys, cfg)" "check_config keys (Config.truncate cfg) = Inr ls"
      "lr_store (load_or_import (st_stored env) (st_legacy env) (st_now env) (st_peers_written env) (st_legacy_renamed env)) = Inr ps"
      "build_state env cfg ps = (Inr d, evs2)"
    using assms by (auto simp: run_daemon_def Let_def split: sum.splits prod.splits option.splits if_splits)
  have c: "distinct (map pc_name (cf_api_proxy cfg))" "distinct (map mc_name (cf_mcp_server cfg))"
      "0 < cf_browser_max_lifetime_secs cfg" "0 < cf_stepwise_idle_secs cfg" "0 < cf_stepwise_max_secs cfg"
    using p(2)[unfolded accepted_configurations] by (simp_all add: Config.truncate_def)
  obtain providers registry evs3 cookies u where b: "build_providers env cfg (sc_providers cfg) ([], False) = (Inr (providers, registry), evs3)"
      "dm_vault d = \<lparr>va_providers = providers, va_registry = registry, va_audit = []\<rparr>"
      "dm_grants d = ApprovalGrants_new (from_secs (sc_approval_grant_ttl_secs cfg))" "dm_peers d = ps"
      "dm_table d = \<lparr>browsers = [], shared_browsers = [], ports = []\<rparr>" "dm_controls d = []" "dm_slots d = []" "dm_effects d = []"
      "dm_ledger d = Ledger_new (from_secs (cf_stepwise_idle_secs cfg)) (from_secs (cf_stepwise_max_secs cfg))"
      "dm_max_lifetime d = from_secs (cf_browser_max_lifetime_secs cfg)" "\<not> dm_shutting_down d"
      "dm_proxies d = by_name pc_name (cf_api_proxy cfg)" "dm_mcp_servers d = by_name mc_name (cf_mcp_server cfg)"
    using p(4) by (auto simp: build_state_def Let_def split: sum.splits prod.splits)
  have t: "table_inv [] (dm_table d)"
    by (simp add: b(5) table_inv_def base_inv_def table_ok_def shared_ok_def leases_ok_def lease_in_def ports_ok_def no_empty_def)
  have "on_disk ps = peers ps"
    using p(3) by (auto simp: load_or_import_def load_failed_def split: sum.splits option.splits if_splits prod.splits)
  then show ?thesis
    using p(1) t build_providers_inv[OF b(1)] by_name_get[OF c(1)] by_name_get[OF c(2)] c(3-5)
    by (simp add: b(2-13) vault_inv_def ApprovalGrants_new_def Ledger_new_def from_secs_def)
qed

subsection \<open>Addresses of listeners\<close>

lemma to_digit_decimal: "is_ascii_digit c \<Longrightarrow> to_digit 10 c = Some (of_char c - 48)"
  by (auto simp: to_digit_def is_ascii_digit_def Let_def)

lemma read_counts:
  "read_octets 4 = read_octets (Suc (Suc (Suc (Suc 0))))"
  "read_groups 8 = read_groups (Suc (Suc (Suc (Suc (Suc (Suc (Suc (Suc 0))))))))"
  "read_groups 7 = read_groups (Suc (Suc (Suc (Suc (Suc (Suc (Suc 0)))))))"
  by (simp_all add: numeral_eq_Suc)

lemma digits_value_decimal: "list_all is_ascii_digit ds \<Longrightarrow> digits_value 10 ds = dec_val ds"
proof (induction ds rule: rev_induct)
  case (snoc c ds)
  then show ?case by (simp add: digits_value_def dec_val_def to_digit_decimal)
qed (simp add: digits_value_def dec_val_def)

lemma decimal_no_leading_zero: "hd (decimal n) = CHR ''0'' \<Longrightarrow> n = 0"
proof (induction n rule: decimal.induct)
  case (1 n)
  show ?case
  proof (cases "n < 10")
    case True
    then have "of_char (CHR ''0'') = 48 + n" using 1(2) of_char_digit[of n] by (simp add: decimal.simps[of n])
    then show ?thesis by simp
  next
    case False
    then have "decimal n = decimal (n div 10) @ [char_of (48 + n mod 10)]" by (simp add: decimal.simps[of n])
    moreover have "decimal (n div 10) \<noteq> []" by (subst decimal.simps) simp
    ultimately show ?thesis using 1 False by simp
  qed
qed

lemma read_number_decimal:
  assumes "n \<le> 255" "rest = [] \<or> to_digit 10 (hd rest) = None"
  shows "read_number 10 3 False 255 (decimal n @ rest) = Some (n, rest)"
proof -
  have d: "list_all is_ascii_digit (decimal n)" using decimal_digits by (auto simp: list_all_iff)
  have "takeWhile (\<lambda>c. to_digit 10 c \<noteq> None) (decimal n @ rest) = decimal n"
    using d assms(2) to_digit_decimal by (cases rest) (auto simp: takeWhile_append list_all_iff)
  moreover have "length (decimal n) \<le> 3" using length_decimal[of n 2] assms(1) by simp
  moreover have "decimal n \<noteq> []" by (subst decimal.simps) simp
  moreover have "\<not> (hd (decimal n) = CHR ''0'' \<and> length (decimal n) > 1)"
    using decimal_no_leading_zero[of n] by (auto simp: decimal.simps[of 0])
  ultimately show ?thesis using assms(1) digits_value_decimal[OF d] by (simp add: read_number_def Let_def)
qed

lemma dotted_address_is_read:
  assumes "a \<le> 255" "b \<le> 255" "c \<le> 255" "d \<le> 255"
  shows "parse_ip_addr (decimal a @ ''.'' @ decimal b @ ''.'' @ decimal c @ ''.'' @ decimal d) = Some (V4 [a, b, c, d])"
proof -
  have dot: "to_digit 10 (CHR ''.'') = None" by (simp add: to_digit_def)
  note r = read_number_decimal[OF assms(1)] read_number_decimal[OF assms(2)] read_number_decimal[OF assms(3)]
    read_number_decimal[OF assms(4), of "[]"]
  have "read_ipv4_addr (decimal a @ ''.'' @ decimal b @ ''.'' @ decimal c @ ''.'' @ decimal d) = Some ([a, b, c, d], [])"
    using r dot by (simp add: read_ipv4_addr_def read_counts read_separator_def)
  then show ?thesis by (simp add: parse_ip_addr_def)
qed

text \<open>The guard of \<open>resolve_tcp_bind\<close> does not see the IPv4 address inside an IPv6 one.\<close>

lemma mapped_unspecified_address_is_bound:
  "resolve_tcp_bind ''0.0.0.0'' prt = Inl ''tcp bind must not be an unspecified address''
   \<and> resolve_tcp_bind ''::'' prt = Inl ''tcp bind must not be an unspecified address''
   \<and> resolve_tcp_bind ''::ffff:0.0.0.0'' prt = Inr (V6 [0, 0, 0, 0, 0, 65535, 0, 0], prt)"
proof -
  have 1: "parse_ip_addr ''0.0.0.0'' = Some (V4 [0, 0, 0, 0])"
    using dotted_address_is_read[of 0 0 0 0] by (simp add: decimal.simps[of 0] char_of_def bit_0)
  note defs = parse_ip_addr_def read_ipv4_addr_def read_ipv6_addr_def read_separator_def read_number_def to_digit_def
    digits_value_def strip_prefix_def starts_with_def read_counts
  have 2: "parse_ip_addr ''::'' = Some (V6 [0, 0, 0, 0, 0, 0, 0, 0])"
    by (simp add: defs) (simp add: numeral_eq_Suc)
  have 3: "parse_ip_addr ''::ffff:0.0.0.0'' = Some (V6 [0, 0, 0, 0, 0, 65535, 0, 0])"
    by (simp add: defs) (simp add: numeral_eq_Suc)
  show ?thesis using 1 2 3 by (simp add: resolve_tcp_bind_def)
qed

text \<open>
  Under socket activation every Unix listener is the one inherited descriptor, so the users of all
  of them are admitted on it.
\<close>

lemma activated_listeners_share_a_socket:
  assumes "socket_activation_enabled v" "\<And>p. ua_parents (unix p) = None \<and> ua_inherit (unix p) = None"
  shows "platform_bind v unix tcp [LcUnix p1 uids1 ops1, LcUnix p2 uids2 ops2]
    = (None, [Inherited uids1 ops1, Inherited uids2 ops2])"
  using assms by (simp add: unix_bind_def)

text \<open>Two namespaces may have the same directory for the state of their Bitwarden program.\<close>

lemma namespaces_share_a_directory:
  "safe_path_component ''a/b'' = safe_path_component ''a_b''"
  by (simp add: safe_path_component_def is_ascii_alphanumeric_def) code_simp

subsection \<open>A start\<close>

definition demo_config :: StartConfig where
  "demo_config = \<lparr>cf_browser_max_lifetime_secs = 3600, cf_stepwise_idle_secs = 60, cf_stepwise_max_secs = 600,
     cf_listen = Some [LcTcp ''127.0.0.1'' 21575], cf_socket_path = None, cf_allowed_uids = None, cf_api_proxy = [],
     cf_mcp_server = [], sc_state_dir = ''/state'', sc_approve_cmd = None, sc_approve_operator = None,
     sc_approval_grant_ttl_secs = 0, sc_executor_entry = None, sc_executor_socket = Some ''/run/executor.sock'',
     sc_session_ttl_secs = None, sc_providers = []\<rparr>"

definition demo_start :: start_env where
  "demo_start = \<lparr>st_config = Inr ([''listen''], demo_config),
     st_hello = \<lparr>ha_connect = None, ha_write = None, ha_flush = None, ha_line = Inr ''x''\<rparr>,
     st_decode = \<lambda>_. Inr \<lparr>hl_ok = True, hl_uid = Some 5, hl_pid = 9, hl_reason = None\<rparr>, st_euid = 7, st_spawn = Inl [],
     st_stop = undefined, st_entry_var = None, st_current_exe = None, st_dir = ex_answers, st_stored = None, st_legacy = None,
     st_now = 0, st_peers_written = True, st_legacy_renamed = True, st_identity_mode = \<lambda>_. None, st_lib = ex_lib,
     st_cookie_dir = ex_answers, st_cookies = ex_dir,
     st_activation = \<lparr>sv_listen_fds = None, sv_listen_pid = None, sv_own_pid = 1\<rparr>, st_unix = undefined, st_tcp = \<lambda>_ _. None\<rparr>"

lemma demo_loopback: "parse_ip_addr ''127.0.0.1'' = Some (V4 [127, 0, 0, 1])"
  using dotted_address_is_read[of 127 0 0 1] by (simp add: decimal.simps char_of_def bit_0)

lemma demo_start_runs:
  "\<exists>d. run_daemon demo_start True = (Inr d, [SocketExecutor 5, RemoveLegacyDir ''/state/.bw-passwords'',
     Listening (TcpBound (V4 [127, 0, 0, 1]) 21575), ReadyLine])"
proof -
  have c: "check_config [''listen''] (Config.truncate demo_config) = Inr [LcTcp ''127.0.0.1'' 21575]"
    by (simp add: accepted_configurations) (simp add: demo_config_def Config.truncate_def)
  have b: "\<exists>d. build_state demo_start demo_config \<lparr>peers = [], on_disk = []\<rparr> = (Inr d, [])"
    by (simp add: build_state_def demo_config_def prepare_store_def CookieStore_new_def policy_is_empty_def demo_start_def ex_dir_def
        Let_def hvalues_def)
  have p: "platform_bind (st_activation demo_start) (st_unix demo_start) (st_tcp demo_start) [LcTcp ''127.0.0.1'' 21575]
      = (None, [TcpBound (V4 [127, 0, 0, 1]) 21575])"
    by (simp add: tcp_bind_def resolve_tcp_bind_def demo_loopback demo_start_def)
  have x: "check_executor demo_start demo_config = (None, [SocketExecutor 5])"
    by (simp add: check_executor_def validate_executor_socket_def demo_start_def demo_config_def)
  have e: "ensure_private_dir ''/state'' (st_dir demo_start) = Inr ()"
    by (simp add: ensure_private_dir_def demo_start_def ex_answers_def validate_again_def validate_state_dir_def)
  have l: "lr_store (load_or_import (st_stored demo_start) (st_legacy demo_start) (st_now demo_start) (st_peers_written demo_start)
      (st_legacy_renamed demo_start)) = Inr \<lparr>peers = [], on_disk = []\<rparr>"
    by (simp add: load_or_import_def demo_start_def import_legacy_def)
  have s: "st_config demo_start = Inr ([''listen''], demo_config)" "sc_state_dir demo_config = ''/state''" "sc_approve_operator demo_config = None"
    by (simp_all add: demo_start_def demo_config_def)
  obtain d where d: "build_state demo_start demo_config \<lparr>peers = [], on_disk = []\<rparr> = (Inr d, [])" using b by blast
  have "run_daemon demo_start True = (Inr d, [SocketExecutor 5, RemoveLegacyDir ''/state/.bw-passwords'',
     Listening (TcpBound (V4 [127, 0, 0, 1]) 21575), ReadyLine])"
    by (simp add: run_daemon_def s c x e l p d PASSWORD_FILE_DIR_def del: platform_bind.simps One_nat_def)
  then show ?thesis by blast
qed

theorem nothing_listens_unchecked_witness:
  "Listening (TcpBound (V4 [127, 0, 0, 1]) 21575) \<in> set (snd (run_daemon demo_start True))
   \<and> (\<exists>uid. SocketExecutor uid \<in> set (snd (run_daemon demo_start True)) \<and> uid \<noteq> 0 \<and> uid \<noteq> st_euid demo_start)
   \<and> (\<exists>line reply. ha_line (st_hello demo_start) = Inr line \<and> st_decode demo_start line = Inr reply \<and> hl_ok reply)"
proof -
  obtain d where r: "run_daemon demo_start True = (Inr d, [SocketExecutor 5, RemoveLegacyDir ''/state/.bw-passwords'',
     Listening (TcpBound (V4 [127, 0, 0, 1]) 21575), ReadyLine])" using demo_start_runs by blast
  have "st_config demo_start = Inr ([''listen''], demo_config)" "sc_executor_socket demo_config = Some ''/run/executor.sock''"
    by (simp_all add: demo_start_def demo_config_def)
  then show ?thesis
    using nothing_listens_unchecked[OF r, of "TcpBound (V4 [127, 0, 0, 1]) 21575"] r by auto
qed

theorem first_state_is_sound_witness:
  "\<exists>d evs. run_daemon demo_start True = (Inr d, evs) \<and> vault_inv (dm_vault d) \<and> table_inv [] (dm_table d) \<and> 0 < dm_max_lifetime d"
proof -
  obtain d evs where r: "run_daemon demo_start True = (Inr d, evs)" using demo_start_runs by blast
  from first_state_is_sound[OF r] r show ?thesis by blast
qed
end
