(* ===== verification/Windows_Transport.thy ===== *)
theory Windows_Transport
  imports Startup
begin

section \<open>The Windows front\<close>

text \<open>
  \<open>transport/windows.rs\<close>: who may open the named pipe, how the identity of a client is established
  before its first request is read, and which listeners a start accepts; and the access lists of
  \<open>secure_fs.rs\<close>. What the Windows calls answer is a record; the token of a client is what the
  impersonation reports.
\<close>

subsection \<open>Names and access lists\<close>

definition pipe_path :: "string \<Rightarrow> string + string" where
  "pipe_path name =
     (if name = [] \<or> name = ''.'' \<or> CHR 0x5C \<in> set name \<or> CHR ''/'' \<in> set name \<or> CHR 0x00 \<in> set name
      then Inl ''pipe name must be a non-empty name without path separators''
      else Inr ([CHR 0x5C, CHR 0x5C] @ ''.'' @ [CHR 0x5C] @ ''pipe'' @ [CHR 0x5C] @ name))"

definition valid_sid :: "string \<Rightarrow> bool" where
  "valid_sid s =
     (case split_char s (CHR ''-'') of
        a # b # _ # rest \<Rightarrow> a = ''S'' \<and> b = ''1'' \<and> list_all (\<lambda>c. c \<noteq> [] \<and> list_all is_ascii_digit c) rest
      | _ \<Rightarrow> False)"

definition ace :: "string \<Rightarrow> string" where
  "ace s = ''(A;;GA;;;'' @ s @ '')''"

text \<open>The text of the descriptor; the conversion by Windows comes after it.\<close>

definition security_descriptor :: "string list \<Rightarrow> string \<Rightarrow> string + string" where
  "security_descriptor sids daemon_sid =
     (if list_ex (\<lambda>s. \<not> valid_sid s) sids then Inl ''allowed_sids must contain Windows SIDs''
      else if \<not> valid_sid daemon_sid then Inl ''the daemon account must resolve to a Windows SID''
      else Inr (''D:'' @ ace daemon_sid @ ace ''BA'' @ ace ''SY'' @ concat (map ace sids)))"

definition create_pipe_server :: "(string \<Rightarrow> string option) \<Rightarrow> string list \<Rightarrow> string \<Rightarrow> string + string" where
  "create_pipe_server create sids daemon_sid =
     (case security_descriptor sids daemon_sid of
        Inl e \<Rightarrow> Inl e
      | Inr sddl \<Rightarrow> (case create sddl of Some e \<Rightarrow> Inl e | None \<Rightarrow> Inr sddl))"

definition protected_dacl_sddl :: "bool \<Rightarrow> string list \<Rightarrow> string" where
  "protected_dacl_sddl directory principals =
     ''D:P'' @ concat (map (\<lambda>p. ''(A;'' @ (if directory then ''OICI'' else []) @ '';FA;;;'' @ p @ '')'') principals)"

definition daemon_principals :: "string + string \<Rightarrow> string + string list" where
  "daemon_principals current_user_sid = (case current_user_sid of Inl e \<Rightarrow> Inl e | Inr s \<Rightarrow> Inr [s, ''SY''])"

definition restrict_path ::
  "(string \<Rightarrow> string option) \<Rightarrow> (string \<Rightarrow> string + bool) \<Rightarrow> bool \<Rightarrow> string list \<Rightarrow> string + unit" where
  "restrict_path set_protected_dacl dacl_matches directory principals =
     (let sddl = protected_dacl_sddl directory principals in
      case set_protected_dacl sddl of
        None \<Rightarrow> Inr ()
      | Some e \<Rightarrow> if dacl_matches sddl = Inr True then Inr () else Inl e)"

subsection \<open>The identity of a client\<close>

record TokenIdentity =
  tk_sid :: string
  tk_elevated :: bool
  tk_administrator :: bool

text \<open>
  What Windows answers about one connected client: its first byte, its process, the process table,
  the times processes were created, the impersonation with its token and its end, and the queries on
  the token.
\<close>

record client_answers =
  ca_first_byte :: "byte option"
  ca_pid :: "u32 option"
  ca_processes :: "ProcEntry list option"
  ca_created :: "u32 \<Rightarrow> u64 option"
  ca_impersonated :: bool
  ca_token_opened :: bool
  ca_reverted :: bool
  ca_user_sid :: "string option"
  ca_elevation :: "bool option"
  ca_membership :: "bool option"
  ca_rest :: "byte list"

definition client_process_id :: "client_answers \<Rightarrow> u32 option" where
  "client_process_id a = (case ca_pid a of None \<Rightarrow> None | Some p \<Rightarrow> if p = 0 then None else Some p)"

fun set_created :: "u32 \<Rightarrow> u64 option \<Rightarrow> ProcEntry list \<Rightarrow> ProcEntry list" where
  "set_created p t [] = []"
| "set_created p t (e # es) = (if pid e = p then e\<lparr>created := t\<rparr> # es else e # set_created p t es)"

definition fill_creation_times :: "(u32 \<Rightarrow> u64 option) \<Rightarrow> u32 \<Rightarrow> ProcEntry list \<Rightarrow> ProcEntry list" where
  "fill_creation_times process_creation_time client_pid table =
     fold (\<lambda>p. set_created p (process_creation_time p)) (map pid (chain (trace_ancestry client_pid table))) table"

definition process_origin :: "client_answers \<Rightarrow> u32 \<Rightarrow> Origin \<times> OriginWalk" where
  "process_origin a client_pid =
     (if client_pid \<noteq> 0 \<and> ca_processes a = None then (UnknownOrigin, SnapshotFailed)
      else
        (let table = (if client_pid \<noteq> 0
                      then fill_creation_times (ca_created a) client_pid (the (ca_processes a)) else []);
             trace = trace_ancestry client_pid table
         in (classify_ancestry trace, Terminated (trace_termination trace))))"

definition query_token_identity :: "client_answers \<Rightarrow> TokenIdentity option" where
  "query_token_identity a =
     (case ca_user_sid a of
        None \<Rightarrow> None
      | Some s \<Rightarrow>
          (case ca_elevation a of
             None \<Rightarrow> None
           | Some elev \<Rightarrow>
               (case ca_membership a of
                  None \<Rightarrow> None
                | Some admin \<Rightarrow> Some \<lparr>tk_sid = s, tk_elevated = elev, tk_administrator = admin\<rparr>)))"

definition client_identity :: "client_answers \<Rightarrow> TokenIdentity option" where
  "client_identity a =
     (if \<not> ca_impersonated a then None
      else if \<not> ca_token_opened a then None
      else if \<not> ca_reverted a then None
      else query_token_identity a)"

subsection \<open>The stream that replays the first byte\<close>

record PrefixedStream =
  ps_prefix :: "byte option"
  ps_inner :: "byte list"

definition PrefixedStream_new :: "byte \<Rightarrow> byte list \<Rightarrow> PrefixedStream" where
  "PrefixedStream_new b inner = \<lparr>ps_prefix = Some b, ps_inner = inner\<rparr>"

text \<open>One read into a buffer with \<open>n\<close> bytes left, of which the inner stream fills at most \<open>k\<close>.\<close>

definition poll_read :: "nat \<Rightarrow> nat \<Rightarrow> PrefixedStream \<Rightarrow> byte list \<times> PrefixedStream" where
  "poll_read n k s =
     (case ps_prefix s of
        Some b \<Rightarrow> if n = 0 then ([], s) else ([b], s\<lparr>ps_prefix := None\<rparr>)
      | None \<Rightarrow> (take (min n k) (ps_inner s), s\<lparr>ps_inner := drop (min n k) (ps_inner s)\<rparr>))"

definition validate_client :: "client_answers \<Rightarrow> string list \<Rightarrow> (PeerIdentity \<times> PrefixedStream) option" where
  "validate_client a sids =
     (case ca_first_byte a of
        None \<Rightarrow> None
      | Some b \<Rightarrow>
          (let client_pid = (case client_process_id a of None \<Rightarrow> 0 | Some p \<Rightarrow> p);
               (orig, walk) = process_origin a client_pid
           in case client_identity a of
                None \<Rightarrow> None
              | Some t \<Rightarrow>
                  (let normal = list_ex (\<lambda>s. s = tk_sid t) sids in
                   if \<not> normal \<and> \<not> (tk_administrator t \<and> tk_elevated t) then None
                   else Some (Sid (tk_sid t) (tk_elevated t) (tk_administrator t) normal client_pid orig walk,
                              PrefixedStream_new b (ca_rest a)))))"

text \<open>
  The loop that accepts: for each connection whether it failed, whether the next instance of the pipe
  could be created, and the answers about the client. The clients are validated in tasks of their
  own; the second component is the error that ended the loop.
\<close>

fun accept_loop ::
  "string list \<Rightarrow> (string option \<times> string option \<times> client_answers) list
     \<Rightarrow> (PeerIdentity \<times> PrefixedStream) option list \<times> string option" where
  "accept_loop sids [] = ([], None)"
| "accept_loop sids ((connect, replace, a) # cs) =
     (case connect of
        Some e \<Rightarrow> ([], Some e)
      | None \<Rightarrow>
          (case replace of
             Some e \<Rightarrow> ([], Some e)
           | None \<Rightarrow> (case accept_loop sids cs of (ps, e) \<Rightarrow> (validate_client a sids # ps, e))))"

definition pipe_result :: "(PeerIdentity \<times> PrefixedStream) option \<Rightarrow> Accepted" where
  "pipe_result r = (case r of Some (peer, _) \<Rightarrow> Rpc peer [] | None \<Rightarrow> Consumed)"

subsection \<open>Listeners\<close>

text \<open>Adapters by their friendly names, with the IPv4 addresses among their unicast addresses (\<open>None\<close>: another family).\<close>

fun first_ipv4 :: "nat list option list \<Rightarrow> nat list option" where
  "first_ipv4 [] = None"
| "first_ipv4 (None # as) = first_ipv4 as"
| "first_ipv4 (Some a # as) = Some a"

fun resolve_wsl_ipv4 :: "(string \<times> nat list option list) list \<Rightarrow> nat list option" where
  "resolve_wsl_ipv4 [] = None"
| "resolve_wsl_ipv4 ((name, addrs) # rest) =
     (if starts_with name ''vEthernet (WSL''
      then (case first_ipv4 addrs of Some a \<Rightarrow> Some a | None \<Rightarrow> resolve_wsl_ipv4 rest)
      else resolve_wsl_ipv4 rest)"

definition resolve_tcp_bind_windows ::
  "string + (string \<times> nat list option list) list \<Rightarrow> string \<Rightarrow> u16 \<Rightarrow> string + ip_addr \<times> u16" where
  "resolve_tcp_bind_windows adapters bind prt =
     (case (if bind = ''auto''
            then (case adapters of
                    Inl e \<Rightarrow> Inl e
                  | Inr as \<Rightarrow>
                      (case resolve_wsl_ipv4 as of
                         None \<Rightarrow> Inl ''could not resolve an IPv4 address for a vEthernet (WSL adapter)''
                       | Some a \<Rightarrow> Inr a))
            else (case read_ipv4_addr bind of
                    Some (a, []) \<Rightarrow> Inr a
                  | _ \<Rightarrow> Inl ''tcp_bind must be `auto` or an IPv4 address'')) of
        Inl e \<Rightarrow> Inl e
      | Inr a \<Rightarrow> if is_unspecified (V4 a) then Inl ''tcp_bind must not be an unspecified address'' else Inr (V4 a, prt))"

datatype windows_listening = PipeBound string "string list" | WinTcpBound ip_addr u16

definition pipe_bind ::
  "(string \<Rightarrow> string option) \<Rightarrow> string + string \<Rightarrow> string \<Rightarrow> string list \<Rightarrow> string + windows_listening" where
  "pipe_bind create current_user_sid name sids =
     (case pipe_path name of
        Inl e \<Rightarrow> Inl e
      | Inr p \<Rightarrow>
          (case current_user_sid of
             Inl e \<Rightarrow> Inl e
           | Inr me \<Rightarrow> (case create_pipe_server create sids me of Inl e \<Rightarrow> Inl e | Inr _ \<Rightarrow> Inr (PipeBound p sids))))"

record windows_env =
  we_create :: "string \<Rightarrow> string option"
  we_user_sid :: "string + string"
  we_adapters :: "string + (string \<times> nat list option list) list"
  we_tcp :: "ip_addr \<Rightarrow> u16 \<Rightarrow> string option"

fun windows_bind_loop :: "windows_env \<Rightarrow> bool \<Rightarrow> ListenConfig list \<Rightarrow> string option \<times> windows_listening list" where
  "windows_bind_loop env has_pipe [] = (if has_pipe then None else Some ''a pipe listener is required on Windows'', [])"
| "windows_bind_loop env has_pipe (LcPipe name sids _ # ls) =
     (case pipe_bind (we_create env) (we_user_sid env) name sids of
        Inl e \<Rightarrow> (Some e, [])
      | Inr b \<Rightarrow> (case windows_bind_loop env True ls of (e, bs) \<Rightarrow> (e, b # bs)))"
| "windows_bind_loop env has_pipe (LcTcp bind prt # ls) =
     (case resolve_tcp_bind_windows (we_adapters env) bind prt of
        Inl e \<Rightarrow> (Some e, [])
      | Inr (a, p) \<Rightarrow>
          (case we_tcp env a p of
             Some e \<Rightarrow> (Some e, [])
           | None \<Rightarrow> (case windows_bind_loop env has_pipe ls of (e, bs) \<Rightarrow> (e, WinTcpBound a p # bs))))"
| "windows_bind_loop env has_pipe (LcUnix _ _ _ # ls) = (Some ''UNIX listeners are only supported on Unix'', [])"

definition windows_bind :: "windows_env \<Rightarrow> ListenConfig list \<Rightarrow> string option \<times> windows_listening list" where
  "windows_bind env ls = windows_bind_loop env False ls"

subsection \<open>Who gets through the pipe\<close>

definition unread :: "PrefixedStream \<Rightarrow> byte list" where
  "unread s = (case ps_prefix s of None \<Rightarrow> [] | Some b \<Rightarrow> [b]) @ ps_inner s"

fun poll_reads :: "(nat \<times> nat) list \<Rightarrow> PrefixedStream \<Rightarrow> byte list \<times> PrefixedStream" where
  "poll_reads [] s = ([], s)"
| "poll_reads ((n, k) # rs) s =
     (case poll_read n k s of (bs, s) \<Rightarrow> (case poll_reads rs s of (cs, s) \<Rightarrow> (bs @ cs, s)))"

lemma poll_read_unread: "poll_read n k s = (bs, s') \<Longrightarrow> bs @ unread s' = unread s"
  by (auto simp: poll_read_def unread_def split: option.splits if_splits)

lemma poll_reads_unread: "fst (poll_reads rs s) @ unread (snd (poll_reads rs s)) = unread s"
proof (induction rs s rule: poll_reads.induct)
  case (2 n k rs s)
  obtain bs s1 where r: "poll_read n k s = (bs, s1)" by fastforce
  then show ?case using 2 poll_read_unread[OF r] by (auto split: prod.splits)
qed simp

lemma set_created_pids: "pid ` set (set_created p t es) = pid ` set es"
  by (induction p t es rule: set_created.induct) auto

lemma fill_creation_times_pids: "pid ` set (fill_creation_times f p table) = pid ` set table"
proof -
  have "pid ` set (fold (\<lambda>p. set_created p (f p)) ps t) = pid ` set t" for ps t
    by (induction ps arbitrary: t) (simp_all add: set_created_pids)
  then show ?thesis by (simp add: fill_creation_times_def)
qed

lemma classify_native_iff:
  "classify_ancestry (trace_ancestry p table) = Native \<longleftrightarrow> p \<noteq> 0 \<and> p \<in> pid ` set table
     \<and> \<not> list_ex (\<lambda>e. is_wsl_interop_executable (exe e)) (chain (trace_ancestry p table))"
  using trace_ancestry_missing_iff[of p table] find_pid_None_iff[of p table] by (simp add: classify_ancestry_def)

lemma process_origin_native:
  assumes "client_pid = (case client_process_id a of None \<Rightarrow> 0 | Some p \<Rightarrow> p)"
  shows "fst (process_origin a client_pid) = Native \<longleftrightarrow>
    (\<exists>table. client_process_id a = Some client_pid \<and> ca_processes a = Some table \<and> client_pid \<in> pid ` set table
      \<and> \<not> list_ex (\<lambda>e. is_wsl_interop_executable (exe e))
            (chain (trace_ancestry client_pid (fill_creation_times (ca_created a) client_pid table))))"
proof (cases "client_process_id a")
  case None
  then show ?thesis using assms by (simp add: process_origin_def trace_ancestry_def classify_ancestry_def)
next
  case (Some p)
  then have "p \<noteq> 0" by (auto simp: client_process_id_def split: option.splits if_splits)
  then show ?thesis
    using assms Some classify_native_iff[of p "fill_creation_times (ca_created a) p (the (ca_processes a))"]
    by (cases "ca_processes a") (auto simp: process_origin_def Let_def fill_creation_times_pids)
qed

text \<open>
  C20: A client the named pipe lets through was impersonated, and the daemon is itself again. Its
  principal is the account of its token; it reaches the ordinary requests exactly when that account
  is in \<open>allowed_sids\<close>, and the administrative ones exactly when its token is elevated and in the
  administrators group, its process is known and in the process table, and no process of the
  verified chain of its parents belongs to the Windows Subsystem for Linux. A client with neither
  the account nor such a token is not let through. However its request is read afterwards, the bytes
  are those it sent, with the one that was read ahead in front.
\<close>

theorem pipe_callers_are_established:
  assumes "validate_client a sids = Some (peer, s)"
  shows "\<exists>t b. client_identity a = Some t \<and> ca_impersonated a \<and> ca_reverted a \<and> ca_first_byte a = Some b
    \<and> principal_of peer = ''sid:'' @ tk_sid t
    \<and> (allows_normal_rpc peer uids \<longleftrightarrow> tk_sid t \<in> set sids)
    \<and> (allows_admin_rpc peer ops \<longleftrightarrow> tk_elevated t \<and> tk_administrator t
         \<and> (\<exists>p table. client_process_id a = Some p \<and> ca_processes a = Some table \<and> p \<in> pid ` set table
              \<and> \<not> list_ex (\<lambda>e. is_wsl_interop_executable (exe e))
                    (chain (trace_ancestry p (fill_creation_times (ca_created a) p table)))))
    \<and> (tk_sid t \<in> set sids \<or> tk_administrator t \<and> tk_elevated t)
    \<and> fst (poll_reads rs s) @ unread (snd (poll_reads rs s)) = b # ca_rest a"
proof -
  let ?p = "case client_process_id a of None \<Rightarrow> 0 | Some p \<Rightarrow> p"
  obtain orig walk where o: "process_origin a ?p = (orig, walk)" by fastforce
  obtain t b where t: "client_identity a = Some t" "ca_first_byte a = Some b" "s = PrefixedStream_new b (ca_rest a)"
      "peer = Sid (tk_sid t) (tk_elevated t) (tk_administrator t) (list_ex (\<lambda>s. s = tk_sid t) sids) ?p orig walk"
      "list_ex (\<lambda>s. s = tk_sid t) sids \<or> (tk_administrator t \<and> tk_elevated t)"
    using assms o by (auto simp: validate_client_def Let_def split: option.splits if_splits)
  have i: "ca_impersonated a" "ca_reverted a" using t(1) by (auto simp: client_identity_def split: if_splits)
  have n: "orig = Native \<longleftrightarrow> (\<exists>p table. client_process_id a = Some p \<and> ca_processes a = Some table \<and> p \<in> pid ` set table
      \<and> \<not> list_ex (\<lambda>e. is_wsl_interop_executable (exe e)) (chain (trace_ancestry p (fill_creation_times (ca_created a) p table))))"
    using process_origin_native[OF refl, of a] o by (cases "client_process_id a") auto
  have "fst (poll_reads rs s) @ unread (snd (poll_reads rs s)) = b # ca_rest a"
    unfolding poll_reads_unread by (simp add: t(3) unread_def PrefixedStream_new_def)
  moreover have "list_ex (\<lambda>s. s = tk_sid t) sids \<longleftrightarrow> tk_sid t \<in> set sids" by (auto simp: list_ex_iff)
  moreover have "allows_admin_rpc peer ops \<longleftrightarrow> tk_elevated t \<and> tk_administrator t \<and> orig = Native"
    "allows_normal_rpc peer uids \<longleftrightarrow> list_ex (\<lambda>s. s = tk_sid t) sids" "principal_of peer = ''sid:'' @ tk_sid t"
    by (simp_all add: t(4) allows_admin_rpc_def allows_normal_rpc_def principal_of_def)
  ultimately show ?thesis using t(1,2,5) i n by blast
qed

definition demo_client :: client_answers where
  "demo_client = \<lparr>ca_first_byte = Some 123, ca_pid = Some 7,
     ca_processes = Some [\<lparr>pid = 7, ppid = 0, exe = ''cmd.exe'', created = None\<rparr>], ca_created = \<lambda>_. None, ca_impersonated = True,
     ca_token_opened = True, ca_reverted = True, ca_user_sid = Some ''S-1-5-21-1'', ca_elevation = Some True,
     ca_membership = Some True, ca_rest = [125]\<rparr>"

theorem pipe_callers_are_established_witness:
  "\<exists>peer s. validate_client demo_client [''S-1-5-21-1''] = Some (peer, s) \<and> allows_normal_rpc peer [] \<and> principal_of peer = ''sid:S-1-5-21-1''
     \<and> fst (poll_reads [(4096, 4096), (4096, 4096)] s) @ unread (snd (poll_reads [(4096, 4096), (4096, 4096)] s)) = [123, 125]"
proof -
  have c: "client_identity demo_client = Some \<lparr>tk_sid = ''S-1-5-21-1'', tk_elevated = True, tk_administrator = True\<rparr>"
    "ca_first_byte demo_client = Some 123" "ca_rest demo_client = [125]"
    by (simp_all add: demo_client_def client_identity_def query_token_identity_def)
  obtain orig walk where "process_origin demo_client (case client_process_id demo_client of None \<Rightarrow> 0 | Some p \<Rightarrow> p) = (orig, walk)"
    by fastforce
  then obtain peer s where v: "validate_client demo_client [''S-1-5-21-1''] = Some (peer, s)"
    using c by (auto simp: validate_client_def)
  from pipe_callers_are_established[OF v, of "[]" "[]" "[(4096, 4096), (4096, 4096)]"] v show ?thesis by (auto simp: c)
qed

subsection \<open>Access lists\<close>

text \<open>
  The access list of the pipe grants access to the daemon, the administrators, the system and the
  given accounts when these are written with a numeric authority. The check of an account does not
  look at its third component, so a text that ends the entry and begins another one passes it.
\<close>

lemma unchecked_authority_adds_an_entry:
  "valid_sid ''S-1-5)(A;;GA;;;WD''
   \<and> security_descriptor [''S-1-5)(A;;GA;;;WD''] ''S-1-5-18'' = Inr (''D:'' @ ace ''S-1-5-18'' @ ace ''BA'' @ ace ''SY'' @ ace ''S-1-5'' @ ace ''WD'')"
  by (simp add: valid_sid_def security_descriptor_def ace_def is_ascii_digit_def)

text \<open>A start on Windows has a pipe, no Unix listener and no TCP listener on every address.\<close>

lemma windows_bind_loop_ok:
  "windows_bind_loop env has_pipe ls = (None, bs) \<Longrightarrow>
     (has_pipe \<or> (\<exists>p sids. PipeBound p sids \<in> set bs)) \<and> (\<forall>p uids ops. LcUnix p uids ops \<notin> set ls)
     \<and> (\<forall>a p. WinTcpBound a p \<in> set bs \<longrightarrow> \<not> is_unspecified a)"
proof (induction env has_pipe ls arbitrary: bs rule: windows_bind_loop.induct)
  case (2 env has_pipe name sids op ls)
  then obtain b cs where r: "pipe_bind (we_create env) (we_user_sid env) name sids = Inr b"
      "windows_bind_loop env True ls = (None, cs)" "bs = b # cs"
    by (auto split: sum.splits prod.splits)
  then have "\<exists>p. b = PipeBound p sids" by (auto simp: pipe_bind_def split: sum.splits)
  then show ?case using 2(1)[OF r(1,2)] r(3) by auto
next
  case (3 env has_pipe bind prt ls)
  then obtain a p cs where r: "resolve_tcp_bind_windows (we_adapters env) bind prt = Inr (a, p)" "we_tcp env a p = None"
      "windows_bind_loop env has_pipe ls = (None, cs)" "bs = WinTcpBound a p # cs"
    by (auto split: sum.splits prod.splits option.splits)
  then have "\<not> is_unspecified a" by (auto simp: resolve_tcp_bind_windows_def split: sum.splits if_splits)
  then show ?case using 3(1)[OF r(1) refl r(2,3)] r(4) by auto
qed (auto split: if_splits)
end
