(* ===== verification/Spec2Isabelle.thy ===== *)
theory Spec2Isabelle
  imports Start_Control Grants Approvals Identity Peers Leakscan Totp Session_Runs Service_Config Stepwise_Runs Operator_Rpc Bridge Service_Events Windows_Transport
begin

text \<open>
  \<^bold>\<open>tegata, a credential broker for agents: what is modelled and what is shown\<close>

  \<^bold>\<open>The program.\<close> \<open>tegatad\<close> (\<open>src/crates/tegatad\<close>) is a daemon that keeps credentials away from the agents
  that use them. A caller over a Unix socket, a named pipe or TCP asks it with JSON-RPC lines to log
  into a site, to open a hosted service (an injection proxy or an MCP server), for a one-time code
  or to lock the vault. The daemon gets the credential from one of its providers, may have an
  operator or a hook approve, and hands it to an executor process that drives a browser; the caller
  gets a session and a port, never the secret. \<open>tegata-core\<close> has the wire types and the one-time code,
  \<open>leakscan\<close> the search for secrets in output, \<open>tegata-bridge\<close> the forwarder that brings a Unix socket of
  WSL to the daemon of the Windows side.

  \<^bold>\<open>How it is modelled.\<close> Every function is a definition over explicit state; a handler takes the record
  of the state it locks and returns it with its result. What is not code of the repository (the system
  calls, the executors, the clock, randomness, SHA-256, HMAC, base64, serde's decoders, the programs
  \<open>bw\<close> and \<open>pass\<close>) is an argument: a function, a record of the answers of one operation, or a record of
  the environment with a world that is passed along. Errors are values (\<open>ErrorCode\<close>, \<open>fs_error\<close>,
  \<open>io_error\<close>, texts), \<open>Inl\<close> of a sum; what the code decides with \<open>#[cfg(unix)]\<close> is the Unix branch, except in
  \<open>Operator_Rpc\<close> and \<open>Windows_Transport\<close>. Handlers that release the lock in between are split into their
  critical sections, and the theories whose names end in \<open>Runs\<close>, and \<open>Service_Events\<close>, have step relations
  with all interleavings of these sections. \<open>Tegata_Prelude\<close> says how texts, bytes, times and hash tables
  are represented, \<open>Std_Text\<close> and \<open>Json\<close> have the parts of the standard library and of \<open>serde_json\<close> that
  the code uses.

  \<^bold>\<open>The theories, and the code they model.\<close>

  \<^item> \<open>Start_Control\<close>: \<open>sessions.rs\<close>. Keys, leases, browsers, the launch control. At most three launches
    per key in ten minutes.
  \<^item> \<open>Grants\<close>: \<open>grants.rs\<close>. The table of approval grants and the code of the hook. A grant is reused only
    while an approval lives that no revocation has overtaken.
  \<^item> \<open>Approvals\<close>, \<open>Operator_Rpc\<close>: \<open>approvals.rs\<close> and its callers in \<open>main.rs\<close>. The queue of pending approvals
    with its waiters in all interleavings: a waiter gets the verdict given for its own request; an
    operator who lists and decides decides what the gate asked.
  \<^item> \<open>Identity\<close>: \<open>interop.rs\<close> and \<open>transport/mod.rs\<close>. The walk up the process tree, the identity of a caller,
    its principal and its rights.
  \<^item> \<open>Peers\<close>: \<open>peers.rs\<close>. The store of TCP peers with its digests, ids and tokens; a revoked peer stays out.
  \<^item> \<open>Leakscan\<close>: the crate \<open>leakscan\<close>. The search is exactly the search for the forms of a secret.
  \<^item> \<open>Totp\<close>: \<open>tegata-core/src/lib.rs\<close> and \<open>windows_instance.rs\<close>. The code is the one of RFC 6238.
  \<^item> \<open>Session_Table\<close>, \<open>Session_Runs\<close>: the critical sections of \<open>main.rs\<close> on browsers, leases and ports, and
    their interleavings: one shared browser per caller and credential, tunnels only to ports of
    one's own sessions, and exact statements of what the reaper, a disconnect and a revocation end.
  \<^item> \<open>Urls\<close>, \<open>Rpc_Wire\<close>, \<open>Executor_Wire\<close>: addresses, messages, error codes, audit lines and the replies
    and events of executors (\<open>main.rs\<close>, \<open>wire.rs\<close>).
  \<^item> \<open>Service_Config\<close>: the validation of proxies, servers and listeners, and the values of start requests;
    every secret given to a server is watched for in its output.
  \<^item> \<open>Stepwise\<close>, \<open>Stepwise_Runs\<close>: \<open>stepwise.rs\<close>. Logins that an agent drives step by step, with the ledger, the
    slots and all interleavings: no executor is lost, requests are bounded, with the abort as the last of
    them, and what a lock takes out of the ledger is never stepped again and gets stopped.
  \<^item> \<open>Providers\<close>, \<open>Bitwarden\<close>, \<open>Vault\<close>: \<open>provider/*.rs\<close> and their use in \<open>main.rs\<close>. The four backends implement
    one contract, the locale \<open>credential_provider\<close>; the daemon's use of it registers every secret it
    hands out and gives one code per interval; diagnostics hide the secrets that masking can hide.
  \<^item> \<open>Secure_Fs\<close>, \<open>Cookie_Store\<close>, \<open>Audit_Log\<close>: private directories and atomic writes, the stored cookies
    (which refine a map, the locale \<open>map_store\<close>), and the audit file with its one rotation.
  \<^item> \<open>Executor_Conn\<close>: requests on an executor connection; a reply is taken only for its own request.
  \<^item> \<open>Daemon\<close>, \<open>Handlers\<close>, \<open>Rpc_Server\<close>: \<open>DaemonState\<close>, how sessions end, \<open>lock_vault\<close>, the approval gate and
    the handlers behind it, the dispatch, the replies and the connections. Starts are approved and carry
    the approved credential, a lock ends and audits every session and stepwise login, replies
    carry no registered secret, only operators change the peers, a revocation cuts a peer off.
    \<open>daemon_invariant\<close> is the locale of what every request keeps.
  \<^item> \<open>Service_Events\<close>: the reader of an executor's output with the events of hosted services.
  \<^item> \<open>Transports\<close>: \<open>transport/tcp.rs\<close>, the accepting part of \<open>transport/unix.rs\<close>, the shutdown, which also
    catches the stepwise logins registered after it.
  \<^item> \<open>Startup\<close>: \<open>run_daemon\<close>, \<open>build_state\<close> and the listeners of a start on Unix; nothing listens before the
    configuration, the executor and the state directory have been checked, and the first state satisfies the invariants the other theorems assume.
  \<^item> \<open>Windows_Transport\<close>: \<open>transport/windows.rs\<close> and the access lists of \<open>secure_fs.rs\<close>.
  \<^item> \<open>Bridge\<close>: \<open>tegata-bridge\<close>. Its tunnels are what the daemon's listener decides on the preamble it sends.

  \<^bold>\<open>Bounds and fuel.\<close> Loops are structural or have a measure, with three kinds of exception. Loops that draw
  random values until one fits (\<open>fresh_id\<close>, \<open>approval_code\<close>) take the list of the draws, and \<open>None\<close> means
  that it ran dry; the theorems give the draws on which they return. The walk up the process tree runs
  \<open>MAX_ANCESTRY_DEPTH + 1\<close> rounds, as in the code. A list of lines, events or requests stands for what
  a connection or a run has received so far, so statements about every such list cover loops without
  end. Counters keep the width of the source where it can wrap (ids, ports, status codes, instants of the
  one-time code); times are unbounded.

  \<^bold>\<open>Assumptions.\<close> The laws about parameters are hypotheses of the theorems that need them, each shown
  satisfiable by a witness: the reader of a stored document reads what was written, HMAC returns 20
  bytes, a digest tells the tokens in question apart. Ids drawn as UUIDs are fresh where a step
  relation creates one. The record of the environment is arbitrary otherwise: every answer, error and
  timeout is covered.

  \<^bold>\<open>Not modelled.\<close> The command line and the decoding of the TOML file (input and output around libraries;
  \<open>StartConfig\<close> is what they yield); \<open>windows_service.rs\<close>, \<open>windows_cli.rs\<close> and \<open>dpapi.rs\<close> (sequences of Windows
  calls without state of the program); the bytes that are spliced through an open tunnel and those that
  are drained from a refused connection; zeroing of memory; the text that is logged to standard error,
  except the diagnostic lines of the Bitwarden provider and the notes of the cookie store.
\<close>

end
